(* ===== verification/Prelude.thy ===== *)
theory Prelude
  imports Main
begin

text \<open>
  Shared vocabulary of the development: the collections of facts that the component
  theories fill, the time units of \<^verbatim>\<open>std::chrono\<close>, the three-valued result of a call that
  may block, and the two generic safety arguments (for machines given by a step relation and
  for machines given by a step function), stated once as locales and interpreted by the
  components.
\<close>

named_theorems queue_simps "equations of the two queue classes"
named_theorems pin_simps "equations of the output pins, the alarm manager and the loggers"
named_theorems fsm_simps "equations of the door state machine"
named_theorems sys_simps "equations of the handlers of the orchestrator"
named_theorems api_simps "equations of the REST handlers"
named_theorems text_simps "equations of the string operations"

section \<open>Time\<close>

text \<open>
  Points in time and durations are counted in nanoseconds, the tick of both clocks of
  libstdc++. A duration cast to a coarser unit truncates towards zero.
\<close>

type_synonym time_point = int
type_synonym duration = int

definition milliseconds :: "int \<Rightarrow> duration" where
  "milliseconds n = n * 1000000"

definition seconds :: "int \<Rightarrow> duration" where
  "seconds n = n * 1000000000"

definition trunc_div :: "int \<Rightarrow> int \<Rightarrow> int" where
  "trunc_div a b = sgn a * sgn b * (\<bar>a\<bar> div \<bar>b\<bar>)"

definition count_milliseconds :: "duration \<Rightarrow> int" where
  "count_milliseconds d = trunc_div d 1000000"

definition count_seconds :: "duration \<Rightarrow> int" where
  "count_seconds d = trunc_div d 1000000000"

lemma count_milliseconds_nonneg:
  "0 \<le> d \<Longrightarrow> count_milliseconds d = d div 1000000"
  by (auto simp: count_milliseconds_def trunc_div_def sgn_if)

lemma count_milliseconds_less_iff:
  assumes "0 < n"
  shows "count_milliseconds d < n \<longleftrightarrow> d < milliseconds n"
proof (cases "0 \<le> d")
  case True
  then show ?thesis
    using count_milliseconds_nonneg [OF True] by (auto simp: milliseconds_def)
next
  case False
  then have "count_milliseconds d \<le> 0"
    by (simp add: count_milliseconds_def trunc_div_def pos_imp_zdiv_nonneg_iff)
  with False assms show ?thesis by (simp add: milliseconds_def)
qed

section \<open>One turn of a thread's loop\<close>

text \<open>
  A turn of a worker loop blocks, leaves the loop, or goes round again, the last two with the
  state it leaves behind.
\<close>

datatype 's turn = Waits | Exits 's | Goes 's

section \<open>Invariants of step relations and of step functions\<close>

text \<open>
  A machine with interleaving is a step relation; what its steps keep holds in every state
  reachable from a state in which it holds.
\<close>

locale safe_relation =
  fixes step :: "'s \<Rightarrow> 's \<Rightarrow> bool"
    and inv :: "'s \<Rightarrow> bool"
  assumes step_inv: "step s t \<Longrightarrow> inv s \<Longrightarrow> inv t"
begin

lemma star_inv:
  assumes "step\<^sup>*\<^sup>* s t" and "inv s"
  shows "inv t"
  using assms by (induction rule: rtranclp_induct) (auto intro: step_inv)

end

text \<open>A sequential component is a step function, run over the list of its inputs.\<close>

locale safe_machine =
  fixes act :: "'e \<Rightarrow> 's \<Rightarrow> 's"
    and inv :: "'s \<Rightarrow> bool"
  assumes act_inv: "inv s \<Longrightarrow> inv (act e s)"
begin

lemma run_inv: "inv s \<Longrightarrow> inv (fold act es s)"
  by (induction es arbitrary: s) (auto intro: act_inv)

lemma prefix_inv: "inv s \<Longrightarrow> inv (fold act (take n es) s)"
  by (rule run_inv)

end

section \<open>Lists\<close>

lemma drop_newest:
  "k \<le> length xs - m \<Longrightarrow> drop (length (drop k xs) - m) (drop k xs) = drop (length xs - m) xs"
  by (cases "length xs \<le> m") (simp_all add: ac_simps)

lemma set_take_out:
  assumes "k < length xs"
  shows "set xs = insert (xs ! k) (set (take k xs @ drop (k + 1) xs))"
proof -
  have "set xs = set (take k xs @ xs ! k # drop (Suc k) xs)"
    using id_take_nth_drop [OF assms] by (rule arg_cong)
  then show ?thesis by simp
qed

end
