(* ===== verification/Queues.thy ===== *)
theory Queues
  imports Prelude
begin

text \<open>
  The two monitor-protected queues: \<^verbatim>\<open>EventQueue\<close> (\<^verbatim>\<open>include/EventQueue.h\<close>), through which
  sensors and timers reach the control thread, and \<^verbatim>\<open>ThreadSafeQueue<T>\<close>
  (\<^verbatim>\<open>include/ThreadSafeQueue.h\<close>), which carries camera frames and log entries. Every method
  body runs under the queue's mutex, so each is one atomic function on the queue's state; a
  call that would wait is \<^term>\<open>None\<close>. The locale \<^verbatim>\<open>fifo\<close> is the contract both classes
  give their clients.
\<close>

section \<open>Events\<close>

datatype event_type =
    ArmSystem
  | DisarmSystem
  | DoorOpened
  | DoorClosed
  | AuthorizedByNfc
  | AuthorizedByApp
  | VerificationTimeout
  | PrintStatus
  | Shutdown

record event =
  ev_type :: event_type
  ev_source :: string
  ev_timestamp :: time_point

definition Event :: "time_point \<Rightarrow> event_type \<Rightarrow> string \<Rightarrow> event" where
  "Event now t s = \<lparr>ev_type = t, ev_source = s, ev_timestamp = now\<rparr>"

lemma Event_sel [simp]:
  "ev_type (Event now t s) = t" "ev_source (Event now t s) = s"
  "ev_timestamp (Event now t s) = now"
  by (simp_all add: Event_def)

section \<open>EventQueue\<close>

record event_queue =
  eq_queue :: "event list"
  eq_shutdown :: bool

definition EventQueue :: event_queue where
  "EventQueue = \<lparr>eq_queue = [], eq_shutdown = False\<rparr>"

definition push :: "event \<Rightarrow> event_queue \<Rightarrow> event_queue" where
  "push e q = (if eq_shutdown q then q else q\<lparr>eq_queue := eq_queue q @ [e]\<rparr>)"

text \<open>
  The pops take the old value of the output parameter and return (result, output parameter,
  queue).
\<close>

definition pop_front :: "event \<Rightarrow> event_queue \<Rightarrow> bool \<times> event \<times> event_queue" where
  "pop_front out q =
     (case eq_queue q of [] \<Rightarrow> (False, out, q)
      | e # es \<Rightarrow> (True, e, q\<lparr>eq_queue := es\<rparr>))"

definition waitAndPop :: "event \<Rightarrow> event_queue \<Rightarrow> (bool \<times> event \<times> event_queue) option" where
  "waitAndPop out q =
     (if \<not> (eq_shutdown q \<or> eq_queue q \<noteq> []) then None else Some (pop_front out q))"

definition tryPop :: "event \<Rightarrow> event_queue \<Rightarrow> bool \<times> event \<times> event_queue" where
  "tryPop out q = pop_front out q"

text \<open>
  \<open>timed_out\<close> says whether the timeout of \<^verbatim>\<open>wait_for\<close> has passed: before it has, a call
  on an open empty queue waits; afterwards it returns the value of the predicate.
\<close>

definition waitForAndPop ::
  "bool \<Rightarrow> event \<Rightarrow> event_queue \<Rightarrow> (bool \<times> event \<times> event_queue) option" where
  "waitForAndPop timed_out out q =
     (let ready = (eq_shutdown q \<or> eq_queue q \<noteq> []) in
      if \<not> ready \<and> \<not> timed_out then None
      else if \<not> ready \<or> eq_queue q = [] then Some (False, out, q)
      else Some (pop_front out q))"

definition shutdown :: "event_queue \<Rightarrow> event_queue" where
  "shutdown q = q\<lparr>eq_shutdown := True\<rparr>"

definition isShutdown :: "event_queue \<Rightarrow> bool" where
  "isShutdown q = eq_shutdown q"

definition empty :: "event_queue \<Rightarrow> bool" where
  "empty q \<longleftrightarrow> eq_queue q = []"

definition queue_size :: "event_queue \<Rightarrow> nat" where
  "queue_size q = length (eq_queue q)"

lemmas event_queue_defs =
  EventQueue_def push_def pop_front_def waitAndPop_def tryPop_def waitForAndPop_def
  shutdown_def isShutdown_def empty_def queue_size_def

section \<open>ThreadSafeQueue\<close>

record 'a ts_queue =
  ts_queue :: "'a list"
  ts_shutdown :: bool

definition ThreadSafeQueue :: "'a ts_queue" where
  "ThreadSafeQueue = \<lparr>ts_queue = [], ts_shutdown = False\<rparr>"

definition ts_push :: "'a \<Rightarrow> 'a ts_queue \<Rightarrow> 'a ts_queue" where
  "ts_push x q = (if ts_shutdown q then q else q\<lparr>ts_queue := ts_queue q @ [x]\<rparr>)"

definition ts_pop :: "'a ts_queue \<Rightarrow> ('a option \<times> 'a ts_queue) option" where
  "ts_pop q =
     (if \<not> (ts_queue q \<noteq> [] \<or> ts_shutdown q) then None
      else (case ts_queue q of [] \<Rightarrow> Some (None, q)
            | x # xs \<Rightarrow> Some (Some x, q\<lparr>ts_queue := xs\<rparr>)))"

definition ts_tryPop :: "'a ts_queue \<Rightarrow> 'a option \<times> 'a ts_queue" where
  "ts_tryPop q =
     (case ts_queue q of [] \<Rightarrow> (None, q) | x # xs \<Rightarrow> (Some x, q\<lparr>ts_queue := xs\<rparr>))"

text \<open>
  The loop of \<^verbatim>\<open>pushBounded\<close> pops while \<^verbatim>\<open>size() >= maxSize\<close>. On a bound of 0 the code's
  loop would go on to pop an empty queue, which C++ leaves undefined: the model stops there,
  and the properties of \<open>pushBounded\<close> assume a positive bound.
\<close>

fun drop_oldest :: "nat \<Rightarrow> 'a list \<Rightarrow> 'a list" where
  "drop_oldest maxSize [] = []"
| "drop_oldest maxSize (x # xs) =
     (if maxSize \<le> length (x # xs) then drop_oldest maxSize xs else x # xs)"

definition pushBounded :: "nat \<Rightarrow> 'a \<Rightarrow> 'a ts_queue \<Rightarrow> 'a ts_queue" where
  "pushBounded maxSize x q =
     (if ts_shutdown q then q
      else q\<lparr>ts_queue := drop_oldest maxSize (ts_queue q) @ [x]\<rparr>)"

definition ts_close :: "'a ts_queue \<Rightarrow> 'a ts_queue" where
  "ts_close q = q\<lparr>ts_shutdown := True\<rparr>"

definition ts_isShutdown :: "'a ts_queue \<Rightarrow> bool" where
  "ts_isShutdown q = ts_shutdown q"

definition ts_size :: "'a ts_queue \<Rightarrow> nat" where
  "ts_size q = length (ts_queue q)"

lemmas ts_queue_defs =
  ThreadSafeQueue_def ts_push_def ts_pop_def ts_tryPop_def pushBounded_def ts_close_def
  ts_isShutdown_def ts_size_def

lemma drop_oldest_suffix: "\<exists>n. drop_oldest m xs = drop n xs"
proof (induction m xs rule: drop_oldest.induct)
  case (2 m x xs)
  then obtain n where n: "drop_oldest m xs = drop n xs" if "m \<le> length (x # xs)" by auto
  show ?case
  proof (cases "m \<le> length (x # xs)")
    case True
    with n show ?thesis by (intro exI [of _ "Suc n"]) simp
  next
    case False
    then show ?thesis by (intro exI [of _ 0]) simp
  qed
qed simp

lemma drop_oldest_length: "0 < m \<Longrightarrow> length (drop_oldest m xs) < m"
  by (induction m xs rule: drop_oldest.induct) auto

lemma drop_oldest_eq_drop:
  "0 < m \<Longrightarrow> drop_oldest m xs = drop (length xs - (m - 1)) xs"
proof (induction m xs rule: drop_oldest.induct)
  case (2 m x xs)
  show ?case
  proof (cases "m \<le> length (x # xs)")
    case True
    with 2 have "drop_oldest m (x # xs) = drop (length xs - (m - 1)) xs" by simp
    also from True 2 have "\<dots> = drop (length (x # xs) - (m - 1)) (x # xs)"
      by (simp add: Suc_diff_le)
    finally show ?thesis .
  next
    case False
    then show ?thesis by simp
  qed
qed simp

section \<open>The contract of a closable FIFO channel\<close>

text \<open>
  The operations a producer and a consumer perform on a channel, each atomic because the
  queue's mutex is held. A \<open>Take\<close> that would wait leaves the channel as it is (the thread
  stays asleep); the elements handed out are collected in order.
\<close>

datatype 'a channel_op = Put 'a | Take | Close

fun run_channel ::
  "('a \<Rightarrow> 'q \<Rightarrow> 'q) \<Rightarrow> ('q \<Rightarrow> ('a option \<times> 'q) option) \<Rightarrow> ('q \<Rightarrow> 'q) \<Rightarrow>
   'a channel_op list \<Rightarrow> 'q \<Rightarrow> 'a list \<times> 'q" where
  "run_channel put get close [] q = ([], q)"
| "run_channel put get close (Put x # ops) q = run_channel put get close ops (put x q)"
| "run_channel put get close (Close # ops) q = run_channel put get close ops (close q)"
| "run_channel put get close (Take # ops) q =
     (case get q of
        Some (Some x, q') \<Rightarrow>
          (let (got, q'') = run_channel put get close ops q' in (x # got, q''))
      | _ \<Rightarrow> run_channel put get close ops q)"

text \<open>What a channel accepts: the elements put before the first close.\<close>

fun accepted :: "'a channel_op list \<Rightarrow> 'a list" where
  "accepted [] = []"
| "accepted (Put x # ops) = x # accepted ops"
| "accepted (Take # ops) = accepted ops"
| "accepted (Close # ops) = []"

locale fifo =
  fixes items :: "'q \<Rightarrow> 'a list"
    and closed :: "'q \<Rightarrow> bool"
    and put :: "'a \<Rightarrow> 'q \<Rightarrow> 'q"
    and get :: "'q \<Rightarrow> ('a option \<times> 'q) option"
    and close :: "'q \<Rightarrow> 'q"
  assumes items_put: "items (put x q) = (if closed q then items q else items q @ [x])"
    and closed_put: "closed (put x q) = closed q"
    and items_close: "items (close q) = items q"
    and closed_close: "closed (close q)"
    and get_waits: "get q = None \<longleftrightarrow> items q = [] \<and> \<not> closed q"
    and get_some: "get q = Some (Some x, q') \<Longrightarrow> items q = x # items q' \<and> closed q' = closed q"
    and get_none: "get q = Some (None, q') \<Longrightarrow> items q = [] \<and> closed q \<and> q' = q"
begin

lemma get_cases:
  obtains (waits) "get q = None" "items q = []" "\<not> closed q"
  | (ended) "get q = Some (None, q)" "items q = []" "closed q"
  | (got) x q' where "get q = Some (Some x, q')" "items q = x # items q'" "closed q' = closed q"
proof (cases "get q")
  case None
  then show ?thesis using get_waits waits by blast
next
  case (Some r)
  obtain y q' where r: "r = (y, q')" by fastforce
  show ?thesis
  proof (cases y)
    case None
    then show ?thesis using Some r get_none ended by blast
  next
    case (Some x)
    then show ?thesis using \<open>get q = Some r\<close> r get_some got by blast
  qed
qed

text \<open>
  Whatever the interleaving, the elements taken followed by the elements still queued are
  the elements accepted, in the order they were put: nothing is lost, invented, duplicated
  or reordered.
\<close>

lemma run_fifo:
  "run_channel put get close ops q = (got, q') \<Longrightarrow>
   got @ items q' = items q @ (if closed q then [] else accepted ops)"
proof (induction ops arbitrary: q got)
  case Nil
  then show ?case by simp
next
  case (Cons op ops)
  show ?case
  proof (cases op)
    case (Put x)
    with Cons.prems Cons.IH [of "put x q" got] show ?thesis
      by (simp add: items_put closed_put)
  next
    case Close
    with Cons.prems Cons.IH [of "close q" got] show ?thesis
      by (simp add: items_close closed_close)
  next
    case Take
    show ?thesis
    proof (cases q rule: get_cases)
      case (got x q1)
      with Take Cons.prems obtain rest where
        "run_channel put get close ops q1 = (rest, q')" and "got = x # rest"
        by (auto split: prod.splits)
      with Cons.IH [of q1 rest] got Take show ?thesis by simp
    qed (use Take Cons.prems Cons.IH [of q got] in simp_all)
  qed
qed

text \<open>Once closed, a channel hands out what it holds, and then the end of the stream.\<close>

lemma drain:
  assumes "closed q"
  shows "\<exists>q'. run_channel put get close (replicate (length (items q)) Take) q = (items q, q')
           \<and> items q' = [] \<and> closed q' \<and> get q' = Some (None, q')"
  using assms
proof (induction "length (items q)" arbitrary: q)
  case 0
  then show ?case by (cases q rule: get_cases) auto
next
  case (Suc n)
  show ?case
  proof (cases q rule: get_cases)
    case (got x q1)
    with Suc obtain q' where
      "run_channel put get close (replicate (length (items q1)) Take) q1 = (items q1, q')"
      "items q' = []" "closed q'" "get q' = Some (None, q')"
      by (metis length_Cons nat.inject)
    with got show ?thesis by auto
  qed (use Suc in auto)
qed

end

text \<open>A channel with a bounded put, which evicts the oldest elements to make room.\<close>

locale bounded_fifo = fifo items closed put get close
  for items :: "'q \<Rightarrow> 'a list" and closed :: "'q \<Rightarrow> bool" and put :: "'a \<Rightarrow> 'q \<Rightarrow> 'q"
    and get :: "'q \<Rightarrow> ('a option \<times> 'q) option" and close :: "'q \<Rightarrow> 'q" +
  fixes put_bounded :: "nat \<Rightarrow> 'a \<Rightarrow> 'q \<Rightarrow> 'q"
  assumes items_put_bounded:
      "0 < m \<Longrightarrow> \<not> closed q \<Longrightarrow>
       items (put_bounded m x q) = drop (length (items q) - (m - 1)) (items q) @ [x]"
    and put_bounded_closed: "closed q \<Longrightarrow> put_bounded m x q = q"
    and closed_put_bounded: "closed (put_bounded m x q) = closed q"
begin

lemma put_bounded_length:
  assumes "0 < m" and "\<not> closed q"
  shows "length (items (put_bounded m x q)) \<le> m" and "last (items (put_bounded m x q)) = x"
  using assms by (auto simp: items_put_bounded)

lemma bounded_producer_step:
  "0 < m \<Longrightarrow> length (items q) \<le> m \<Longrightarrow> length (items (put_bounded m x q)) \<le> m"
  by (cases "closed q") (simp_all add: put_bounded_closed put_bounded_length)

lemma bounded_producer:
  "0 < m \<Longrightarrow> length (items q) \<le> m \<Longrightarrow> length (items (fold (put_bounded m) xs q)) \<le> m"
  by (induction xs arbitrary: q) (simp_all add: bounded_producer_step)

text \<open>A producer running ahead of its consumer leaves exactly the newest elements.\<close>

lemma bounded_producer_newest:
  "0 < m \<Longrightarrow> \<not> closed q \<Longrightarrow> length (items q) \<le> m \<Longrightarrow>
   items (fold (put_bounded m) xs q) =
     drop (length (items q @ xs) - m) (items q @ xs)"
proof (induction xs arbitrary: q)
  case Nil
  then show ?case by simp
next
  case (Cons x xs)
  let ?q = "put_bounded m x q"
  let ?k = "length (items q) - (m - 1)"
  have it: "items ?q = drop ?k (items q) @ [x]"
    using Cons.prems by (simp add: items_put_bounded)
  have "items (fold (put_bounded m) xs ?q) = drop (length (items ?q @ xs) - m) (items ?q @ xs)"
    using Cons.prems by (intro Cons.IH) (simp_all add: closed_put_bounded bounded_producer_step)
  also have "items ?q @ xs = drop ?k (items q @ x # xs)"
    using it by simp
  also have "drop (length (drop ?k (items q @ x # xs)) - m) (drop ?k (items q @ x # xs))
      = drop (length (items q @ x # xs) - m) (items q @ x # xs)"
    using Cons.prems by (intro drop_newest) auto
  finally show ?case by simp
qed

end

section \<open>Both queue classes keep the contract\<close>

text \<open>
  The control loop's way of taking an event: a default-constructed event as output parameter,
  the boolean result deciding whether it was overwritten.
\<close>

definition get_event :: "event_queue \<Rightarrow> (event option \<times> event_queue) option" where
  "get_event q =
     map_option (\<lambda>(popped, e, q'). (if popped then Some e else None, q'))
       (waitAndPop (Event 0 PrintStatus ''system'') q)"

lemma get_event_simps [queue_simps]:
  "eq_queue q = [] \<Longrightarrow> eq_shutdown q \<Longrightarrow> get_event q = Some (None, q)"
  "eq_queue q = [] \<Longrightarrow> \<not> eq_shutdown q \<Longrightarrow> get_event q = None"
  "eq_queue q = e # es \<Longrightarrow> get_event q = Some (Some e, q\<lparr>eq_queue := es\<rparr>)"
  by (simp_all add: get_event_def waitAndPop_def pop_front_def)

lemma ts_pop_simps [queue_simps]:
  "ts_queue q = [] \<Longrightarrow> ts_shutdown q \<Longrightarrow> ts_pop q = Some (None, q)"
  "ts_queue q = [] \<Longrightarrow> \<not> ts_shutdown q \<Longrightarrow> ts_pop q = None"
  "ts_queue q = x # xs \<Longrightarrow> ts_pop q = Some (Some x, q\<lparr>ts_queue := xs\<rparr>)"
  by (simp_all add: ts_pop_def)

interpretation eventq: fifo eq_queue eq_shutdown push get_event shutdown
proof unfold_locales
  fix q q' and x
  show "get_event q = None \<longleftrightarrow> eq_queue q = [] \<and> \<not> eq_shutdown q"
    by (cases "eq_queue q"; cases "eq_shutdown q") (simp_all add: queue_simps)
  show "get_event q = Some (Some x, q') \<Longrightarrow>
      eq_queue q = x # eq_queue q' \<and> eq_shutdown q' = eq_shutdown q"
    by (cases "eq_queue q"; cases "eq_shutdown q") (auto simp: queue_simps)
  show "get_event q = Some (None, q') \<Longrightarrow> eq_queue q = [] \<and> eq_shutdown q \<and> q' = q"
    by (cases "eq_queue q"; cases "eq_shutdown q") (auto simp: queue_simps)
qed (simp_all add: push_def shutdown_def)

interpretation tsq: bounded_fifo ts_queue ts_shutdown ts_push ts_pop ts_close pushBounded
proof unfold_locales
  fix q q' :: "'b ts_queue" and x
  show "ts_pop q = None \<longleftrightarrow> ts_queue q = [] \<and> \<not> ts_shutdown q"
    by (cases "ts_queue q"; cases "ts_shutdown q") (simp_all add: queue_simps)
  show "ts_pop q = Some (Some x, q') \<Longrightarrow>
      ts_queue q = x # ts_queue q' \<and> ts_shutdown q' = ts_shutdown q"
    by (cases "ts_queue q"; cases "ts_shutdown q") (auto simp: queue_simps)
  show "ts_pop q = Some (None, q') \<Longrightarrow> ts_queue q = [] \<and> ts_shutdown q \<and> q' = q"
    by (cases "ts_queue q"; cases "ts_shutdown q") (auto simp: queue_simps)
qed (simp_all add: ts_push_def ts_close_def pushBounded_def drop_oldest_eq_drop)

text \<open>
  Events leave the event queue in the order in which they were posted, for every
  interleaving of producers, the consumer and the shutdown: what has been popped followed by
  what is still queued is exactly the sequence of events posted before the first shutdown.
\<close>

theorem event_queue_fifo:
  "fst (run_channel push get_event shutdown ops EventQueue)
     @ eq_queue (snd (run_channel push get_event shutdown ops EventQueue)) = accepted ops"
proof -
  have "eq_queue EventQueue = []" "\<not> eq_shutdown EventQueue"
    by (simp_all add: EventQueue_def)
  with eventq.run_fifo [OF surjective_pairing, of ops EventQueue] show ?thesis by simp
qed

text \<open>
  A shut-down event queue still delivers everything it holds, in order, and then reports
  the end of the stream instead of blocking the consumer.
\<close>

theorem event_queue_drains_after_shutdown:
  "\<exists>q'. run_channel push get_event shutdown (replicate (length (eq_queue q)) Take) (shutdown q)
           = (eq_queue q, q')
       \<and> waitAndPop out q' = Some (False, out, q')"
proof -
  have "eq_shutdown (shutdown q)" "eq_queue (shutdown q) = eq_queue q"
    by (simp_all add: shutdown_def)
  with eventq.drain [of "shutdown q"] obtain q' where
    "run_channel push get_event shutdown (replicate (length (eq_queue q)) Take) (shutdown q)
       = (eq_queue q, q')" and "eq_queue q' = []" "eq_shutdown q'"
    by auto
  then show ?thesis
    by (auto simp: waitAndPop_def pop_front_def)
qed

text \<open>
  The three ways of popping an event agree wherever they return: \<^verbatim>\<open>waitAndPop\<close> and
  \<^verbatim>\<open>waitForAndPop\<close> give what \<^verbatim>\<open>tryPop\<close> gives, and they wait exactly on an open empty
  queue (the second only until its timeout).
\<close>

theorem pops_agree:
  "waitAndPop out q = (if eq_queue q = [] \<and> \<not> eq_shutdown q then None else Some (tryPop out q))
   \<and> waitForAndPop timed_out out q =
     (if eq_queue q = [] \<and> \<not> eq_shutdown q \<and> \<not> timed_out then None else Some (tryPop out q))"
  by (auto simp: event_queue_defs split: list.splits)

text \<open>
  The frame queue never holds more than its bound, and a camera that runs ahead of the
  recogniser leaves in it exactly the newest frames, in capture order; a stale frame is
  dropped in favour of a fresh one.
\<close>

theorem pushBounded_keeps_newest:
  assumes "0 < maxSize"
  shows "ts_queue (fold (pushBounded maxSize) frames ThreadSafeQueue)
           = drop (length frames - maxSize) frames
         \<and> length (ts_queue (fold (pushBounded maxSize) frames ThreadSafeQueue)) \<le> maxSize"
  using assms tsq.bounded_producer_newest [of maxSize ThreadSafeQueue frames]
  by (simp_all add: ThreadSafeQueue_def)

theorem pushBounded_keeps_newest_witness:
  "ts_queue (fold (pushBounded 4) [1, 2, 3, 4, 5, 6 :: nat] ThreadSafeQueue) = [3, 4, 5, 6]
   \<and> length (ts_queue (fold (pushBounded 4) [1, 2, 3, 4, 5, 6 :: nat] ThreadSafeQueue)) \<le> 4"
  using pushBounded_keeps_newest [of 4 "[1, 2, 3, 4, 5, 6 :: nat]"] by simp

end
