(* ===== verification/Door_FSM.thy ===== *)
theory Door_FSM
  imports Queues
begin

text \<open>
  The door state machine, \<^verbatim>\<open>DoorAlarmFSM\<close> (\<^verbatim>\<open>include/DoorAlarmFSM.h\<close>,
  \<^verbatim>\<open>src/DoorAlarmFSM.cpp\<close>): its state, one definition per handler, the dispatch in
  \<^verbatim>\<open>handleEvent\<close>, and the getters. The machine holds references to an alarm manager and to a
  logger; what it calls on them is the record \<open>ports\<close>, and what it relies on is the locale
  \<^verbatim>\<open>alarm_port\<close>, interpreted by the real alarm manager in the theory Alarm.
\<close>

section \<open>State\<close>

datatype fsm_state =
    Disarmed
  | ArmedIdle
  | PendingVerification
  | AuthorizedEntry
  | AlarmActive
  | Fault

text \<open>
  The enumeration is finite, which makes statements over all states executable.
\<close>

instantiation fsm_state :: enum
begin

definition enum_fsm_state :: "fsm_state list" where
  "enum_fsm_state =
     [Disarmed, ArmedIdle, PendingVerification, AuthorizedEntry, AlarmActive, Fault]"

definition enum_all_fsm_state :: "(fsm_state \<Rightarrow> bool) \<Rightarrow> bool" where
  "enum_all_fsm_state P \<longleftrightarrow> list_all P enum_class.enum"

definition enum_ex_fsm_state :: "(fsm_state \<Rightarrow> bool) \<Rightarrow> bool" where
  "enum_ex_fsm_state P \<longleftrightarrow> list_ex P enum_class.enum"

instance
proof
  show univ: "UNIV = set (enum_class.enum :: fsm_state list)"
    by (auto simp: enum_fsm_state_def intro: fsm_state.exhaust)
  show "distinct (enum_class.enum :: fsm_state list)"
    by (simp add: enum_fsm_state_def)
  fix P :: "fsm_state \<Rightarrow> bool"
  show "enum_class.enum_all P \<longleftrightarrow> Ball UNIV P"
    by (simp add: univ enum_all_fsm_state_def list_all_iff)
  show "enum_class.enum_ex P \<longleftrightarrow> Bex UNIV P"
    by (simp add: univ enum_ex_fsm_state_def list_ex_iff)
qed

end

text \<open>The operations the machine calls on its alarm manager and its logger.\<close>

record 'p ports =
  p_trigger :: "string \<Rightarrow> 'p \<Rightarrow> 'p"
  p_clear :: "'p \<Rightarrow> 'p"
  p_log :: "string \<Rightarrow> 'p \<Rightarrow> 'p"

text \<open>
  \<open>fs_ports\<close> is the state behind the two references, which other components share.
\<close>

record 'p fsm =
  fs_state :: fsm_state
  fs_doorOpen :: bool
  fs_window :: duration
  fs_deadline :: "time_point option"
  fs_ports :: 'p

definition DoorAlarmFSM :: "'p \<Rightarrow> 'p fsm" where
  "DoorAlarmFSM p =
     \<lparr>fs_state = ArmedIdle, fs_doorOpen = False, fs_window = milliseconds 5000,
      fs_deadline = None, fs_ports = p\<rparr>"

abbreviation on_ports :: "('p \<Rightarrow> 'p) \<Rightarrow> 'p fsm \<Rightarrow> 'p fsm" where
  "on_ports f s \<equiv> s\<lparr>fs_ports := f (fs_ports s)\<rparr>"

abbreviation say :: "'p ports \<Rightarrow> string \<Rightarrow> 'p fsm \<Rightarrow> 'p fsm" where
  "say P m s \<equiv> on_ports (p_log P m) s"

section \<open>Names of the states\<close>

fun toString :: "fsm_state \<Rightarrow> string" where
  "toString Disarmed = ''Disarmed''"
| "toString ArmedIdle = ''ArmedIdle''"
| "toString PendingVerification = ''PendingVerification''"
| "toString AuthorizedEntry = ''AuthorizedEntry''"
| "toString AlarmActive = ''AlarmActive''"
| "toString Fault = ''Fault''"

section \<open>Handlers\<close>

definition clearAuthorizationWindow :: "'p fsm \<Rightarrow> 'p fsm" where
  "clearAuthorizationWindow s = s\<lparr>fs_deadline := None\<rparr>"

definition handleDoorOpened :: "'p ports \<Rightarrow> time_point \<Rightarrow> string \<Rightarrow> 'p fsm \<Rightarrow> 'p fsm" where
  "handleDoorOpened P now source s =
     (let s = s\<lparr>fs_doorOpen := True\<rparr>;
          s = say P (''FSM: Door OPENED (Source: '' @ source @ '')'') s
      in if fs_state s = ArmedIdle
         then let s = s\<lparr>fs_state := PendingVerification\<rparr>;
                  s = s\<lparr>fs_deadline := Some (now + fs_window s)\<rparr>
              in say P ''FSM: [AUDIT] Unauthorized Open. 5s grace period started.'' s
         else s)"

definition handleDoorClosed :: "'p ports \<Rightarrow> string \<Rightarrow> 'p fsm \<Rightarrow> 'p fsm" where
  "handleDoorClosed P source s =
     (let s = s\<lparr>fs_doorOpen := False\<rparr>;
          s = say P (''FSM: Door CLOSED (Source: '' @ source @ '')'') s
      in if fs_state s = AuthorizedEntry \<or> fs_state s = PendingVerification
            \<or> fs_state s = AlarmActive
         then let s = s\<lparr>fs_state := ArmedIdle\<rparr>;
                  s = clearAuthorizationWindow s;
                  s = on_ports (p_clear P) s
              in say P ''FSM: System re-secured. State -> ArmedIdle.'' s
         else s)"

definition handleAuthorization :: "'p ports \<Rightarrow> event \<Rightarrow> 'p fsm \<Rightarrow> 'p fsm" where
  "handleAuthorization P e s =
     (let meth = (if ev_type e = AuthorizedByNfc then ''NFC'' else ''APP'')
      in if fs_doorOpen s
         then say P (''FSM: [SECURITY REJECTION] Auth via '' @ meth
                @ '' ignored. Door must be CLOSED to authorize via NFC/APP.'') s
         else if fs_state s = ArmedIdle \<or> fs_state s = PendingVerification
                 \<or> fs_state s = AlarmActive
         then let s = s\<lparr>fs_state := AuthorizedEntry\<rparr>;
                  s = clearAuthorizationWindow s;
                  s = on_ports (p_clear P) s
              in say P (''FSM: [ACCESS GRANTED] via '' @ meth @ '' (ID: '' @ ev_source e @ '').'') s
         else s)"

definition handleVerificationTimeout :: "'p ports \<Rightarrow> string \<Rightarrow> 'p fsm \<Rightarrow> 'p fsm" where
  "handleVerificationTimeout P source s =
     (if fs_state s = PendingVerification
      then let s = s\<lparr>fs_state := AlarmActive\<rparr>;
               s = clearAuthorizationWindow s;
               s = on_ports (p_trigger P (''Timeout triggered by: '' @ source)) s
           in say P (''FSM: [ALARM] Grace period expired! Source: '' @ source) s
      else s)"

definition handleArm :: "'p ports \<Rightarrow> string \<Rightarrow> 'p fsm \<Rightarrow> 'p fsm" where
  "handleArm P source s =
     (if fs_state s = Disarmed \<or> fs_state s = AuthorizedEntry
      then let s = s\<lparr>fs_state := ArmedIdle\<rparr>;
               s = clearAuthorizationWindow s;
               s = on_ports (p_clear P) s
           in say P (''FSM: System ARMED by '' @ source) s
      else s)"

definition handleDisarm :: "'p ports \<Rightarrow> string \<Rightarrow> 'p fsm \<Rightarrow> 'p fsm" where
  "handleDisarm P source s =
     (let s = s\<lparr>fs_state := Disarmed\<rparr>;
          s = clearAuthorizationWindow s;
          s = on_ports (p_clear P) s
      in say P (''FSM: System DISARMED by '' @ source) s)"

definition printStatusInternal :: "'p ports \<Rightarrow> 'p fsm \<Rightarrow> 'p fsm" where
  "printStatusInternal P s =
     say P (''[STATUS] State: '' @ toString (fs_state s)
       @ '' | Door: '' @ (if fs_doorOpen s then ''OPEN'' else ''CLOSED'')
       @ '' | Alarm: '' @ (if fs_state s = AlarmActive then ''ACTIVE'' else ''OFF'')) s"

text \<open>
  The dispatch. Every enumerator has a case of its own; the \<^verbatim>\<open>default\<close> label of the code is
  for values that are not enumerators, which the datatype does not have.
\<close>

definition handleEvent :: "'p ports \<Rightarrow> time_point \<Rightarrow> event \<Rightarrow> 'p fsm \<Rightarrow> 'p fsm" where
  "handleEvent P now e s =
     (case ev_type e of
        ArmSystem \<Rightarrow> handleArm P (ev_source e) s
      | DisarmSystem \<Rightarrow> handleDisarm P (ev_source e) s
      | DoorOpened \<Rightarrow> handleDoorOpened P now (ev_source e) s
      | DoorClosed \<Rightarrow> handleDoorClosed P (ev_source e) s
      | AuthorizedByNfc \<Rightarrow> handleAuthorization P e s
      | AuthorizedByApp \<Rightarrow> handleAuthorization P e s
      | VerificationTimeout \<Rightarrow> handleVerificationTimeout P (ev_source e) s
      | PrintStatus \<Rightarrow> printStatusInternal P s
      | Shutdown \<Rightarrow> s)"

section \<open>Getters and setters\<close>

definition setDoorState :: "bool \<Rightarrow> 'p fsm \<Rightarrow> 'p fsm" where
  "setDoorState isOpen s = s\<lparr>fs_doorOpen := isOpen\<rparr>"

definition setAuthorizationWindow :: "duration \<Rightarrow> 'p fsm \<Rightarrow> 'p fsm" where
  "setAuthorizationWindow window s = s\<lparr>fs_window := window\<rparr>"

definition isDoorOpen :: "'p fsm \<Rightarrow> bool" where
  "isDoorOpen s = fs_doorOpen s"

definition getState :: "'p fsm \<Rightarrow> fsm_state" where
  "getState s = fs_state s"

definition fsm_isAlarmActive :: "'p fsm \<Rightarrow> bool" where
  "fsm_isAlarmActive s \<longleftrightarrow> fs_state s = AlarmActive"

definition getVerificationDeadline :: "'p fsm \<Rightarrow> time_point option" where
  "getVerificationDeadline s = fs_deadline s"

definition printStatus :: "'p ports \<Rightarrow> 'p fsm \<Rightarrow> 'p fsm" where
  "printStatus P s = printStatusInternal P s"

lemmas handler_defs =
  handleDoorOpened_def handleDoorClosed_def handleAuthorization_def
  handleVerificationTimeout_def handleArm_def handleDisarm_def printStatusInternal_def
  clearAuthorizationWindow_def Let_def

lemmas getter_defs [fsm_simps] =
  setDoorState_def setAuthorizationWindow_def isDoorOpen_def getState_def
  fsm_isAlarmActive_def getVerificationDeadline_def printStatus_def

section \<open>The transition table\<close>

text \<open>
  What the machine promises, without ports, clocks and log texts: the successor of a control
  state (security state and cached door position) under each kind of event.
\<close>

fun spec_next :: "event_type \<Rightarrow> fsm_state \<times> bool \<Rightarrow> fsm_state \<times> bool" where
  "spec_next ArmSystem (st, d) = (if st \<in> {Disarmed, AuthorizedEntry} then ArmedIdle else st, d)"
| "spec_next DisarmSystem (st, d) = (Disarmed, d)"
| "spec_next DoorOpened (st, d) = (if st = ArmedIdle then PendingVerification else st, True)"
| "spec_next DoorClosed (st, d) =
     (if st \<in> {AuthorizedEntry, PendingVerification, AlarmActive} then ArmedIdle else st, False)"
| "spec_next AuthorizedByNfc (st, d) =
     (if \<not> d \<and> st \<in> {ArmedIdle, PendingVerification, AlarmActive} then AuthorizedEntry else st, d)"
| "spec_next AuthorizedByApp (st, d) =
     (if \<not> d \<and> st \<in> {ArmedIdle, PendingVerification, AlarmActive} then AuthorizedEntry else st, d)"
| "spec_next VerificationTimeout (st, d) = (if st = PendingVerification then AlarmActive else st, d)"
| "spec_next PrintStatus (st, d) = (st, d)"
| "spec_next Shutdown (st, d) = (st, d)"

definition control :: "'p fsm \<Rightarrow> fsm_state \<times> bool" where
  "control s = (fs_state s, fs_doorOpen s)"

lemma handleEvent_control: "control (handleEvent P now e s) = spec_next (ev_type e) (control s)"
  by (cases "ev_type e") (auto simp: handleEvent_def handler_defs control_def)

lemma handleEvent_state [fsm_simps]:
  "fs_state (handleEvent P now e s) = fst (spec_next (ev_type e) (fs_state s, fs_doorOpen s))"
  "fs_doorOpen (handleEvent P now e s) = snd (spec_next (ev_type e) (fs_state s, fs_doorOpen s))"
  using handleEvent_control [of P now e s] by (simp_all add: control_def prod_eq_iff)

lemma handleEvent_window [fsm_simps]: "fs_window (handleEvent P now e s) = fs_window s"
  by (cases "ev_type e") (auto simp: handleEvent_def handler_defs)

section \<open>Inputs and runs\<close>

text \<open>
  The public entry points that change the machine: events, the sensor callback's direct write
  of the door position, and the configuration of the grace period. Each runs under the
  machine's mutex, so a run is a sequence of them.
\<close>

datatype fsm_input = Ev time_point event | Sensor bool | Window duration

fun fsm_act :: "'p ports \<Rightarrow> fsm_input \<Rightarrow> 'p fsm \<Rightarrow> 'p fsm" where
  "fsm_act P (Ev now e) s = handleEvent P now e s"
| "fsm_act P (Sensor isOpen) s = setDoorState isOpen s"
| "fsm_act P (Window w) s = setAuthorizationWindow w s"

definition fsm_run :: "'p ports \<Rightarrow> fsm_input list \<Rightarrow> 'p fsm \<Rightarrow> 'p fsm" where
  "fsm_run P ins s = fold (fsm_act P) ins s"

lemma fsm_run_simps [simp]:
  "fsm_run P [] s = s"
  "fsm_run P (i # ins) s = fsm_run P ins (fsm_act P i s)"
  "fsm_run P (ins @ ins') s = fsm_run P ins' (fsm_run P ins s)"
  by (simp_all add: fsm_run_def)

subsection \<open>The deadline and the reachable states\<close>

definition fsm_ok :: "'p fsm \<Rightarrow> bool" where
  "fsm_ok s \<longleftrightarrow>
     (fs_deadline s \<noteq> None \<longleftrightarrow> fs_state s = PendingVerification) \<and> fs_state s \<noteq> Fault"

lemma fsm_ok_init: "fsm_ok (DoorAlarmFSM p)"
  by (simp add: fsm_ok_def DoorAlarmFSM_def)

lemma handleEvent_ok: "fsm_ok s \<Longrightarrow> fsm_ok (handleEvent P now e s)"
  by (cases "ev_type e") (auto simp: handleEvent_def handler_defs fsm_ok_def)

interpretation fsm_inv: safe_machine "fsm_act P" fsm_ok for P
proof
  fix s :: "'a fsm" and i
  show "fsm_ok s \<Longrightarrow> fsm_ok (fsm_act P i s)"
    by (cases i) (simp_all add: handleEvent_ok, simp_all add: fsm_ok_def getter_defs)
qed

lemma handleEvent_deadline:
  "fs_deadline (handleEvent P now e s) =
     (if ev_type e = DoorOpened \<and> fs_state s = ArmedIdle then Some (now + fs_window s)
      else if fs_state (handleEvent P now e s) \<noteq> fs_state s \<or> ev_type e = DisarmSystem then None
      else fs_deadline s)"
  by (cases "ev_type e") (auto simp: handleEvent_def handler_defs)

subsection \<open>What the machine relies on\<close>

text \<open>
  The alarm behind the port is on after \<open>triggerAlarm\<close>, off after \<open>clearAlarm\<close>, and logging
  does not touch it.
\<close>

locale alarm_port =
  fixes P :: "'p ports"
    and active :: "'p \<Rightarrow> bool"
  assumes active_trigger: "active (p_trigger P r p)"
    and active_clear: "\<not> active (p_clear P p)"
    and active_log: "active (p_log P m p) = active p"
begin

definition agrees :: "'p fsm \<Rightarrow> bool" where
  "agrees s \<longleftrightarrow> (active (fs_ports s) \<longleftrightarrow> fs_state s = AlarmActive)"

definition sound :: "'p fsm \<Rightarrow> bool" where
  "sound s \<longleftrightarrow> (active (fs_ports s) \<longrightarrow> fs_state s = AlarmActive)"

lemmas port_laws = active_trigger active_clear active_log

text \<open>The alarm is on exactly in the state \<open>AlarmActive\<close>, whatever happens.\<close>

lemma handleEvent_agrees: "agrees s \<Longrightarrow> agrees (handleEvent P now e s)"
  by (cases "ev_type e") (auto simp: handleEvent_def handler_defs agrees_def port_laws)

lemma handleEvent_sound: "sound s \<Longrightarrow> sound (handleEvent P now e s)"
  by (cases "ev_type e") (auto simp: handleEvent_def handler_defs sound_def port_laws)

lemma run_agrees: "agrees s \<Longrightarrow> agrees (fsm_run P ins s)"
proof (induction ins arbitrary: s)
  case (Cons i ins)
  then have "agrees (fsm_act P i s)"
    by (cases i) (simp_all add: handleEvent_agrees, simp_all add: agrees_def getter_defs)
  with Cons.IH show ?case by simp
qed simp

text \<open>Somebody else silencing the alarm between events breaks only one direction.\<close>

lemma clear_sound: "sound (on_ports (p_clear P) s)"
  by (simp add: sound_def port_laws)

end

subsection \<open>Where the critical states come from\<close>

text \<open>Inputs that end an intrusion: the door is reported closed, or the system is disarmed.\<close>

fun resets :: "fsm_input \<Rightarrow> bool" where
  "resets (Ev now e) \<longleftrightarrow> ev_type e \<in> {DoorClosed, DisarmSystem}"
| "resets (Sensor isOpen) \<longleftrightarrow> False"
| "resets (Window w) \<longleftrightarrow> False"

fun reports_closed :: "fsm_input \<Rightarrow> bool" where
  "reports_closed (Sensor isOpen) \<longleftrightarrow> \<not> isOpen"
| "reports_closed i \<longleftrightarrow> resets i"

definition is_ev :: "event_type \<Rightarrow> fsm_input \<Rightarrow> bool" where
  "is_ev t i \<longleftrightarrow> (case i of Ev now e \<Rightarrow> ev_type e = t | _ \<Rightarrow> False)"

lemma is_ev_Ev [simp]: "is_ev t (Ev now e) \<longleftrightarrow> ev_type e = t"
  and is_ev_other [simp]: "\<not> is_ev t (Sensor b)" "\<not> is_ev t (Window w)"
  by (simp_all add: is_ev_def)

text \<open>One input: how each critical state can be entered or kept.\<close>

lemma fsm_act_other [fsm_simps]:
  "fs_state (fsm_act P (Sensor b) s) = fs_state s"
  "fs_state (fsm_act P (Window w) s) = fs_state s"
  by (simp_all add: getter_defs)

lemma enters_pending:
  assumes "fs_state (fsm_act P i s) = PendingVerification"
  shows "(fs_state s = ArmedIdle \<and> is_ev DoorOpened i)
    \<or> (fs_state s = PendingVerification \<and> \<not> resets i \<and> \<not> is_ev VerificationTimeout i)"
proof (cases i)
  case (Ev now e)
  with assms show ?thesis by (cases "ev_type e") (auto simp: fsm_simps split: if_splits)
qed (use assms in \<open>auto simp: fsm_act_other simp del: fsm_act.simps\<close>)

lemma enters_alarm:
  assumes "fs_state (fsm_act P i s) = AlarmActive"
  shows "(fs_state s = PendingVerification \<and> is_ev VerificationTimeout i)
    \<or> (fs_state s = AlarmActive \<and> \<not> resets i)"
proof (cases i)
  case (Ev now e)
  with assms show ?thesis by (cases "ev_type e") (auto simp: fsm_simps split: if_splits)
qed (use assms in \<open>auto simp: fsm_act_other simp del: fsm_act.simps\<close>)

lemma enters_authorized:
  assumes "fs_state (fsm_act P i s) = AuthorizedEntry"
  shows "(\<not> fs_doorOpen s \<and> (is_ev AuthorizedByNfc i \<or> is_ev AuthorizedByApp i))
    \<or> (fs_state s = AuthorizedEntry \<and> \<not> resets i)"
proof (cases i)
  case (Ev now e)
  with assms show ?thesis by (cases "ev_type e") (auto simp: fsm_simps split: if_splits)
qed (use assms in \<open>auto simp: fsm_act_other simp del: fsm_act.simps\<close>)

text \<open>
  Whole runs: a state that is entered by one kind of input and left by a reset has, in every
  run that ends in it, an entering input after which nothing was reset.
\<close>

lemma since_entry:
  assumes ends: "fs_state (fsm_run P ins s) \<in> S" and start: "fs_state s \<notin> S"
    and entry: "\<And>i s. fs_state (fsm_act P i s) \<in> S \<Longrightarrow> enter i s \<or> (fs_state s \<in> S \<and> \<not> resets i)"
  shows "\<exists>a i b. ins = a @ i # b \<and> enter i (fsm_run P a s) \<and> (\<forall>j \<in> set b. \<not> resets j)"
  using ends
proof (induction ins rule: rev_induct)
  case Nil
  with start show ?case by simp
next
  case (snoc x ins)
  from snoc.prems entry [of x "fsm_run P ins s"] consider
    "enter x (fsm_run P ins s)" | "fs_state (fsm_run P ins s) \<in> S" "\<not> resets x" by auto
  then show ?case
  proof cases
    case 1
    then show ?thesis by (intro exI [of _ ins] exI [of _ x] exI [of _ "[]"]) simp
  next
    case 2
    from snoc.IH [OF 2(1)] obtain a i b where
      "ins = a @ i # b" "enter i (fsm_run P a s)" "\<forall>j \<in> set b. \<not> resets j" by blast
    with 2(2) show ?thesis by (intro exI [of _ a] exI [of _ i] exI [of _ "b @ [x]"]) simp
  qed
qed

lemma pending_since_open:
  assumes "fs_state (fsm_run P ins s) = PendingVerification" and "fs_state s = ArmedIdle"
  shows "\<exists>a i b. ins = a @ i # b \<and> is_ev DoorOpened i \<and> fs_state (fsm_run P a s) = ArmedIdle
           \<and> (\<forall>j \<in> set b. \<not> resets j)"
  using since_entry [of P ins s "{PendingVerification}"
      "\<lambda>i s. fs_state s = ArmedIdle \<and> is_ev DoorOpened i"] assms
  by (auto dest: enters_pending)

lemma alarm_since_timeout:
  assumes "fs_state (fsm_run P ins s) = AlarmActive" and "fs_state s \<noteq> AlarmActive"
  shows "\<exists>a i b. ins = a @ i # b \<and> is_ev VerificationTimeout i
           \<and> fs_state (fsm_run P a s) = PendingVerification \<and> (\<forall>j \<in> set b. \<not> resets j)"
  using since_entry [of P ins s "{AlarmActive}"
      "\<lambda>i s. fs_state s = PendingVerification \<and> is_ev VerificationTimeout i"] assms
  by (auto dest: enters_alarm)

lemma authorized_since_grant:
  assumes "fs_state (fsm_run P ins s) = AuthorizedEntry" and "fs_state s \<noteq> AuthorizedEntry"
  shows "\<exists>a i b. ins = a @ i # b \<and> (is_ev AuthorizedByNfc i \<or> is_ev AuthorizedByApp i)
           \<and> \<not> fs_doorOpen (fsm_run P a s) \<and> (\<forall>j \<in> set b. \<not> resets j)"
  using since_entry [of P ins s "{AuthorizedEntry}"
      "\<lambda>i s. \<not> fs_doorOpen s \<and> (is_ev AuthorizedByNfc i \<or> is_ev AuthorizedByApp i)"] assms
  by (auto dest: enters_authorized)

text \<open>While nothing reports the door closed, an intrusion runs its course.\<close>

lemma open_door_step:
  assumes "fs_doorOpen s" and "\<not> reports_closed i"
  shows "fs_doorOpen (fsm_act P i s)"
    and "fs_state s = AlarmActive \<Longrightarrow> fs_state (fsm_act P i s) = AlarmActive"
    and "fs_state s = PendingVerification \<Longrightarrow>
      fs_state (fsm_act P i s) = (if is_ev VerificationTimeout i then AlarmActive
                                  else PendingVerification)"
proof -
  consider (ev) now e where "i = Ev now e" | (sensor) b where "i = Sensor b"
    | (window) w where "i = Window w" by (cases i)
  then have "fs_doorOpen (fsm_act P i s)
    \<and> (fs_state s = AlarmActive \<longrightarrow> fs_state (fsm_act P i s) = AlarmActive)
    \<and> (fs_state s = PendingVerification \<longrightarrow>
        fs_state (fsm_act P i s) =
          (if is_ev VerificationTimeout i then AlarmActive else PendingVerification))"
  proof cases
    case (ev now e)
    with assms show ?thesis by (cases "ev_type e") (auto simp: fsm_simps)
  qed (use assms in \<open>auto simp: getter_defs\<close>)
  then show "fs_doorOpen (fsm_act P i s)"
    and "fs_state s = AlarmActive \<Longrightarrow> fs_state (fsm_act P i s) = AlarmActive"
    and "fs_state s = PendingVerification \<Longrightarrow>
      fs_state (fsm_act P i s) = (if is_ev VerificationTimeout i then AlarmActive
                                  else PendingVerification)"
    by blast+
qed

lemma open_door_alarm_stays:
  "fs_doorOpen s \<Longrightarrow> fs_state s = AlarmActive \<Longrightarrow> \<forall>i \<in> set ins. \<not> reports_closed i \<Longrightarrow>
   fs_state (fsm_run P ins s) = AlarmActive"
  by (induction ins arbitrary: s) (auto simp del: fsm_act.simps simp: open_door_step)

lemma open_door_intrusion:
  "fs_doorOpen s \<Longrightarrow> fs_state s = PendingVerification \<Longrightarrow> \<forall>i \<in> set ins. \<not> reports_closed i \<Longrightarrow>
   fs_state (fsm_run P ins s) =
     (if \<exists>i \<in> set ins. is_ev VerificationTimeout i then AlarmActive else PendingVerification)"
proof (induction ins arbitrary: s)
  case (Cons i ins)
  then have i: "\<not> reports_closed i" and rest: "\<forall>j \<in> set ins. \<not> reports_closed j" by simp_all
  note step = open_door_step [OF Cons.prems(1) i, of P]
  show ?case
  proof (cases "is_ev VerificationTimeout i")
    case True
    with step Cons.prems(2) rest show ?thesis by (simp add: open_door_alarm_stays del: fsm_act.simps)
  next
    case False
    with step Cons.prems(2) rest Cons.IH [of "fsm_act P i s"] show ?thesis
      by (simp del: fsm_act.simps)
  qed
qed simp

text \<open>Ports that do nothing, to run the machine alone on concrete inputs.\<close>

definition null_ports :: "unit ports" where
  "null_ports = \<lparr>p_trigger = (\<lambda>_ p. p), p_clear = (\<lambda>p. p), p_log = (\<lambda>_ p. p)\<rparr>"

section \<open>Properties\<close>


text \<open>
  After any sequence of inputs, a verification deadline is set exactly while the machine
  waits for verification, and the state \<^verbatim>\<open>Fault\<close> is never entered.
\<close>

theorem deadline_iff_pending:
  "(fs_deadline (fsm_run P ins (DoorAlarmFSM p)) \<noteq> None
      \<longleftrightarrow> fs_state (fsm_run P ins (DoorAlarmFSM p)) = PendingVerification)
   \<and> fs_state (fsm_run P ins (DoorAlarmFSM p)) \<noteq> Fault"
  using fsm_inv.run_inv [OF fsm_ok_init, of P ins p] by (simp add: fsm_run_def fsm_ok_def)

text \<open>
  An intrusion cannot be talked out of. If the armed door is opened, then whatever events
  follow, authorizations by NFC or app included, as long as none of them reports the door
  closed or disarms the system, the machine stays in the grace period, and from the first
  verification timeout on the alarm is active.
\<close>

theorem intrusion_runs_its_course:
  assumes "fs_state s = ArmedIdle" and "ev_type e = DoorOpened"
    and "\<forall>i \<in> set ins. \<not> reports_closed i"
  shows "fs_state (fsm_run P (Ev now e # ins) s) =
    (if \<exists>i \<in> set ins. is_ev VerificationTimeout i then AlarmActive else PendingVerification)"
proof -
  have "fs_doorOpen (handleEvent P now e s)"
    and "fs_state (handleEvent P now e s) = PendingVerification"
    using assms(1,2) by (simp_all add: fsm_simps)
  from open_door_intrusion [OF this assms(3)] show ?thesis by simp
qed

theorem intrusion_runs_its_course_witness:
  "fs_state (fsm_run null_ports
      [Ev 0 (Event 0 DoorOpened ''ReedSwitch''), Ev 1 (Event 1 AuthorizedByNfc ''040ADB8A7111''),
       Ev 2 (Event 2 VerificationTimeout ''timer''), Ev 3 (Event 3 AuthorizedByApp ''Push_Button'')]
      (DoorAlarmFSM ())) = AlarmActive"
  by (subst intrusion_runs_its_course) (simp_all add: DoorAlarmFSM_def)

text \<open>
  C5: no false alarm. If the machine is in the alarm state after some inputs, then an armed
  door was opened, later a verification timeout arrived during the grace period, and neither
  between the two nor afterwards was the door reported closed or the system disarmed.
\<close>

theorem alarm_has_a_cause:
  assumes "fs_state (fsm_run P ins (DoorAlarmFSM p)) = AlarmActive"
  shows "\<exists>a op b t c. ins = a @ op # b @ t # c
    \<and> is_ev DoorOpened op \<and> fs_state (fsm_run P a (DoorAlarmFSM p)) = ArmedIdle
    \<and> is_ev VerificationTimeout t
    \<and> (\<forall>i \<in> set b. \<not> resets i) \<and> (\<forall>i \<in> set c. \<not> resets i)"
proof -
  have "fs_state (DoorAlarmFSM p) = ArmedIdle" by (simp add: DoorAlarmFSM_def)
  with alarm_since_timeout [OF assms] obtain pre t c where
    ins: "ins = pre @ t # c" "is_ev VerificationTimeout t" "\<forall>i \<in> set c. \<not> resets i"
    and pending: "fs_state (fsm_run P pre (DoorAlarmFSM p)) = PendingVerification" by auto
  from pending_since_open [OF pending] \<open>fs_state (DoorAlarmFSM p) = ArmedIdle\<close>
  obtain a op b where "pre = a @ op # b" "is_ev DoorOpened op"
    "fs_state (fsm_run P a (DoorAlarmFSM p)) = ArmedIdle" "\<forall>i \<in> set b. \<not> resets i" by blast
  with ins show ?thesis
    by (intro exI [of _ a] exI [of _ op] exI [of _ b] exI [of _ t] exI [of _ c]) simp
qed

theorem alarm_has_a_cause_witness:
  "\<exists>a op b t c.
     [Ev 0 (Event 0 DoorOpened ''ReedSwitch''), Ev 9 (Event 9 VerificationTimeout ''timer'')]
       = a @ op # b @ t # c
    \<and> is_ev DoorOpened op \<and> fs_state (fsm_run null_ports a (DoorAlarmFSM ())) = ArmedIdle
    \<and> is_ev VerificationTimeout t
    \<and> (\<forall>i \<in> set b. \<not> resets i) \<and> (\<forall>i \<in> set c. \<not> resets i)"
  by (rule alarm_has_a_cause) (simp add: DoorAlarmFSM_def fsm_simps)

text \<open>
  Nobody is let in without an authorization given while the door was closed: in every run
  that ends in the authorized state, there is an NFC or app authorization that arrived when
  the door was recorded as closed, and since then the door has not been reported closed and
  the system not been disarmed.
\<close>

theorem entry_needs_authorization:
  assumes "fs_state (fsm_run P ins (DoorAlarmFSM p)) = AuthorizedEntry"
  shows "\<exists>a i b. ins = a @ i # b \<and> (is_ev AuthorizedByNfc i \<or> is_ev AuthorizedByApp i)
    \<and> \<not> fs_doorOpen (fsm_run P a (DoorAlarmFSM p)) \<and> (\<forall>j \<in> set b. \<not> resets j)"
  by (rule authorized_since_grant [OF assms]) (simp add: DoorAlarmFSM_def)

theorem entry_needs_authorization_witness:
  "\<exists>a i b. [Ev 0 (Event 0 AuthorizedByNfc ''040ADB8A7111''),
             Ev 5 (Event 5 DoorOpened ''ReedSwitch'')] = a @ i # b
    \<and> (is_ev AuthorizedByNfc i \<or> is_ev AuthorizedByApp i)
    \<and> \<not> fs_doorOpen (fsm_run null_ports a (DoorAlarmFSM ())) \<and> (\<forall>j \<in> set b. \<not> resets j)"
  by (rule entry_needs_authorization) (simp add: DoorAlarmFSM_def fsm_simps)

text \<open>
  The scenario of \<^verbatim>\<open>test_successful_entry\<close> in \<^verbatim>\<open>tests/tests.cpp\<close> does not end as the
  test asserts: an authorization that follows the opening of the door is refused, the machine
  stays in the grace period, and its deadline stands.
\<close>

theorem authorization_after_opening_is_refused:
  "fs_state (fsm_run P [Ev t1 (Event t0 DoorOpened ''Sensor''),
                        Ev t3 (Event t2 AuthorizedByNfc ''UID_123'')] (DoorAlarmFSM p))
     = PendingVerification
   \<and> fs_deadline (fsm_run P [Ev t1 (Event t0 DoorOpened ''Sensor''),
                        Ev t3 (Event t2 AuthorizedByNfc ''UID_123'')] (DoorAlarmFSM p))
     = Some (t1 + milliseconds 5000)"
  by (simp add: DoorAlarmFSM_def fsm_simps handleEvent_deadline)

end
