(* ===== verification/Outputs.thy ===== *)
theory Outputs
  imports Prelude
begin

text \<open>
  \<^verbatim>\<open>OutputController\<close> (\<^verbatim>\<open>include/OutputController.hpp\<close>, \<^verbatim>\<open>src/OutputController.cpp\<close>): the two
  LEDs and the buzzer. A detached thread is the list of its remaining actions, kept in the
  controller's state; the scheduler picks which thread acts next, so every interleaving of the
  flashing threads with each other and with direct calls is a run of the model. Each setter
  holds the controller's mutex and is one step.
\<close>

section \<open>State and setters\<close>

datatype pin_action =
    Set_Red bool
  | Set_Green bool
  | Set_Buzzer bool
  | Sleep duration

text \<open>\<open>oc_req\<close>: the line request was granted; without it the setters do nothing.\<close>

record outputs =
  oc_req :: bool
  oc_red :: bool
  oc_green :: bool
  oc_buzzer :: bool
  oc_threads :: "pin_action list list"

definition OutputController :: outputs where
  "OutputController =
     \<lparr>oc_req = False, oc_red = False, oc_green = False, oc_buzzer = False, oc_threads = []\<rparr>"

text \<open>\<open>hw_ok\<close>: whether libgpiod opens the chip and grants the lines without an exception.\<close>

definition init_outputs :: "bool \<Rightarrow> outputs \<Rightarrow> bool \<times> outputs" where
  "init_outputs hw_ok o1 =
     (if hw_ok
      then (True, o1\<lparr>oc_req := True, oc_red := False, oc_green := False, oc_buzzer := False\<rparr>)
      else (False, o1))"

definition setRedLed :: "bool \<Rightarrow> outputs \<Rightarrow> outputs" where
  "setRedLed state o1 = (if oc_req o1 then o1\<lparr>oc_red := state\<rparr> else o1)"

definition setGreenLed :: "bool \<Rightarrow> outputs \<Rightarrow> outputs" where
  "setGreenLed state o1 = (if oc_req o1 then o1\<lparr>oc_green := state\<rparr> else o1)"

definition setBuzzer :: "bool \<Rightarrow> outputs \<Rightarrow> outputs" where
  "setBuzzer state o1 = (if oc_req o1 then o1\<lparr>oc_buzzer := state\<rparr> else o1)"

section \<open>Detached threads\<close>

definition spawn :: "pin_action list \<Rightarrow> outputs \<Rightarrow> outputs" where
  "spawn acts o1 = o1\<lparr>oc_threads := oc_threads o1 @ [acts]\<rparr>"

fun perform :: "pin_action \<Rightarrow> outputs \<Rightarrow> outputs" where
  "perform (Set_Red b) o1 = setRedLed b o1"
| "perform (Set_Green b) o1 = setGreenLed b o1"
| "perform (Set_Buzzer b) o1 = setBuzzer b o1"
| "perform (Sleep d) o1 = o1"

text \<open>The scheduler lets thread \<open>i\<close> perform its next action; a finished thread does nothing.\<close>

definition thread_step :: "nat \<Rightarrow> outputs \<Rightarrow> outputs" where
  "thread_step i o1 =
     (if i < length (oc_threads o1)
      then (case oc_threads o1 ! i of
              [] \<Rightarrow> o1
            | a # as \<Rightarrow> perform a (o1\<lparr>oc_threads := (oc_threads o1)[i := as]\<rparr>))
      else o1)"

definition granted :: "outputs \<Rightarrow> outputs" where
  "granted o1 =
     (let o1 = setGreenLed True o1;
          o1 = setRedLed False o1;
          o1 = setBuzzer True o1
      in spawn [Sleep (milliseconds 200), Set_Buzzer False] o1)"

definition denied :: "outputs \<Rightarrow> outputs" where
  "denied o1 =
     spawn [Set_Red True, Set_Green False, Set_Buzzer True, Sleep (milliseconds 1000),
            Set_Buzzer False, Set_Red False] o1"

definition all_finished :: "outputs \<Rightarrow> bool" where
  "all_finished o1 \<longleftrightarrow> (\<forall>t \<in> set (oc_threads o1). t = [])"

lemma setter_sel [pin_simps]:
  "oc_req (setRedLed b o1) = oc_req o1" "oc_req (setGreenLed b o1) = oc_req o1"
  "oc_req (setBuzzer b o1) = oc_req o1"
  "oc_threads (setRedLed b o1) = oc_threads o1" "oc_threads (setGreenLed b o1) = oc_threads o1"
  "oc_threads (setBuzzer b o1) = oc_threads o1"
  "oc_red (setRedLed b o1) = (if oc_req o1 then b else oc_red o1)"
  "oc_red (setGreenLed b o1) = oc_red o1" "oc_red (setBuzzer b o1) = oc_red o1"
  "oc_green (setGreenLed b o1) = (if oc_req o1 then b else oc_green o1)"
  "oc_green (setRedLed b o1) = oc_green o1" "oc_green (setBuzzer b o1) = oc_green o1"
  "oc_buzzer (setBuzzer b o1) = (if oc_req o1 then b else oc_buzzer o1)"
  "oc_buzzer (setRedLed b o1) = oc_buzzer o1" "oc_buzzer (setGreenLed b o1) = oc_buzzer o1"
  by (simp_all add: setRedLed_def setGreenLed_def setBuzzer_def)

lemma spawn_sel [pin_simps]:
  "oc_req (spawn t o1) = oc_req o1" "oc_red (spawn t o1) = oc_red o1"
  "oc_green (spawn t o1) = oc_green o1" "oc_buzzer (spawn t o1) = oc_buzzer o1"
  "oc_threads (spawn t o1) = oc_threads o1 @ [t]"
  by (simp_all add: spawn_def)

section \<open>Flashing threads switch off what they switch on\<close>

text \<open>A thread that raises the buzzer or the red LED lowers it again later.\<close>

fun releases :: "pin_action list \<Rightarrow> bool" where
  "releases [] = True"
| "releases (Set_Buzzer True # t) = (Set_Buzzer False \<in> set t \<and> releases t)"
| "releases (Set_Red True # t) = (Set_Red False \<in> set t \<and> releases t)"
| "releases (_ # t) = releases t"

text \<open>
  While only such threads are at work, a signal that is on has a thread that will switch it
  off.
\<close>

definition signals_owed :: "outputs \<Rightarrow> bool" where
  "signals_owed o1 \<longleftrightarrow>
     (oc_req o1 \<or> \<not> oc_buzzer o1 \<and> \<not> oc_red o1) \<and>
     (\<forall>t \<in> set (oc_threads o1). releases t) \<and>
     (oc_buzzer o1 \<longrightarrow> (\<exists>t \<in> set (oc_threads o1). Set_Buzzer False \<in> set t)) \<and>
     (oc_red o1 \<longrightarrow> (\<exists>t \<in> set (oc_threads o1). Set_Red False \<in> set t))"

lemma releases_tl: "releases (a # t) \<Longrightarrow> releases t"
  by (cases "(a # t)" rule: releases.cases) auto

lemma in_set_update:
  "i < length ts \<Longrightarrow> ts ! i = a # as \<Longrightarrow> t \<in> set ts \<Longrightarrow> x \<in> set t \<Longrightarrow> x \<noteq> a \<Longrightarrow>
   \<exists>u \<in> set (ts[i := as]). x \<in> set u"
  by (metis in_set_conv_nth length_list_update nth_list_update_eq nth_list_update_neq set_ConsD)

lemma thread_step_owed:
  assumes "signals_owed o1"
  shows "signals_owed (thread_step i o1)"
proof (cases "i < length (oc_threads o1) \<and> oc_threads o1 ! i \<noteq> []")
  case False
  with assms show ?thesis by (auto simp: thread_step_def split: list.splits)
next
  case True
  then obtain a as where i: "i < length (oc_threads o1)" and t: "oc_threads o1 ! i = a # as"
    by (auto simp: neq_Nil_conv)
  let ?ts = "(oc_threads o1)[i := as]"
  have "releases (a # as)" using assms i t by (metis nth_mem signals_owed_def)
  then have rel: "\<forall>u \<in> set ?ts. releases u"
    using assms set_update_subset_insert [of "oc_threads o1" i as]
    by (auto simp: signals_owed_def dest: releases_tl)
  have mem: "as \<in> set ?ts" using i by (simp add: set_update_memI)
  have keep: "x \<noteq> a \<Longrightarrow> \<exists>u \<in> set (oc_threads o1). x \<in> set u \<Longrightarrow> \<exists>u \<in> set ?ts. x \<in> set u" for x
    using in_set_update [OF i t] by blast
  have "thread_step i o1 = perform a (o1\<lparr>oc_threads := ?ts\<rparr>)"
    using i t by (simp add: thread_step_def)
  moreover have "signals_owed (perform a (o1\<lparr>oc_threads := ?ts\<rparr>))"
    using assms rel mem keep [of "Set_Buzzer False"] keep [of "Set_Red False"] \<open>releases (a # as)\<close>
    by (cases "(a # as)" rule: releases.cases) (auto simp: signals_owed_def pin_simps)
  ultimately show ?thesis by simp
qed

lemma granted_owed: "signals_owed o1 \<Longrightarrow> signals_owed (granted o1)"
  by (auto simp: granted_def signals_owed_def pin_simps Let_def)

lemma denied_owed: "signals_owed o1 \<Longrightarrow> signals_owed (denied o1)"
  by (auto simp: denied_def signals_owed_def pin_simps)

lemma owed_finished:
  "signals_owed o1 \<Longrightarrow> all_finished o1 \<Longrightarrow> \<not> oc_buzzer o1 \<and> \<not> oc_red o1"
  by (auto simp: signals_owed_def all_finished_def)

text \<open>Pins of a controller without a line request never change.\<close>

lemma perform_unrequested: "\<not> oc_req o1 \<Longrightarrow> perform a o1 = o1"
  by (cases a) (simp_all add: setRedLed_def setGreenLed_def setBuzzer_def)

text \<open>The newest thread, left alone by the others, after \<open>n\<close> of its actions.\<close>

lemma newest_thread_runs:
  "n \<le> length acts \<Longrightarrow> oc_threads o1 = ts @ [acts] \<Longrightarrow> length ts = k \<Longrightarrow>
   (thread_step k ^^ n) o1 = fold perform (take n acts) (o1\<lparr>oc_threads := ts @ [drop n acts]\<rparr>)"
proof (induction n arbitrary: acts o1)
  case (Suc n)
  then obtain a as where acts: "acts = a # as" by (cases acts) auto
  let ?o = "perform a (o1\<lparr>oc_threads := ts @ [as]\<rparr>)"
  have one: "thread_step k o1 = ?o"
    using Suc.prems(2) acts by (simp add: thread_step_def flip: Suc.prems(3))
  have th: "oc_threads ?o = ts @ [as]" by (cases a) (simp_all add: pin_simps)
  have upd: "perform b (o2\<lparr>oc_threads := x\<rparr>) = (perform b o2)\<lparr>oc_threads := x\<rparr>" for b o2 x
    by (cases b) (simp_all add: setRedLed_def setGreenLed_def setBuzzer_def)
  have "(thread_step k ^^ Suc n) o1 = (thread_step k ^^ n) ?o"
    by (simp only: funpow_Suc_right o_apply one)
  also have "\<dots> = fold perform (take n as) (?o\<lparr>oc_threads := ts @ [drop n as]\<rparr>)"
    using Suc.prems acts th by (intro Suc.IH) simp_all
  finally show ?case by (simp add: acts upd)
qed simp

lemma denied_flash:
  assumes "oc_req o1"
  shows "(let o2 = (thread_step (length (oc_threads o1)) ^^ 6) (denied o1)
          in \<not> oc_buzzer o2 \<and> \<not> oc_red o2 \<and> \<not> oc_green o2)"
  using assms newest_thread_runs [of 6 "[Set_Red True, Set_Green False, Set_Buzzer True,
      Sleep (milliseconds 1000), Set_Buzzer False, Set_Red False]" "denied o1" "oc_threads o1"
      "length (oc_threads o1)"]
  by (simp add: denied_def pin_simps Let_def)

end
