(* ===== verification/Wakeup.thy ===== *)
theory Wakeup
  imports Queues
begin

text \<open>
  The waiting discipline of the monitors. The queues, both loggers and the relock timer sleep
  in \<^verbatim>\<open>cv.wait(lock, pred)\<close>. This theory models that call step by step (test the predicate
  under the mutex, release the mutex and park in one step, re-test after a wake-up) against
  threads that change the data, with or without the mutex, and notify afterwards. A wake-up is
  lost when the waiter is parked although its predicate holds and no notification is on its
  way. The locale states when that cannot happen; both queue classes meet it.
\<close>

section \<open>One waiter and its notifiers\<close>

datatype waiter =
    Locking    \<comment> \<open>wants the mutex\<close>
  | Testing    \<comment> \<open>has the mutex, about to evaluate the predicate\<close>
  | Parking    \<comment> \<open>has the mutex, found the predicate false\<close>
  | Parked     \<comment> \<open>has released the mutex and sleeps\<close>
  | Holding    \<comment> \<open>has the mutex, found the predicate true\<close>
  | Gone       \<comment> \<open>has left its loop\<close>

fun holds_mutex :: "waiter \<Rightarrow> bool" where
  "holds_mutex Testing = True"
| "holds_mutex Parking = True"
| "holds_mutex Holding = True"
| "holds_mutex _ = False"

record 'd monitor =
  mo_data :: 'd
  mo_waiter :: waiter
  mo_pending :: nat  \<comment> \<open>changes made whose notification has not been issued yet\<close>

definition monitor_start :: "'d \<Rightarrow> 'd monitor" where
  "monitor_start d = \<lparr>mo_data = d, mo_waiter = Locking, mo_pending = 0\<rparr>"

text \<open>
  \<open>locked\<close> relates the data before and after a change made under the mutex, \<open>unlocked\<close> a
  change of an atomic variable made without it; \<open>body\<close> is what the waiter does under the
  mutex once its predicate holds. Spurious wake-ups are steps, as the standard allows them.
\<close>

inductive cv_step ::
  "('d \<Rightarrow> bool) \<Rightarrow> ('d \<Rightarrow> 'd \<Rightarrow> bool) \<Rightarrow> ('d \<Rightarrow> 'd \<Rightarrow> bool) \<Rightarrow> ('d \<Rightarrow> 'd) \<Rightarrow>
   'd monitor \<Rightarrow> 'd monitor \<Rightarrow> bool"
  for pred locked unlocked body where
  acquire: "mo_waiter s = Locking \<Longrightarrow>
    cv_step pred locked unlocked body s (s\<lparr>mo_waiter := Testing\<rparr>)"
| ready: "mo_waiter s = Testing \<Longrightarrow> pred (mo_data s) \<Longrightarrow>
    cv_step pred locked unlocked body s (s\<lparr>mo_waiter := Holding\<rparr>)"
| not_ready: "mo_waiter s = Testing \<Longrightarrow> \<not> pred (mo_data s) \<Longrightarrow>
    cv_step pred locked unlocked body s (s\<lparr>mo_waiter := Parking\<rparr>)"
| park: "mo_waiter s = Parking \<Longrightarrow>
    cv_step pred locked unlocked body s (s\<lparr>mo_waiter := Parked\<rparr>)"
| spurious: "mo_waiter s = Parked \<Longrightarrow>
    cv_step pred locked unlocked body s (s\<lparr>mo_waiter := Locking\<rparr>)"
| leave: "mo_waiter s = Holding \<Longrightarrow>
    cv_step pred locked unlocked body s
      (s\<lparr>mo_data := body (mo_data s), mo_waiter := Locking\<rparr>)"
| quit: "mo_waiter s = Holding \<Longrightarrow>
    cv_step pred locked unlocked body s (s\<lparr>mo_waiter := Gone\<rparr>)"
| update_locked: "\<not> holds_mutex (mo_waiter s) \<Longrightarrow> locked (mo_data s) d \<Longrightarrow>
    cv_step pred locked unlocked body s
      (s\<lparr>mo_data := d, mo_pending := Suc (mo_pending s)\<rparr>)"
| update_unlocked: "unlocked (mo_data s) d \<Longrightarrow>
    cv_step pred locked unlocked body s
      (s\<lparr>mo_data := d, mo_pending := Suc (mo_pending s)\<rparr>)"
| notify: "mo_pending s = Suc n \<Longrightarrow>
    cv_step pred locked unlocked body s
      (s\<lparr>mo_pending := n,
         mo_waiter := (if mo_waiter s = Parked then Locking else mo_waiter s)\<rparr>)"

definition lost_wakeup :: "('d \<Rightarrow> bool) \<Rightarrow> 'd monitor \<Rightarrow> bool" where
  "lost_wakeup pred s \<longleftrightarrow> mo_waiter s = Parked \<and> pred (mo_data s) \<and> mo_pending s = 0"

definition wait_ok :: "('d \<Rightarrow> bool) \<Rightarrow> 'd monitor \<Rightarrow> bool" where
  "wait_ok pred s \<longleftrightarrow>
     (mo_waiter s = Parking \<longrightarrow> \<not> pred (mo_data s)) \<and>
     (mo_waiter s = Parked \<and> pred (mo_data s) \<longrightarrow> 0 < mo_pending s)"

lemma wait_ok_start: "wait_ok pred (monitor_start d)"
  by (simp add: wait_ok_def monitor_start_def)

lemma wait_ok_not_lost: "wait_ok pred s \<Longrightarrow> \<not> lost_wakeup pred s"
  by (auto simp: wait_ok_def lost_wakeup_def)

text \<open>
  A waiter that has lost its wake-up stays parked until somebody changes the data again or
  the implementation wakes it for no reason: none of its own steps is enabled.
\<close>

lemma lost_wakeup_stuck:
  assumes "lost_wakeup pred s" and "cv_step pred locked unlocked body s t"
  shows "t = s\<lparr>mo_waiter := Locking\<rparr> \<or> mo_pending t = Suc 0"
  using assms(2,1) by cases (auto simp: lost_wakeup_def)

section \<open>Runs of the protocol\<close>

text \<open>A waiter that finds its predicate false gets as far as parking, still with the mutex.\<close>

lemma run_to_parking:
  assumes "\<not> pred d"
  shows "(cv_step pred locked unlocked body)\<^sup>*\<^sup>* (monitor_start d)
    \<lparr>mo_data = d, mo_waiter = Parking, mo_pending = 0\<rparr>"
proof -
  let ?R = "cv_step pred locked unlocked body"
  have "?R (monitor_start d) \<lparr>mo_data = d, mo_waiter = Testing, mo_pending = 0\<rparr>"
    using cv_step.acquire [of "monitor_start d"] by (simp add: monitor_start_def)
  moreover have "?R \<lparr>mo_data = d, mo_waiter = Testing, mo_pending = 0\<rparr>
      \<lparr>mo_data = d, mo_waiter = Parking, mo_pending = 0\<rparr>"
    using assms cv_step.not_ready [of "\<lparr>mo_data = d, mo_waiter = Testing, mo_pending = 0\<rparr>" pred]
    by simp
  ultimately show ?thesis
    by (meson converse_rtranclp_into_rtranclp r_into_rtranclp)
qed

lemma run_to_parked:
  assumes "\<not> pred d"
  shows "(cv_step pred locked unlocked body)\<^sup>*\<^sup>* (monitor_start d)
    \<lparr>mo_data = d, mo_waiter = Parked, mo_pending = 0\<rparr>"
  by (rule rtranclp.rtrancl_into_rtrancl [OF run_to_parking [of pred d, OF assms]])
    (use cv_step.park [of "\<lparr>mo_data = d, mo_waiter = Parking, mo_pending = 0\<rparr>"] in simp)

text \<open>
  A change that switches the predicate on without the mutex can fall between the waiter's
  test and its parking, and its notification then finds nobody asleep.
\<close>

lemma run_to_lost_wakeup:
  assumes "\<not> pred d" and "unlocked d d'" and "pred d'"
  shows "\<exists>s. (cv_step pred locked unlocked body)\<^sup>*\<^sup>* (monitor_start d) s
    \<and> mo_data s = d' \<and> lost_wakeup pred s"
proof -
  let ?R = "cv_step pred locked unlocked body"
  note run_to_parking [of pred d locked unlocked body, OF assms(1)]
  moreover have "?R \<lparr>mo_data = d, mo_waiter = Parking, mo_pending = 0\<rparr>
      \<lparr>mo_data = d', mo_waiter = Parking, mo_pending = 1\<rparr>"
    using assms(2) cv_step.update_unlocked
      [of unlocked "\<lparr>mo_data = d, mo_waiter = Parking, mo_pending = 0\<rparr>" d'] by simp
  moreover have "?R \<lparr>mo_data = d', mo_waiter = Parking, mo_pending = 1\<rparr>
      \<lparr>mo_data = d', mo_waiter = Parking, mo_pending = 0\<rparr>"
    using cv_step.notify [of "\<lparr>mo_data = d', mo_waiter = Parking, mo_pending = 1\<rparr>" 0] by simp
  moreover have "?R \<lparr>mo_data = d', mo_waiter = Parking, mo_pending = 0\<rparr>
      \<lparr>mo_data = d', mo_waiter = Parked, mo_pending = 0\<rparr>"
    using cv_step.park [of "\<lparr>mo_data = d', mo_waiter = Parking, mo_pending = 0\<rparr>"] by simp
  ultimately have "?R\<^sup>*\<^sup>* (monitor_start d) \<lparr>mo_data = d', mo_waiter = Parked, mo_pending = 0\<rparr>"
    by (meson rtranclp.rtrancl_into_rtrancl)
  with assms(3) show ?thesis
    by (intro exI [of _ "\<lparr>mo_data = d', mo_waiter = Parked, mo_pending = 0\<rparr>"])
      (simp add: lost_wakeup_def)
qed

section \<open>A sufficient discipline\<close>

text \<open>
  The contract between a waiter and its notifiers: a change made without the mutex must never
  switch the predicate on.
\<close>

locale guarded_wait =
  fixes pred :: "'d \<Rightarrow> bool"
    and locked :: "'d \<Rightarrow> 'd \<Rightarrow> bool"
    and unlocked :: "'d \<Rightarrow> 'd \<Rightarrow> bool"
    and body :: "'d \<Rightarrow> 'd"
  assumes unlocked_quiet: "unlocked d d' \<Longrightarrow> pred d' \<Longrightarrow> pred d"
begin

lemma cv_step_wait_ok:
  assumes "cv_step pred locked unlocked body s t" and "wait_ok pred s"
  shows "wait_ok pred t"
  using assms
proof cases
  case (update_unlocked d)
  with assms(2) show ?thesis by (auto simp: wait_ok_def dest: unlocked_quiet)
qed (auto simp: wait_ok_def)

sublocale waiting: safe_relation "cv_step pred locked unlocked body" "wait_ok pred"
  by unfold_locales (rule cv_step_wait_ok)

lemma no_lost_wakeup:
  "(cv_step pred locked unlocked body)\<^sup>*\<^sup>* (monitor_start d) s \<Longrightarrow> \<not> lost_wakeup pred s"
  using waiting.star_inv [OF _ wait_ok_start] by (blast dest: wait_ok_not_lost)

end

section \<open>The queues\<close>

definition eq_ready :: "event_queue \<Rightarrow> bool" where
  "eq_ready q \<longleftrightarrow> eq_shutdown q \<or> eq_queue q \<noteq> []"

text \<open>A push on a shut-down queue returns before it notifies, so it is not a change.\<close>

definition eq_locked :: "event_queue \<Rightarrow> event_queue \<Rightarrow> bool" where
  "eq_locked q q' \<longleftrightarrow> (\<not> eq_shutdown q \<and> (\<exists>e. q' = push e q)) \<or> q' = shutdown q"

definition eq_unlocked :: "event_queue \<Rightarrow> event_queue \<Rightarrow> bool" where
  "eq_unlocked q q' \<longleftrightarrow> False"

definition eq_body :: "event_queue \<Rightarrow> event_queue" where
  "eq_body q = snd (snd (pop_front (Event 0 PrintStatus ''system'') q))"

interpretation eq_wait: guarded_wait eq_ready eq_locked eq_unlocked eq_body
  by unfold_locales (simp add: eq_unlocked_def)

definition ts_ready :: "'a ts_queue \<Rightarrow> bool" where
  "ts_ready q \<longleftrightarrow> ts_queue q \<noteq> [] \<or> ts_shutdown q"

definition ts_locked :: "'a ts_queue \<Rightarrow> 'a ts_queue \<Rightarrow> bool" where
  "ts_locked q q' \<longleftrightarrow>
     (\<not> ts_shutdown q \<and> (\<exists>x. q' = ts_push x q \<or> (\<exists>m. q' = pushBounded m x q)))
     \<or> q' = ts_close q"

definition ts_unlocked :: "'a ts_queue \<Rightarrow> 'a ts_queue \<Rightarrow> bool" where
  "ts_unlocked q q' \<longleftrightarrow> False"

definition ts_body :: "'a ts_queue \<Rightarrow> 'a ts_queue" where
  "ts_body q = snd (ts_tryPop q)"

interpretation ts_wait: guarded_wait ts_ready ts_locked ts_unlocked ts_body
  by unfold_locales (simp add: ts_unlocked_def)

text \<open>
  C10: the control thread cannot miss an event: in every state reachable by its blocking pop
  and any posts and shutdowns, a control thread asleep on an event queue that is non-empty or
  shut down has a notification on its way. \<^verbatim>\<open>shutdown()\<close> sets its flag under the mutex, which
  is what makes this true.
\<close>

theorem event_queue_no_lost_wakeup:
  assumes "(cv_step eq_ready eq_locked eq_unlocked eq_body)\<^sup>*\<^sup>* (monitor_start EventQueue) s"
    and "mo_waiter s = Parked" and "eq_shutdown (mo_data s) \<or> eq_queue (mo_data s) \<noteq> []"
  shows "0 < mo_pending s"
  using eq_wait.no_lost_wakeup [OF assms(1)] assms(2,3)
  by (auto simp: lost_wakeup_def eq_ready_def)

text \<open>A run to a parked control thread whose queue has just been given an event.\<close>

definition parked_with_event :: "event_queue monitor" where
  "parked_with_event =
     \<lparr>mo_data = push (Event 0 DoorOpened ''ReedSwitch'') EventQueue,
      mo_waiter = Parked, mo_pending = 1\<rparr>"

lemma parked_with_event_reachable:
  "(cv_step eq_ready eq_locked eq_unlocked eq_body)\<^sup>*\<^sup>* (monitor_start EventQueue) parked_with_event"
proof -
  have "(cv_step eq_ready eq_locked eq_unlocked eq_body)\<^sup>*\<^sup>* (monitor_start EventQueue)
      \<lparr>mo_data = EventQueue, mo_waiter = Parked, mo_pending = 0\<rparr>"
    by (rule run_to_parked) (simp add: eq_ready_def EventQueue_def)
  also have "cv_step eq_ready eq_locked eq_unlocked eq_body
      \<lparr>mo_data = EventQueue, mo_waiter = Parked, mo_pending = 0\<rparr> parked_with_event"
    using cv_step.update_locked [of "\<lparr>mo_data = EventQueue, mo_waiter = Parked, mo_pending = 0\<rparr>"
        eq_locked "push (Event 0 DoorOpened ''ReedSwitch'') EventQueue"]
    by (auto simp: parked_with_event_def eq_locked_def EventQueue_def)
  finally show ?thesis .
qed

theorem event_queue_no_lost_wakeup_witness: "0 < mo_pending parked_with_event"
  by (rule event_queue_no_lost_wakeup [OF parked_with_event_reachable])
    (simp_all add: parked_with_event_def push_def EventQueue_def)

text \<open>
  The same for the template queue that carries frames and log entries, for unbounded and
  bounded pushes alike.
\<close>

theorem ts_queue_no_lost_wakeup:
  "\<not> ((cv_step ts_ready ts_locked ts_unlocked ts_body)\<^sup>*\<^sup>*
        (monitor_start (ThreadSafeQueue :: 'a ts_queue)) s
      \<and> lost_wakeup ts_ready s)"
  using ts_wait.no_lost_wakeup by blast

end
