(* ===== verification/Async_Log.thy ===== *)
theory Async_Log
  imports Wakeup
begin

text \<open>
  \<^verbatim>\<open>AsyncLogger\<close> of the alarm system (\<^verbatim>\<open>include/AsyncLogger.h\<close>, \<^verbatim>\<open>src/AsyncLogger.cpp\<close>):
  callers append to a queue, a worker thread writes each message to the console, to the audit
  file and to a web hook. The console, the file and the requests sent are lists of lines; the
  formatted time of an entry is an input, because the code takes it from the C library's
  local time.
\<close>

record async_logger =
  lg_running :: bool
  lg_queue :: "string list"
  lg_console :: "string list"
  lg_csv :: "string list"
  lg_posts :: "string list"
  lg_file_open :: bool
  lg_curl :: bool

text \<open>
  A logger is created over an audit file that may exist already (\<open>old\<close>); \<open>file_ok\<close> and
  \<open>curl_ok\<close> are the outcomes of opening the file and of \<^verbatim>\<open>curl_easy_init\<close>.
\<close>

definition AsyncLogger :: "string list \<Rightarrow> bool \<Rightarrow> bool \<Rightarrow> async_logger" where
  "AsyncLogger old file_ok curl_ok =
     \<lparr>lg_running = False, lg_queue = [], lg_console = [], lg_csv = old, lg_posts = [],
      lg_file_open = file_ok, lg_curl = curl_ok\<rparr>"

definition log :: "string \<Rightarrow> async_logger \<Rightarrow> async_logger" where
  "log message l = l\<lparr>lg_queue := lg_queue l @ [message]\<rparr>"

text \<open>The prologue of the worker: the header line of a new audit file.\<close>

definition open_log :: "async_logger \<Rightarrow> async_logger" where
  "open_log l =
     (if lg_file_open l \<and> lg_csv l = [] then l\<lparr>lg_csv := [''Timestamp,Category,Details'']\<rparr> else l)"

definition start_logger :: "async_logger \<Rightarrow> async_logger" where
  "start_logger l = (if lg_running l then l else open_log (l\<lparr>lg_running := True\<rparr>))"

text \<open>What the worker writes for a message, given the formatted time \<open>ts\<close>.\<close>

definition console_line :: "string \<Rightarrow> string \<Rightarrow> string" where
  "console_line ts msg = ''['' @ ts @ ''] '' @ msg"

definition csv_line :: "string \<Rightarrow> string \<Rightarrow> string" where
  "csv_line ts msg = ts @ '',\"'' @ msg @ ''\"''"

definition post_body :: "string \<Rightarrow> string \<Rightarrow> string" where
  "post_body ts msg = ''{\"timestamp\":\"'' @ ts @ ''\", \"log\":\"'' @ msg @ ''\"}''"

definition write_entry :: "string \<Rightarrow> string \<Rightarrow> async_logger \<Rightarrow> async_logger" where
  "write_entry ts msg l =
     (let l = l\<lparr>lg_console := lg_console l @ [console_line ts msg]\<rparr>;
          l = (if lg_file_open l then l\<lparr>lg_csv := lg_csv l @ [csv_line ts msg]\<rparr> else l)
      in if lg_curl l then l\<lparr>lg_posts := lg_posts l @ [post_body ts msg]\<rparr> else l)"

text \<open>
  One turn of the worker's loop. Its guard is \<^verbatim>\<open>running_ || !logQueue_.empty()\<close>; with an
  empty queue it waits while running and leaves the loop otherwise.
\<close>

definition processLogs_turn :: "string \<Rightarrow> async_logger \<Rightarrow> async_logger turn" where
  "processLogs_turn ts l =
     (case lg_queue l of
        [] \<Rightarrow> (if lg_running l then Waits else Exits l)
      | msg # msgs \<Rightarrow> Goes (write_entry ts msg (l\<lparr>lg_queue := msgs\<rparr>)))"

text \<open>
  The loop itself, for as many turns as times are given (the turn that leaves the loop or
  waits does not use its time).
\<close>

fun processLogs :: "string list \<Rightarrow> async_logger \<Rightarrow> async_logger turn" where
  "processLogs [] l = Goes l"
| "processLogs (ts # tss) l =
     (case processLogs_turn ts l of Goes l' \<Rightarrow> processLogs tss l' | r \<Rightarrow> r)"

text \<open>\<^verbatim>\<open>stop()\<close> clears the flag and notifies; that it then joins the worker is in the worker's
  loop above.\<close>

definition stop_logger :: "async_logger \<Rightarrow> async_logger" where
  "stop_logger l = l\<lparr>lg_running := False\<rparr>"

lemma log_sel [pin_simps]:
  "lg_queue (log m l) = lg_queue l @ [m]" "lg_running (log m l) = lg_running l"
  "lg_console (log m l) = lg_console l" "lg_csv (log m l) = lg_csv l"
  "lg_posts (log m l) = lg_posts l" "lg_file_open (log m l) = lg_file_open l"
  "lg_curl (log m l) = lg_curl l"
  by (simp_all add: log_def)

lemma stop_logger_sel [pin_simps]:
  "lg_queue (stop_logger l) = lg_queue l" "\<not> lg_running (stop_logger l)"
  "lg_console (stop_logger l) = lg_console l" "lg_csv (stop_logger l) = lg_csv l"
  "lg_posts (stop_logger l) = lg_posts l" "lg_file_open (stop_logger l) = lg_file_open l"
  "lg_curl (stop_logger l) = lg_curl l"
  by (simp_all add: stop_logger_def)

lemma write_entry_sel [pin_simps]:
  "lg_queue (write_entry ts m l) = lg_queue l"
  "lg_running (write_entry ts m l) = lg_running l"
  "lg_file_open (write_entry ts m l) = lg_file_open l"
  "lg_curl (write_entry ts m l) = lg_curl l"
  "lg_console (write_entry ts m l) = lg_console l @ [console_line ts m]"
  "lg_csv (write_entry ts m l) = (if lg_file_open l then lg_csv l @ [csv_line ts m] else lg_csv l)"
  "lg_posts (write_entry ts m l) = (if lg_curl l then lg_posts l @ [post_body ts m] else lg_posts l)"
  by (simp_all add: write_entry_def Let_def)

text \<open>
  Draining: a worker whose flag has been cleared handles every queued message, in order, and
  then leaves its loop.
\<close>

lemma processLogs_drain:
  "\<not> lg_running l \<Longrightarrow> length tss = Suc (length (lg_queue l)) \<Longrightarrow>
   \<exists>l'. processLogs tss l = Exits l' \<and> lg_queue l' = []
      \<and> lg_console l' = lg_console l @ map2 console_line tss (lg_queue l)
      \<and> lg_csv l' = lg_csv l @ (if lg_file_open l then map2 csv_line tss (lg_queue l) else [])
      \<and> lg_posts l' = lg_posts l @ (if lg_curl l then map2 post_body tss (lg_queue l) else [])"
proof (induction tss arbitrary: l)
  case Nil
  then show ?case by simp
next
  case (Cons ts tss)
  show ?case
  proof (cases "lg_queue l")
    case Nil
    with Cons.prems show ?thesis by (simp add: processLogs_turn_def)
  next
    case q: (Cons m ms)
    let ?l = "write_entry ts m (l\<lparr>lg_queue := ms\<rparr>)"
    have "processLogs (ts # tss) l = processLogs tss ?l"
      using q by (simp add: processLogs_turn_def)
    moreover have "\<not> lg_running ?l" "length tss = Suc (length (lg_queue ?l))"
      using Cons.prems q by (simp_all add: pin_simps)
    ultimately show ?thesis
      using Cons.IH [of ?l] q by (auto simp: pin_simps)
  qed
qed

section \<open>The logger's condition variable\<close>

definition lg_ready :: "async_logger \<Rightarrow> bool" where
  "lg_ready l \<longleftrightarrow> \<not> lg_running l \<or> lg_queue l \<noteq> []"

definition lg_locked :: "async_logger \<Rightarrow> async_logger \<Rightarrow> bool" where
  "lg_locked l l' \<longleftrightarrow> (\<exists>m. l' = log m l)"

definition lg_unlocked :: "async_logger \<Rightarrow> async_logger \<Rightarrow> bool" where
  "lg_unlocked l l' \<longleftrightarrow> lg_running l \<and> l' = stop_logger l"

definition lg_body :: "async_logger \<Rightarrow> async_logger" where
  "lg_body l = l\<lparr>lg_queue := tl (lg_queue l)\<rparr>"

text \<open>Without \<^verbatim>\<open>stop()\<close>, the logger keeps the waiting discipline: no message is slept over.\<close>

interpretation lg_wait: guarded_wait lg_ready lg_locked "\<lambda>l l'. False" lg_body
  by unfold_locales simp



text \<open>
  \<^verbatim>\<open>stop()\<close> clears the flag without holding the mutex on which the worker tests it, so
  its wake-up can be lost: a running logger with an empty queue can reach a state in which it
  has been told to stop, the notification has been issued, and the worker is parked with no
  further notification to come, while \<^verbatim>\<open>stop()\<close> waits for it in \<^verbatim>\<open>join()\<close>.
\<close>

theorem logger_stop_can_hang:
  assumes "lg_running l" and "lg_queue l = []"
  shows "\<exists>s. (cv_step lg_ready lg_locked lg_unlocked lg_body)\<^sup>*\<^sup>* (monitor_start l) s
           \<and> mo_data s = stop_logger l \<and> lost_wakeup lg_ready s"
  using assms by (intro run_to_lost_wakeup) (simp_all add: lg_ready_def lg_unlocked_def stop_logger_def)

theorem logger_stop_can_hang_witness:
  "\<exists>s. (cv_step lg_ready lg_locked lg_unlocked lg_body)\<^sup>*\<^sup>*
          (monitor_start (start_logger (AsyncLogger [] True True))) s
       \<and> mo_data s = stop_logger (start_logger (AsyncLogger [] True True))
       \<and> lost_wakeup lg_ready s"
  by (rule logger_stop_can_hang)
    (simp_all add: start_logger_def open_log_def AsyncLogger_def)

end
