(* ===== verification/Alarm.thy ===== *)
theory Alarm
  imports Door_FSM Outputs Async_Log
begin

text \<open>
  \<^verbatim>\<open>AlarmManager\<close> (\<^verbatim>\<open>include/AlarmManager.h\<close>, \<^verbatim>\<open>src/AlarmManager.cpp\<close>) over the
  peripherals it shares with the rest of the alarm system: the output controller it holds a
  reference to, and the logger it holds a pointer to once started. It provides the ports of
  the state machine; the interpretation at the end discharges their laws.
\<close>

section \<open>State\<close>

text \<open>\<open>am_logger\<close>: the logger pointer is set; it always points to the shared logger.\<close>

record alarm_manager =
  am_logger :: bool
  am_active :: bool
  am_reason :: string

record periph =
  pe_out :: outputs
  pe_alarm :: alarm_manager
  pe_log :: async_logger

definition AlarmManager :: alarm_manager where
  "AlarmManager = \<lparr>am_logger = False, am_active = False, am_reason = ''unknown''\<rparr>"

definition new_periph :: "async_logger \<Rightarrow> periph" where
  "new_periph l = \<lparr>pe_out = OutputController, pe_alarm = AlarmManager, pe_log = l\<rparr>"

abbreviation on_out :: "(outputs \<Rightarrow> outputs) \<Rightarrow> periph \<Rightarrow> periph" where
  "on_out f p \<equiv> p\<lparr>pe_out := f (pe_out p)\<rparr>"

abbreviation on_alarm :: "(alarm_manager \<Rightarrow> alarm_manager) \<Rightarrow> periph \<Rightarrow> periph" where
  "on_alarm f p \<equiv> p\<lparr>pe_alarm := f (pe_alarm p)\<rparr>"

abbreviation on_log :: "(async_logger \<Rightarrow> async_logger) \<Rightarrow> periph \<Rightarrow> periph" where
  "on_log f p \<equiv> p\<lparr>pe_log := f (pe_log p)\<rparr>"

section \<open>Operations\<close>

definition am_say :: "string \<Rightarrow> periph \<Rightarrow> periph" where
  "am_say m p = (if am_logger (pe_alarm p) then on_log (log m) p else p)"

definition start_alarm :: "periph \<Rightarrow> periph" where
  "start_alarm p =
     am_say ''AlarmManager: Started and ready.'' (on_alarm (\<lambda>a. a\<lparr>am_logger := True\<rparr>) p)"

definition triggerAlarm :: "string \<Rightarrow> periph \<Rightarrow> periph" where
  "triggerAlarm reason p =
     (let p = on_alarm (\<lambda>a. a\<lparr>am_active := True, am_reason := reason\<rparr>) p;
          p = on_out (setBuzzer True) p;
          p = on_out (setRedLed True) p
      in am_say (''ALARM TRIGGERED: '' @ reason) p)"

definition clearAlarm :: "periph \<Rightarrow> periph" where
  "clearAlarm p =
     (let p = on_alarm (\<lambda>a. a\<lparr>am_active := False\<rparr>) p;
          p = on_out (setBuzzer False) p
      in am_say ''ALARM CLEARED: System restored to normal.'' p)"

definition stop_alarm :: "periph \<Rightarrow> periph" where
  "stop_alarm p = am_say ''AlarmManager: Shutting down.'' (clearAlarm p)"

definition isAlarmActive :: "periph \<Rightarrow> bool" where
  "isAlarmActive p = am_active (pe_alarm p)"

lemma am_say_sel [pin_simps]:
  "pe_out (am_say m p) = pe_out p" "pe_alarm (am_say m p) = pe_alarm p"
  "pe_log (am_say m p) = (if am_logger (pe_alarm p) then log m (pe_log p) else pe_log p)"
  by (simp_all add: am_say_def)

lemma triggerAlarm_sel [pin_simps]:
  "pe_out (triggerAlarm r p) = setRedLed True (setBuzzer True (pe_out p))"
  "pe_alarm (triggerAlarm r p) = (pe_alarm p)\<lparr>am_active := True, am_reason := r\<rparr>"
  "pe_log (triggerAlarm r p) =
     (if am_logger (pe_alarm p) then log (''ALARM TRIGGERED: '' @ r) (pe_log p) else pe_log p)"
  by (simp_all add: triggerAlarm_def Let_def pin_simps)

lemma clearAlarm_sel [pin_simps]:
  "pe_out (clearAlarm p) = setBuzzer False (pe_out p)"
  "pe_alarm (clearAlarm p) = (pe_alarm p)\<lparr>am_active := False\<rparr>"
  "pe_log (clearAlarm p) =
     (if am_logger (pe_alarm p)
      then log ''ALARM CLEARED: System restored to normal.'' (pe_log p) else pe_log p)"
  by (simp_all add: clearAlarm_def Let_def pin_simps)

lemma isAlarmActive_simps [pin_simps]:
  "isAlarmActive (triggerAlarm r p)" "\<not> isAlarmActive (clearAlarm p)"
  "isAlarmActive (am_say m p) = isAlarmActive p"
  "isAlarmActive (p\<lparr>pe_log := l\<rparr>) = isAlarmActive p"
  "isAlarmActive (p\<lparr>pe_out := o1\<rparr>) = isAlarmActive p"
  by (simp_all add: isAlarmActive_def pin_simps)

section \<open>The ports of the state machine\<close>

definition alarm_ports :: "periph ports" where
  "alarm_ports =
     \<lparr>p_trigger = triggerAlarm, p_clear = clearAlarm, p_log = (\<lambda>m. on_log (log m))\<rparr>"

lemma alarm_ports_sel [pin_simps]:
  "p_trigger alarm_ports = triggerAlarm" "p_clear alarm_ports = clearAlarm"
  "p_log alarm_ports m p = on_log (log m) p"
  by (simp_all add: alarm_ports_def)

interpretation am: alarm_port alarm_ports isAlarmActive
  by unfold_locales (simp_all add: pin_simps)

text \<open>Pins as the peripherals of the machine show them.\<close>

lemma new_periph_idle: "am.agrees (DoorAlarmFSM (new_periph l))"
  by (simp add: am.agrees_def DoorAlarmFSM_def new_periph_def AlarmManager_def isAlarmActive_def)

text \<open>
  The alarm manager and the state machine agree: with the manager driven by the machine
  alone, after any sequence of inputs the alarm is active exactly in the state
  \<^verbatim>\<open>AlarmActive\<close>.
\<close>

theorem alarm_iff_alarm_state:
  "isAlarmActive (fs_ports (fsm_run alarm_ports ins (DoorAlarmFSM (new_periph l))))
     \<longleftrightarrow> fs_state (fsm_run alarm_ports ins (DoorAlarmFSM (new_periph l))) = AlarmActive"
  using am.run_agrees [OF new_periph_idle] by (simp add: am.agrees_def)

text \<open>
  What an alarm does to the hardware and what clearing it undoes: with the lines granted,
  triggering sounds the buzzer and lights the red LED; clearing silences the buzzer but, unlike
  the comments on \<^verbatim>\<open>stop()\<close> and \<^verbatim>\<open>clearAlarm()\<close> say, leaves the red LED lit; the reason stays
  recorded.
\<close>

theorem clearAlarm_leaves_red_led:
  assumes "oc_req (pe_out p)"
  shows "oc_buzzer (pe_out (triggerAlarm r p)) \<and> oc_red (pe_out (triggerAlarm r p))
    \<and> \<not> oc_buzzer (pe_out (stop_alarm (triggerAlarm r p)))
    \<and> oc_red (pe_out (stop_alarm (triggerAlarm r p)))
    \<and> \<not> isAlarmActive (stop_alarm (triggerAlarm r p))
    \<and> am_reason (pe_alarm (stop_alarm (triggerAlarm r p))) = r"
  using assms by (simp add: stop_alarm_def pin_simps)

theorem clearAlarm_leaves_red_led_witness:
  "oc_red (pe_out (stop_alarm (triggerAlarm ''Timeout''
     (on_out (snd \<circ> init_outputs True) (new_periph (AsyncLogger [] True True))))))"
  using clearAlarm_leaves_red_led
    [of "on_out (snd \<circ> init_outputs True) (new_periph (AsyncLogger [] True True))" "''Timeout''"]
  by (simp add: init_outputs_def new_periph_def)

end
