(* ===== verification/Access.thy ===== *)
theory Access
  imports Outputs
begin

text \<open>
  The input side: the NFC reader (\<^verbatim>\<open>src/NFCReader.cpp\<close>), the UID whitelist
  (\<^verbatim>\<open>src/AccessController.cpp\<close>), the edge-triggered GPIO inputs (\<^verbatim>\<open>src/GPIOPin.cpp\<close>), and
  the small program that joins reader, whitelist and outputs (\<^verbatim>\<open>src/main_nfc_access.cpp\<close>).
  What the operating system and libgpiod return is an input of the model.
\<close>

section \<open>NFCReader\<close>

record nfc_reader =
  nfc_port :: string
  nfc_fd :: int

definition NFCReader :: "string \<Rightarrow> nfc_reader" where
  "NFCReader p = \<lparr>nfc_port = p, nfc_fd = -1\<rparr>"

text \<open>\<open>opened\<close>: the result of \<^verbatim>\<open>open(2)\<close>.\<close>

definition init_nfc :: "int \<Rightarrow> nfc_reader \<Rightarrow> bool \<times> nfc_reader" where
  "init_nfc opened r = (0 \<le> opened, r\<lparr>nfc_fd := opened\<rparr>)"

abbreviation LF :: char where "LF \<equiv> CHR 0x0A"
abbreviation CR :: char where "CR \<equiv> CHR 0x0D"

text \<open>\<open>n\<close> is what \<^verbatim>\<open>read(2)\<close> returned and \<open>buf\<close> the buffer it filled.\<close>

definition readUID :: "int \<Rightarrow> string \<Rightarrow> string" where
  "readUID n buf =
     (if n \<le> 0 then ''''
      else let s = take (nat n) buf;
               s = filter (\<lambda>c. c \<noteq> LF) s;
               s = filter (\<lambda>c. c \<noteq> CR) s
           in s)"

lemma readUID_clean: "LF \<notin> set (readUID n buf)" "CR \<notin> set (readUID n buf)"
  by (auto simp: readUID_def Let_def)

lemma readUID_eq:
  "readUID n buf = (if n \<le> 0 then [] else filter (\<lambda>c. c \<notin> {LF, CR}) (take (nat n) buf))"
  by (auto simp: readUID_def Let_def intro: filter_cong)

section \<open>AccessController\<close>

definition allowed :: "string list" where
  "allowed = [''040ADB8A7111'', ''04361B6ABB77'']"

fun check_in :: "string list \<Rightarrow> string \<Rightarrow> bool" where
  "check_in [] uid = False"
| "check_in (authorized_id # ids) uid =
     (if authorized_id = uid then True else check_in ids uid)"

definition check :: "string \<Rightarrow> bool" where
  "check uid = check_in allowed uid"

lemma check_in_iff: "check_in ids uid \<longleftrightarrow> uid \<in> set ids"
  by (induction ids) auto

lemma check_iff: "check uid \<longleftrightarrow> uid \<in> set allowed"
  by (simp add: check_def check_in_iff)

lemma check_nonempty: "check uid \<Longrightarrow> uid \<noteq> []"
  by (auto simp: check_iff allowed_def)

text \<open>
  C12: end to end from the serial line: a read grants access exactly when it returned data
  that, apart from line feeds and carriage returns anywhere in it, is one of the two
  whitelisted UIDs. Cut, joined or padded frames and failed reads are refused.
\<close>

theorem access_iff_whitelisted_frame:
  "check (readUID n buf) \<longleftrightarrow>
     0 < n \<and> filter (\<lambda>c. c \<notin> {LF, CR}) (take (nat n) buf) \<in> {''040ADB8A7111'', ''04361B6ABB77''}"
  by (auto simp: check_iff allowed_def readUID_eq)

section \<open>GPIOPin\<close>

text \<open>\<open>gp_callback\<close>: a callback has been registered.\<close>

record gpio_pin =
  gp_running :: bool
  gp_request :: bool
  gp_pinNum :: int
  gp_callback :: bool

definition GPIOPin :: gpio_pin where
  "GPIOPin = \<lparr>gp_running = False, gp_request = False, gp_pinNum = 0, gp_callback = False\<rparr>"

definition setCallback :: "gpio_pin \<Rightarrow> gpio_pin" where
  "setCallback p = p\<lparr>gp_callback := True\<rparr>"

text \<open>\<open>hw_ok\<close>: the chip was opened and the line granted without an exception.\<close>

definition start_pin :: "bool \<Rightarrow> int \<Rightarrow> gpio_pin \<Rightarrow> gpio_pin" where
  "start_pin hw_ok pin p =
     (if gp_running p then p
      else let p = p\<lparr>gp_pinNum := pin\<rparr>
           in if hw_ok then p\<lparr>gp_request := True, gp_running := True\<rparr>
              else p\<lparr>gp_request := False\<rparr>)"

text \<open>
  What happens to the worker between two tests of its flag: a poll times out, returns a batch
  of edges (\<open>True\<close> for rising), or raises; or \<open>stop()\<close> clears the flag. A registration of the
  callback can fall in between as well.
\<close>

datatype poll = Poll_Timeout | Poll_Edges "bool list" | Poll_Error | Stop_Request | Register

definition edge_value :: "bool \<Rightarrow> int" where
  "edge_value rising = (if rising then 1 else 0)"

fun worker :: "poll list \<Rightarrow> gpio_pin \<Rightarrow> int list \<times> gpio_pin" where
  "worker [] p = ([], p)"
| "worker (x # xs) p =
     (if \<not> gp_running p then ([], p)
      else case x of
          Poll_Timeout \<Rightarrow> worker xs p
        | Poll_Edges es \<Rightarrow>
            (let (calls, p') = worker xs p
             in ((if gp_callback p then map edge_value es else []) @ calls, p'))
        | Poll_Error \<Rightarrow> worker xs (p\<lparr>gp_running := False\<rparr>)
        | Stop_Request \<Rightarrow> worker xs (p\<lparr>gp_running := False\<rparr>)
        | Register \<Rightarrow> worker xs (setCallback p))"

definition stop_pin :: "gpio_pin \<Rightarrow> gpio_pin" where
  "stop_pin p = p\<lparr>gp_running := False, gp_request := False\<rparr>"

fun edges_of :: "poll \<Rightarrow> bool list" where
  "edges_of (Poll_Edges es) = es"
| "edges_of _ = []"

definition ends_worker :: "poll \<Rightarrow> bool" where
  "ends_worker x \<longleftrightarrow> x = Poll_Error \<or> x = Stop_Request"

lemma worker_calls:
  "gp_running p \<Longrightarrow> gp_callback p \<Longrightarrow>
   fst (worker xs p) =
     map edge_value (concat (map edges_of (takeWhile (\<lambda>x. \<not> ends_worker x) xs)))"
proof (induction xs arbitrary: p)
  case (Cons x xs)
  have "fst (worker xs (p\<lparr>gp_running := False\<rparr>)) = []" by (cases xs) simp_all
  with Cons show ?case
    by (cases x) (simp_all add: ends_worker_def setCallback_def case_prod_beta)
qed simp

text \<open>
  An input line whose callback was registered before it was started reports every edge,
  in order, as 1 for rising and 0 for falling, up to the first hardware error or the stop, and
  nothing afterwards.
\<close>

theorem gpio_edges_reported_in_order:
  "fst (worker polls (start_pin True pin (setCallback GPIOPin))) =
     map edge_value (concat (map edges_of (takeWhile (\<lambda>x. \<not> ends_worker x) polls)))"
  by (rule worker_calls) (simp_all add: start_pin_def setCallback_def GPIOPin_def Let_def)

section \<open>The stand-alone NFC program\<close>

text \<open>
  One turn of the endless loop of \<^verbatim>\<open>main_nfc_access.cpp\<close>, between the steps of the detached
  threads its grants and denials start.
\<close>

datatype nfc_input = Scan int string | Tick nat

fun nfc_access_step :: "nfc_input \<Rightarrow> outputs \<Rightarrow> outputs" where
  "nfc_access_step (Scan n buf) out =
     (let uid = readUID n buf
      in if uid = [] then out
         else if check uid then granted out
         else denied out)"
| "nfc_access_step (Tick i) out = thread_step i out"

interpretation nfc_inv: safe_machine nfc_access_step signals_owed
proof
  fix s and e
  assume "signals_owed s"
  then show "signals_owed (nfc_access_step e s)"
    by (cases e) (simp_all add: Let_def thread_step_owed granted_owed denied_owed)
qed

text \<open>
  The program never leaves a signal stuck: after any reads and any interleaving of the
  detached flashing threads, as soon as those threads have finished, buzzer and red LED are
  off.
\<close>

theorem nfc_access_signals_released:
  assumes "all_finished (fold nfc_access_step ins (snd (init_outputs hw_ok OutputController)))"
  shows "\<not> oc_buzzer (fold nfc_access_step ins (snd (init_outputs hw_ok OutputController)))
       \<and> \<not> oc_red (fold nfc_access_step ins (snd (init_outputs hw_ok OutputController)))"
proof -
  have "signals_owed (snd (init_outputs hw_ok OutputController))"
    by (simp add: init_outputs_def OutputController_def signals_owed_def)
  from nfc_inv.run_inv [OF this] assms show ?thesis by (rule owed_finished)
qed

theorem nfc_access_signals_released_witness:
  "\<not> oc_buzzer (fold nfc_access_step
       ([Scan 14 (''deadbeef0000'' @ [CR, LF]), Scan 12 ''040ADB8A7111'']
         @ map Tick [0, 1, 0, 0, 1, 0, 0, 0]) (snd (init_outputs True OutputController)))"
  by (rule nfc_access_signals_released [THEN conjunct1]) code_simp

end
