(* ===== verification/Door_System.thy ===== *)
theory Door_System
  imports Alarm Access
begin

text \<open>
  The orchestrator \<^verbatim>\<open>DoorAlarmSystem\<close> (\<^verbatim>\<open>include/DoorAlarmSystem.h\<close>,
  \<^verbatim>\<open>src/DoorAlarmSystem.cpp\<close>): its callbacks, the body of each of its four loops, start and
  stop, and the step relation that interleaves them. One callback or one turn of a loop is one
  step; clocks, sensor values and what the devices return are chosen by the environment.
\<close>

section \<open>State\<close>

text \<open>
  The members of the class, the local variables of the timer loop, the static local of the
  button callback (\<^term>\<open>None\<close> until its first call initialises it), and whether the control
  thread is alive. The output controller, the alarm manager and the logger are the state
  behind the ports of the state machine.
\<close>

record system =
  sy_running :: bool
  sy_queue :: event_queue
  sy_fsm :: "periph fsm"
  sy_nfc :: nfc_reader
  sy_reed :: gpio_pin
  sy_button :: gpio_pin
  sy_trigger :: gpio_pin
  sy_camera :: bool
  sy_lastPress :: "time_point option"
  sy_lastState :: fsm_state
  sy_stateStart :: time_point
  sy_control :: bool

abbreviation on_fsm :: "(periph fsm \<Rightarrow> periph fsm) \<Rightarrow> system \<Rightarrow> system" where
  "on_fsm f s \<equiv> s\<lparr>sy_fsm := f (sy_fsm s)\<rparr>"

abbreviation on_periph :: "(periph \<Rightarrow> periph) \<Rightarrow> system \<Rightarrow> system" where
  "on_periph f s \<equiv> on_fsm (on_ports f) s"

abbreviation on_outs :: "(outputs \<Rightarrow> outputs) \<Rightarrow> system \<Rightarrow> system" where
  "on_outs f s \<equiv> on_periph (on_out f) s"

abbreviation sys_log :: "string \<Rightarrow> system \<Rightarrow> system" where
  "sys_log m s \<equiv> on_periph (on_log (log m)) s"

abbreviation outs :: "system \<Rightarrow> outputs" where
  "outs s \<equiv> pe_out (fs_ports (sy_fsm s))"

text \<open>The constructor: \<open>l\<close> is the logger over the existing audit file.\<close>

definition DoorAlarmSystem :: "async_logger \<Rightarrow> system" where
  "DoorAlarmSystem l =
     \<lparr>sy_running = False, sy_queue = EventQueue, sy_fsm = DoorAlarmFSM (new_periph l),
      sy_nfc = NFCReader ''/dev/ttyACM0'', sy_reed = setCallback GPIOPin,
      sy_button = setCallback GPIOPin, sy_trigger = GPIOPin, sy_camera = False,
      sy_lastPress = None, sy_lastState = ArmedIdle, sy_stateStart = 0, sy_control = False\<rparr>"

section \<open>Helpers and callbacks\<close>

text \<open>\<open>w\<close> is the wall-clock time at which the event object is built.\<close>

definition postEvent :: "time_point \<Rightarrow> event_type \<Rightarrow> string \<Rightarrow> system \<Rightarrow> system" where
  "postEvent w type source s = s\<lparr>sy_queue := push (Event w type source) (sy_queue s)\<rparr>"

definition updateGreenLedLogic :: "system \<Rightarrow> system" where
  "updateGreenLedLogic s =
     (let fsmAuthorized = (getState (sy_fsm s) = AuthorizedEntry);
          doorClosed = (\<not> isDoorOpen (sy_fsm s))
      in if (fsmAuthorized \<and> doorClosed) \<or> sy_camera s
         then on_outs (setGreenLed True) s
         else on_outs (setGreenLed False) s)"

definition onReedSwitchChange :: "time_point \<Rightarrow> int \<Rightarrow> system \<Rightarrow> system" where
  "onReedSwitchChange w value s =
     (let isOpen = (value = 1);
          s = on_fsm (setDoorState isOpen) s;
          s = updateGreenLedLogic s
      in if isOpen
         then let s = on_outs (setRedLed True) s;
                  s = sys_log ''SENSOR: Door physically OPENED.'' s
              in postEvent w DoorOpened ''ReedSwitch'' s
         else let s = on_outs (setRedLed False) s;
                  s = sys_log ''SENSOR: Door physically CLOSED.'' s
              in postEvent w DoorClosed ''ReedSwitch'' s)"

text \<open>\<open>t0\<close> is the clock when the static local is initialised, \<open>now\<close> the reading after it.\<close>

definition onButtonPress ::
  "time_point \<Rightarrow> time_point \<Rightarrow> time_point \<Rightarrow> int \<Rightarrow> system \<Rightarrow> system" where
  "onButtonPress w t0 now value s =
     (let lastPressTime = (case sy_lastPress s of None \<Rightarrow> t0 | Some t \<Rightarrow> t);
          s = s\<lparr>sy_lastPress := Some lastPressTime\<rparr>
      in if value = 1 \<and> now - lastPressTime > milliseconds 500
         then if isDoorOpen (sy_fsm s)
              then sys_log ''HARDWARE: Exit button ignored. Door is already open.'' s
              else let s = s\<lparr>sy_lastPress := Some now\<rparr>;
                       s = sys_log ''HARDWARE: Exit button pressed.'' s
                   in postEvent w AuthorizedByApp ''Push_Button'' s
         else s)"

definition onCameraSignal :: "int \<Rightarrow> system \<Rightarrow> system" where
  "onCameraSignal value s =
     (let signalHigh = (value = 1)
      in if signalHigh \<noteq> sy_camera s
         then let s = s\<lparr>sy_camera := signalHigh\<rparr>;
                  s = (if sy_camera s
                       then sys_log ''EXTERNAL: Camera signal detected (HIGH).'' s
                       else sys_log ''EXTERNAL: Camera signal lost (LOW).'' s)
              in updateGreenLedLogic s
         else s)"

section \<open>The loops\<close>

text \<open>The thread that flashes buzzer and LED after a refused tag.\<close>

definition nfc_denied_thread :: "pin_action list" where
  "nfc_denied_thread =
     [Set_Buzzer True, Set_Red True, Sleep (seconds 2), Set_Buzzer False, Set_Red False]"

text \<open>One turn of \<^verbatim>\<open>nfcLoop\<close>; \<open>n\<close> and \<open>buf\<close> are what the serial read returned.\<close>

definition nfcLoop_turn :: "time_point \<Rightarrow> int \<Rightarrow> string \<Rightarrow> system \<Rightarrow> system" where
  "nfcLoop_turn w n buf s =
     (let uid = readUID n buf
      in if uid \<noteq> []
         then if isDoorOpen (sy_fsm s)
              then sys_log (''NFC: Tag '' @ uid @ '' ignored. Door is open.'') s
              else let s = sys_log (''NFC: Detected UID '' @ uid) s
                   in if check uid
                      then postEvent w AuthorizedByNfc uid s
                      else let s = sys_log (''NFC: Access Denied for UID '' @ uid) s
                           in on_outs (spawn nfc_denied_thread) s
         else s)"

text \<open>
  One turn of \<^verbatim>\<open>controlLoop\<close>; \<open>w\<close> is the time of the dummy event, \<open>t\<close> the clock read by
  the state machine.
\<close>

definition controlLoop_turn :: "time_point \<Rightarrow> time_point \<Rightarrow> system \<Rightarrow> system turn" where
  "controlLoop_turn w t s =
     (case waitAndPop (Event w PrintStatus ''system'') (sy_queue s) of
        None \<Rightarrow> Waits
      | Some (popped, e, q) \<Rightarrow>
          (let s = s\<lparr>sy_queue := q\<rparr>
           in if \<not> popped then Exits s
              else if ev_type e = Shutdown then Exits s
              else let s = on_fsm (handleEvent alarm_ports t e) s;
                       s = updateGreenLedLogic s
                   in Goes (if getState (sy_fsm s) = AlarmActive then on_outs denied s else s)))"

text \<open>The loop, for as many turns as clock readings are given.\<close>

fun controlLoop :: "(time_point \<times> time_point) list \<Rightarrow> system \<Rightarrow> system turn" where
  "controlLoop [] s = Goes s"
| "controlLoop ((w, t) # ts) s =
     (case controlLoop_turn w t s of Goes s' \<Rightarrow> controlLoop ts s' | r \<Rightarrow> r)"

text \<open>
  One turn of \<^verbatim>\<open>timerLoop\<close>, with its up to three readings of the steady clock: when a state
  change is noticed, for the elapsed time, and against the deadline.
\<close>

definition timerLoop_turn ::
  "time_point \<Rightarrow> time_point \<Rightarrow> time_point \<Rightarrow> time_point \<Rightarrow> system \<Rightarrow> system" where
  "timerLoop_turn w t1 t2 t3 s =
     (let currentState = getState (sy_fsm s);
          s = (if currentState \<noteq> sy_lastState s
               then s\<lparr>sy_stateStart := t1, sy_lastState := currentState\<rparr> else s);
          elapsed = t2 - sy_stateStart s;
          s = (if currentState = AlarmActive \<and> elapsed > seconds 5
               then on_periph clearAlarm s else s);
          s = (if currentState = AuthorizedEntry \<and> elapsed > seconds 1
               then postEvent w DoorClosed ''AutoReset''
                      (sys_log ''TIMER: Authorized window expired. Resetting FSM.'' s)
               else s);
          deadline = getVerificationDeadline (sy_fsm s)
      in if currentState = PendingVerification \<and> deadline \<noteq> None
         then if t3 \<ge> the deadline then postEvent w VerificationTimeout ''timer'' s else s
         else s)"

text \<open>The handler of \<^verbatim>\<open>GET /status\<close> installed by \<^verbatim>\<open>apiLoop\<close>.\<close>

definition api_status :: "system \<Rightarrow> string" where
  "api_status s = ''State: '' @ toString (getState (sy_fsm s))"

section \<open>Start and stop\<close>

text \<open>What the devices answer at start-up.\<close>

record start_env =
  env_nfc_fd :: int
  env_outputs :: bool
  env_reed :: bool
  env_button :: bool
  env_trigger :: bool

text \<open>\<open>t\<close> is the clock read by the timer thread when it begins.\<close>

definition start :: "start_env \<Rightarrow> time_point \<Rightarrow> system \<Rightarrow> system" where
  "start env t s =
     (if sy_running s then s
      else let (nfc_ok, nfc) = init_nfc (env_nfc_fd env) (sy_nfc s);
               s = s\<lparr>sy_nfc := nfc\<rparr>;
               s = (if \<not> nfc_ok
                    then sys_log ''SYSTEM ERROR: NFC Reader failed to initialize.'' s else s);
               (out_ok, out) = init_outputs (env_outputs env) (outs s);
               s = on_outs (\<lambda>_. out) s
           in if \<not> out_ok
              then sys_log ''CRITICAL ERROR: Output Controller failed on gpiochip0.'' s
              else let s = s\<lparr>sy_running := True\<rparr>;
                       s = on_periph (on_log start_logger) s;
                       s = on_periph start_alarm s;
                       s = s\<lparr>sy_reed := start_pin (env_reed env) 23 (sy_reed s)\<rparr>;
                       s = s\<lparr>sy_button := start_pin (env_button env) 19 (sy_button s)\<rparr>;
                       s = s\<lparr>sy_trigger := start_pin (env_trigger env) 17 (sy_trigger s)\<rparr>;
                       s = s\<lparr>sy_trigger := setCallback (sy_trigger s)\<rparr>;
                       s = on_fsm (setAuthorizationWindow (milliseconds 5000)) s;
                       s = sys_log (''SYSTEM: Initial State = '' @ toString (getState (sy_fsm s))) s;
                       s = s\<lparr>sy_control := True, sy_lastState := ArmedIdle, sy_stateStart := t\<rparr>
                   in sys_log ''SYSTEM: All threads active.'' s)"

text \<open>
  \<^verbatim>\<open>stop()\<close> up to the joins, and what it does once the threads have ended. (The logger's
  worker drains its queue by its own steps.)
\<close>

definition stop_begin :: "time_point \<Rightarrow> system \<Rightarrow> system" where
  "stop_begin w s =
     (if \<not> sy_running s then s
      else let s = s\<lparr>sy_running := False\<rparr>;
               s = postEvent w Shutdown ''main'' s;
               s = s\<lparr>sy_queue := shutdown (sy_queue s)\<rparr>
           in s\<lparr>sy_reed := stop_pin (sy_reed s), sy_button := stop_pin (sy_button s),
                sy_trigger := stop_pin (sy_trigger s)\<rparr>)"

definition stop_end :: "system \<Rightarrow> system" where
  "stop_end s =
     (let s = on_periph stop_alarm s;
          s = sys_log ''SYSTEM: Stopped.'' s
      in on_periph (on_log stop_logger) s)"

section \<open>Interleavings\<close>

inductive sys_step :: "system \<Rightarrow> system \<Rightarrow> bool" where
  reed: "gp_running (sy_reed s) \<Longrightarrow> sys_step s (onReedSwitchChange w (edge_value r) s)"
| button: "gp_running (sy_button s) \<Longrightarrow> t0 \<le> now \<Longrightarrow>
    sys_step s (onButtonPress w t0 now (edge_value r) s)"
| camera: "gp_running (sy_trigger s) \<Longrightarrow> sys_step s (onCameraSignal (edge_value r) s)"
| nfc: "sy_running s \<Longrightarrow> sys_step s (nfcLoop_turn w n buf s)"
| timer: "sy_running s \<Longrightarrow> t1 \<le> t2 \<Longrightarrow> t2 \<le> t3 \<Longrightarrow> sys_step s (timerLoop_turn w t1 t2 t3 s)"
| control: "sy_control s \<Longrightarrow> controlLoop_turn w t s = Goes s' \<Longrightarrow> sys_step s s'"
| control_exit: "sy_control s \<Longrightarrow> controlLoop_turn w t s = Exits s' \<Longrightarrow>
    sys_step s (s'\<lparr>sy_control := False\<rparr>)"
| flash: "sys_step s (on_outs (thread_step i) s)"
| logger: "processLogs_turn ts (pe_log (fs_ports (sy_fsm s))) = Goes l \<Longrightarrow>
    sys_step s (on_periph (on_log (\<lambda>_. l)) s)"
| start: "sys_step s (start env t s)"
| stop_request: "sys_step s (stop_begin w s)"
| stop_finish: "\<not> sy_running s \<Longrightarrow> \<not> sy_control s \<Longrightarrow> eq_shutdown (sy_queue s) \<Longrightarrow>
    sys_step s (stop_end s)"

inductive_cases sys_step_cases: "sys_step s t"

section \<open>Facts about single steps\<close>

lemma on_ports_sel [sys_simps]:
  "fs_state (on_ports f m) = fs_state m" "fs_doorOpen (on_ports f m) = fs_doorOpen m"
  "fs_deadline (on_ports f m) = fs_deadline m" "fs_window (on_ports f m) = fs_window m"
  by simp_all

text \<open>The OR gate of the green LED as a predicate.\<close>

definition green_wanted :: "system \<Rightarrow> bool" where
  "green_wanted s \<longleftrightarrow>
     (fs_state (sy_fsm s) = AuthorizedEntry \<and> \<not> fs_doorOpen (sy_fsm s)) \<or> sy_camera s"

lemma updateGreenLedLogic_eq:
  "updateGreenLedLogic s = on_outs (setGreenLed (green_wanted s)) s"
proof -
  have "updateGreenLedLogic s =
      (if green_wanted s then on_outs (setGreenLed True) s else on_outs (setGreenLed False) s)"
    by (simp only: updateGreenLedLogic_def green_wanted_def getter_defs Let_def)
  then show ?thesis by (cases "green_wanted s") simp_all
qed

lemma postEvent_sel [sys_simps]:
  "sy_queue (postEvent w ty src s) = push (Event w ty src) (sy_queue s)"
  "sy_fsm (postEvent w ty src s) = sy_fsm s" "sy_running (postEvent w ty src s) = sy_running s"
  "sy_camera (postEvent w ty src s) = sy_camera s"
  "sy_control (postEvent w ty src s) = sy_control s"
  "sy_lastState (postEvent w ty src s) = sy_lastState s"
  "sy_stateStart (postEvent w ty src s) = sy_stateStart s"
  "sy_lastPress (postEvent w ty src s) = sy_lastPress s"
  by (simp_all add: postEvent_def)

lemma updateGreenLedLogic_sel [sys_simps]:
  "sy_queue (updateGreenLedLogic s) = sy_queue s"
  "fs_state (sy_fsm (updateGreenLedLogic s)) = fs_state (sy_fsm s)"
  "fs_doorOpen (sy_fsm (updateGreenLedLogic s)) = fs_doorOpen (sy_fsm s)"
  "fs_deadline (sy_fsm (updateGreenLedLogic s)) = fs_deadline (sy_fsm s)"
  "fs_window (sy_fsm (updateGreenLedLogic s)) = fs_window (sy_fsm s)"
  "pe_alarm (fs_ports (sy_fsm (updateGreenLedLogic s))) = pe_alarm (fs_ports (sy_fsm s))"
  "pe_log (fs_ports (sy_fsm (updateGreenLedLogic s))) = pe_log (fs_ports (sy_fsm s))"
  "outs (updateGreenLedLogic s) = setGreenLed (green_wanted s) (outs s)"
  "sy_camera (updateGreenLedLogic s) = sy_camera s"
  "sy_running (updateGreenLedLogic s) = sy_running s"
  "sy_control (updateGreenLedLogic s) = sy_control s"
  "sy_lastState (updateGreenLedLogic s) = sy_lastState s"
  "sy_stateStart (updateGreenLedLogic s) = sy_stateStart s"
  by (simp_all add: updateGreenLedLogic_eq)

text \<open>The control thread's turn on a queue with an event at its head.\<close>

lemma controlLoop_turn_Goes:
  assumes "eq_queue (sy_queue s) = e # es" and "ev_type e \<noteq> Shutdown"
  shows "controlLoop_turn w t s =
    Goes (let s1 = updateGreenLedLogic
                     (on_fsm (handleEvent alarm_ports t e)
                       (s\<lparr>sy_queue := (sy_queue s)\<lparr>eq_queue := es\<rparr>\<rparr>))
          in if fs_state (sy_fsm s1) = AlarmActive then on_outs denied s1 else s1)"
  using assms by (simp add: controlLoop_turn_def waitAndPop_def pop_front_def getter_defs Let_def)

lemma controlLoop_turn_cases:
  obtains (waits) "controlLoop_turn w t s = Waits" "eq_queue (sy_queue s) = []"
      "\<not> eq_shutdown (sy_queue s)"
  | (ended) "controlLoop_turn w t s = Exits s" "eq_queue (sy_queue s) = []"
      "eq_shutdown (sy_queue s)"
  | (quit) e es where "eq_queue (sy_queue s) = e # es" "ev_type e = Shutdown"
      "controlLoop_turn w t s = Exits (s\<lparr>sy_queue := (sy_queue s)\<lparr>eq_queue := es\<rparr>\<rparr>)"
  | (event) e es where "eq_queue (sy_queue s) = e # es" "ev_type e \<noteq> Shutdown"
proof (cases "eq_queue (sy_queue s)")
  case Nil
  then show ?thesis
    using waits ended
    by (cases "eq_shutdown (sy_queue s)")
      (simp_all add: controlLoop_turn_def waitAndPop_def pop_front_def Let_def)
next
  case (Cons e es)
  then show ?thesis
    using quit event
    by (cases "ev_type e = Shutdown")
      (simp_all add: controlLoop_turn_def waitAndPop_def pop_front_def Let_def)
qed

text \<open>What a turn that handles an event leaves behind.\<close>

definition after_event :: "time_point \<Rightarrow> event \<Rightarrow> event list \<Rightarrow> system \<Rightarrow> system" where
  "after_event t e es s =
     (let s1 = updateGreenLedLogic
                 (on_fsm (handleEvent alarm_ports t e)
                   (s\<lparr>sy_queue := (sy_queue s)\<lparr>eq_queue := es\<rparr>\<rparr>))
      in if fs_state (sy_fsm s1) = AlarmActive then on_outs denied s1 else s1)"

lemma controlLoop_turn_event:
  "eq_queue (sy_queue s) = e # es \<Longrightarrow> ev_type e \<noteq> Shutdown \<Longrightarrow>
   controlLoop_turn w t s = Goes (after_event t e es s)"
  by (simp add: controlLoop_turn_Goes after_event_def)

lemma after_event_sel [sys_simps]:
  "fs_state (sy_fsm (after_event t e es s)) = fs_state (handleEvent alarm_ports t e (sy_fsm s))"
  "fs_doorOpen (sy_fsm (after_event t e es s)) = fs_doorOpen (handleEvent alarm_ports t e (sy_fsm s))"
  "fs_deadline (sy_fsm (after_event t e es s)) = fs_deadline (handleEvent alarm_ports t e (sy_fsm s))"
  "fs_window (sy_fsm (after_event t e es s)) = fs_window (sy_fsm s)"
  "pe_alarm (fs_ports (sy_fsm (after_event t e es s)))
     = pe_alarm (fs_ports (handleEvent alarm_ports t e (sy_fsm s)))"
  "eq_queue (sy_queue (after_event t e es s)) = es"
  "eq_shutdown (sy_queue (after_event t e es s)) = eq_shutdown (sy_queue s)"
  "sy_running (after_event t e es s) = sy_running s"
  "sy_control (after_event t e es s) = sy_control s"
  "sy_camera (after_event t e es s) = sy_camera s"
  "sy_lastState (after_event t e es s) = sy_lastState s"
  "sy_stateStart (after_event t e es s) = sy_stateStart s"
  by (simp_all add: after_event_def Let_def sys_simps fsm_simps)

section \<open>The system invariant\<close>

text \<open>
  The events the program itself creates: only the NFC loop posts NFC authorizations, and only
  for whitelisted tags; app authorizations come from the exit button alone; nothing posts an
  arm or a disarm request.
\<close>

definition genuine :: "event \<Rightarrow> bool" where
  "genuine e \<longleftrightarrow>
     (ev_type e = AuthorizedByNfc \<longrightarrow> ev_source e \<in> set allowed) \<and>
     (ev_type e = AuthorizedByApp \<longrightarrow> ev_source e = ''Push_Button'') \<and>
     ev_type e \<noteq> ArmSystem \<and> ev_type e \<noteq> DisarmSystem"

definition sys_ok :: "system \<Rightarrow> bool" where
  "sys_ok s \<longleftrightarrow>
     fsm_ok (sy_fsm s) \<and> am.sound (sy_fsm s) \<and> fs_state (sy_fsm s) \<noteq> Disarmed \<and>
     (\<forall>e \<in> set (eq_queue (sy_queue s)). genuine e)"

lemma fsm_ok_ports [sys_simps]: "fsm_ok (on_ports f m) = fsm_ok m"
  by (simp add: fsm_ok_def)

lemma sound_iff: "am.sound m \<longleftrightarrow> (am_active (pe_alarm (fs_ports m)) \<longrightarrow> fs_state m = AlarmActive)"
  by (simp add: am.sound_def isAlarmActive_def)

lemma push_genuine:
  "genuine e \<Longrightarrow> \<forall>e \<in> set (eq_queue q). genuine e \<Longrightarrow> \<forall>e \<in> set (eq_queue (push e q)). genuine e"
  by (auto simp: push_def)

lemma sys_ok_init: "sys_ok (DoorAlarmSystem l)"
  by (simp add: sys_ok_def DoorAlarmSystem_def fsm_ok_init sound_iff EventQueue_def)
    (simp add: DoorAlarmFSM_def new_periph_def AlarmManager_def)

text \<open>Steps that touch neither the control state nor the alarm keep the invariant.\<close>

lemma sys_ok_frame:
  assumes "sys_ok s" and "fs_state (sy_fsm t) = fs_state (sy_fsm s)"
    and "fs_deadline (sy_fsm t) = fs_deadline (sy_fsm s)"
    and "pe_alarm (fs_ports (sy_fsm t)) = pe_alarm (fs_ports (sy_fsm s))"
    and "sy_queue t = sy_queue s"
  shows "sys_ok t"
  using assms by (simp add: sys_ok_def fsm_ok_def sound_iff)

lemma push_genuine_iff [sys_simps]:
  "genuine e \<Longrightarrow>
   (\<forall>e' \<in> set (eq_queue (push e q)). genuine e') \<longleftrightarrow> (\<forall>e' \<in> set (eq_queue q). genuine e')"
  by (auto simp: push_def)

lemma sys_ok_iff:
  "sys_ok s \<longleftrightarrow>
     (fs_deadline (sy_fsm s) \<noteq> None \<longleftrightarrow> fs_state (sy_fsm s) = PendingVerification) \<and>
     fs_state (sy_fsm s) \<noteq> Fault \<and> fs_state (sy_fsm s) \<noteq> Disarmed \<and>
     (am_active (pe_alarm (fs_ports (sy_fsm s))) \<longrightarrow> fs_state (sy_fsm s) = AlarmActive) \<and>
     (\<forall>e \<in> set (eq_queue (sy_queue s)). genuine e)"
  by (auto simp: sys_ok_def fsm_ok_def sound_iff)

lemma flash_ok: "sys_ok s \<Longrightarrow> sys_ok (on_outs f s)"
  and logger_ok: "sys_ok s \<Longrightarrow> sys_ok (on_periph (on_log g) s)"
  by (simp_all add: sys_ok_iff)

lemma control_gone_ok: "sys_ok s \<Longrightarrow> sys_ok (s\<lparr>sy_control := False\<rparr>)"
  by (simp add: sys_ok_iff)

lemma genuine_Event [sys_simps]:
  "genuine (Event w ty src) \<longleftrightarrow>
     (ty = AuthorizedByNfc \<longrightarrow> src \<in> set allowed) \<and> (ty = AuthorizedByApp \<longrightarrow> src = ''Push_Button'')
     \<and> ty \<noteq> ArmSystem \<and> ty \<noteq> DisarmSystem"
  by (simp add: genuine_def Event_def)

lemma reed_ok: "sys_ok s \<Longrightarrow> sys_ok (onReedSwitchChange w v s)"
  by (simp add: sys_ok_iff onReedSwitchChange_def Let_def sys_simps setDoorState_def)

lemma button_ok: "sys_ok s \<Longrightarrow> sys_ok (onButtonPress w t0 now v s)"
  by (simp add: sys_ok_iff onButtonPress_def Let_def sys_simps)

lemma camera_ok: "sys_ok s \<Longrightarrow> sys_ok (onCameraSignal v s)"
  by (simp add: sys_ok_iff onCameraSignal_def Let_def sys_simps)

lemma nfc_ok: "sys_ok s \<Longrightarrow> sys_ok (nfcLoop_turn w n buf s)"
  by (simp add: sys_ok_iff nfcLoop_turn_def Let_def sys_simps check_iff)

lemma timer_ok: "sys_ok s \<Longrightarrow> sys_ok (timerLoop_turn w t1 t2 t3 s)"
  by (cases "fs_state (sy_fsm s)")
    (simp_all add: sys_ok_iff timerLoop_turn_def Let_def sys_simps getter_defs pin_simps)

lemma start_ok: "sys_ok s \<Longrightarrow> sys_ok (start env t s)"
  by (simp add: sys_ok_iff start_def Let_def sys_simps getter_defs pin_simps split_beta
      start_alarm_def)

lemma stop_begin_ok: "sys_ok s \<Longrightarrow> sys_ok (stop_begin w s)"
  by (simp add: sys_ok_iff stop_begin_def Let_def sys_simps shutdown_def)

lemma stop_end_ok: "sys_ok s \<Longrightarrow> sys_ok (stop_end s)"
  by (simp add: sys_ok_iff stop_end_def Let_def sys_simps pin_simps stop_alarm_def)

text \<open>The control thread: the state machine keeps its own invariants.\<close>

lemma handleEvent_not_Disarmed:
  "genuine e \<Longrightarrow> fs_state m \<noteq> Disarmed \<Longrightarrow> fs_state (handleEvent P t e m) \<noteq> Disarmed"
  by (cases "ev_type e") (auto simp: genuine_def fsm_simps)

lemma fsm_ok_sound_cong:
  assumes "fs_state m' = fs_state m" and "fs_deadline m' = fs_deadline m"
    and "pe_alarm (fs_ports m') = pe_alarm (fs_ports m)"
  shows "fsm_ok m' = fsm_ok m" and "am.sound m' = am.sound m"
  using assms by (simp_all add: fsm_ok_def sound_iff)

lemma after_event_ok:
  assumes ok: "sys_ok s" and q: "eq_queue (sy_queue s) = e # es"
  shows "sys_ok (after_event t e es s)"
proof -
  let ?m = "sy_fsm (after_event t e es s)" and ?h = "handleEvent alarm_ports t e (sy_fsm s)"
  have "fsm_ok ?m = fsm_ok ?h" "am.sound ?m = am.sound ?h"
    by (rule fsm_ok_sound_cong; simp only: sys_simps)+
  moreover have "fsm_ok ?h" "am.sound ?h"
    using ok by (simp_all add: sys_ok_def handleEvent_ok am.handleEvent_sound)
  moreover have "fs_state ?m \<noteq> Disarmed"
    using ok q handleEvent_not_Disarmed [of e "sy_fsm s" alarm_ports t]
    by (simp add: sys_ok_def sys_simps)
  ultimately show ?thesis using ok q by (simp add: sys_ok_def sys_simps)
qed

lemma control_ok:
  assumes ok: "sys_ok s"
  shows "controlLoop_turn w t s = Goes s' \<Longrightarrow> sys_ok s'"
    and "controlLoop_turn w t s = Exits s' \<Longrightarrow> sys_ok s'"
proof -
  have tl: "eq_queue (sy_queue s) = e # es \<Longrightarrow>
      sys_ok (s\<lparr>sy_queue := (sy_queue s)\<lparr>eq_queue := es\<rparr>\<rparr>)" for e es
    using ok by (simp add: sys_ok_def)
  show "controlLoop_turn w t s = Goes s' \<Longrightarrow> sys_ok s'"
    by (cases rule: controlLoop_turn_cases [of w t s])
      (auto simp: controlLoop_turn_event after_event_ok [OF ok])
  show "controlLoop_turn w t s = Exits s' \<Longrightarrow> sys_ok s'"
    by (cases rule: controlLoop_turn_cases [of w t s])
      (use ok in \<open>auto simp: controlLoop_turn_event tl\<close>)
qed

interpretation sysinv: safe_relation sys_step sys_ok
proof
  fix s t
  assume "sys_step s t" and "sys_ok s"
  then show "sys_ok t"
  proof (induction rule: sys_step.induct)
    case (control s w t s')
    show ?case by (rule control_ok(1) [OF control(3) control(2)])
  next
    case (control_exit s w t s')
    show ?case by (rule control_gone_ok [OF control_ok(2) [OF control_exit(3) control_exit(2)]])
  next
    case (flash i s)
    show ?case by (rule flash_ok [OF flash])
  next
    case (logger ts s l)
    show ?case by (rule logger_ok [OF logger(2)])
  qed (erule reed_ok button_ok camera_ok nfc_ok timer_ok start_ok stop_begin_ok stop_end_ok)+
qed

text \<open>
  C2: in every state the orchestrator can reach, under every interleaving of its threads and
  callbacks with every behaviour of the devices: a deadline is set exactly while a
  verification is pending, the machine is neither in \<^verbatim>\<open>Fault\<close> nor in \<^verbatim>\<open>Disarmed\<close>, a sounding alarm
  means the state \<^verbatim>\<open>AlarmActive\<close>, and every queued authorization stems from a whitelisted tag
  or from the exit button.
\<close>

theorem reachable_states_consistent:
  assumes "sys_step\<^sup>*\<^sup>* (DoorAlarmSystem l) s"
  shows "(fs_deadline (sy_fsm s) \<noteq> None \<longleftrightarrow> fs_state (sy_fsm s) = PendingVerification)
    \<and> fs_state (sy_fsm s) \<noteq> Fault \<and> fs_state (sy_fsm s) \<noteq> Disarmed
    \<and> (isAlarmActive (fs_ports (sy_fsm s)) \<longrightarrow> fs_state (sy_fsm s) = AlarmActive)
    \<and> (\<forall>e \<in> set (eq_queue (sy_queue s)).
         (ev_type e = AuthorizedByNfc \<longrightarrow> check (ev_source e))
       \<and> (ev_type e = AuthorizedByApp \<longrightarrow> ev_source e = ''Push_Button''))"
  using sysinv.star_inv [OF assms sys_ok_init]
  by (auto simp: sys_ok_iff genuine_def check_iff isAlarmActive_def)

end
