(* ===== verification/Door_Scenarios.thy ===== *)
theory Door_Scenarios
  imports Door_System
begin

text \<open>
  Behaviour of the assembled alarm system: what the control loop makes of a queue of events,
  where authorizations come from, the LED gate, an intrusion from the reed switch to the
  buzzer, shutting down, and the orders of events in which the timer's own events arrive after
  the situation they were meant for.
\<close>

section \<open>The control loop and its queue\<close>

definition table_run :: "event list \<Rightarrow> fsm_state \<times> bool \<Rightarrow> fsm_state \<times> bool" where
  "table_run es c = fold (\<lambda>e. spec_next (ev_type e)) es c"

lemma table_run_simps [simp]:
  "table_run [] c = c" "table_run (e # es) c = table_run es (spec_next (ev_type e) c)"
  by (simp_all add: table_run_def)

text \<open>What the control loop leaves alone, besides handling the events \<open>es\<close>.\<close>

definition handled :: "event list \<Rightarrow> event list \<Rightarrow> system \<Rightarrow> system \<Rightarrow> bool" where
  "handled es rest s s' \<longleftrightarrow>
     control (sy_fsm s') = table_run es (control (sy_fsm s)) \<and>
     eq_queue (sy_queue s') = rest \<and> eq_shutdown (sy_queue s') = eq_shutdown (sy_queue s) \<and>
     sy_camera s' = sy_camera s \<and> sy_lastState s' = sy_lastState s \<and>
     sy_running s' = sy_running s"

lemma handled_event:
  assumes "handled es rest (after_event t e (es @ rest) s) s'"
  shows "handled (e # es) rest s s'"
  using assms handleEvent_control [of alarm_ports t e "sy_fsm s"]
  by (simp add: handled_def control_def sys_simps)

lemma controlLoop_events:
  assumes "eq_queue (sy_queue s) = es @ rest" and "length ts = length es"
    and "\<forall>e \<in> set es. ev_type e \<noteq> Shutdown"
  shows "\<exists>s'. controlLoop ts s = Goes s' \<and> handled es rest s s'"
  using assms
proof (induction es arbitrary: s ts)
  case Nil
  then show ?case by (simp add: handled_def)
next
  case (Cons e es)
  then obtain w t ts' where ts: "ts = (w, t) # ts'" "length ts' = length es"
    by (cases ts) auto
  let ?s = "after_event t e (es @ rest) s"
  have turn: "controlLoop_turn w t s = Goes ?s"
    using Cons.prems by (intro controlLoop_turn_event) simp_all
  have "\<exists>s'. controlLoop ts' ?s = Goes s' \<and> handled es rest ?s s'"
    using Cons.prems(3) ts(2) by (intro Cons.IH) (simp_all add: sys_simps)
  then show ?case using turn ts(1) handled_event by auto
qed

lemma controlLoop_append:
  "controlLoop (ts @ us) s = (case controlLoop ts s of Goes s' \<Rightarrow> controlLoop us s' | r \<Rightarrow> r)"
  by (induction ts s rule: controlLoop.induct) (auto split: turn.splits)

text \<open>A started system with every device present, for the concrete instances.\<close>

definition demo :: system where
  "demo =
     start \<lparr>env_nfc_fd = 3, env_outputs = True, env_reed = True, env_button = True,
             env_trigger = True\<rparr> 0 (DoorAlarmSystem (AsyncLogger [] True True))"

lemma demo_sel [sys_simps]:
  "sy_running demo" "sy_control demo" "sy_queue demo = EventQueue" "\<not> sy_camera demo"
  "fs_state (sy_fsm demo) = ArmedIdle" "\<not> fs_doorOpen (sy_fsm demo)"
  "fs_deadline (sy_fsm demo) = None" "fs_window (sy_fsm demo) = milliseconds 5000"
  "oc_req (outs demo)" "sy_lastState demo = ArmedIdle" "sy_lastPress demo = None"
  "sy_stateStart demo = 0" "gp_running (sy_reed demo)" "gp_running (sy_button demo)"
  "\<not> am_active (pe_alarm (fs_ports (sy_fsm demo)))"
  by (simp_all add: demo_def start_def DoorAlarmSystem_def Let_def init_outputs_def
      init_nfc_def start_alarm_def am_say_def new_periph_def DoorAlarmFSM_def AlarmManager_def
      start_pin_def setCallback_def GPIOPin_def getter_defs postEvent_def
      cong: let_weak_cong)

definition load :: "event list \<Rightarrow> system \<Rightarrow> system" where
  "load es s = s\<lparr>sy_queue := \<lparr>eq_queue = es, eq_shutdown = False\<rparr>\<rparr>"

lemma load_sel [sys_simps]:
  "eq_queue (sy_queue (load es s)) = es" "\<not> eq_shutdown (sy_queue (load es s))"
  "sy_fsm (load es s) = sy_fsm s" "sy_running (load es s) = sy_running s"
  "sy_lastState (load es s) = sy_lastState s" "sy_stateStart (load es s) = sy_stateStart s"
  by (simp_all add: load_def)

text \<open>
  C6: the control loop refines the transition table: with the events \<open>es\<close> at the head of the
  queue, none of them \<^verbatim>\<open>Shutdown\<close>, \<open>length es\<close> turns handle exactly those, in order, each one
  once; what is queued behind them stays queued.
\<close>

theorem controlLoop_refines_table:
  assumes "eq_queue (sy_queue s) = es @ rest" and "\<forall>e \<in> set es. ev_type e \<noteq> Shutdown"
    and "length ts = length es"
  shows "\<exists>s'. controlLoop ts s = Goes s' \<and> eq_queue (sy_queue s') = rest \<and>
    control (sy_fsm s') = table_run es (control (sy_fsm s))"
  using controlLoop_events [OF assms(1,3,2)] by (auto simp: handled_def)

theorem controlLoop_refines_table_witness:
  "\<exists>s'. controlLoop [(0, 1), (0, 2)]
          (load [Event 0 DoorOpened ''ReedSwitch'', Event 0 VerificationTimeout ''timer''] demo)
        = Goes s' \<and> fs_state (sy_fsm s') = AlarmActive"
proof -
  have "control (sy_fsm demo) = (ArmedIdle, False)" by (simp add: control_def sys_simps)
  then show ?thesis
    using controlLoop_refines_table [of
        "load [Event 0 DoorOpened ''ReedSwitch'', Event 0 VerificationTimeout ''timer''] demo"
        "[Event 0 DoorOpened ''ReedSwitch'', Event 0 VerificationTimeout ''timer'']" "[]"
        "[(0, 1), (0, 2)]"]
    by (auto simp: sys_simps Event_def control_def simp del: controlLoop.simps)
qed

text \<open>
  C7: shutting down ends the control thread: after \<^verbatim>\<open>stop()\<close> has posted \<^verbatim>\<open>Shutdown\<close> and closed
  the queue, the loop handles every event queued before and then leaves, in one turn more than
  there were events; no event is lost and none is handled twice.
\<close>

theorem controlLoop_ends_after_stop:
  assumes "sy_running s" and "\<not> eq_shutdown (sy_queue s)"
    and "\<forall>e \<in> set (eq_queue (sy_queue s)). ev_type e \<noteq> Shutdown"
    and "length ts = Suc (length (eq_queue (sy_queue s)))"
  shows "\<exists>s'. controlLoop ts (stop_begin w s) = Exits s' \<and> eq_queue (sy_queue s') = [] \<and>
    control (sy_fsm s') = table_run (eq_queue (sy_queue s)) (control (sy_fsm s))"
proof -
  let ?es = "eq_queue (sy_queue s)" and ?s = "stop_begin w s"
  have q: "eq_queue (sy_queue ?s) = ?es @ [Event w Shutdown ''main'']" and fsm: "sy_fsm ?s = sy_fsm s"
    using assms(1,2) by (simp_all add: stop_begin_def Let_def sys_simps shutdown_def push_def)
  obtain us v where ts: "ts = us @ [v]" "length us = length ?es"
    using assms(4) by (metis length_Suc_conv_rev)
  obtain s' where s': "controlLoop us ?s = Goes s'"
      "control (sy_fsm s') = table_run ?es (control (sy_fsm ?s))"
      "eq_queue (sy_queue s') = [Event w Shutdown ''main'']"
    using controlLoop_events [OF q ts(2) assms(3)] by (auto simp: handled_def)
  then have "controlLoop ts ?s = Exits (s'\<lparr>sy_queue := (sy_queue s')\<lparr>eq_queue := []\<rparr>\<rparr>)"
    by (cases v) (simp add: ts(1) controlLoop_append controlLoop_turn_def waitAndPop_def
        pop_front_def Event_def)
  with s'(2) fsm show ?thesis by simp
qed


theorem controlLoop_ends_after_stop_witness:
  "\<exists>s'. controlLoop [(0, 1), (0, 2)] (stop_begin 9 (load [Event 0 DoorOpened ''ReedSwitch''] demo))
        = Exits s' \<and> eq_queue (sy_queue s') = []"
  using controlLoop_ends_after_stop [of "load [Event 0 DoorOpened ''ReedSwitch''] demo"
      "[(0, 1), (0, 2)]" 9]
  by (auto simp: sys_simps Event_def simp del: controlLoop.simps)

section \<open>Where entries come from\<close>

text \<open>One second after the start, somebody presses the exit button.\<close>

definition pressed :: system where
  "pressed = onButtonPress 7 0 (seconds 1) (edge_value True) demo"

lemma pressed_queue:
  "eq_queue (sy_queue pressed) = [Event 7 AuthorizedByApp ''Push_Button'']"
  by (simp add: pressed_def onButtonPress_def Let_def edge_value_def milliseconds_def seconds_def
      getter_defs sys_simps push_def EventQueue_def)

lemma pressed_fsm [sys_simps]:
  "fs_state (sy_fsm pressed) = ArmedIdle" "\<not> fs_doorOpen (sy_fsm pressed)"
  by (simp_all add: pressed_def onButtonPress_def Let_def edge_value_def milliseconds_def
      seconds_def getter_defs sys_simps)

lemma pressed_reachable: "sys_step\<^sup>*\<^sup>* (DoorAlarmSystem (AsyncLogger [] True True)) pressed"
proof -
  have "sys_step (DoorAlarmSystem (AsyncLogger [] True True)) demo"
    unfolding demo_def by (rule sys_step.start)
  moreover have "sys_step demo pressed"
    unfolding pressed_def by (rule sys_step.button) (simp_all add: seconds_def sys_simps)
  ultimately show ?thesis by auto
qed

lemma entry_credential:
  assumes ok: "sys_ok s" and "controlLoop_turn w t s = Goes s'"
    and "fs_state (sy_fsm s) \<noteq> AuthorizedEntry" and "fs_state (sy_fsm s') = AuthorizedEntry"
  shows "\<not> fs_doorOpen (sy_fsm s) \<and>
    (\<exists>e es. eq_queue (sy_queue s) = e # es \<and>
       (ev_type e = AuthorizedByNfc \<and> check (ev_source e)
        \<or> ev_type e = AuthorizedByApp \<and> ev_source e = ''Push_Button''))"
proof -
  from assms(2) obtain e es where q: "eq_queue (sy_queue s) = e # es" and "ev_type e \<noteq> Shutdown"
    by (cases rule: controlLoop_turn_cases [of w t s]) auto
  then have s': "s' = after_event t e es s" using assms(2) controlLoop_turn_event by simp
  have "genuine e" using ok q by (simp add: sys_ok_def)
  moreover have "\<not> fs_doorOpen (sy_fsm s) \<and> ev_type e \<in> {AuthorizedByNfc, AuthorizedByApp}"
    using assms(3,4) by (cases "ev_type e") (auto simp: s' sys_simps fsm_simps split: if_splits)
  ultimately show ?thesis using q by (auto simp: genuine_def check_iff)
qed

text \<open>
  C3: nobody enters without a credential: in a reachable state, a turn of the control thread
  that moves the machine into \<^verbatim>\<open>AuthorizedEntry\<close> handled an NFC event whose source is on the
  whitelist or a press of the exit button, at a moment when the door was recorded as closed.
\<close>

theorem entry_needs_credential:
  assumes "sys_step\<^sup>*\<^sup>* (DoorAlarmSystem l) s" and "controlLoop_turn w t s = Goes s'"
    and "fs_state (sy_fsm s) \<noteq> AuthorizedEntry" and "fs_state (sy_fsm s') = AuthorizedEntry"
  shows "\<not> fs_doorOpen (sy_fsm s) \<and>
    (\<exists>e es. eq_queue (sy_queue s) = e # es \<and>
       (ev_type e = AuthorizedByNfc \<and> check (ev_source e)
        \<or> ev_type e = AuthorizedByApp \<and> ev_source e = ''Push_Button''))"
  by (rule entry_credential [OF sysinv.star_inv [OF assms(1) sys_ok_init] assms(2-4)])

theorem entry_needs_credential_witness:
  "\<exists>e. eq_queue (sy_queue pressed) = [e] \<and> ev_source e = ''Push_Button''"
  using entry_needs_credential
      [OF pressed_reachable controlLoop_turn_event [OF pressed_queue, of 0 5]] pressed_queue
  by (auto simp: sys_simps fsm_simps Event_def control_def)

theorem reachable_states_consistent_witness:
  "\<exists>e. eq_queue (sy_queue pressed) = [e] \<and> ev_type e = AuthorizedByApp
     \<and> ev_source e = ''Push_Button''"
  using reachable_states_consistent [OF pressed_reachable] pressed_queue by (simp add: Event_def)

section \<open>The green LED\<close>

lemma handleEvent_pins [pin_simps]:
  "oc_req (pe_out (fs_ports (handleEvent alarm_ports t e m))) = oc_req (pe_out (fs_ports m))"
  by (cases "ev_type e") (auto simp: handleEvent_def handler_defs pin_simps)

lemma denied_sel [pin_simps]:
  "oc_req (denied o1) = oc_req o1" "oc_green (denied o1) = oc_green o1"
  "oc_buzzer (denied o1) = oc_buzzer o1" "oc_red (denied o1) = oc_red o1"
  by (simp_all add: denied_def pin_simps)

lemma green_wanted_cong:
  "fs_state (sy_fsm t) = fs_state (sy_fsm s) \<Longrightarrow> fs_doorOpen (sy_fsm t) = fs_doorOpen (sy_fsm s) \<Longrightarrow>
   sy_camera t = sy_camera s \<Longrightarrow> green_wanted t = green_wanted s"
  by (simp add: green_wanted_def)

lemma after_event_green:
  "oc_req (outs s) \<Longrightarrow> oc_green (outs (after_event t e es s)) = green_wanted (after_event t e es s)"
  by (simp add: after_event_def Let_def sys_simps pin_simps green_wanted_def)


text \<open>
  The OR gate of the green LED: once the lines are granted, after every reed-switch
  callback, every change of the camera signal and every event the control thread handles, the
  green LED is lit exactly if the entry is authorized with the door closed or the camera signal
  is high.
\<close>

theorem green_led_or_gate:
  assumes "oc_req (outs s)"
  shows "(let s' = onReedSwitchChange w v s in oc_green (outs s') = green_wanted s')
    \<and> ((v = 1) \<noteq> sy_camera s \<longrightarrow>
         (let s' = onCameraSignal v s in oc_green (outs s') = green_wanted s' \<and> sy_camera s' = (v = 1)))
    \<and> (\<forall>s'. controlLoop_turn w t s = Goes s' \<longrightarrow> oc_green (outs s') = green_wanted s')"
proof (intro conjI impI allI)
  show "let s' = onReedSwitchChange w v s in oc_green (outs s') = green_wanted s'"
    using assms by (simp add: onReedSwitchChange_def Let_def sys_simps pin_simps green_wanted_def
        getter_defs)
  show "let s' = onCameraSignal v s in oc_green (outs s') = green_wanted s' \<and> sy_camera s' = (v = 1)"
    if "(v = 1) \<noteq> sy_camera s"
    using assms that by (auto simp: onCameraSignal_def Let_def sys_simps pin_simps green_wanted_def)
  show "oc_green (outs s') = green_wanted s'" if "controlLoop_turn w t s = Goes s'" for s'
    using that after_event_green [OF assms]
    by (cases rule: controlLoop_turn_cases [of w t s]) (auto simp: controlLoop_turn_event)
qed

theorem green_led_or_gate_witness:
  "oc_green (outs (onCameraSignal 1 demo)) \<and> \<not> oc_green (outs (onReedSwitchChange 3 1 demo))"
  using green_led_or_gate [of demo 3 1 0]
  by (simp add: Let_def sys_simps green_wanted_def onReedSwitchChange_def onCameraSignal_def
        getter_defs)


section \<open>From the reed switch to the buzzer\<close>

lemma reed_sel [sys_simps]:
  "sy_queue (onReedSwitchChange w v s) =
     push (Event w (if v = 1 then DoorOpened else DoorClosed) ''ReedSwitch'') (sy_queue s)"
  "fs_state (sy_fsm (onReedSwitchChange w v s)) = fs_state (sy_fsm s)"
  "fs_doorOpen (sy_fsm (onReedSwitchChange w v s)) = (v = 1)"
  "fs_window (sy_fsm (onReedSwitchChange w v s)) = fs_window (sy_fsm s)"
  "fs_deadline (sy_fsm (onReedSwitchChange w v s)) = fs_deadline (sy_fsm s)"
  "oc_req (outs (onReedSwitchChange w v s)) = oc_req (outs s)"
  "pe_alarm (fs_ports (sy_fsm (onReedSwitchChange w v s))) = pe_alarm (fs_ports (sy_fsm s))"
  "sy_lastState (onReedSwitchChange w v s) = sy_lastState s"
  "sy_stateStart (onReedSwitchChange w v s) = sy_stateStart s"
  by (simp_all add: onReedSwitchChange_def Let_def sys_simps pin_simps getter_defs)

text \<open>What a turn of the timer thread posts while a verification is pending.\<close>

lemma timer_pending [sys_simps]:
  assumes "fs_state (sy_fsm s) = PendingVerification" and "fs_deadline (sy_fsm s) = Some d"
  shows "sy_queue (timerLoop_turn w t1 t2 t3 s) =
      (if d \<le> t3 then push (Event w VerificationTimeout ''timer'') (sy_queue s) else sy_queue s)"
    and "sy_fsm (timerLoop_turn w t1 t2 t3 s) = sy_fsm s"
  using assms by (simp_all add: timerLoop_turn_def Let_def sys_simps getter_defs)

lemma outs_after_event [sys_simps]:
  "oc_req (outs (after_event t e es s)) = oc_req (outs s)"
  "oc_buzzer (outs (after_event t e es s)) =
     oc_buzzer (pe_out (fs_ports (handleEvent alarm_ports t e (sy_fsm s))))"
  "oc_red (outs (after_event t e es s)) =
     oc_red (pe_out (fs_ports (handleEvent alarm_ports t e (sy_fsm s))))"
  by (simp_all add: after_event_def Let_def sys_simps pin_simps)

text \<open>A timeout handled while a verification is pending sounds the alarm.\<close>

lemma timeout_effect [fsm_simps]:
  assumes "fs_state m = PendingVerification" and "oc_req (pe_out (fs_ports m))"
  shows "oc_buzzer (pe_out (fs_ports (handleEvent alarm_ports t (Event w VerificationTimeout src) m)))"
    and "oc_red (pe_out (fs_ports (handleEvent alarm_ports t (Event w VerificationTimeout src) m)))"
    and "isAlarmActive (fs_ports (handleEvent alarm_ports t (Event w VerificationTimeout src) m))"
  using assms by (simp_all add: handleEvent_def Event_def handler_defs pin_simps)

lemma alarm_after_timeout:
  assumes "fs_state (sy_fsm s) = PendingVerification" and "oc_req (outs s)"
    and "eq_queue (sy_queue s) = Event w VerificationTimeout src # es"
  shows "\<exists>s'. controlLoop_turn w' t s = Goes s' \<and> fs_state (sy_fsm s') = AlarmActive \<and>
    isAlarmActive (fs_ports (sy_fsm s')) \<and> oc_buzzer (outs s') \<and> oc_red (outs s')"
proof -
  let ?e = "Event w VerificationTimeout src"
  have "controlLoop_turn w' t s = Goes (after_event t ?e es s)"
    using assms(3) by (intro controlLoop_turn_event) (simp_all add: Event_def)
  moreover have "fs_state (sy_fsm (after_event t ?e es s)) = AlarmActive"
    using assms(1) by (simp add: sys_simps fsm_simps Event_def)
  ultimately show ?thesis
    using timeout_effect [OF assms(1,2)] by (auto simp: sys_simps isAlarmActive_def)
qed

lemma opening_starts_grace:
  assumes "fs_state (sy_fsm s) = ArmedIdle" and "sy_queue s = EventQueue"
  shows "controlLoop_turn w' t (onReedSwitchChange w 1 s) =
      Goes (after_event t (Event w DoorOpened ''ReedSwitch'') [] (onReedSwitchChange w 1 s))"
    and "fs_state (sy_fsm (after_event t (Event w DoorOpened ''ReedSwitch'') es
            (onReedSwitchChange w 1 s))) = PendingVerification"
    and "fs_deadline (sy_fsm (after_event t (Event w DoorOpened ''ReedSwitch'') es
            (onReedSwitchChange w 1 s))) = Some (t + fs_window (sy_fsm s))"
proof -
  show "controlLoop_turn w' t (onReedSwitchChange w 1 s) =
      Goes (after_event t (Event w DoorOpened ''ReedSwitch'') [] (onReedSwitchChange w 1 s))"
    using assms(2) by (intro controlLoop_turn_event)
      (simp_all add: sys_simps push_def EventQueue_def Event_def)
qed (use assms in \<open>simp_all add: sys_simps fsm_simps Event_def handleEvent_deadline\<close>)

text \<open>
  C4: an unauthorized opening leads to the alarm, after the grace period and not before it:
  with the system armed and idle and nothing queued, the reed switch's edge and one turn of the
  control thread at time \<open>t\<close> start the grace period; turns of the timer thread before
  \<open>t\<close> plus the configured window post nothing; a turn at or after it posts the timeout, and the
  control thread's next turn activates the alarm, with the buzzer sounding and the red LED lit.
\<close>

theorem intrusion_raises_alarm:
  assumes "fs_state (sy_fsm s) = ArmedIdle" and "sy_queue s = EventQueue" and "oc_req (outs s)"
  shows "\<exists>s1. controlLoop_turn w t (onReedSwitchChange w0 1 s) = Goes s1
    \<and> fs_state (sy_fsm s1) = PendingVerification
    \<and> (\<forall>t1 t2 t3. t3 < t + fs_window (sy_fsm s) \<longrightarrow>
         sy_queue (timerLoop_turn w t1 t2 t3 s1) = EventQueue)
    \<and> (\<forall>t1 t2 t3. t + fs_window (sy_fsm s) \<le> t3 \<longrightarrow>
         (\<exists>s2. controlLoop_turn w t' (timerLoop_turn w t1 t2 t3 s1) = Goes s2
           \<and> fs_state (sy_fsm s2) = AlarmActive \<and> isAlarmActive (fs_ports (sy_fsm s2))
           \<and> oc_buzzer (outs s2) \<and> oc_red (outs s2)))"
proof -
  let ?s1 = "after_event t (Event w0 DoorOpened ''ReedSwitch'') [] (onReedSwitchChange w0 1 s)"
  note grace = opening_starts_grace [OF assms(1,2), where w = w0 and t = t]
  note timer = timer_pending [OF grace(2,3)]
  have q: "sy_queue ?s1 = EventQueue"
    using assms(2) by (intro event_queue.equality)
      (simp_all add: sys_simps EventQueue_def push_def)
  have "\<exists>s2. controlLoop_turn w t' (timerLoop_turn w t1 t2 t3 ?s1) = Goes s2
           \<and> fs_state (sy_fsm s2) = AlarmActive \<and> isAlarmActive (fs_ports (sy_fsm s2))
           \<and> oc_buzzer (outs s2) \<and> oc_red (outs s2)"
    if "t + fs_window (sy_fsm s) \<le> t3" for t1 t2 t3
    using that grace(2) assms(3)
    by (intro alarm_after_timeout [where w = w and src = "''timer''" and es = "[]"])
      (simp_all add: timer q, simp_all add: sys_simps push_def EventQueue_def)
  then show ?thesis using grace timer q by (intro exI [of _ ?s1]) simp
qed

theorem intrusion_raises_alarm_witness:
  "\<exists>s1. controlLoop_turn 0 100 (onReedSwitchChange 0 1 demo) = Goes s1
    \<and> (\<exists>s2. controlLoop_turn 0 (seconds 7) (timerLoop_turn 0 0 0 (seconds 6) s1) = Goes s2
         \<and> oc_buzzer (outs s2))"
proof -
  have "100 + fs_window (sy_fsm demo) \<le> seconds 6"
    by (simp add: sys_simps milliseconds_def seconds_def)
  then show ?thesis
    using intrusion_raises_alarm [of demo 0 100 0 "seconds 7"]
    by (simp add: sys_simps) blast
qed


section \<open>The exit button\<close>

text \<open>Whether a callback for the value \<open>v\<close> at \<open>now\<close> is taken as a press.\<close>

definition accepted_press :: "time_point \<Rightarrow> time_point \<Rightarrow> int \<Rightarrow> system \<Rightarrow> bool" where
  "accepted_press t0 now v s \<longleftrightarrow>
     v = 1 \<and> \<not> fs_doorOpen (sy_fsm s) \<and>
     now - (case sy_lastPress s of None \<Rightarrow> t0 | Some t \<Rightarrow> t) > milliseconds 500"

lemma onButtonPress_queue:
  "sy_queue (onButtonPress w t0 now v s) =
     (if accepted_press t0 now v s
      then push (Event w AuthorizedByApp ''Push_Button'') (sy_queue s) else sy_queue s)"
  by (simp add: onButtonPress_def accepted_press_def Let_def sys_simps getter_defs)

lemma onButtonPress_last:
  "sy_lastPress (onButtonPress w t0 now v s) =
     (if accepted_press t0 now v s then Some now
      else Some (case sy_lastPress s of None \<Rightarrow> t0 | Some t \<Rightarrow> t))"
  by (simp add: onButtonPress_def accepted_press_def Let_def sys_simps getter_defs)

text \<open>
  The exit button: a press is a request exactly if the line rose, the door is recorded as
  closed, and more than 500 ms have passed since the reference time. The reference time is that
  of the last accepted press, so within 500 ms of an accepted press nothing is accepted; but
  before any press it is the time of the very first callback (the static local is initialised
  there), so the first press since the program was started is always swallowed, however long
  the system has been running.
\<close>

theorem exit_button_presses:
  shows "(sy_queue (onButtonPress w t0 now v s) \<noteq> sy_queue s \<longrightarrow> accepted_press t0 now v s)
    \<and> (accepted_press t0 now v s \<and> now' \<le> now + milliseconds 500 \<longrightarrow>
         sy_queue (onButtonPress w' t0' now' v' (onButtonPress w t0 now v s))
           = sy_queue (onButtonPress w t0 now v s))
    \<and> (sy_lastPress s = None \<and> now - t0 \<le> milliseconds 500 \<longrightarrow>
         sy_queue (onButtonPress w t0 now v s) = sy_queue s
         \<and> sy_lastPress (onButtonPress w t0 now v s) = Some t0)"
  by (auto simp: onButtonPress_queue onButtonPress_last, simp_all add: accepted_press_def onButtonPress_last)

theorem exit_button_presses_witness:
  "sy_queue (onButtonPress 0 (seconds 60) (seconds 60) 1 demo) = EventQueue
   \<and> sy_queue (onButtonPress 0 0 (seconds 62) 1 (onButtonPress 0 (seconds 60) (seconds 60) 1 demo))
       \<noteq> EventQueue"
proof -
  have first: "sy_queue (onButtonPress 0 (seconds 60) (seconds 60) 1 demo) = EventQueue
      \<and> sy_lastPress (onButtonPress 0 (seconds 60) (seconds 60) 1 demo) = Some (seconds 60)"
    using exit_button_presses [of 0 "seconds 60" "seconds 60" 1 demo]
    by (simp add: sys_simps milliseconds_def)
  then show ?thesis
    by (simp add: onButtonPress_queue accepted_press_def push_def EventQueue_def seconds_def
        milliseconds_def) (simp add: onButtonPress_def sys_simps Let_def seconds_def milliseconds_def)
qed

section \<open>Timer events that arrive late\<close>

text \<open>
  A timeout can hit the wrong opening: if the grace period of one opening has run out
  while the reed switch's report that the door was closed and opened again is still queued, the
  timer's timeout is queued behind it; the control thread then re-arms, starts a new grace
  period for the new opening, and ends it with the old timeout at once: the alarm comes on at a
  time \<open>t\<close> although no part of the new grace period has passed.
\<close>

theorem queued_timeout_cuts_grace_period:
  assumes "fs_state (sy_fsm s) = PendingVerification" and "fs_deadline (sy_fsm s) = Some d"
    and "d \<le> t3" and "\<not> eq_shutdown (sy_queue s)"
    and "eq_queue (sy_queue s) = [Event w1 DoorClosed ''ReedSwitch'', Event w2 DoorOpened ''ReedSwitch'']"
  shows "\<exists>s'. controlLoop [(w, t), (w, t), (w, t)] (timerLoop_turn w t1 t2 t3 s) = Goes s'
    \<and> fs_state (sy_fsm s') = AlarmActive"
proof -
  let ?es = "[Event w1 DoorClosed ''ReedSwitch'', Event w2 DoorOpened ''ReedSwitch'',
    Event w VerificationTimeout ''timer'']"
  have "eq_queue (sy_queue (timerLoop_turn w t1 t2 t3 s)) = ?es @ []"
    using assms by (simp add: timer_pending push_def)
  moreover have "control (sy_fsm (timerLoop_turn w t1 t2 t3 s)) = (PendingVerification, fs_doorOpen (sy_fsm s))"
    using assms by (simp add: control_def timer_pending)
  ultimately show ?thesis
    using controlLoop_events [of "timerLoop_turn w t1 t2 t3 s" ?es "[]" "[(w, t), (w, t), (w, t)]"]
    by (auto simp: handled_def control_def Event_def simp del: controlLoop.simps)
qed


theorem queued_timeout_cuts_grace_period_witness:
  "\<exists>s s'. fs_deadline (sy_fsm s) = Some 0 \<and>
     controlLoop [(0, 5), (0, 5), (0, 5)] (timerLoop_turn 0 3 3 3 s) = Goes s'
     \<and> fs_state (sy_fsm s') = AlarmActive"
proof -
  let ?s = "on_fsm (\<lambda>m. m\<lparr>fs_state := PendingVerification, fs_deadline := Some 0\<rparr>)
    (load [Event 1 DoorClosed ''ReedSwitch'', Event 2 DoorOpened ''ReedSwitch''] demo)"
  have "fs_deadline (sy_fsm ?s) = Some 0" by simp
  moreover have "\<exists>s'. controlLoop [(0, 5), (0, 5), (0, 5)] (timerLoop_turn 0 3 3 3 ?s) = Goes s'
      \<and> fs_state (sy_fsm s') = AlarmActive"
    by (rule queued_timeout_cuts_grace_period [of ?s 0 3 1 2]) (simp_all add: sys_simps)
  ultimately show ?thesis by blast
qed



section \<open>Silencing the alarm\<close>

lemma flash_steps:
  "sys_step\<^sup>*\<^sup>* s (on_outs (thread_step i ^^ n) s)"
proof (induction n)
  case (Suc n)
  have "sys_step (on_outs (thread_step i ^^ n) s) (on_outs (thread_step i) (on_outs (thread_step i ^^ n) s))"
    by (rule sys_step.flash)
  with Suc show ?case by (auto elim: rtranclp.rtrancl_into_rtrancl)
qed simp

text \<open>
  The alarm does not keep sounding: the flash that the control thread itself starts for
  every event handled in \<^verbatim>\<open>AlarmActive\<close> switches buzzer and red LED off when it ends, so from the
  turn that raises the alarm the system can go, by that flashing thread alone, to a state with
  the alarm still active and both signals off.
\<close>

theorem alarm_goes_silent:
  assumes "oc_req (outs s)" and "fs_state (sy_fsm s) = PendingVerification"
    and "eq_queue (sy_queue s) = Event w0 VerificationTimeout src # es"
  shows "\<exists>s1 s2. controlLoop_turn w t s = Goes s1 \<and> oc_buzzer (outs s1) \<and> sys_step\<^sup>*\<^sup>* s1 s2
    \<and> fs_state (sy_fsm s2) = AlarmActive \<and> isAlarmActive (fs_ports (sy_fsm s2))
    \<and> \<not> oc_buzzer (outs s2) \<and> \<not> oc_red (outs s2)"
proof -
  let ?e = "Event w0 VerificationTimeout src"
  let ?m = "updateGreenLedLogic (on_fsm (handleEvent alarm_ports t ?e)
    (s\<lparr>sy_queue := (sy_queue s)\<lparr>eq_queue := es\<rparr>\<rparr>))"
  let ?n = "length (oc_threads (outs ?m))" and ?s1 = "after_event t ?e es s"
  let ?s2 = "on_outs (thread_step ?n ^^ 6) ?s1"
  have st: "fs_state (sy_fsm ?m) = AlarmActive"
    using assms(2) by (simp add: sys_simps fsm_simps Event_def)
  then have s1: "?s1 = on_outs denied ?m" by (simp add: after_event_def Let_def)
  have turn: "controlLoop_turn w t s = Goes ?s1"
    using assms(3) by (intro controlLoop_turn_event) (simp_all add: Event_def)
  have "oc_req (outs ?m)" using assms(1) by (simp add: sys_simps pin_simps)
  then have off: "\<not> oc_buzzer (outs ?s2)" "\<not> oc_red (outs ?s2)"
    using denied_flash [of "outs ?m"] by (simp_all add: s1 Let_def)
  have on: "oc_buzzer (outs ?s1)" and act: "isAlarmActive (fs_ports (sy_fsm ?s2))"
    using timeout_effect [OF assms(2,1), of t w0 src] by (simp_all add: sys_simps isAlarmActive_def)
  have "fs_state (sy_fsm ?s2) = AlarmActive" using st by (simp add: s1)
  moreover have "sys_step\<^sup>*\<^sup>* ?s1 ?s2" by (rule flash_steps)
  ultimately show ?thesis using turn on act off by blast
qed

theorem alarm_goes_silent_witness:
  "\<exists>s s1 s2. controlLoop_turn 0 5 s = Goes s1 \<and> oc_buzzer (outs s1) \<and> sys_step\<^sup>*\<^sup>* s1 s2
    \<and> isAlarmActive (fs_ports (sy_fsm s2)) \<and> \<not> oc_buzzer (outs s2)"
proof -
  let ?s = "on_fsm (\<lambda>m. m\<lparr>fs_state := PendingVerification, fs_deadline := Some 0\<rparr>)
    (load [Event 1 VerificationTimeout ''timer''] demo)"
  have "\<exists>s1 s2. controlLoop_turn 0 5 ?s = Goes s1 \<and> oc_buzzer (outs s1) \<and> sys_step\<^sup>*\<^sup>* s1 s2
    \<and> fs_state (sy_fsm s2) = AlarmActive \<and> isAlarmActive (fs_ports (sy_fsm s2))
    \<and> \<not> oc_buzzer (outs s2) \<and> \<not> oc_red (outs s2)"
    by (rule alarm_goes_silent [of ?s 1 "''timer''" "[]"]) (simp_all add: sys_simps)
  then show ?thesis by blast
qed

text \<open>
  What a turn of the timer thread does, in every state. Time in a state counts from the
  first turn that notices the state. More than a second in \<^verbatim>\<open>AuthorizedEntry\<close> posts the automatic
  reset; a pending verification at or past its deadline posts the timeout; more than five
  seconds in \<^verbatim>\<open>AlarmActive\<close> silences the alarm; nothing else is posted, and the state of the
  machine is never changed by the timer thread itself.
\<close>

theorem timerLoop_turn_effects:
  "(let start = (if fs_state (sy_fsm s) = sy_lastState s then sy_stateStart s else t1);
        s' = timerLoop_turn w t1 t2 t3 s
    in sy_queue s' =
         (if fs_state (sy_fsm s) = AuthorizedEntry \<and> t2 - start > seconds 1
          then push (Event w DoorClosed ''AutoReset'') (sy_queue s)
          else if fs_state (sy_fsm s) = PendingVerification
                  \<and> (\<exists>d. fs_deadline (sy_fsm s) = Some d \<and> d \<le> t3)
          then push (Event w VerificationTimeout ''timer'') (sy_queue s)
          else sy_queue s)
     \<and> isAlarmActive (fs_ports (sy_fsm s')) =
         (isAlarmActive (fs_ports (sy_fsm s))
          \<and> \<not> (fs_state (sy_fsm s) = AlarmActive \<and> t2 - start > seconds 5))
     \<and> control (sy_fsm s') = control (sy_fsm s) \<and> sy_lastState s' = fs_state (sy_fsm s)
     \<and> sy_stateStart s' = start)"
  by (cases "fs_state (sy_fsm s)")
    (auto simp: timerLoop_turn_def Let_def sys_simps getter_defs isAlarmActive_def pin_simps
      control_def)

end
