(* ===== verification/Cpp_Text.thy ===== *)
theory Cpp_Text
  imports Prelude
begin

text \<open>
  The string operations of the C++ standard library that the program uses, with
  \<^verbatim>\<open>std::string::npos\<close> as \<^term>\<open>None\<close>; numbers to and from decimal text; and the UTC
  timestamps of \<^verbatim>\<open>gmtime_r\<close> and \<^verbatim>\<open>put_time\<close>.
\<close>

section \<open>Searching\<close>

fun first_match :: "string \<Rightarrow> string \<Rightarrow> nat option" where
  "first_match p s =
     (if take (length p) s = p then Some 0
      else case s of [] \<Rightarrow> None | c # cs \<Rightarrow> map_option Suc (first_match p cs))"

declare first_match.simps [simp del]

text \<open>\<open>s.find(p, pos)\<close>, for a string and for a character.\<close>

definition find_string :: "string \<Rightarrow> nat \<Rightarrow> string \<Rightarrow> nat option" where
  "find_string p pos s =
     (if pos \<le> length s then map_option ((+) pos) (first_match p (drop pos s)) else None)"

definition find_char :: "char \<Rightarrow> nat \<Rightarrow> string \<Rightarrow> nat option" where
  "find_char c pos s = find_string [c] pos s"

fun first_index :: "(char \<Rightarrow> bool) \<Rightarrow> string \<Rightarrow> nat option" where
  "first_index P [] = None"
| "first_index P (c # cs) = (if P c then Some 0 else map_option Suc (first_index P cs))"

text \<open>\<open>s.find_first_not_of(cs, pos)\<close>.\<close>

definition find_first_not_of :: "string \<Rightarrow> nat \<Rightarrow> string \<Rightarrow> nat option" where
  "find_first_not_of cs pos s =
     (if pos \<le> length s
      then map_option ((+) pos) (first_index (\<lambda>c. c \<notin> set cs) (drop pos s)) else None)"

text \<open>
  \<open>s.substr(pos, n)\<close>, which the program calls with \<open>pos\<close> within the string only, and
  \<open>s.compare(pos, n, p) == 0\<close>.
\<close>

definition substr :: "nat \<Rightarrow> nat \<Rightarrow> string \<Rightarrow> string" where
  "substr pos n s = take n (drop pos s)"

definition compare_eq :: "nat \<Rightarrow> nat \<Rightarrow> string \<Rightarrow> string \<Rightarrow> bool" where
  "compare_eq pos n p s \<longleftrightarrow> substr pos n s = p"

lemma first_match_here [text_simps]: "first_match p (p @ s) = Some 0"
  by (subst first_match.simps) simp

lemma first_match_char [text_simps]:
  "first_match [c] s = first_index (\<lambda>d. d = c) s"
  by (induction s) (subst first_match.simps, auto)+

lemma first_index_append [text_simps]:
  "first_index P (s @ c # t) = (if P c \<and> (\<forall>d \<in> set s. \<not> P d) then Some (length s)
     else case first_index P s of Some i \<Rightarrow> Some i | None \<Rightarrow> map_option ((+) (length s)) (first_index P (c # t)))"
  by (induction s) (auto simp: option.map_comp comp_def split: option.splits)

lemma first_index_skip: "\<forall>d \<in> set s. \<not> P d \<Longrightarrow> P c \<Longrightarrow> first_index P (s @ c # t) = Some (length s)"
  by (simp add: first_index_append)

lemma first_index_None [text_simps]: "first_index P s = None \<longleftrightarrow> (\<forall>d \<in> set s. \<not> P d)"
  by (induction s) auto

lemma first_index_Some:
  "first_index P s = Some i \<Longrightarrow> i < length s \<and> P (s ! i) \<and> (\<forall>j < i. \<not> P (s ! j))"
  by (induction s arbitrary: i) (auto simp: less_Suc_eq_0_disj split: if_splits)

text \<open>A search for a quoted word passes over text without quotes.\<close>

lemma first_match_skip:
  "c \<notin> set s \<Longrightarrow> first_match (c # p) (s @ t) = map_option ((+) (length s)) (first_match (c # p) t)"
proof (induction s)
  case Nil
  then show ?case by (simp add: option.map_ident)
next
  case (Cons d s)
  then have "first_match (c # p) ((d # s) @ t) = map_option Suc (first_match (c # p) (s @ t))"
    by (subst first_match.simps) auto
  with Cons show ?case by (cases "first_match (c # p) t") auto
qed

lemma first_match_Cons:
  "first_match p (c # s) =
     (if take (length p) (c # s) = p then Some 0 else map_option Suc (first_match p s))"
  by (subst first_match.simps) simp

lemma first_match_Nil: "first_match p [] = (if p = [] then Some 0 else None)"
  by (subst first_match.simps) auto

section \<open>Decimal numbers\<close>

definition digit :: "nat \<Rightarrow> char" where
  "digit n = ''0123456789'' ! (n mod 10)"

fun show_nat :: "nat \<Rightarrow> string" where
  "show_nat n = (if n < 10 then [digit n] else show_nat (n div 10) @ [digit n])"

declare show_nat.simps [simp del]

definition to_string :: "int \<Rightarrow> string" where
  "to_string n = (if n < 0 then ''-'' @ show_nat (nat (- n)) else show_nat (nat n))"

text \<open>
  \<^verbatim>\<open>std::stoul\<close> and \<^verbatim>\<open>std::stoi\<close>: white space, a sign, digits; the rest is ignored. No digits
  is \<^verbatim>\<open>invalid_argument\<close>, a value outside the type \<^verbatim>\<open>out_of_range\<close>. \<^verbatim>\<open>strtoul\<close> accepts a minus
  sign and negates modulo \<open>2 ^ 64\<close>.
\<close>

datatype cpp_error = Invalid_Argument | Out_Of_Range

definition code :: "char \<Rightarrow> nat" where
  "code c = of_char c"

definition is_space :: "char \<Rightarrow> bool" where
  "is_space c \<longleftrightarrow> code c = 32 \<or> (9 \<le> code c \<and> code c \<le> 13)"

definition is_digit :: "char \<Rightarrow> bool" where
  "is_digit c \<longleftrightarrow> 48 \<le> code c \<and> code c \<le> 57"

definition digits_value :: "string \<Rightarrow> nat" where
  "digits_value ds = foldl (\<lambda>n c. 10 * n + (code c - 48)) 0 ds"

text \<open>Whether there is a minus sign, and the digits.\<close>

definition scan_number :: "string \<Rightarrow> bool \<times> string" where
  "scan_number s =
     (let s = dropWhile is_space s
      in case s of
           [] \<Rightarrow> (False, [])
         | c # cs \<Rightarrow>
             if c = CHR ''-'' then (True, takeWhile is_digit cs)
             else if c = CHR ''+'' then (False, takeWhile is_digit cs)
             else (False, takeWhile is_digit s))"

definition stoul :: "string \<Rightarrow> cpp_error + nat" where
  "stoul s =
     (let (neg, ds) = scan_number s; n = digits_value ds
      in if ds = [] then Inl Invalid_Argument
         else if n \<ge> 2 ^ 64 then Inl Out_Of_Range
         else Inr (if neg then (2 ^ 64 - n) mod 2 ^ 64 else n))"

definition stoi :: "string \<Rightarrow> cpp_error + int" where
  "stoi s =
     (let (neg, ds) = scan_number s; n = int (digits_value ds); v = (if neg then - n else n)
      in if ds = [] then Inl Invalid_Argument
         else if v < - (2 ^ 31) \<or> v \<ge> 2 ^ 31 then Inl Out_Of_Range
         else Inr v)"

lemma below_ten:
  "(k::nat) < 10 \<Longrightarrow> k = 0 \<or> k = 1 \<or> k = 2 \<or> k = 3 \<or> k = 4 \<or> k = 5 \<or> k = 6 \<or> k = 7 \<or> k = 8 \<or> k = 9"
  by arith

lemma code_digit [text_simps]: "code (digit n) = 48 + n mod 10"
proof -
  have "n mod 10 < 10" by simp
  from below_ten [OF this] show ?thesis by (elim disjE) (simp_all add: digit_def code_def)
qed

lemma digit_is_digit [text_simps]: "is_digit (digit n)"
  using mod_less_divisor [of 10 n] by (simp add: is_digit_def code_digit)

lemma show_nat_digits [text_simps]: "c \<in> set (show_nat n) \<Longrightarrow> is_digit c"
  by (induction n rule: show_nat.induct) (subst (asm) (2) show_nat.simps, auto simp: digit_is_digit split: if_splits)

lemma show_nat_nonempty [text_simps]: "show_nat n \<noteq> []"
  by (subst show_nat.simps) simp

lemma digits_value_snoc: "digits_value (ds @ [c]) = 10 * digits_value ds + (code c - 48)"
  by (simp add: digits_value_def)

lemma digits_value_show [text_simps]: "digits_value (show_nat n) = n"
proof (induction n rule: show_nat.induct)
  case (1 n)
  show ?case
  proof (cases "n < 10")
    case True
    then have "show_nat n = [digit n]" by (subst show_nat.simps) simp
    with True show ?thesis by (simp add: digits_value_def code_digit)
  next
    case False
    then have "show_nat n = show_nat (n div 10) @ [digit n]" by (subst show_nat.simps) simp
    then show ?thesis using 1 [OF False] by (simp add: digits_value_snoc code_digit)
  qed
qed

lemma scan_show: "scan_number (show_nat n) = (False, show_nat n)"
proof -
  have d: "\<forall>c \<in> set (show_nat n). is_digit c" by (simp add: show_nat_digits)
  obtain c cs where s: "show_nat n = c # cs" using show_nat_nonempty [of n] by (cases "show_nat n") auto
  with d have "is_digit c" by simp
  then have "\<not> is_space c" "c \<noteq> CHR ''-''" "c \<noteq> CHR ''+''"
    by (auto simp: is_space_def is_digit_def code_def)
  moreover have "takeWhile is_digit (c # cs) = c # cs"
    using d s by (simp add: takeWhile_eq_all_conv)
  ultimately show ?thesis by (simp add: scan_number_def s)
qed

lemma stoul_show [text_simps]: "n < 2 ^ 64 \<Longrightarrow> stoul (show_nat n) = Inr n"
  by (simp add: stoul_def scan_show digits_value_show show_nat_nonempty)

lemma stoi_show: "n < 2 ^ 31 \<Longrightarrow> stoi (show_nat n) = Inr (int n)"
  by (simp add: stoi_def scan_show digits_value_show show_nat_nonempty)

section \<open>UTC timestamps\<close>

text \<open>
  The broken-down time of \<^verbatim>\<open>gmtime_r\<close> for seconds since the epoch, and the format
  \<^verbatim>\<open>%Y-%m-%dT%H:%M:%SZ\<close>. Times before 1970 are not modelled.
\<close>

definition leap :: "nat \<Rightarrow> bool" where
  "leap y \<longleftrightarrow> (4 dvd y \<and> \<not> 100 dvd y) \<or> 400 dvd y"

definition year_days :: "nat \<Rightarrow> nat" where
  "year_days y = (if leap y then 366 else 365)"

definition month_days :: "nat \<Rightarrow> nat list" where
  "month_days y = [31, if leap y then 29 else 28, 31, 30, 31, 30, 31, 31, 30, 31, 30, 31]"

function split_year :: "nat \<Rightarrow> nat \<Rightarrow> nat \<times> nat" where
  "split_year y d = (if d < year_days y then (y, d) else split_year (y + 1) (d - year_days y))"
  by pat_completeness auto

termination
  by (relation "measure snd") (auto simp: year_days_def)

declare split_year.simps [simp del]

fun split_month :: "nat \<Rightarrow> nat list \<Rightarrow> nat \<Rightarrow> nat \<times> nat" where
  "split_month k [] d = (k, d)"
| "split_month k (m # ms) d = (if d < m then (k, d) else split_month (k + 1) ms (d - m))"

definition pad2 :: "nat \<Rightarrow> string" where
  "pad2 n = (if n < 10 then ''0'' @ show_nat n else show_nat n)"

definition iso8601 :: "nat \<Rightarrow> string" where
  "iso8601 t =
     (let (y, yd) = split_year 1970 (t div 86400);
          (m, d) = split_month 1 (month_days y) yd;
          s = t mod 86400
      in show_nat y @ ''-'' @ pad2 m @ ''-'' @ pad2 (d + 1) @ ''T'' @ pad2 (s div 3600) @ '':''
         @ pad2 (s div 60 mod 60) @ '':'' @ pad2 (s mod 60) @ ''Z'')"

end
