(* ===== verification/Json.thy ===== *)
theory Json
  imports Cpp_Text
begin

text \<open>
  The JSON helpers of \<^verbatim>\<open>src/main_api.cpp\<close>: \<^verbatim>\<open>jsonEscape\<close>, \<^verbatim>\<open>boolToJson\<close> and the two field
  readers, which search the body as text. Against them stand a reader of JSON string literals
  and a renderer of JSON values, which say what the text means.
\<close>

section \<open>Writing\<close>

abbreviation QUOTE :: char where "QUOTE \<equiv> CHR 0x22"
abbreviation BACKSLASH :: char where "BACKSLASH \<equiv> CHR 0x5C"

definition escape_char :: "char \<Rightarrow> string" where
  "escape_char c =
     (if c = QUOTE then [BACKSLASH, QUOTE]
      else if c = BACKSLASH then [BACKSLASH, BACKSLASH]
      else if c = CHR 0x08 then [BACKSLASH, CHR ''b'']
      else if c = CHR 0x0C then [BACKSLASH, CHR ''f'']
      else if c = CHR 0x0A then [BACKSLASH, CHR ''n'']
      else if c = CHR 0x0D then [BACKSLASH, CHR ''r'']
      else if c = CHR 0x09 then [BACKSLASH, CHR ''t'']
      else if code c < 0x20 then '' '' else [c])"

fun jsonEscape :: "string \<Rightarrow> string" where
  "jsonEscape [] = []"
| "jsonEscape (c # cs) = escape_char c @ jsonEscape cs"

definition boolToJson :: "bool \<Rightarrow> string" where
  "boolToJson value = (if value then ''true'' else ''false'')"

section \<open>Reading fields of a request body\<close>

definition getJsonStringField :: "string \<Rightarrow> string \<Rightarrow> string" where
  "getJsonStringField body key =
     (let pattern = [QUOTE] @ key @ [QUOTE]
      in case find_string pattern 0 body of
           None \<Rightarrow> ''''
         | Some keyPos \<Rightarrow>
      (case find_char CHR '':'' (keyPos + length pattern) body of
           None \<Rightarrow> ''''
         | Some colonPos \<Rightarrow>
      (case find_char QUOTE (colonPos + 1) body of
           None \<Rightarrow> ''''
         | Some firstQuote \<Rightarrow>
      (case find_char QUOTE (firstQuote + 1) body of
           None \<Rightarrow> ''''
         | Some secondQuote \<Rightarrow> substr (firstQuote + 1) (secondQuote - firstQuote - 1) body))))"

text \<open>The result, and the output parameter, of which \<open>value\<close> is the old content.\<close>

definition getJsonBoolField :: "string \<Rightarrow> string \<Rightarrow> bool \<Rightarrow> bool \<times> bool" where
  "getJsonBoolField body key value =
     (let pattern = [QUOTE] @ key @ [QUOTE]
      in case find_string pattern 0 body of
           None \<Rightarrow> (False, value)
         | Some keyPos \<Rightarrow>
      (case find_char CHR '':'' (keyPos + length pattern) body of
           None \<Rightarrow> (False, value)
         | Some colonPos \<Rightarrow>
      (case find_first_not_of [CHR '' '', CHR 0x09, CHR 0x0D, CHR 0x0A] (colonPos + 1) body of
           None \<Rightarrow> (False, value)
         | Some valuePos \<Rightarrow>
             if compare_eq valuePos 4 ''true'' body then (True, True)
             else if compare_eq valuePos 5 ''false'' body then (True, False)
             else (False, value))))"

section \<open>String literals\<close>

definition unescape :: "char \<Rightarrow> char option" where
  "unescape c =
     (if c = QUOTE \<or> c = BACKSLASH \<or> c = CHR ''/'' then Some c
      else if c = CHR ''b'' then Some (CHR 0x08) else if c = CHR ''f'' then Some (CHR 0x0C)
      else if c = CHR ''n'' then Some (CHR 0x0A) else if c = CHR ''r'' then Some (CHR 0x0D)
      else if c = CHR ''t'' then Some (CHR 0x09) else None)"

text \<open>
  What a JSON reader makes of the text after an opening quote: the value and the text behind
  the closing quote. (Escapes by code point do not occur here.)
\<close>

fun read_literal :: "string \<Rightarrow> (string \<times> string) option" where
  "read_literal [] = None"
| "read_literal (c # cs) =
     (if c = QUOTE then Some ([], cs)
      else if c = BACKSLASH
      then (case cs of [] \<Rightarrow> None
            | e # cs' \<Rightarrow>
                (case unescape e of None \<Rightarrow> None
                 | Some d \<Rightarrow> map_option (apfst ((#) d)) (read_literal cs')))
      else if code c < 0x20 then None
      else map_option (apfst ((#) c)) (read_literal cs))"

text \<open>Control characters without an escape of their own are replaced by a blank.\<close>

definition legible :: "char \<Rightarrow> char" where
  "legible c = (if code c < 0x20 \<and> c \<notin> {CHR 0x08, CHR 0x0C, CHR 0x0A, CHR 0x0D, CHR 0x09}
     then CHR '' '' else c)"

lemma code_simps [text_simps]: "code (CHR '' '') = 32" "code QUOTE = 34" "code BACKSLASH = 92"
  by (simp_all add: code_def)

lemma read_escaped_char:
  "read_literal (escape_char c @ cs) = map_option (apfst ((#) (legible c))) (read_literal cs)"
proof -
  consider "c \<in> {QUOTE, BACKSLASH, CHR 0x08, CHR 0x0C, CHR 0x0A, CHR 0x0D, CHR 0x09}"
    | "c \<notin> {QUOTE, BACKSLASH, CHR 0x08, CHR 0x0C, CHR 0x0A, CHR 0x0D, CHR 0x09}" by blast
  then show ?thesis
  proof cases
    case 1
    then show ?thesis by (auto simp: escape_char_def legible_def unescape_def code_def)
  next
    case 2
    then show ?thesis by (auto simp: escape_char_def legible_def code_simps)
  qed
qed

lemma read_escaped: "read_literal (jsonEscape s @ QUOTE # r) = Some (map legible s, r)"
  by (induction s) (simp_all add: read_escaped_char del: read_literal.simps(2),
    simp_all add: read_literal.simps(2))

text \<open>
  C20: no log text or user name can break out of its JSON string: what \<^verbatim>\<open>jsonEscape\<close> writes
  between two quotes is read back as exactly one string literal that ends at the closing quote,
  whatever the value contains, and the value read is the original with other control characters
  replaced by blanks; so a value without such characters comes back unchanged.
\<close>

theorem jsonEscape_roundtrip:
  "read_literal (jsonEscape s @ QUOTE # r) = Some (map legible s, r)
   \<and> ((\<forall>c \<in> set s. 0x20 \<le> code c \<or> c \<in> {CHR 0x08, CHR 0x0C, CHR 0x0A, CHR 0x0D, CHR 0x09}) \<longrightarrow>
        map legible s = s)"
  by (auto simp: read_escaped legible_def intro!: map_idI)

theorem jsonEscape_roundtrip_witness:
  "read_literal (jsonEscape ''a\"b'' @ QUOTE # ''}'') = Some (''a\"b'', ''}'')"
  using jsonEscape_roundtrip [of "''a\"b''" "''}''"] by (simp add: code_def legible_def)

section \<open>Values\<close>

datatype json =
    JBool bool
  | JNumber string
  | JString string
  | JArray "json list"
  | JObject "(string \<times> json) list"

definition quoted :: "string \<Rightarrow> string" where
  "quoted s = QUOTE # jsonEscape s @ [QUOTE]"

fun join_with :: "string \<Rightarrow> string list \<Rightarrow> string" where
  "join_with sep [] = []"
| "join_with sep [x] = x"
| "join_with sep (x # y # ys) = x @ sep @ join_with sep (y # ys)"

fun render :: "json \<Rightarrow> string" where
  "render (JBool b) = boolToJson b"
| "render (JNumber n) = n"
| "render (JString s) = quoted s"
| "render (JArray xs) = ''['' @ join_with '','' (map render xs) @ '']''"
| "render (JObject kvs) =
     ''{'' @ join_with '','' (map (\<lambda>(k, v). quoted k @ '':'' @ render v) kvs) @ ''}''"

section \<open>The field readers\<close>

lemma find_string_at:
  "find_string p (length pre) (pre @ s) = map_option ((+) (length pre)) (first_match p s)"
  by (simp add: find_string_def)

lemma find_string_start: "find_string p 0 s = first_match p s"
  by (cases "first_match p s") (simp_all add: find_string_def)

lemma find_first_not_of_at:
  assumes "set gap \<subseteq> set cs" and "c \<notin> set cs" and "n = length pre"
  shows "find_first_not_of cs n (pre @ gap @ c # s) = Some (length pre + length gap)"
  using assms first_index_skip [of gap "\<lambda>c. c \<notin> set cs" c s]
  by (auto simp: find_first_not_of_def)

lemma find_char_at:
  assumes "c \<notin> set gap" and "n = length pre"
  shows "find_char c n (pre @ gap @ c # s) = Some (length pre + length gap)"
  using assms first_index_skip [of gap "\<lambda>d. d = c" c s]
  by (auto simp: find_char_def find_string_def first_match_char)

lemma substr_take: "n = length pre \<Longrightarrow> substr n k (pre @ s) = take k s"
  by (simp add: substr_def)

lemma substr_at:
  "n = length pre \<Longrightarrow> k = length v \<Longrightarrow> substr n k (pre @ v @ s) = v"
  by (simp add: substr_def)

text \<open>
  The string reader returns the text between the next two quotes behind the next colon behind
  the first occurrence of the quoted key.
\<close>

lemma getJsonStringField_at:
  assumes "first_match ([QUOTE] @ key @ [QUOTE]) body = Some (length pre)"
    and "body = pre @ ([QUOTE] @ key @ [QUOTE]) @ g1 @ CHR '':'' # g2 @ QUOTE # v @ QUOTE # rest"
    and "CHR '':'' \<notin> set g1" and "QUOTE \<notin> set g2" and "QUOTE \<notin> set v"
  shows "getJsonStringField body key = v"
proof -
  let ?p = "[QUOTE] @ key @ [QUOTE]"
  let ?a = "pre @ ?p" let ?b = "?a @ g1 @ [CHR '':'']" let ?c = "?b @ g2 @ [QUOTE]"
  have "find_char CHR '':'' (length pre + length ?p) (?a @ g1 @ CHR '':'' # g2 @ QUOTE # v @ QUOTE # rest)
      = Some (length ?a + length g1)"
    by (rule find_char_at [OF assms(3)]) simp
  moreover have "find_char QUOTE (length ?a + length g1 + 1) (?b @ g2 @ QUOTE # v @ QUOTE # rest)
      = Some (length ?b + length g2)"
    by (rule find_char_at [OF assms(4)]) simp
  moreover have "find_char QUOTE (length ?b + length g2 + 1) (?c @ v @ QUOTE # rest)
      = Some (length ?c + length v)"
    by (rule find_char_at [OF assms(5)]) simp
  moreover have "substr (length ?b + length g2 + 1) (length v) (?c @ v @ QUOTE # rest) = v"
    by (rule substr_at) simp_all
  ultimately show ?thesis
    using assms(1) by (simp add: getJsonStringField_def Let_def find_string_start assms(2))
qed

lemma getJsonBoolField_at:
  assumes "first_match ([QUOTE] @ key @ [QUOTE]) body = Some (length pre)"
    and "body = pre @ ([QUOTE] @ key @ [QUOTE]) @ g1 @ CHR '':'' # g2 @ boolToJson v @ rest"
    and "CHR '':'' \<notin> set g1" and "set g2 \<subseteq> set [CHR '' '', CHR 0x09, CHR 0x0D, CHR 0x0A]"
  shows "getJsonBoolField body key old = (True, v)"
proof -
  let ?p = "[QUOTE] @ key @ [QUOTE]" and ?ws = "[CHR '' '', CHR 0x09, CHR 0x0D, CHR 0x0A]"
  let ?a = "pre @ ?p" let ?b = "?a @ g1 @ [CHR '':'']"
  have c: "find_char CHR '':'' (length pre + length ?p) (?a @ g1 @ CHR '':'' # g2 @ boolToJson v @ rest)
      = Some (length ?a + length g1)"
    by (rule find_char_at [OF assms(3)]) simp
  obtain d ds where v: "boolToJson v = d # ds" "d \<notin> set ?ws" by (cases v) (auto simp: boolToJson_def)
  have n: "find_first_not_of ?ws (length ?b) (?b @ g2 @ boolToJson v @ rest)
      = Some (length ?b + length g2)"
    unfolding v(1) append_Cons by (rule find_first_not_of_at [OF assms(4) v(2) refl])
  have "substr (length ?b + length g2) k (?b @ g2 @ boolToJson v @ rest) = take k (boolToJson v @ rest)"
    for k using substr_take [of "length ?b + length g2" "?b @ g2" k "boolToJson v @ rest"] by simp
  then have "compare_eq (length ?b + length g2) 4 ''true'' (?b @ g2 @ boolToJson v @ rest) = v"
    "compare_eq (length ?b + length g2) 5 ''false'' (?b @ g2 @ boolToJson v @ rest) = (\<not> v)"
    by (cases v; simp add: compare_eq_def boolToJson_def)+
  then show ?thesis
    using assms(1) c n
    by (cases v) (simp_all add: getJsonBoolField_def Let_def find_string_start assms(2) add.assoc)
qed

end
