(* ===== verification/Api_Server.thy ===== *)
theory Api_Server
  imports Json
begin

text \<open>
  The REST server \<^verbatim>\<open>src/main_api.cpp\<close>: its global state, the helpers that change it, every
  route handler, and the detached threads that the handlers start (the five-second window check
  and the mail senders). Every handler and every thread section runs under \<^verbatim>\<open>g_mutex\<close>, so a
  run is a sequence of them. A handler's readings of the clock are one reading \<open>t\<close>, in
  nanoseconds since the epoch.
\<close>

section \<open>State\<close>

record log_entry =
  le_id :: string
  le_time :: string
  le_type :: string
  le_message :: string
  le_extra :: string

record system_state =
  systemArmed :: bool
  alarmActive :: bool
  doorOpen :: bool
  lockState :: string
  lastAuthorizedMethod :: string
  lastAuthorizedUser :: string
  lastAuthorizationTime :: string
  pendingVerification :: bool
  intrusionDetected :: bool
  buzzerOn :: bool
  ledStatus :: string
  cameraOnline :: bool
  nfcOnline :: bool
  gpioOnline :: bool
  apiOnline :: bool
  startedAt :: time_point

text \<open>
  A detached thread is what it will do next: check a window when it is due, compose the alarm
  mail, or, once a mail is handed over, log whether it was sent (with the texts for success and
  failure).
\<close>

datatype job =
    Window_Check time_point
  | Alarm_Mail string
  | Test_Mail
  | Mail_Result string string

record api =
  g_state :: system_state
  g_logs :: "log_entry list"
  g_jobs :: "job list"
  g_outbox :: "(string \<times> string) list"
  g_console :: "string list"

definition MAX_LOGS :: nat where
  "MAX_LOGS = 300"

definition VERIFICATION_WINDOW_SECONDS :: int where
  "VERIFICATION_WINDOW_SECONDS = 5"

definition SystemState :: "time_point \<Rightarrow> system_state" where
  "SystemState t =
     \<lparr>systemArmed = True, alarmActive = False, doorOpen = False, lockState = ''locked'',
      lastAuthorizedMethod = ''null'', lastAuthorizedUser = ''null'',
      lastAuthorizationTime = ''null'', pendingVerification = False, intrusionDetected = False,
      buzzerOn = False, ledStatus = ''green'', cameraOnline = True, nfcOnline = True,
      gpioOnline = True, apiOnline = True, startedAt = t\<rparr>"

abbreviation on_state :: "(system_state \<Rightarrow> system_state) \<Rightarrow> api \<Rightarrow> api" where
  "on_state f a \<equiv> a\<lparr>g_state := f (g_state a)\<rparr>"

section \<open>Helpers\<close>

text \<open>\<open>value\<close> is what the environment holds for the key.\<close>

definition getEnvOrEmpty :: "string option \<Rightarrow> string" where
  "getEnvOrEmpty value = (case value of None \<Rightarrow> '''' | Some v \<Rightarrow> v)"

definition getEnvOrDefaultInt :: "string option \<Rightarrow> int \<Rightarrow> int" where
  "getEnvOrDefaultInt value defaultValue =
     (case value of None \<Rightarrow> defaultValue
      | Some v \<Rightarrow> (case stoi v of Inl e \<Rightarrow> defaultValue | Inr n \<Rightarrow> n))"

definition nowIso8601 :: "time_point \<Rightarrow> string" where
  "nowIso8601 t = iso8601 (nat (count_seconds t))"

definition getUptimeSeconds :: "time_point \<Rightarrow> system_state \<Rightarrow> int" where
  "getUptimeSeconds t st = count_seconds (t - startedAt st)"

definition addLog :: "time_point \<Rightarrow> string \<Rightarrow> string \<Rightarrow> string \<Rightarrow> api \<Rightarrow> api" where
  "addLog t type message extra a =
     (let entry = \<lparr>le_id = to_string (count_milliseconds t), le_time = nowIso8601 t,
                   le_type = type, le_message = message, le_extra = extra\<rparr>;
          logs = entry # g_logs a;
          logs = (if length logs > MAX_LOGS then butlast logs else logs);
          line = ''['' @ le_time entry @ ''] ['' @ le_type entry @ ''] '' @ le_message entry
                 @ (if le_extra entry \<noteq> [] then '' ('' @ le_extra entry @ '')'' else '''')
      in a\<lparr>g_logs := logs, g_console := g_console a @ [line]\<rparr>)"

definition updateLedStatus :: "system_state \<Rightarrow> system_state" where
  "updateLedStatus st =
     (if alarmActive st then st\<lparr>ledStatus := ''red''\<rparr>
      else if pendingVerification st then st\<lparr>ledStatus := ''yellow''\<rparr>
      else st\<lparr>ledStatus := ''green''\<rparr>)"

definition spawn_job :: "job \<Rightarrow> api \<Rightarrow> api" where
  "spawn_job j a = a\<lparr>g_jobs := g_jobs a @ [j]\<rparr>"

definition triggerAlarm_api :: "time_point \<Rightarrow> string \<Rightarrow> api \<Rightarrow> api" where
  "triggerAlarm_api t reason a =
     (let a = on_state (\<lambda>st. st\<lparr>alarmActive := True, intrusionDetected := True, buzzerOn := True,
                               pendingVerification := False\<rparr>) a;
          a = on_state updateLedStatus a;
          a = addLog t ''alarm'' ''Alarm triggered'' reason a
      in spawn_job (Alarm_Mail reason) a)"

definition clearAlarm_api :: "time_point \<Rightarrow> api \<Rightarrow> api" where
  "clearAlarm_api t a =
     (let a = on_state (\<lambda>st. st\<lparr>alarmActive := False, intrusionDetected := False,
                               buzzerOn := False\<rparr>) a;
          a = on_state updateLedStatus a
      in addLog t ''alarm'' ''Alarm cleared'' '''' a)"

definition authorizeAccess :: "time_point \<Rightarrow> string \<Rightarrow> string \<Rightarrow> api \<Rightarrow> api" where
  "authorizeAccess t meth user a =
     (let a = on_state (\<lambda>st. st\<lparr>lastAuthorizedMethod := meth, lastAuthorizedUser := user,
                               lastAuthorizationTime := nowIso8601 t,
                               pendingVerification := False, intrusionDetected := False\<rparr>) a;
          a = on_state updateLedStatus a
      in addLog t ''access'' ''Access authorized'' (meth @ '':'' @ user) a)"

text \<open>What the detached thread of \<^verbatim>\<open>triggerAlarm\<close> composes: subject and body.\<close>

definition alarm_mail :: "time_point \<Rightarrow> string \<Rightarrow> system_state \<Rightarrow> string \<times> string" where
  "alarm_mail t reason st =
     (let nl = [CHR 0x0A]
      in (''Door Intrusion Alarm Alert'',
          ''Door Intrusion Alarm Triggered'' @ nl @ nl
          @ ''Time: '' @ nowIso8601 t @ nl
          @ ''Reason: '' @ reason @ nl
          @ ''System Armed: '' @ (if systemArmed st then ''true'' else ''false'') @ nl
          @ ''Door Open: '' @ (if doorOpen st then ''true'' else ''false'') @ nl
          @ ''Intrusion Detected: '' @ (if intrusionDetected st then ''true'' else ''false'') @ nl
          @ ''Lock State: '' @ lockState st @ nl
          @ ''LED Status: '' @ ledStatus st @ nl))"

section \<open>Response bodies\<close>

definition buildStateJson :: "time_point \<Rightarrow> system_state \<Rightarrow> string" where
  "buildStateJson t st =
     ''{''
     @ ''\"systemArmed\":'' @ boolToJson (systemArmed st) @ '',''
     @ ''\"alarmActive\":'' @ boolToJson (alarmActive st) @ '',''
     @ ''\"doorOpen\":'' @ boolToJson (doorOpen st) @ '',''
     @ ''\"lockState\":\"'' @ jsonEscape (lockState st) @ ''\",''
     @ ''\"lastAuthorizedMethod\":\"'' @ jsonEscape (lastAuthorizedMethod st) @ ''\",''
     @ ''\"lastAuthorizedUser\":\"'' @ jsonEscape (lastAuthorizedUser st) @ ''\",''
     @ ''\"lastAuthorizationTime\":\"'' @ jsonEscape (lastAuthorizationTime st) @ ''\",''
     @ ''\"pendingVerification\":'' @ boolToJson (pendingVerification st) @ '',''
     @ ''\"intrusionDetected\":'' @ boolToJson (intrusionDetected st) @ '',''
     @ ''\"buzzerOn\":'' @ boolToJson (buzzerOn st) @ '',''
     @ ''\"ledStatus\":\"'' @ jsonEscape (ledStatus st) @ ''\",''
     @ ''\"cameraOnline\":'' @ boolToJson (cameraOnline st) @ '',''
     @ ''\"nfcOnline\":'' @ boolToJson (nfcOnline st) @ '',''
     @ ''\"gpioOnline\":'' @ boolToJson (gpioOnline st) @ '',''
     @ ''\"apiOnline\":'' @ boolToJson (apiOnline st) @ '',''
     @ ''\"uptimeSeconds\":'' @ to_string (getUptimeSeconds t st)
     @ ''}''"

definition log_object :: "log_entry \<Rightarrow> string" where
  "log_object e =
     ''{''
     @ ''\"id\":\"'' @ jsonEscape (le_id e) @ ''\",''
     @ ''\"time\":\"'' @ jsonEscape (le_time e) @ ''\",''
     @ ''\"type\":\"'' @ jsonEscape (le_type e) @ ''\",''
     @ ''\"message\":\"'' @ jsonEscape (le_message e) @ ''\",''
     @ ''\"extra\":\"'' @ jsonEscape (le_extra e) @ ''\"''
     @ ''}''"

text \<open>The loop over the log, with its index.\<close>

fun log_items :: "nat \<Rightarrow> nat \<Rightarrow> log_entry list \<Rightarrow> string" where
  "log_items i limit [] = ''''"
| "log_items i limit (e # es) =
     (if i < limit
      then (if i > 0 then '','' else '''') @ log_object e @ log_items (i + 1) limit es
      else '''')"

definition buildLogsJson :: "nat \<Rightarrow> log_entry list \<Rightarrow> string" where
  "buildLogsJson limit logs =
     ''{''
     @ ''\"ok\":true,''
     @ ''\"count\":'' @ show_nat (min limit (length logs)) @ '',''
     @ ''\"data\":['' @ log_items 0 limit logs @ '']''
     @ ''}''"

definition root_body :: string where
  "root_body =
     ''{''
     @ ''\"ok\":true,''
     @ ''\"service\":\"Door Intrusion Alarm API\",''
     @ ''\"version\":\"1.0.0\",''
     @ ''\"endpoints\":[''
     @ ''\"GET /api/health\",''
     @ ''\"GET /api/status\",''
     @ ''\"GET /api/logs\",''
     @ ''\"POST /api/system/arm\",''
     @ ''\"POST /api/system/disarm\",''
     @ ''\"POST /api/system/lock\",''
     @ ''\"POST /api/system/unlock\",''
     @ ''\"POST /api/access/authorize\",''
     @ ''\"POST /api/door/open\",''
     @ ''\"POST /api/door/close\",''
     @ ''\"POST /api/alarm/trigger\",''
     @ ''\"POST /api/alarm/clear\",''
     @ ''\"POST /api/devices/update\",''
     @ ''\"POST /api/email/test\"''
     @ '']''
     @ ''}''"

definition health_body :: "time_point \<Rightarrow> system_state \<Rightarrow> string" where
  "health_body t st =
     ''{''
     @ ''\"ok\":true,''
     @ ''\"service\":\"door-alarm-api-cpp\",''
     @ ''\"time\":\"'' @ nowIso8601 t @ ''\",''
     @ ''\"uptimeSeconds\":'' @ to_string (getUptimeSeconds t st) @ '',''
     @ ''\"devices\":{''
     @ ''\"gpioOnline\":'' @ boolToJson (gpioOnline st) @ '',''
     @ ''\"nfcOnline\":'' @ boolToJson (nfcOnline st) @ '',''
     @ ''\"cameraOnline\":'' @ boolToJson (cameraOnline st) @ '',''
     @ ''\"apiOnline\":'' @ boolToJson (apiOnline st)
     @ ''}''
     @ ''}''"

record response =
  rs_status :: int
  rs_headers :: "(string \<times> string) list"
  rs_body :: string

definition cors_headers :: "(string \<times> string) list" where
  "cors_headers =
     [(''Access-Control-Allow-Origin'', ''*''),
      (''Access-Control-Allow-Headers'', ''Content-Type''),
      (''Access-Control-Allow-Methods'', ''GET, POST, OPTIONS'')]"

definition setJsonResponse :: "string \<Rightarrow> int \<Rightarrow> response" where
  "setJsonResponse body status =
     \<lparr>rs_status = status, rs_headers = (''Content-Type'', ''application/json'') # cors_headers,
      rs_body = body\<rparr>"

text \<open>The answer of most handlers: a message and the state after the change.\<close>

definition reply :: "time_point \<Rightarrow> string \<Rightarrow> api \<Rightarrow> response" where
  "reply t message a =
     setJsonResponse
       (''{\"ok\":true,\"message\":\"'' @ message @ ''\",\"data\":''
        @ buildStateJson t (g_state a) @ ''}'') 200"

section \<open>Handlers\<close>

text \<open>
  A handler takes the time and what it reads of the request, and returns the new state and the
  response.
\<close>

definition handle_health :: "time_point \<Rightarrow> api \<Rightarrow> api \<times> response" where
  "handle_health t a = (a, setJsonResponse (health_body t (g_state a)) 200)"

definition handle_status :: "time_point \<Rightarrow> api \<Rightarrow> api \<times> response" where
  "handle_status t a =
     (a, setJsonResponse (''{\"ok\":true,\"data\":'' @ buildStateJson t (g_state a) @ ''}'') 200)"

text \<open>\<open>limit\<close> is the query parameter, when there is one.\<close>

definition handle_logs :: "string option \<Rightarrow> api \<Rightarrow> cpp_error + response" where
  "handle_logs limit a =
     (case limit of
        None \<Rightarrow> Inr (setJsonResponse (buildLogsJson 50 (g_logs a)) 200)
      | Some s \<Rightarrow>
          (case stoul s of
             Inl e \<Rightarrow> Inl e
           | Inr n \<Rightarrow>
               Inr (setJsonResponse (buildLogsJson (if n > 200 then 200 else n) (g_logs a)) 200)))"

definition handle_arm :: "time_point \<Rightarrow> api \<Rightarrow> api \<times> response" where
  "handle_arm t a =
     (let a = on_state (\<lambda>st. st\<lparr>systemArmed := True\<rparr>) a;
          a = on_state updateLedStatus a;
          a = addLog t ''system'' ''System armed'' '''' a
      in (a, reply t ''System armed successfully'' a))"

definition handle_disarm :: "time_point \<Rightarrow> api \<Rightarrow> api \<times> response" where
  "handle_disarm t a =
     (let a = on_state (\<lambda>st. st\<lparr>systemArmed := False, pendingVerification := False\<rparr>) a;
          a = clearAlarm_api t a;
          a = on_state updateLedStatus a;
          a = addLog t ''system'' ''System disarmed'' '''' a
      in (a, reply t ''System disarmed successfully'' a))"

definition handle_lock :: "time_point \<Rightarrow> api \<Rightarrow> api \<times> response" where
  "handle_lock t a =
     (let a = on_state (\<lambda>st. st\<lparr>lockState := ''locked''\<rparr>) a;
          a = addLog t ''system'' ''Door locked'' '''' a
      in (a, reply t ''Door locked'' a))"

definition handle_unlock :: "time_point \<Rightarrow> api \<Rightarrow> api \<times> response" where
  "handle_unlock t a =
     (let a = on_state (\<lambda>st. st\<lparr>lockState := ''unlocked''\<rparr>) a;
          a = addLog t ''system'' ''Door unlocked'' '''' a
      in (a, reply t ''Door unlocked'' a))"

definition handle_authorize :: "time_point \<Rightarrow> string \<Rightarrow> api \<Rightarrow> api \<times> response" where
  "handle_authorize t body a =
     (let meth = getJsonStringField body ''method'';
          user = getJsonStringField body ''user''
      in if meth \<noteq> ''nfc'' \<and> meth \<noteq> ''face'' \<and> meth \<noteq> ''api''
         then (a, setJsonResponse
                    ''{\"ok\":false,\"message\":\"Invalid method. Use nfc, face, or api\"}'' 400)
         else let user = (if user = [] then ''unknown'' else user);
                  a = authorizeAccess t meth user a
              in (a, reply t ''Access authorized'' a))"

definition handle_door_open :: "time_point \<Rightarrow> api \<Rightarrow> api \<times> response" where
  "handle_door_open t a =
     (let a = on_state (\<lambda>st. st\<lparr>doorOpen := True\<rparr>) a;
          a = addLog t ''door'' ''Door opened'' '''' a;
          a = (if systemArmed (g_state a)
               then let a = on_state (\<lambda>st. st\<lparr>pendingVerification := True\<rparr>) a;
                        a = on_state updateLedStatus a
                    in addLog t ''system'' ''Verification window started'' ''5 seconds'' a
               else a);
          r = reply t ''Door open event received'' a
      in (spawn_job (Window_Check (t + seconds VERIFICATION_WINDOW_SECONDS)) a, r))"

definition handle_door_close :: "time_point \<Rightarrow> api \<Rightarrow> api \<times> response" where
  "handle_door_close t a =
     (let a = on_state (\<lambda>st. st\<lparr>doorOpen := False, pendingVerification := False\<rparr>) a;
          a = on_state updateLedStatus a;
          a = addLog t ''door'' ''Door closed'' '''' a
      in (a, reply t ''Door close event received'' a))"

definition handle_trigger :: "time_point \<Rightarrow> string \<Rightarrow> api \<Rightarrow> api \<times> response" where
  "handle_trigger t body a =
     (let reason = getJsonStringField body ''reason'';
          reason = (if reason = [] then ''Manual alarm trigger'' else reason);
          a = triggerAlarm_api t reason a
      in (a, reply t ''Alarm triggered'' a))"

definition handle_clear :: "time_point \<Rightarrow> api \<Rightarrow> api \<times> response" where
  "handle_clear t a = (let a = clearAlarm_api t a in (a, reply t ''Alarm cleared'' a))"

definition handle_devices :: "time_point \<Rightarrow> string \<Rightarrow> api \<Rightarrow> api \<times> response" where
  "handle_devices t body a =
     (let value = False;
          (found, value) = getJsonBoolField body ''gpioOnline'' value;
          a = (if found then on_state (\<lambda>st. st\<lparr>gpioOnline := value\<rparr>) a else a);
          (found, value) = getJsonBoolField body ''nfcOnline'' value;
          a = (if found then on_state (\<lambda>st. st\<lparr>nfcOnline := value\<rparr>) a else a);
          (found, value) = getJsonBoolField body ''cameraOnline'' value;
          a = (if found then on_state (\<lambda>st. st\<lparr>cameraOnline := value\<rparr>) a else a);
          a = addLog t ''device'' ''Device status updated'' '''' a
      in (a, reply t ''Device status updated'' a))"

definition handle_email_test :: "api \<Rightarrow> api \<times> response" where
  "handle_email_test a =
     (spawn_job Test_Mail a,
      setJsonResponse ''{\"ok\":true,\"message\":\"Test email request sent\"}'' 200)"

definition handle_options :: response where
  "handle_options = \<lparr>rs_status = 200, rs_headers = cors_headers, rs_body = ''''\<rparr>"

text \<open>The error handler, for a request that no route matches.\<close>

definition not_found :: response where
  "not_found = setJsonResponse ''{\"ok\":false,\"message\":\"Route not found\"}'' 404"

section \<open>Routes\<close>

record request =
  rq_method :: string
  rq_path :: string
  rq_body :: string
  rq_limit :: "string option"

text \<open>
  The registrations of \<^verbatim>\<open>main\<close>: a request goes to the route whose method and path match. An
  exception leaves a handler as \<open>Inl\<close>, with the lock released and the state as it was.
\<close>

definition handle_request ::
  "time_point \<Rightarrow> request \<Rightarrow> api \<Rightarrow> api \<times> (cpp_error + response)" where
  "handle_request t rq a =
     (let ok = (\<lambda>(a, r). (a, Inr r)); body = rq_body rq; path = rq_path rq
      in if rq_method rq = ''OPTIONS'' then (a, Inr handle_options)
         else if rq_method rq = ''GET''
         then if path = ''/'' then (a, Inr (setJsonResponse root_body 200))
              else if path = ''/api/health'' then ok (handle_health t a)
              else if path = ''/api/status'' then ok (handle_status t a)
              else if path = ''/api/logs'' then (a, handle_logs (rq_limit rq) a)
              else (a, Inr not_found)
         else if rq_method rq = ''POST''
         then if path = ''/api/system/arm'' then ok (handle_arm t a)
              else if path = ''/api/system/disarm'' then ok (handle_disarm t a)
              else if path = ''/api/system/lock'' then ok (handle_lock t a)
              else if path = ''/api/system/unlock'' then ok (handle_unlock t a)
              else if path = ''/api/access/authorize'' then ok (handle_authorize t body a)
              else if path = ''/api/door/open'' then ok (handle_door_open t a)
              else if path = ''/api/door/close'' then ok (handle_door_close t a)
              else if path = ''/api/alarm/trigger'' then ok (handle_trigger t body a)
              else if path = ''/api/alarm/clear'' then ok (handle_clear t a)
              else if path = ''/api/devices/update'' then ok (handle_devices t body a)
              else if path = ''/api/email/test'' then ok (handle_email_test a)
              else (a, Inr not_found)
         else (a, Inr not_found))"

section \<open>Detached threads\<close>

text \<open>
  What a thread does at time \<open>t\<close>, and what it will do afterwards. \<open>sent\<close> is what the mail
  library answers.
\<close>

definition run_job :: "time_point \<Rightarrow> bool \<Rightarrow> job \<Rightarrow> api \<Rightarrow> api \<times> job option" where
  "run_job t sent j a =
     (case j of
        Window_Check due \<Rightarrow>
          if t < due then (a, Some j)
          else if doorOpen (g_state a) \<and> systemArmed (g_state a)
                  \<and> pendingVerification (g_state a)
          then (triggerAlarm_api t ''Door opened without valid authorization in time window'' a,
                None)
          else (a, None)
      | Alarm_Mail reason \<Rightarrow>
          (a\<lparr>g_outbox := g_outbox a @ [alarm_mail t reason (g_state a)]\<rparr>,
           Some (Mail_Result ''Email alert sent'' ''Email alert failed''))
      | Test_Mail \<Rightarrow>
          (a\<lparr>g_outbox := g_outbox a
               @ [(''Test Email Alert'',
                   ''This is a test email from Door Intrusion Alarm System.'')]\<rparr>,
           Some (Mail_Result ''Test email sent'' ''Test email failed''))
      | Mail_Result yes no \<Rightarrow> (addLog t ''email'' (if sent then yes else no) '''' a, None))"

text \<open>Thread \<open>i\<close> takes its turn.\<close>

definition job_step :: "time_point \<Rightarrow> bool \<Rightarrow> nat \<Rightarrow> api \<Rightarrow> api" where
  "job_step t sent i a =
     (if i < length (g_jobs a)
      then let j = g_jobs a ! i;
               a = a\<lparr>g_jobs := take i (g_jobs a) @ drop (i + 1) (g_jobs a)\<rparr>;
               (a, next_job) = run_job t sent j a
           in (case next_job of None \<Rightarrow> a | Some j' \<Rightarrow> spawn_job j' a)
      else a)"

datatype api_input = Request time_point request | Thread time_point bool nat

fun api_act :: "api_input \<Rightarrow> api \<Rightarrow> api" where
  "api_act (Request t rq) a = fst (handle_request t rq a)"
| "api_act (Thread t sent i) a = job_step t sent i a"

definition api_run :: "api_input list \<Rightarrow> api \<Rightarrow> api" where
  "api_run ins a = fold api_act ins a"

text \<open>
  The start of \<^verbatim>\<open>main\<close>: \<open>t0\<close> when the globals are initialised, \<open>t\<close> when the first log entries
  are written; \<open>configured\<close> is the answer of \<^verbatim>\<open>isConfigured()\<close>, which the repository declares
  but does not define.
\<close>

definition boot :: "time_point \<Rightarrow> time_point \<Rightarrow> bool \<Rightarrow> api" where
  "boot t0 t configured =
     (let a = \<lparr>g_state = SystemState t0, g_logs = [], g_jobs = [], g_outbox = [],
               g_console = []\<rparr>;
          a = addLog t ''system'' ''API server started on port 3000'' '''' a
      in if configured then addLog t ''email'' ''Email alert configured'' '''' a
         else addLog t ''email'' ''Email alert not configured'' '''' a)"

end
