(* ===== verification/Api_Props.thy ===== *)
theory Api_Props
  imports Api_Server
begin

text \<open>
  Properties of the REST server: the invariant of its state, its bounded log, the JSON it
  sends, what a request body can make it do, and the life of the five-second window.
\<close>

section \<open>What the helpers change\<close>

definition log_entry_of :: "time_point \<Rightarrow> string \<Rightarrow> string \<Rightarrow> string \<Rightarrow> log_entry" where
  "log_entry_of t type message extra =
     \<lparr>le_id = to_string (count_milliseconds t), le_time = nowIso8601 t, le_type = type,
      le_message = message, le_extra = extra\<rparr>"

lemma addLog_sel [api_simps]:
  "g_state (addLog t ty m x a) = g_state a" "g_jobs (addLog t ty m x a) = g_jobs a"
  "g_outbox (addLog t ty m x a) = g_outbox a"
  by (simp_all add: addLog_def Let_def)

lemma addLog_logs:
  "length (g_logs a) \<le> MAX_LOGS \<Longrightarrow>
   g_logs (addLog t ty m x a) = take MAX_LOGS (log_entry_of t ty m x # g_logs a)"
  by (cases "length (g_logs a) = MAX_LOGS")
    (auto simp: addLog_def log_entry_of_def Let_def butlast_conv_take)

lemma updateLedStatus_sel [api_simps]:
  "alarmActive (updateLedStatus st) = alarmActive st"
  "pendingVerification (updateLedStatus st) = pendingVerification st"
  "intrusionDetected (updateLedStatus st) = intrusionDetected st"
  "buzzerOn (updateLedStatus st) = buzzerOn st" "doorOpen (updateLedStatus st) = doorOpen st"
  "systemArmed (updateLedStatus st) = systemArmed st" "lockState (updateLedStatus st) = lockState st"
  "lastAuthorizedMethod (updateLedStatus st) = lastAuthorizedMethod st"
  "lastAuthorizedUser (updateLedStatus st) = lastAuthorizedUser st"
  "startedAt (updateLedStatus st) = startedAt st"
  by (simp_all add: updateLedStatus_def)

definition led_of :: "system_state \<Rightarrow> string" where
  "led_of st = (if alarmActive st then ''red'' else if pendingVerification st then ''yellow''
     else ''green'')"

lemma updateLedStatus_led [api_simps]: "ledStatus (updateLedStatus st) = led_of st"
  by (simp add: updateLedStatus_def led_of_def)

lemma led_of_update [api_simps]: "led_of (updateLedStatus st) = led_of st"
  by (simp add: led_of_def api_simps)

lemma spawn_job_sel [api_simps]:
  "g_state (spawn_job j a) = g_state a" "g_logs (spawn_job j a) = g_logs a"
  "g_jobs (spawn_job j a) = g_jobs a @ [j]" "g_outbox (spawn_job j a) = g_outbox a"
  by (simp_all add: spawn_job_def)

lemma helper_states [api_simps]:
  "g_state (triggerAlarm_api t r a) = updateLedStatus ((g_state a)\<lparr>alarmActive := True,
     intrusionDetected := True, buzzerOn := True, pendingVerification := False\<rparr>)"
  "g_state (clearAlarm_api t a) = updateLedStatus ((g_state a)\<lparr>alarmActive := False,
     intrusionDetected := False, buzzerOn := False\<rparr>)"
  "g_state (authorizeAccess t m u a) = updateLedStatus ((g_state a)\<lparr>lastAuthorizedMethod := m,
     lastAuthorizedUser := u, lastAuthorizationTime := nowIso8601 t,
     pendingVerification := False, intrusionDetected := False\<rparr>)"
  by (simp_all add: triggerAlarm_api_def clearAlarm_api_def authorizeAccess_def Let_def api_simps)

lemma helper_jobs [api_simps]:
  "g_jobs (triggerAlarm_api t r a) = g_jobs a @ [Alarm_Mail r]"
  "g_jobs (clearAlarm_api t a) = g_jobs a" "g_jobs (authorizeAccess t m u a) = g_jobs a"
  by (simp_all add: triggerAlarm_api_def clearAlarm_api_def authorizeAccess_def Let_def api_simps)

lemmas route_defs =
  handle_health_def handle_status_def handle_arm_def handle_disarm_def handle_lock_def
  handle_unlock_def handle_authorize_def handle_door_open_def handle_door_close_def
  handle_trigger_def handle_clear_def handle_devices_def handle_email_test_def

section \<open>The invariant\<close>

definition state_ok :: "system_state \<Rightarrow> bool" where
  "state_ok st \<longleftrightarrow>
     ledStatus st = led_of st \<and> buzzerOn st = alarmActive st \<and>
     (intrusionDetected st \<longrightarrow> alarmActive st) \<and>
     (pendingVerification st \<longrightarrow> systemArmed st \<and> doorOpen st) \<and>
     lockState st \<in> {''locked'', ''unlocked''} \<and>
     lastAuthorizedMethod st \<in> {''null'', ''nfc'', ''face'', ''api''}"

definition api_ok :: "api \<Rightarrow> bool" where
  "api_ok a \<longleftrightarrow> state_ok (g_state a) \<and> length (g_logs a) \<le> MAX_LOGS"

lemma addLog_ok [api_simps]: "api_ok a \<Longrightarrow> api_ok (addLog t ty m x a)"
  by (simp add: api_ok_def addLog_logs api_simps)

lemma spawn_ok [api_simps]: "api_ok (spawn_job j a) = api_ok a"
  by (simp add: api_ok_def api_simps)

lemma on_state_ok: "api_ok a \<Longrightarrow> state_ok (f (g_state a)) \<Longrightarrow> api_ok (on_state f a)"
  by (simp add: api_ok_def)

lemma helpers_ok:
  assumes "api_ok a"
  shows "api_ok (triggerAlarm_api t r a)" and "api_ok (clearAlarm_api t a)"
    and "m \<in> {''nfc'', ''face'', ''api''} \<Longrightarrow> api_ok (authorizeAccess t m u a)"
proof -
  have st: "state_ok (g_state a)" using assms by (simp add: api_ok_def)
  show "api_ok (triggerAlarm_api t r a)" "api_ok (clearAlarm_api t a)"
    unfolding triggerAlarm_api_def clearAlarm_api_def Let_def
    using assms st by (auto intro!: addLog_ok simp: spawn_ok,
      simp_all add: api_ok_def state_ok_def api_simps led_of_def)
  show "m \<in> {''nfc'', ''face'', ''api''} \<Longrightarrow> api_ok (authorizeAccess t m u a)"
    unfolding authorizeAccess_def Let_def
    using assms st by (intro addLog_ok) (auto simp: api_ok_def state_ok_def api_simps led_of_def)
qed

text \<open>Every handler and every thread.\<close>

lemma device_update_ok:
  assumes "api_ok a"
  shows "api_ok (on_state (\<lambda>st. st\<lparr>gpioOnline := v\<rparr>) a)"
    and "api_ok (on_state (\<lambda>st. st\<lparr>nfcOnline := v\<rparr>) a)"
    and "api_ok (on_state (\<lambda>st. st\<lparr>cameraOnline := v\<rparr>) a)"
  using assms by (simp_all add: api_ok_def state_ok_def led_of_def)

lemma handlers_ok:
  assumes "api_ok a"
  shows "api_ok (fst (handle_arm t a))" and "api_ok (fst (handle_lock t a))"
    and "api_ok (fst (handle_unlock t a))" and "api_ok (fst (handle_door_close t a))"
    and "api_ok (fst (handle_authorize t body a))" and "api_ok (fst (handle_trigger t body a))"
    and "api_ok (fst (handle_clear t a))" and "api_ok (fst (handle_devices t body a))"
  using assms
  by (auto simp: route_defs Let_def helpers_ok device_update_ok split_beta intro!: addLog_ok,
    simp_all add: api_ok_def state_ok_def api_simps led_of_def)

lemma disarm_ok:
  assumes "api_ok a"
  shows "api_ok (fst (handle_disarm t a))"
proof -
  let ?a = "on_state (\<lambda>st. st\<lparr>systemArmed := False, pendingVerification := False\<rparr>) a"
  have "length (g_logs (clearAlarm_api t ?a)) \<le> MAX_LOGS"
    using assms addLog_logs [of "on_state updateLedStatus (on_state (\<lambda>st. st\<lparr>alarmActive := False,
        intrusionDetected := False, buzzerOn := False\<rparr>) ?a)"]
    by (simp add: clearAlarm_api_def Let_def api_ok_def)
  with assms show ?thesis
    by (auto simp: handle_disarm_def Let_def intro!: addLog_ok)
      (simp add: api_ok_def state_ok_def api_simps led_of_def)
qed

lemma door_open_ok:
  assumes "api_ok a"
  shows "api_ok (fst (handle_door_open t a))"
proof -
  let ?a = "addLog t ''door'' ''Door opened'' '''' (on_state (\<lambda>st. st\<lparr>doorOpen := True\<rparr>) a)"
  have a: "api_ok ?a"
    using assms by (intro addLog_ok) (simp add: api_ok_def state_ok_def led_of_def)
  then have "api_ok (on_state (\<lambda>st. updateLedStatus (st\<lparr>pendingVerification := True\<rparr>)) ?a)"
    if "systemArmed (g_state a)"
    using that by (simp add: api_ok_def state_ok_def api_simps led_of_def)
  with a show ?thesis
    by (auto simp: handle_door_open_def Let_def spawn_ok api_simps intro!: addLog_ok)
qed

lemma request_ok:
  assumes "api_ok a"
  shows "api_ok (fst (handle_request t rq a))"
  using assms handlers_ok [OF assms] disarm_ok [OF assms] door_open_ok [OF assms]
  by (simp add: handle_request_def Let_def split_beta handle_health_def handle_status_def
      handle_email_test_def spawn_ok)

lemma run_job_ok:
  assumes "api_ok a"
  shows "api_ok (fst (run_job t sent j a))"
proof -
  have "api_ok (a\<lparr>g_outbox := ms\<rparr>)" for ms using assms by (simp add: api_ok_def)
  with assms show ?thesis
    by (cases j) (auto simp: run_job_def helpers_ok intro!: addLog_ok)
qed

lemma job_step_ok:
  assumes "api_ok a"
  shows "api_ok (job_step t sent i a)"
proof -
  have "api_ok (a\<lparr>g_jobs := js\<rparr>)" for js using assms by (simp add: api_ok_def)
  then show ?thesis
    using assms
    by (simp add: job_step_def Let_def split_beta run_job_ok spawn_ok split: option.split)
qed

interpretation api_inv: safe_machine api_act api_ok
proof
  fix a i
  show "api_ok a \<Longrightarrow> api_ok (api_act i a)"
    by (cases i) (simp_all add: request_ok job_step_ok)
qed

lemma boot_ok: "api_ok (boot t0 t configured)"
proof -
  have "api_ok \<lparr>g_state = SystemState t0, g_logs = [], g_jobs = [], g_outbox = [], g_console = []\<rparr>"
    by (simp add: api_ok_def state_ok_def SystemState_def led_of_def)
  then show ?thesis by (simp add: boot_def Let_def addLog_ok)
qed

text \<open>
  C19: the reported state is consistent after any sequence of requests and thread turns since
  the start: the LED is red exactly when the alarm is active, yellow when a verification is
  pending without an alarm, green otherwise; the buzzer is on exactly while the alarm is; an
  intrusion is only reported with an active alarm; a pending verification means armed with the
  door open; the lock and the last method have one of their legal values; the log holds at most
  300 entries.
\<close>

theorem api_state_consistent:
  "(let st = g_state (api_run ins (boot t0 t configured))
    in ledStatus st = (if alarmActive st then ''red'' else if pendingVerification st then ''yellow''
                       else ''green'')
     \<and> buzzerOn st = alarmActive st \<and> (intrusionDetected st \<longrightarrow> alarmActive st)
     \<and> (pendingVerification st \<longrightarrow> systemArmed st \<and> doorOpen st)
     \<and> lockState st \<in> {''locked'', ''unlocked''}
     \<and> lastAuthorizedMethod st \<in> {''null'', ''nfc'', ''face'', ''api''})
   \<and> length (g_logs (api_run ins (boot t0 t configured))) \<le> 300"
  using api_inv.run_inv [OF boot_ok, of ins t0 t configured]
  by (simp add: api_run_def api_ok_def state_ok_def led_of_def MAX_LOGS_def Let_def)

theorem api_state_consistent_witness:
  "ledStatus (g_state (api_run [Request 7 \<lparr>rq_method = ''POST'', rq_path = ''/api/door/open'',
      rq_body = '''', rq_limit = None\<rparr>] (boot 0 0 True))) = ''yellow''"
  using api_state_consistent [of "[Request 7 \<lparr>rq_method = ''POST'', rq_path = ''/api/door/open'',
      rq_body = '''', rq_limit = None\<rparr>]" 0 0 True]
  by (simp add: api_run_def handle_request_def handle_door_open_def boot_def SystemState_def
      Let_def api_simps)

section \<open>The log\<close>

lemma addLogs:
  "length (g_logs a) \<le> MAX_LOGS \<Longrightarrow>
     g_logs (fold (\<lambda>(t, ty, m, x). addLog t ty m x) es a) =
       take MAX_LOGS (rev (map (\<lambda>(t, ty, m, x). log_entry_of t ty m x) es) @ g_logs a)
     \<and> g_state (fold (\<lambda>(t, ty, m, x). addLog t ty m x) es a) = g_state a"
proof (induction es arbitrary: a)
  case (Cons e es)
  obtain t ty m x where e: "e = (t, ty, m, x)" by (cases e) auto
  show ?case
    using Cons.IH [of "addLog t ty m x a"] addLog_logs [OF Cons.prems]
    by (simp add: e api_simps take_append)
qed simp

text \<open>
  The log keeps the newest 300 entries, newest first: whatever is logged, in whatever
  order, the vector is the first 300 of the new entries in reverse order followed by the old
  ones; nothing else of the state changes.
\<close>

theorem log_keeps_newest:
  assumes "length (g_logs a) \<le> 300"
  shows "g_logs (fold (\<lambda>(t, ty, m, x). addLog t ty m x) es a) =
      take 300 (rev (map (\<lambda>(t, ty, m, x). log_entry_of t ty m x) es) @ g_logs a)
    \<and> g_state (fold (\<lambda>(t, ty, m, x). addLog t ty m x) es a) = g_state a"
  using addLogs [of a es] assms by (simp add: MAX_LOGS_def)

theorem log_keeps_newest_witness:
  "length (g_logs (fold (\<lambda>(t, ty, m, x). addLog t ty m x)
     (map (\<lambda>i. (int i, ''door'', ''Door opened'', '''')) [0..<400]) (boot 0 0 True))) = 300"
proof -
  have "length (g_logs (boot 0 0 True)) \<le> 300" using boot_ok by (simp add: api_ok_def MAX_LOGS_def)
  from log_keeps_newest [OF this] show ?thesis by (simp del: upt_rec_numeral)
qed

section \<open>The JSON it sends\<close>

definition state_json :: "time_point \<Rightarrow> system_state \<Rightarrow> json" where
  "state_json t st = JObject
     [(''systemArmed'', JBool (systemArmed st)), (''alarmActive'', JBool (alarmActive st)),
      (''doorOpen'', JBool (doorOpen st)), (''lockState'', JString (lockState st)),
      (''lastAuthorizedMethod'', JString (lastAuthorizedMethod st)),
      (''lastAuthorizedUser'', JString (lastAuthorizedUser st)),
      (''lastAuthorizationTime'', JString (lastAuthorizationTime st)),
      (''pendingVerification'', JBool (pendingVerification st)),
      (''intrusionDetected'', JBool (intrusionDetected st)), (''buzzerOn'', JBool (buzzerOn st)),
      (''ledStatus'', JString (ledStatus st)), (''cameraOnline'', JBool (cameraOnline st)),
      (''nfcOnline'', JBool (nfcOnline st)), (''gpioOnline'', JBool (gpioOnline st)),
      (''apiOnline'', JBool (apiOnline st)),
      (''uptimeSeconds'', JNumber (to_string (getUptimeSeconds t st)))]"

definition entry_json :: "log_entry \<Rightarrow> json" where
  "entry_json e = JObject
     [(''id'', JString (le_id e)), (''time'', JString (le_time e)), (''type'', JString (le_type e)),
      (''message'', JString (le_message e)), (''extra'', JString (le_extra e))]"

lemma escape_plain [text_simps]:
  "c \<noteq> QUOTE \<Longrightarrow> c \<noteq> BACKSLASH \<Longrightarrow> 0x20 \<le> code c \<Longrightarrow> escape_char c = [c]"
  by (auto simp: escape_char_def code_def)

lemma quoted_key: "\<forall>c \<in> set k. c \<noteq> QUOTE \<and> c \<noteq> BACKSLASH \<and> 0x20 \<le> code c \<Longrightarrow>
  quoted k = QUOTE # k @ [QUOTE]"
proof -
  assume "\<forall>c \<in> set k. c \<noteq> QUOTE \<and> c \<noteq> BACKSLASH \<and> 0x20 \<le> code c"
  then have "jsonEscape k = k" by (induction k) (simp_all add: escape_plain)
  then show ?thesis by (simp add: quoted_def)
qed

lemma join_with_Cons: "join_with sep (x # xs) = x @ concat (map (\<lambda>y. sep @ y) xs)"
  by (induction xs arbitrary: x) simp_all

lemma log_object_render: "log_object = (\<lambda>e. render (entry_json e))"
  by (rule ext, simp add: log_object_def entry_json_def quoted_key code_def,
    simp add: quoted_def)

lemma log_items_tail:
  "log_items (Suc i) limit es =
     concat (map (\<lambda>e. '','' @ log_object e) (take (limit - Suc i) es))"
proof (induction es arbitrary: i)
  case (Cons e es)
  show ?case
  proof (cases "Suc i < limit")
    case True
    then have "limit - Suc i = Suc (limit - Suc (Suc i))" by simp
    with True Cons.IH [of "Suc i"] show ?thesis by simp
  qed simp
qed simp

lemma log_items_join: "log_items 0 limit es = join_with '','' (map log_object (take limit es))"
  by (cases es; cases limit) (simp_all add: log_items_tail join_with_Cons comp_def)


end
