(* ===== verification/Api_Windows.thy ===== *)
theory Api_Windows
  imports Api_Props
begin

text \<open>
  What requests can do to the REST server: the authorization body, the \<^verbatim>\<open>limit\<close> parameter, and
  the five-second window between a door opening and the alarm, over all interleavings of
  requests and detached threads.
\<close>

section \<open>Request bodies\<close>

definition authorize_body :: "string \<Rightarrow> string \<Rightarrow> string" where
  "authorize_body meth user =
     ''{\"method\":\"'' @ meth @ ''\",\"user\":\"'' @ user @ ''\"}''"

lemma method_of_body:
  assumes "QUOTE \<notin> set m"
  shows "getJsonStringField (authorize_body m u) ''method'' = m"
  by (rule getJsonStringField_at [where pre = "''{''" and ?g1.0 = "''''" and ?g2.0 = "''''"
        and rest = "'','' @ QUOTE # ''user'' @ QUOTE # '':'' @ QUOTE # u @ QUOTE # ''}''"])
    (simp_all add: authorize_body_def first_match_Cons assms)

lemma user_of_body:
  assumes "m \<in> {''nfc'', ''face'', ''api''}" and "QUOTE \<notin> set u"
  shows "getJsonStringField (authorize_body m u) ''user'' = u"
  by (rule getJsonStringField_at [where pre = "''{\"method\":\"'' @ m @ ''\",''"
        and ?g1.0 = "''''" and ?g2.0 = "''''" and rest = "''}''"])
    (use assms in \<open>auto simp: authorize_body_def first_match_Cons\<close>)

text \<open>
  The authorization request: with one of the three methods and a user name without quotes,
  the body is read back as sent, the request is recorded and a pending verification ends; with
  any other method the answer is status 400 and nothing changes. Neither arms, disarms, opens
  nor touches the lock; and an active alarm and its buzzer stay on, although the intrusion is
  no longer reported.
\<close>

theorem authorize_request:
  "(m \<in> {''nfc'', ''face'', ''api''} \<and> QUOTE \<notin> set u \<and> u \<noteq> '''' \<longrightarrow>
      (let st = g_state a; st' = g_state (fst (handle_authorize t (authorize_body m u) a))
       in lastAuthorizedMethod st' = m \<and> lastAuthorizedUser st' = u
          \<and> lastAuthorizationTime st' = nowIso8601 t
          \<and> \<not> pendingVerification st' \<and> \<not> intrusionDetected st'
          \<and> alarmActive st' = alarmActive st \<and> buzzerOn st' = buzzerOn st
          \<and> systemArmed st' = systemArmed st \<and> doorOpen st' = doorOpen st
          \<and> lockState st' = lockState st))
   \<and> (m \<notin> {''nfc'', ''face'', ''api''} \<and> QUOTE \<notin> set m \<longrightarrow>
        fst (handle_authorize t (authorize_body m u) a) = a
        \<and> rs_status (snd (handle_authorize t (authorize_body m u) a)) = 400)"
  by (auto simp: handle_authorize_def method_of_body user_of_body Let_def api_simps
      updateLedStatus_def setJsonResponse_def)

theorem authorize_request_witness:
  "lastAuthorizedUser (g_state (fst (handle_authorize 0 (authorize_body ''nfc'' ''040A'')
      (boot 0 0 True)))) = ''040A''
   \<and> rs_status (snd (handle_authorize 0 (authorize_body ''pin'' ''040A'') (boot 0 0 True))) = 400"
  using authorize_request [of "''nfc''" "''040A''" "boot 0 0 True" 0]
    authorize_request [of "''pin''" "''040A''" "boot 0 0 True" 0]
  by (simp add: Let_def)

text \<open>
  The field reader searches text, not JSON: a key whose value is not a string gets the
  next quoted text behind it, so a numeric method followed by a key \<^verbatim>\<open>nfc\<close> counts as a valid
  authorization; and a value with an escaped quote ends at the backslash.
\<close>

theorem field_reader_misreads:
  "(\<exists>t'. g_logs (fst (handle_authorize t ''{\"method\":1,\"nfc\":0}'' a))
      = g_logs (authorizeAccess t' ''nfc'' ''unknown'' a))
   \<and> getJsonStringField (''{\"user\":\"a'' @ [BACKSLASH, QUOTE] @ ''b\"}'') ''user'' = [CHR ''a'', BACKSLASH]"
proof
  have "getJsonStringField ''{\"method\":1,\"nfc\":0}'' ''method'' = ''nfc''"
    by (rule getJsonStringField_at [where pre = "''{''" and ?g1.0 = "''''" and ?g2.0 = "''1,''"
          and rest = "'':0}''"]) (simp_all add: first_match_Cons)
  moreover have "getJsonStringField ''{\"method\":1,\"nfc\":0}'' ''user'' = ''''"
    by (simp add: getJsonStringField_def find_string_def first_match_Cons)
      (simp add: first_match.simps)
  ultimately show "\<exists>t'. g_logs (fst (handle_authorize t ''{\"method\":1,\"nfc\":0}'' a))
      = g_logs (authorizeAccess t' ''nfc'' ''unknown'' a)"
    by (auto simp: handle_authorize_def Let_def)
  show "getJsonStringField (''{\"user\":\"a'' @ [BACKSLASH, QUOTE] @ ''b\"}'') ''user'' = [CHR ''a'', BACKSLASH]"
    by (rule getJsonStringField_at [where pre = "''{''" and ?g1.0 = "''''" and ?g2.0 = "''''"
          and rest = "''b\"}''"]) (simp_all add: first_match_Cons)
qed

lemma stoul_no_digits: "snd (scan_number s) = '''' \<Longrightarrow> stoul s = Inl Invalid_Argument"
  by (simp add: stoul_def split_beta Let_def)

lemma stoul_minus_one: "stoul ''-1'' = Inr (2 ^ 64 - 1)"
  by (simp add: stoul_def scan_number_def digits_value_def is_digit_def is_space_def code_def)

text \<open>
  The \<^verbatim>\<open>limit\<close> parameter of the log request: a decimal number below \<open>2 ^ 64\<close> is capped at
  200; without the parameter the limit is 50; text without a leading number raises an exception;
  and \<^verbatim>\<open>-1\<close>, which \<^verbatim>\<open>std::stoul\<close> wraps around, asks for the maximum.
\<close>

theorem logs_limit:
  "(n < 2 ^ 64 \<longrightarrow>
      handle_logs (Some (show_nat n)) a = Inr (setJsonResponse (buildLogsJson (min n 200) (g_logs a)) 200))
   \<and> handle_logs None a = Inr (setJsonResponse (buildLogsJson 50 (g_logs a)) 200)
   \<and> handle_logs (Some ''-1'') a = Inr (setJsonResponse (buildLogsJson 200 (g_logs a)) 200)
   \<and> (snd (scan_number s) = '''' \<longrightarrow> handle_logs (Some s) a = Inl Invalid_Argument)"
  by (auto simp: handle_logs_def stoul_show stoul_no_digits stoul_minus_one min_def)

theorem logs_limit_witness:
  "handle_logs (Some (show_nat 1000)) (boot 0 0 True) =
     Inr (setJsonResponse (buildLogsJson 200 (g_logs (boot 0 0 True))) 200)
   \<and> handle_logs (Some ''ten'') (boot 0 0 True) = Inl Invalid_Argument"
  using logs_limit [of 1000 "boot 0 0 True" "''ten''"]
  by (simp add: scan_number_def is_digit_def is_space_def code_def)

section \<open>Causes of an alarm\<close>

text \<open>The requests and thread turns that can raise an alarm.\<close>

definition trigger_request :: "api_input \<Rightarrow> bool" where
  "trigger_request i \<longleftrightarrow>
     (\<exists>t rq. i = Request t rq \<and> rq_method rq = ''POST'' \<and> rq_path rq = ''/api/alarm/trigger'')"

definition window_expires :: "api_input \<Rightarrow> api \<Rightarrow> bool" where
  "window_expires i a \<longleftrightarrow>
     (\<exists>t sent k due. i = Thread t sent k \<and> k < length (g_jobs a) \<and> g_jobs a ! k = Window_Check due
        \<and> due \<le> t \<and> doorOpen (g_state a) \<and> systemArmed (g_state a)
        \<and> pendingVerification (g_state a))"

lemma handler_alarm:
  "alarmActive (g_state (fst (handle_arm t a))) = alarmActive (g_state a)"
  "\<not> alarmActive (g_state (fst (handle_disarm t a)))"
  "alarmActive (g_state (fst (handle_lock t a))) = alarmActive (g_state a)"
  "alarmActive (g_state (fst (handle_unlock t a))) = alarmActive (g_state a)"
  "alarmActive (g_state (fst (handle_authorize t b a))) = alarmActive (g_state a)"
  "alarmActive (g_state (fst (handle_door_open t a))) = alarmActive (g_state a)"
  "alarmActive (g_state (fst (handle_door_close t a))) = alarmActive (g_state a)"
  "\<not> alarmActive (g_state (fst (handle_clear t a)))"
  "alarmActive (g_state (fst (handle_devices t b a))) = alarmActive (g_state a)"
  "alarmActive (g_state (fst (handle_email_test a))) = alarmActive (g_state a)"
  "alarmActive (g_state (fst (handle_status t a))) = alarmActive (g_state a)"
  "alarmActive (g_state (fst (handle_health t a))) = alarmActive (g_state a)"
  by (simp_all add: route_defs Let_def api_simps split_beta)

lemma run_job_alarm:
  "alarmActive (g_state (fst (run_job t sent j a))) \<longleftrightarrow>
     alarmActive (g_state a) \<or> (\<exists>due. j = Window_Check due \<and> due \<le> t \<and> doorOpen (g_state a)
        \<and> systemArmed (g_state a) \<and> pendingVerification (g_state a))"
  by (cases j) (auto simp: run_job_def api_simps)

lemma job_step_state:
  "i < length (g_jobs a) \<Longrightarrow>
   g_state (job_step t sent i a) = g_state (fst (run_job t sent (g_jobs a ! i)
     (a\<lparr>g_jobs := take i (g_jobs a) @ drop (i + 1) (g_jobs a)\<rparr>)))"
  by (simp add: job_step_def Let_def split_beta api_simps split: option.split)

lemma new_alarm:
  assumes "alarmActive (g_state (api_act i a))" and "\<not> alarmActive (g_state a)"
  shows "trigger_request i \<or> window_expires i a"
proof (cases i)
  case (Request t rq)
  with assms show ?thesis
    by (auto simp: handle_request_def Let_def split_beta handler_alarm trigger_request_def
        split: if_splits)
next
  case (Thread t sent k)
  show ?thesis
  proof (cases "k < length (g_jobs a)")
    case True
    with assms Thread show ?thesis
      by (auto simp: job_step_state run_job_alarm window_expires_def)
  qed (use assms Thread in \<open>simp add: job_step_def\<close>)
qed

text \<open>
  No alarm without a cause: if the alarm is active after some inputs and was not before,
  one of them was a request to trigger it, or the window check of an opening that ran when due,
  with the door open, the system armed and the verification still pending at that moment.
\<close>

theorem alarm_has_source:
  assumes "alarmActive (g_state (api_run ins a))" and "\<not> alarmActive (g_state a)"
  shows "\<exists>pre i post. ins = pre @ i # post
           \<and> (trigger_request i \<or> window_expires i (api_run pre a))"
  using assms(1)
proof (induction ins rule: rev_induct)
  case Nil
  with assms(2) show ?case by (simp add: api_run_def)
next
  case (snoc i ins)
  have run: "api_run (ins @ [i]) a = api_act i (api_run ins a)" by (simp add: api_run_def)
  show ?case
  proof (cases "alarmActive (g_state (api_run ins a))")
    case True
    from snoc.IH [OF True] obtain pre j post where "ins = pre @ j # post"
        "trigger_request j \<or> window_expires j (api_run pre a)" by blast
    then show ?thesis by (intro exI [of _ pre] exI [of _ j] exI [of _ "post @ [i]"]) simp
  next
    case False
    then have "trigger_request i \<or> window_expires i (api_run ins a)"
      using new_alarm snoc.prems run by simp
    then show ?thesis by (intro exI [of _ ins] exI [of _ i] exI [of _ "[]"]) simp
  qed
qed

definition post :: "string \<Rightarrow> request" where
  "post path = \<lparr>rq_method = ''POST'', rq_path = path, rq_body = '''', rq_limit = None\<rparr>"

theorem alarm_has_source_witness:
  "\<exists>pre i rest. [Request 0 (post ''/api/door/open''), Thread (seconds 6) True 0] = pre @ i # rest
     \<and> (trigger_request i \<or> window_expires i (api_run pre (boot 0 0 True)))"
  by (rule alarm_has_source)
    (simp_all add: api_run_def handle_request_def post_def handle_door_open_def boot_def
      SystemState_def Let_def api_simps job_step_def run_job_def seconds_def
      VERIFICATION_WINDOW_SECONDS_def)

section \<open>The life of a window\<close>

text \<open>Inputs that do not end an intrusion: everything but these four requests.\<close>

definition ends_intrusion :: "api_input \<Rightarrow> bool" where
  "ends_intrusion i \<longleftrightarrow>
     (\<exists>t rq. i = Request t rq \<and> rq_method rq = ''POST'' \<and>
        rq_path rq \<in> {''/api/door/close'', ''/api/access/authorize'', ''/api/system/disarm'',
                       ''/api/alarm/clear''})"

definition watched :: "time_point \<Rightarrow> api \<Rightarrow> bool" where
  "watched due a \<longleftrightarrow>
     doorOpen (g_state a) \<and> systemArmed (g_state a) \<and>
     (alarmActive (g_state a) \<or>
      pendingVerification (g_state a) \<and> Window_Check due \<in> set (g_jobs a))"

lemma watched_handlers:
  assumes "watched due a"
  shows "watched due (fst (handle_arm t a))" "watched due (fst (handle_lock t a))"
    "watched due (fst (handle_unlock t a))" "watched due (fst (handle_door_open t a))"
    "watched due (fst (handle_trigger t b a))" "watched due (fst (handle_devices t b a))"
    "watched due (fst (handle_email_test a))" "watched due (fst (handle_status t a))"
    "watched due (fst (handle_health t a))"
  using assms by (auto simp: watched_def route_defs Let_def api_simps split_beta)

lemma watched_job_step:
  assumes "watched due a"
  shows "watched due (job_step t sent k a)"
proof (cases "k < length (g_jobs a)")
  case True
  let ?a = "a\<lparr>g_jobs := take k (g_jobs a) @ drop (k + 1) (g_jobs a)\<rparr>" and ?j = "g_jobs a ! k"
  have "set (g_jobs a) = insert ?j (set (g_jobs ?a))"
    using set_take_out [OF True] by simp
  with assms have mem: "alarmActive (g_state a) \<or> pendingVerification (g_state a) \<and>
      (?j = Window_Check due \<or> Window_Check due \<in> set (g_jobs ?a))"
    and st: "doorOpen (g_state a)" "systemArmed (g_state a)"
    by (auto simp: watched_def)
  have step: "job_step t sent k a =
      (case snd (run_job t sent ?j ?a) of None \<Rightarrow> fst (run_job t sent ?j ?a)
       | Some j' \<Rightarrow> spawn_job j' (fst (run_job t sent ?j ?a)))"
    using True by (simp add: job_step_def Let_def split_beta cong: option.case_cong)
  show ?thesis
    unfolding step using mem st by (cases ?j) (auto simp: run_job_def watched_def api_simps)
qed (use assms in \<open>simp add: job_step_def\<close>)

lemma watched_act:
  assumes "watched due a" and "\<not> ends_intrusion i"
  shows "watched due (api_act i a)"
proof (cases i)
  case (Request t rq)
  with assms watched_handlers [OF assms(1)] show ?thesis
    by (simp add: handle_request_def Let_def split_beta ends_intrusion_def)
next
  case (Thread t sent k)
  then show ?thesis using watched_job_step [OF assms(1)] by simp
qed

lemma watched_run:
  "watched due a \<Longrightarrow> \<forall>i \<in> set ins. \<not> ends_intrusion i \<Longrightarrow> watched due (api_run ins a)"
  by (induction ins arbitrary: a) (simp_all add: api_run_def watched_act)

lemma door_open_watched:
  "systemArmed (g_state a) \<Longrightarrow>
   watched (t + seconds VERIFICATION_WINDOW_SECONDS) (fst (handle_door_open t a))"
  by (simp add: watched_def handle_door_open_def Let_def api_simps)

lemma run_due_window:
  assumes "watched due a" and "k < length (g_jobs a)" and "g_jobs a ! k = Window_Check due"
    and "due \<le> t" and "\<not> alarmActive (g_state a)"
  shows "alarmActive (g_state (job_step t sent k a))"
  using assms by (auto simp: watched_def job_step_state run_job_alarm)

text \<open>
  C22: an opening that nobody authorizes leads to the alarm: after the door is opened with the
  system armed, and as long as no request closes the door, authorizes, disarms or clears the
  alarm, the alarm is active or the window's thread still exists; and at any time from five
  seconds after the opening on, that thread's turn activates the alarm.
\<close>

theorem window_leads_to_alarm:
  assumes "systemArmed (g_state a)" and "\<forall>i \<in> set ins. \<not> ends_intrusion i"
  shows "(let b = api_run ins (fst (handle_door_open t a)); due = t + seconds 5
    in alarmActive (g_state b)
       \<or> (\<exists>k < length (g_jobs b). g_jobs b ! k = Window_Check due
            \<and> (\<forall>t' \<ge> due. \<forall>sent. alarmActive (g_state (job_step t' sent k b)))))"
proof -
  let ?b = "api_run ins (fst (handle_door_open t a))" and ?due = "t + seconds 5"
  have w: "watched ?due ?b"
    using watched_run [OF door_open_watched [OF assms(1)] assms(2)]
    by (simp add: VERIFICATION_WINDOW_SECONDS_def)
  show ?thesis
  proof (cases "alarmActive (g_state ?b)")
    case False
    with w obtain k where "k < length (g_jobs ?b)" "g_jobs ?b ! k = Window_Check ?due"
      by (auto simp: watched_def in_set_conv_nth)
    then show ?thesis using run_due_window [OF w _ _ _ False] by (auto simp: Let_def)
  qed (simp add: Let_def)
qed

theorem window_leads_to_alarm_witness:
  "(let b = api_run [Request 5 (post ''/api/system/lock'')] (fst (handle_door_open 0 (boot 0 0 True)))
    in alarmActive (g_state b)
       \<or> (\<exists>k < length (g_jobs b). g_jobs b ! k = Window_Check (seconds 5)
            \<and> (\<forall>t' \<ge> seconds 5. \<forall>sent. alarmActive (g_state (job_step t' sent k b)))))"
  using window_leads_to_alarm [of "boot 0 0 True" "[Request 5 (post ''/api/system/lock'')]" 0]
  by (simp add: boot_def SystemState_def Let_def api_simps ends_intrusion_def post_def)

text \<open>
  The window of one opening can end another: if the door is opened, closed and opened again
  within five seconds, the thread of the first opening finds the second one pending and raises
  the alarm five seconds after the first opening, before the second window has passed; closing
  the door does not cancel it.
\<close>

theorem stale_window_cuts_grace_period:
  assumes "systemArmed (g_state a)" and "g_jobs a = []" and "t0 \<le> t2" and "t2 < t0 + seconds 5"
  shows "(let b = api_run [Request t0 (post ''/api/door/open''), Request t1 (post ''/api/door/close''),
                           Request t2 (post ''/api/door/open'')] a
    in alarmActive (g_state b) = alarmActive (g_state a)
       \<and> g_jobs b = [Window_Check (t0 + seconds 5), Window_Check (t2 + seconds 5)]
       \<and> t0 + seconds 5 \<le> t2 + seconds 5
       \<and> alarmActive (g_state (api_act (Thread (t0 + seconds 5) sent 0) b))
       \<and> pendingVerification (g_state b))"
proof -
  let ?b = "api_run [Request t0 (post ''/api/door/open''), Request t1 (post ''/api/door/close''),
                     Request t2 (post ''/api/door/open'')] a"
  have b: "alarmActive (g_state ?b) = alarmActive (g_state a)" "pendingVerification (g_state ?b)"
      "doorOpen (g_state ?b)" "systemArmed (g_state ?b)"
      "g_jobs ?b = [Window_Check (t0 + seconds 5), Window_Check (t2 + seconds 5)]"
    using assms(1,2)
    by (simp_all add: api_run_def handle_request_def post_def handle_door_open_def
        handle_door_close_def Let_def api_simps VERIFICATION_WINDOW_SECONDS_def)
  then show ?thesis
    using assms(3) by (simp add: Let_def job_step_state run_job_alarm)
qed

theorem stale_window_cuts_grace_period_witness:
  "alarmActive (g_state (api_run
     [Request 0 (post ''/api/door/open''), Request (seconds 1) (post ''/api/door/close''),
      Request (seconds 4) (post ''/api/door/open''), Thread (seconds 5) True 0] (boot 0 0 True)))"
proof -
  have "systemArmed (g_state (boot 0 0 True))" "g_jobs (boot 0 0 True) = []"
    by (simp_all add: boot_def SystemState_def Let_def api_simps)
  from stale_window_cuts_grace_period [OF this, of 0 "seconds 4" "seconds 1" True] show ?thesis
    by (simp add: Let_def api_run_def seconds_def)
qed

end
