(* ===== verification/Door_Lock.thy ===== *)
theory Door_Lock
  imports Cpp_Text Complex_Main Wakeup
begin

text \<open>
  The lock of the camera program: access events (\<^verbatim>\<open>include/AccessEvent.h\<close>), the event bus
  (\<^verbatim>\<open>include/EventBus.h\<close>), the override switch (\<^verbatim>\<open>include/OverrideManager.h\<close>) and the
  relay controller \<^verbatim>\<open>DoorController\<close> (\<^verbatim>\<open>include/DoorLock.h\<close>, \<^verbatim>\<open>src/DoorLock.cpp\<close>) with
  its timer thread and the detached threads that switch the red LED off.
\<close>

section \<open>Access events\<close>

datatype auth_method = FACE_ID | NFC | OVERRIDE | MANUAL | SYSTEM
datatype auth_result = GRANTED | DENIED | OVERRIDDEN

text \<open>
  A \<^verbatim>\<open>float\<close> is the rational number it denotes, or \<^term>\<open>None\<close> for NaN. Rectangles are of a
  type of the caller's.
\<close>

type_synonym score = "rat option"

record 'r access_event =
  ae_timestamp :: time_point
  ae_method :: auth_method
  ae_result :: auth_result
  ae_identity :: string
  ae_confidence :: score
  ae_note :: string
  ae_faceRect :: "'r option"

definition granted_event ::
  "time_point \<Rightarrow> auth_method \<Rightarrow> string \<Rightarrow> score \<Rightarrow> string \<Rightarrow> 'r access_event" where
  "granted_event t m who conf note =
     \<lparr>ae_timestamp = t, ae_method = m, ae_result = GRANTED, ae_identity = who,
      ae_confidence = conf, ae_note = note, ae_faceRect = None\<rparr>"

definition denied_event ::
  "time_point \<Rightarrow> auth_method \<Rightarrow> string \<Rightarrow> score \<Rightarrow> string \<Rightarrow> 'r access_event" where
  "denied_event t m who conf note =
     \<lparr>ae_timestamp = t, ae_method = m, ae_result = DENIED, ae_identity = who,
      ae_confidence = conf, ae_note = note, ae_faceRect = None\<rparr>"

definition override_event :: "time_point \<Rightarrow> string \<Rightarrow> string \<Rightarrow> 'r access_event" where
  "override_event t by note =
     \<lparr>ae_timestamp = t, ae_method = OVERRIDE, ae_result = OVERRIDDEN, ae_identity = by,
      ae_confidence = Some 1, ae_note = note, ae_faceRect = None\<rparr>"

fun methodStr :: "auth_method \<Rightarrow> string" where
  "methodStr FACE_ID = ''Face ID''"
| "methodStr NFC = ''NFC''"
| "methodStr OVERRIDE = ''Override''"
| "methodStr MANUAL = ''Manual''"
| "methodStr SYSTEM = ''System''"

fun resultStr :: "auth_result \<Rightarrow> string" where
  "resultStr GRANTED = ''Granted''"
| "resultStr DENIED = ''Denied''"
| "resultStr OVERRIDDEN = ''Override''"

section \<open>The event bus\<close>

text \<open>
  Callbacks act on a state that the subscribers share; \<open>publish\<close> calls them in the order of
  their subscription, under the bus's mutex.
\<close>

type_synonym ('e, 's) bus = "('e \<Rightarrow> 's \<Rightarrow> 's) list"

definition subscribe :: "('e \<Rightarrow> 's \<Rightarrow> 's) \<Rightarrow> ('e, 's) bus \<Rightarrow> ('e, 's) bus \<times> nat" where
  "subscribe cb bus = (bus @ [cb], length (bus @ [cb]) - 1)"

definition publish :: "('e, 's) bus \<Rightarrow> 'e \<Rightarrow> 's \<Rightarrow> 's" where
  "publish bus ev s = fold (\<lambda>cb s. cb ev s) bus s"

lemma publish_subscribe: "publish (fst (subscribe cb bus)) ev s = cb ev (publish bus ev s)"
  by (simp add: subscribe_def publish_def)

section \<open>The relay controller\<close>

datatype lock_state = LOCKED | UNLOCKED

text \<open>
  The timer thread waits on its condition variable, sleeps until a time, or has ended.
\<close>

datatype timer = Waiting | Sleeping time_point | Ended

text \<open>
  \<open>dl_reds\<close> counts the detached threads that still have to switch the red LED off; \<open>dl_log\<close> is
  what has been handed to the logger.
\<close>

record 'r door_lock =
  dl_relay :: bool
  dl_green :: bool
  dl_red :: bool
  dl_state :: lock_state
  dl_lastUnlock :: time_point
  dl_firstUnlock :: bool
  dl_timerArmed :: bool
  dl_timer :: timer
  dl_running :: bool
  dl_reds :: nat
  dl_log :: "'r access_event list"

definition kUnlockDurationMs :: int where
  "kUnlockDurationMs = 3000"

definition kCooldownMs :: int where
  "kCooldownMs = 5000"

definition DoorController :: "'r door_lock" where
  "DoorController =
     \<lparr>dl_relay = False, dl_green = False, dl_red = False, dl_state = LOCKED, dl_lastUnlock = 0,
      dl_firstUnlock = True, dl_timerArmed = False, dl_timer = Waiting, dl_running = True,
      dl_reds = 0, dl_log = []\<rparr>"

text \<open>\<open>now\<close> is the reading of the steady clock.\<close>

definition tryUnlock :: "time_point \<Rightarrow> 'r door_lock \<Rightarrow> bool \<times> 'r door_lock" where
  "tryUnlock now d =
     (if \<not> dl_firstUnlock d \<and> count_milliseconds (now - dl_lastUnlock d) < kCooldownMs
      then (False, d)
      else let d = d\<lparr>dl_firstUnlock := False, dl_lastUnlock := now\<rparr>;
               d = d\<lparr>dl_state := UNLOCKED\<rparr>;
               d = d\<lparr>dl_relay := True\<rparr>
           in (True, d\<lparr>dl_timerArmed := True\<rparr>))"

definition onAccessEvent :: "time_point \<Rightarrow> 'r access_event \<Rightarrow> 'r door_lock \<Rightarrow> 'r door_lock" where
  "onAccessEvent now ev d =
     (if ae_result ev = DENIED
      then let d = d\<lparr>dl_red := True\<rparr>;
               d = d\<lparr>dl_green := False\<rparr>
           in d\<lparr>dl_reds := dl_reds d + 1\<rparr>
      else let d = d\<lparr>dl_red := False\<rparr>;
               (ok, d) = tryUnlock now d
           in if ok then d\<lparr>dl_green := True, dl_log := dl_log d @ [ev]\<rparr> else d)"

text \<open>
  The timer thread: passing the wait, and the work after the sleep. Each gives \<^term>\<open>None\<close>
  where the thread cannot act.
\<close>

definition timer_wake :: "time_point \<Rightarrow> 'r door_lock \<Rightarrow> 'r door_lock option" where
  "timer_wake now d =
     (if dl_timer d = Waiting \<and> (dl_timerArmed d \<or> \<not> dl_running d)
      then if \<not> dl_running d then Some (d\<lparr>dl_timer := Ended\<rparr>)
           else Some (d\<lparr>dl_timerArmed := False,
                         dl_timer := Sleeping (now + milliseconds kUnlockDurationMs)\<rparr>)
      else None)"

definition timer_relock :: "time_point \<Rightarrow> 'r door_lock \<Rightarrow> 'r door_lock option" where
  "timer_relock now d =
     (case dl_timer d of
        Sleeping due \<Rightarrow>
          if due \<le> now
          then let d = d\<lparr>dl_relay := False\<rparr>;
                   d = d\<lparr>dl_state := LOCKED\<rparr>;
                   d = d\<lparr>dl_green := False\<rparr>;
                   d = d\<lparr>dl_red := False\<rparr>
               in Some (d\<lparr>dl_timer := if dl_running d then Waiting else Ended\<rparr>)
          else None
      | _ \<Rightarrow> None)"

definition red_off :: "'r door_lock \<Rightarrow> 'r door_lock option" where
  "red_off d = (if 0 < dl_reds d then Some (d\<lparr>dl_reds := dl_reds d - 1, dl_red := False\<rparr>) else None)"

definition isLocked :: "'r door_lock \<Rightarrow> bool" where
  "isLocked d \<longleftrightarrow> dl_state d = LOCKED"

definition isUnlocked :: "'r door_lock \<Rightarrow> bool" where
  "isUnlocked d \<longleftrightarrow> dl_state d = UNLOCKED"

text \<open>The destructor: the request to the timer thread, and what follows the join.\<close>

definition destroy_begin :: "'r door_lock \<Rightarrow> 'r door_lock" where
  "destroy_begin d = d\<lparr>dl_running := False\<rparr>"

definition destroy_end :: "'r door_lock \<Rightarrow> 'r door_lock option" where
  "destroy_end d = (if dl_timer d = Ended then Some (d\<lparr>dl_relay := False\<rparr>) else None)"

section \<open>The override switch\<close>

text \<open>
  The switch publishes an event when it is used; the only subscriber of the bus is the relay
  controller.
\<close>

record 'r lock_system =
  ls_override :: bool
  ls_door :: "'r door_lock"

definition door_bus :: "time_point \<Rightarrow> ('r access_event, 'r lock_system) bus" where
  "door_bus now =
     fst (subscribe (\<lambda>ev s. s\<lparr>ls_door := onAccessEvent now ev (ls_door s)\<rparr>) [])"

definition isActive :: "'r lock_system \<Rightarrow> bool" where
  "isActive s = ls_override s"

definition enable :: "time_point \<Rightarrow> time_point \<Rightarrow> string \<Rightarrow> 'r lock_system \<Rightarrow> 'r lock_system" where
  "enable w now by s =
     publish (door_bus now) (override_event w by ''Override mode enabled'')
       (s\<lparr>ls_override := True\<rparr>)"

definition disable :: "time_point \<Rightarrow> time_point \<Rightarrow> string \<Rightarrow> 'r lock_system \<Rightarrow> 'r lock_system" where
  "disable w now by s =
     (let s = s\<lparr>ls_override := False\<rparr>;
          ev = granted_event w SYSTEM by (Some 1) ''Override mode disabled''
      in publish (door_bus now) ev s)"

definition toggle :: "time_point \<Rightarrow> time_point \<Rightarrow> string \<Rightarrow> 'r lock_system \<Rightarrow> 'r lock_system" where
  "toggle w now by s = (if ls_override s then disable w now by s else enable w now by s)"

section \<open>Interleavings\<close>

inductive lock_step :: "time_point \<Rightarrow> 'r door_lock \<Rightarrow> 'r door_lock \<Rightarrow> bool" for now where
  event: "lock_step now d (onAccessEvent now ev d)"
| wake: "timer_wake now d = Some d' \<Longrightarrow> lock_step now d d'"
| relock: "timer_relock now d = Some d' \<Longrightarrow> lock_step now d d'"
| red: "red_off d = Some d' \<Longrightarrow> lock_step now d d'"
| destroy: "lock_step now d (destroy_begin d)"
| destroyed: "destroy_end d = Some d' \<Longrightarrow> lock_step now d d'"

inductive_cases lock_step_cases: "lock_step now d d'"

section \<open>The invariant of the lock\<close>

text \<open>
  The relay and the state agree, the green LED never outlasts an open relay, and while the
  timer thread is alive an open relay always has its re-lock under way: the thread has been
  armed, or it sleeps.
\<close>

definition lock_ok :: "'r door_lock \<Rightarrow> bool" where
  "lock_ok d \<longleftrightarrow>
     (dl_timer d \<noteq> Ended \<longrightarrow>
        (dl_relay d \<longleftrightarrow> dl_state d = UNLOCKED) \<and>
        (dl_green d \<longrightarrow> dl_relay d) \<and>
        (dl_relay d \<longrightarrow> dl_timerArmed d \<or> (\<exists>due. dl_timer d = Sleeping due))) \<and>
     (dl_running d \<longrightarrow> dl_timer d \<noteq> Ended)"

lemma lock_ok_init: "lock_ok DoorController"
  by (simp add: lock_ok_def DoorController_def)

lemmas lock_ops [sys_simps] =
  onAccessEvent_def tryUnlock_def timer_wake_def timer_relock_def red_off_def destroy_begin_def
  destroy_end_def

lemma lock_step_ok:
  assumes "lock_step now d d'" and "lock_ok d"
  shows "lock_ok d'"
  using assms
  by cases (auto simp: lock_ok_def lock_ops Let_def split: if_splits timer.splits)

interpretation lock_inv: safe_relation "\<lambda>d d'. \<exists>now. lock_step now d d'" lock_ok
  by unfold_locales (auto dest: lock_step_ok)

text \<open>
  C14: an open door locks itself: in every reachable state with the relay energised and the
  timer thread alive, that thread is armed or asleep; and as long as the controller is not
  being destroyed, its next two turns (the second when the three seconds are over) drop the
  relay, set the state to locked and switch the green LED off.
\<close>

theorem unlocked_door_relocks:
  assumes "(\<lambda>d d'. \<exists>now. lock_step now d d')\<^sup>*\<^sup>* DoorController d"
    and "dl_relay d" and "dl_running d"
  shows "(\<exists>due. dl_timer d = Sleeping due \<and>
            (\<forall>now \<ge> due. \<exists>d'. timer_relock now d = Some d' \<and> \<not> dl_relay d' \<and> isLocked d' \<and> \<not> dl_green d'))
    \<or> (\<forall>now. \<exists>d1. timer_wake now d = Some d1 \<and> dl_relay d1 \<and>
          (\<exists>d'. timer_relock (now + seconds 3) d1 = Some d' \<and> \<not> dl_relay d' \<and> isLocked d'
             \<and> \<not> dl_green d'))"
proof -
  have "lock_ok d" by (rule lock_inv.star_inv [OF assms(1) lock_ok_init])
  with assms(2,3) show ?thesis
    by (cases "dl_timer d")
      (auto simp: lock_ok_def lock_ops isLocked_def kUnlockDurationMs_def seconds_def
        milliseconds_def Let_def)
qed

theorem unlocked_door_relocks_witness:
  "\<exists>d1. timer_wake 9 (onAccessEvent 7 (granted_event 0 FACE_ID ''Alice'' (Some 1) '''')
       (DoorController :: nat door_lock)) = Some d1 \<and> dl_relay d1"
proof -
  let ?d = "onAccessEvent 7 (granted_event 0 FACE_ID ''Alice'' (Some 1) '''')
    (DoorController :: nat door_lock)"
  have "\<exists>now. lock_step now DoorController ?d" by (auto intro: lock_step.event)
  then have "(\<lambda>d d'. \<exists>now. lock_step now d d')\<^sup>*\<^sup>* DoorController ?d" by auto
  moreover have "dl_relay ?d" "dl_running ?d" "dl_timer ?d = Waiting"
    by (simp_all add: lock_ops DoorController_def granted_event_def Let_def)
  ultimately show ?thesis using unlocked_door_relocks [of ?d] by auto
qed

section \<open>What opens the door\<close>

text \<open>
  Only a grant opens the door: a step after which the relay is energised, and was not
  before, or after which one more entry has been handed to the logger, is the handling of an
  event that is not a denial; it logs exactly that event, arms the re-lock timer and starts the
  cool-down.
\<close>

theorem only_grants_unlock:
  assumes "lock_step now d d'" and "(dl_relay d' \<and> \<not> dl_relay d) \<or> dl_log d' \<noteq> dl_log d"
  shows "\<exists>ev. ae_result ev \<noteq> DENIED \<and> d' = onAccessEvent now ev d \<and> dl_log d' = dl_log d @ [ev]
        \<and> isUnlocked d' \<and> dl_timerArmed d' \<and> dl_lastUnlock d' = now"
  using assms
  by cases (auto simp: lock_ops isUnlocked_def Let_def split: if_splits timer.splits)

theorem only_grants_unlock_witness:
  "\<exists>ev. ae_result ev \<noteq> DENIED
     \<and> onAccessEvent 7 (granted_event 0 FACE_ID ''Alice'' (Some 1) '''') (DoorController :: nat door_lock)
         = onAccessEvent 7 ev DoorController"
proof -
  let ?ev = "granted_event 0 FACE_ID ''Alice'' (Some 1) '''' :: nat access_event"
  have "dl_log (onAccessEvent 7 ?ev DoorController) \<noteq> dl_log DoorController"
    by (simp add: lock_ops DoorController_def granted_event_def Let_def)
  from only_grants_unlock [OF lock_step.event disjI2, OF this] show ?thesis by blast
qed

text \<open>Runs in time: the times at which the door was unlocked, and the time of the last step.\<close>

inductive lock_run :: "time_point list \<Rightarrow> time_point \<Rightarrow> 'r door_lock \<Rightarrow> bool" where
  begin_run: "lock_run [] t DoorController"
| step_run: "lock_run us t d \<Longrightarrow> t \<le> now \<Longrightarrow> lock_step now d d' \<Longrightarrow>
    lock_run (if dl_log d' \<noteq> dl_log d then us @ [now] else us) now d'"

lemma cooldown_iff: "count_milliseconds (now - prev) < kCooldownMs \<longleftrightarrow> now - prev < seconds 5"
  by (simp add: kCooldownMs_def count_milliseconds_less_iff seconds_def milliseconds_def)

lemma lock_step_times:
  assumes "lock_step now d d'"
  shows "(dl_log d' = dl_log d \<and> dl_firstUnlock d' = dl_firstUnlock d
            \<and> dl_lastUnlock d' = dl_lastUnlock d)
    \<or> (dl_log d' \<noteq> dl_log d \<and> (dl_firstUnlock d \<or> seconds 5 \<le> now - dl_lastUnlock d)
        \<and> \<not> dl_firstUnlock d' \<and> dl_lastUnlock d' = now)"
  using assms
  by cases (auto simp: lock_ops cooldown_iff Let_def split: if_splits timer.splits)

definition spaced :: "time_point list \<Rightarrow> bool" where
  "spaced us \<longleftrightarrow> (\<forall>i. Suc i < length us \<longrightarrow> us ! i + seconds 5 \<le> us ! Suc i)"

lemma spaced_snoc:
  assumes "spaced us" and "us \<noteq> [] \<Longrightarrow> last us + seconds 5 \<le> u"
  shows "spaced (us @ [u])"
  unfolding spaced_def
proof (intro allI impI)
  fix i
  assume i: "Suc i < length (us @ [u])"
  show "(us @ [u]) ! i + seconds 5 \<le> (us @ [u]) ! Suc i"
  proof (cases "Suc i < length us")
    case False
    with i have "i = length us - 1" "us \<noteq> []" by auto
    then show ?thesis using assms(2) by (simp add: nth_append last_conv_nth)
  qed (use assms(1) in \<open>simp add: spaced_def nth_append\<close>)
qed

lemma lock_run_spaced:
  "lock_run us t d \<Longrightarrow>
   spaced us \<and> (dl_firstUnlock d \<longleftrightarrow> us = []) \<and> (us \<noteq> [] \<longrightarrow> dl_lastUnlock d = last us)"
proof (induction rule: lock_run.induct)
  case (begin_run t)
  then show ?case by (simp add: spaced_def DoorController_def)
next
  case (step_run us t d now d')
  with lock_step_times [OF step_run(3)] show ?case by (auto intro!: spaced_snoc)
qed

text \<open>
  The cool-down: in every run of the lock, under any interleaving of access events, the
  timer thread, the red-LED threads and the destructor, two unlocks are at least five seconds
  apart (so a door that has just been re-locked cannot be opened by the same gesture again).
\<close>

theorem unlocks_are_spaced:
  assumes "lock_run us t d" and "i < j" and "j < length us"
  shows "us ! i + seconds 5 \<le> us ! j"
  using assms(2,3)
proof (induction j)
  case (Suc j)
  have "us ! j + seconds 5 \<le> us ! Suc j"
    using lock_run_spaced [OF assms(1)] Suc.prems(2) by (simp add: spaced_def)
  moreover have "0 \<le> seconds 5" by (simp add: seconds_def)
  ultimately show ?case using Suc by (cases "i = j") auto
qed simp

theorem unlocks_are_spaced_witness:
  "\<exists>us d. lock_run us (seconds 9) (d :: nat door_lock) \<and> length us = 2
     \<and> us ! 0 + seconds 5 \<le> us ! 1"
proof -
  let ?ev = "granted_event 0 NFC ''040A'' (Some 1) '''' :: nat access_event"
  let ?d1 = "onAccessEvent 0 ?ev DoorController" let ?d2 = "onAccessEvent (seconds 9) ?ev ?d1"
  have new: "dl_log ?d1 \<noteq> dl_log (DoorController :: nat door_lock)" "dl_log ?d2 \<noteq> dl_log ?d1"
    by (simp_all add: lock_ops cooldown_iff granted_event_def DoorController_def seconds_def Let_def)
  have "lock_run [0] 0 ?d1"
    using lock_run.step_run [OF lock_run.begin_run [of 0] order.refl lock_step.event, of ?ev] new(1)
    by simp
  from lock_run.step_run [OF this _ lock_step.event, of "seconds 9" ?ev] new(2)
  have r: "lock_run [0, seconds 9] (seconds 9) ?d2" by (simp add: seconds_def)
  from unlocks_are_spaced [OF r, of 0 1] r show ?thesis
    by (intro exI [of _ "[0, seconds 9]"] exI [of _ ?d2]) simp
qed

section \<open>The override switch opens the door\<close>

lemma door_bus_publish [sys_simps]:
  "publish (door_bus now) ev s = s\<lparr>ls_door := onAccessEvent now ev (ls_door s)\<rparr>"
  by (simp add: door_bus_def subscribe_def publish_def)

text \<open>
  Switching the override mode on unlocks the door at once, and so does switching it off:
  \<^verbatim>\<open>disable\<close> publishes its notice as a granted access, which the relay controller cannot tell
  from a recognised face. Only the cool-down holds it back.
\<close>

theorem override_switch_unlocks:
  assumes "dl_firstUnlock (ls_door s) \<or> seconds 5 \<le> now - dl_lastUnlock (ls_door s)"
  shows "isUnlocked (ls_door (enable w now by s)) \<and> isActive (enable w now by s)
    \<and> isUnlocked (ls_door (disable w now by s)) \<and> \<not> isActive (disable w now by s)
    \<and> dl_relay (ls_door (disable w now by s))
    \<and> (\<exists>ev. dl_log (ls_door (disable w now by s)) = dl_log (ls_door s) @ [ev]
          \<and> ae_result ev = GRANTED \<and> ae_identity ev = by)"
  using assms
  by (auto simp: enable_def disable_def isActive_def isUnlocked_def sys_simps override_event_def
      granted_event_def cooldown_iff Let_def)

theorem override_switch_unlocks_witness:
  "isUnlocked (ls_door (disable 0 5 ''GUI''
     \<lparr>ls_override = True, ls_door = (DoorController :: nat door_lock)\<rparr>))"
  using override_switch_unlocks
    [of "\<lparr>ls_override = True, ls_door = (DoorController :: nat door_lock)\<rparr>" 5 0 "''GUI''"]
  by (simp add: DoorController_def)

section \<open>The destructor\<close>

definition dl_ready :: "'r door_lock \<Rightarrow> bool" where
  "dl_ready d \<longleftrightarrow> dl_timerArmed d \<or> \<not> dl_running d"

definition dl_locked :: "'r door_lock \<Rightarrow> 'r door_lock \<Rightarrow> bool" where
  "dl_locked d d' \<longleftrightarrow> d' = d\<lparr>dl_timerArmed := True\<rparr>"

definition dl_unlocked :: "'r door_lock \<Rightarrow> 'r door_lock \<Rightarrow> bool" where
  "dl_unlocked d d' \<longleftrightarrow> d' = destroy_begin d"

definition dl_body :: "'r door_lock \<Rightarrow> 'r door_lock" where
  "dl_body d = d\<lparr>dl_timerArmed := False\<rparr>"

interpretation dl_wait: guarded_wait dl_ready dl_locked "\<lambda>d d'. False" dl_body
  by unfold_locales simp

text \<open>
  The destructor can hang: it clears \<^verbatim>\<open>running_\<close> without the mutex on which the timer
  thread tests it, so its notification can fall between the test and the sleep; the thread is
  then parked for good and \<^verbatim>\<open>join()\<close> never returns. The arming of the timer, which does take
  the mutex, cannot be lost in this way.
\<close>

theorem lock_destructor_can_hang:
  assumes "dl_running d" and "\<not> dl_timerArmed d"
  shows "(\<exists>s. (cv_step dl_ready dl_locked dl_unlocked dl_body)\<^sup>*\<^sup>* (monitor_start d) s
            \<and> mo_data s = destroy_begin d \<and> lost_wakeup dl_ready s)
    \<and> \<not> (\<exists>s. (cv_step dl_ready dl_locked (\<lambda>d d'. False) dl_body)\<^sup>*\<^sup>* (monitor_start d) s
            \<and> lost_wakeup dl_ready s)"
  using assms run_to_lost_wakeup [of dl_ready d dl_unlocked "destroy_begin d" dl_locked dl_body]
    dl_wait.no_lost_wakeup [of d]
  by (auto simp: dl_ready_def dl_unlocked_def destroy_begin_def)

theorem lock_destructor_can_hang_witness:
  "\<exists>s. (cv_step dl_ready dl_locked dl_unlocked dl_body)\<^sup>*\<^sup>*
         (monitor_start (DoorController :: nat door_lock)) s \<and> lost_wakeup dl_ready s"
  using lock_destructor_can_hang [of "DoorController :: nat door_lock"]
  by (auto simp: DoorController_def)

end
