(* ===== verification/Face.thy ===== *)
theory Face
  imports Door_Lock
begin

text \<open>
  The vision half: \<^verbatim>\<open>FaceRecognizer::process\<close> (\<^verbatim>\<open>src/FaceRecognizer.cpp\<close>) and the two loops
  around the frame queue (\<^verbatim>\<open>src/CameraThread.cpp\<close>, \<^verbatim>\<open>src/RecognitionThread.cpp\<close>). What OpenCV
  computes, the faces it detects in a frame and the embedding of a face, and the similarity of
  two embeddings are parameters.
\<close>

section \<open>Recognition\<close>

text \<open>
  Comparisons of floats: none holds with NaN. The threshold is the float nearest to \<open>0.45\<close>.
\<close>

definition float_greater :: "score \<Rightarrow> score \<Rightarrow> bool" where
  "float_greater a b \<longleftrightarrow> (case (a, b) of (Some x, Some y) \<Rightarrow> x > y | _ \<Rightarrow> False)"

definition float_at_least :: "score \<Rightarrow> score \<Rightarrow> bool" where
  "float_at_least a b \<longleftrightarrow> (case (a, b) of (Some x, Some y) \<Rightarrow> x \<ge> y | _ \<Rightarrow> False)"

definition kMatchThreshold :: rat where
  "kMatchThreshold = 15099494 / 33554432"

definition kDetectEvery :: int where
  "kDetectEvery = 3"

record ('r, 'e) recognizer =
  fr_database :: "(string \<times> 'e) list"
  fr_frameCount :: int
  fr_lastFaces :: "'r list"

text \<open>One entry of the database against the embedding of a face, and the loop.\<close>

definition match_step :: "('e \<Rightarrow> 'e \<Rightarrow> score) \<Rightarrow> 'e \<Rightarrow> string \<times> 'e \<Rightarrow> string \<times> score \<Rightarrow> string \<times> score" where
  "match_step sim emb entry best =
     (let s = sim emb (snd entry)
      in if float_greater s (snd best)
         then (if float_at_least s (Some kMatchThreshold) then fst entry else fst best, s)
         else best)"

definition best_match :: "('e \<Rightarrow> 'e \<Rightarrow> score) \<Rightarrow> 'e \<Rightarrow> (string \<times> 'e) list \<Rightarrow> string \<times> score" where
  "best_match sim emb db = fold (match_step sim emb) db (''Unknown'', Some 0)"

text \<open>The event for one face; \<open>active\<close> is the reading of the override switch.\<close>

definition face_event ::
  "time_point \<Rightarrow> ('e \<Rightarrow> 'e \<Rightarrow> score) \<Rightarrow> ('r \<Rightarrow> 'e) \<Rightarrow> bool \<Rightarrow> (string \<times> 'e) list \<Rightarrow> 'r \<Rightarrow>
   'r access_event" where
  "face_event t sim emb_of active db rect =
     (if active
      then (override_event t ''Override'' ''Bypass active'')\<lparr>ae_faceRect := Some rect\<rparr>
      else let (bestName, bestScore) = best_match sim (emb_of rect) db
           in \<lparr>ae_timestamp = t, ae_method = FACE_ID,
               ae_result = (if bestName \<noteq> ''Unknown'' then GRANTED else DENIED),
               ae_identity = bestName, ae_confidence = bestScore, ae_note = '''',
               ae_faceRect = Some rect\<rparr>)"

text \<open>
  \<open>detected\<close> is what the cascade finds in this frame; it is asked on every third frame only.
  (The counter is an \<^verbatim>\<open>int\<close>; that it stays in range is assumed.)
\<close>

definition next_faces :: "'r list \<Rightarrow> ('r, 'e) recognizer \<Rightarrow> ('r, 'e) recognizer" where
  "next_faces detected fr =
     (let n = fr_frameCount fr;
          fr = fr\<lparr>fr_frameCount := n + 1\<rparr>
      in if n mod kDetectEvery = 0 then fr\<lparr>fr_lastFaces := detected\<rparr> else fr)"

definition process ::
  "time_point \<Rightarrow> ('e \<Rightarrow> 'e \<Rightarrow> score) \<Rightarrow> 'r list \<Rightarrow> ('r \<Rightarrow> 'e) \<Rightarrow> bool \<Rightarrow> ('r, 'e) recognizer \<Rightarrow>
   'r access_event list \<times> ('r, 'e) recognizer" where
  "process t sim detected emb_of active fr =
     (let fr = next_faces detected fr
      in (map (face_event t sim emb_of active (fr_database fr)) (fr_lastFaces fr), fr))"

subsection \<open>What the matching loop finds\<close>

definition below :: "score \<Rightarrow> rat \<Rightarrow> bool" where
  "below s m \<longleftrightarrow> (case s of None \<Rightarrow> True | Some x \<Rightarrow> x < m)"

definition at_most :: "score \<Rightarrow> rat \<Rightarrow> bool" where
  "at_most s m \<longleftrightarrow> (case s of None \<Rightarrow> True | Some x \<Rightarrow> x \<le> m)"

text \<open>The first entry with the greatest score, which is at least the threshold.\<close>

definition winner :: "('e \<Rightarrow> score) \<Rightarrow> (string \<times> 'e) list \<Rightarrow> string \<Rightarrow> rat \<Rightarrow> bool" where
  "winner score db n m \<longleftrightarrow>
     (\<exists>pre e post. db = pre @ (n, e) # post \<and> score e = Some m \<and> kMatchThreshold \<le> m
        \<and> (\<forall>x \<in> set pre. below (score (snd x)) m) \<and> (\<forall>x \<in> set post. at_most (score (snd x)) m))"

definition match_inv :: "('e \<Rightarrow> score) \<Rightarrow> (string \<times> 'e) list \<Rightarrow> string \<times> score \<Rightarrow> bool" where
  "match_inv score db best \<longleftrightarrow>
     (\<exists>m. snd best = Some m \<and> 0 \<le> m \<and> (\<forall>x \<in> set db. at_most (score (snd x)) m) \<and>
        (if m < kMatchThreshold then fst best = ''Unknown'' else winner score db (fst best) m))"

lemma threshold_pos: "0 < kMatchThreshold"
  by (simp add: kMatchThreshold_def)

lemma winner_new:
  assumes "\<forall>x \<in> set db. at_most (score (snd x)) b" and "b < m" and "score e = Some m"
    and "kMatchThreshold \<le> m"
  shows "winner score (db @ [(n, e)]) n m"
proof -
  have "\<forall>x \<in> set db. below (score (snd x)) m"
    using assms(1,2) by (fastforce simp: at_most_def below_def split: option.splits)
  with assms(3,4) show ?thesis
    unfolding winner_def by (intro exI [of _ db] exI [of _ e] exI [of _ "[]"]) simp
qed

lemma winner_keep:
  assumes "winner score db n m" and "at_most (score (snd x)) m"
  shows "winner score (db @ [x]) n m"
proof -
  from assms(1) obtain pre e post where w: "db = pre @ (n, e) # post" "score e = Some m"
      "kMatchThreshold \<le> m" "\<forall>x \<in> set pre. below (score (snd x)) m"
      "\<forall>x \<in> set post. at_most (score (snd x)) m"
    by (auto simp: winner_def)
  then show ?thesis
    unfolding winner_def using assms(2)
    by (intro exI [of _ pre] exI [of _ e] exI [of _ "post @ [x]"]) auto
qed

lemma winner_member: "winner score db n m \<Longrightarrow> \<exists>x \<in> set db. score (snd x) = Some m"
  by (fastforce simp: winner_def)

lemma match_step_inv:
  assumes "match_inv (sim emb) db best"
  shows "match_inv (sim emb) (db @ [x]) (match_step sim emb x best)"
proof -
  from assms obtain b where b: "snd best = Some b" "0 \<le> b"
      "\<forall>x \<in> set db. at_most (sim emb (snd x)) b"
      "if b < kMatchThreshold then fst best = ''Unknown'' else winner (sim emb) db (fst best) b"
    by (auto simp: match_inv_def)
  show ?thesis
  proof (cases "\<exists>m. sim emb (snd x) = Some m \<and> b < m")
    case True
    then obtain m where m: "sim emb (snd x) = Some m" "b < m" by blast
    have up: "\<forall>y \<in> set (db @ [x]). at_most (sim emb (snd y)) m"
      using b(3) m by (auto simp: at_most_def split: option.splits)
    have w: "winner (sim emb) (db @ [x]) (fst x) m" if "kMatchThreshold \<le> m"
      using winner_new [OF b(3) m(2,1) that, of "fst x"] by simp
    show ?thesis
      using b m up w
      by (auto simp: match_inv_def match_step_def float_greater_def float_at_least_def Let_def)
  next
    case False
    then have le: "at_most (sim emb (snd x)) b"
      by (auto simp: at_most_def not_less split: option.splits)
    moreover have "match_step sim emb x best = best"
      using False b(1) by (auto simp: match_step_def float_greater_def Let_def split: option.splits)
    ultimately show ?thesis
      using b winner_keep [of "sim emb" db "fst best" b x] by (auto simp: match_inv_def)
  qed
qed

lemma best_match_inv: "match_inv (sim emb) db (best_match sim emb db)"
proof (induction db rule: rev_induct)
  case Nil
  then show ?case by (simp add: match_inv_def best_match_def threshold_pos)
next
  case (snoc x db)
  then show ?case using match_step_inv [of sim emb db _ x, OF snoc] by (simp add: best_match_def)
qed

text \<open>
  C16: whom the recogniser recognises: if some entry of the database scores at least the
  threshold, the face gets the name of the first entry with the greatest score, and that score;
  otherwise it is unknown. Scores that are not numbers never count.
\<close>

theorem best_match_is_first_maximum:
  "(if \<exists>x \<in> set db. float_at_least (sim emb (snd x)) (Some kMatchThreshold)
    then \<exists>m. snd (best_match sim emb db) = Some m
             \<and> winner (sim emb) db (fst (best_match sim emb db)) m
    else fst (best_match sim emb db) = ''Unknown'')"
proof -
  obtain m where m: "snd (best_match sim emb db) = Some m"
      "\<forall>x \<in> set db. at_most (sim emb (snd x)) m"
      "if m < kMatchThreshold then fst (best_match sim emb db) = ''Unknown''
       else winner (sim emb) db (fst (best_match sim emb db)) m"
    using best_match_inv [of sim emb db] by (auto simp: match_inv_def)
  show ?thesis
  proof (cases "\<exists>x \<in> set db. float_at_least (sim emb (snd x)) (Some kMatchThreshold)")
    case True
    then have "\<not> m < kMatchThreshold"
      using m(2) by (fastforce simp: at_most_def float_at_least_def split: option.splits)
    with True m show ?thesis by auto
  next
    case False
    have "m < kMatchThreshold"
    proof (rule ccontr)
      assume n: "\<not> m < kMatchThreshold"
      with m(3) have "winner (sim emb) db (fst (best_match sim emb db)) m" by simp
      then obtain x where "x \<in> set db" "sim emb (snd x) = Some m" using winner_member by blast
      with n have "\<exists>x \<in> set db. float_at_least (sim emb (snd x)) (Some kMatchThreshold)"
        by (intro bexI [of _ x]) (auto simp: float_at_least_def)
      with False show False by simp
    qed
    with False m(3) show ?thesis by simp
  qed
qed

section \<open>Detection on every third frame\<close>

definition run_frames ::
  "'r list list \<Rightarrow> ('r, 'e) recognizer \<Rightarrow> ('r, 'e) recognizer" where
  "run_frames frames fr = fold next_faces frames fr"

lemma next_faces_sel [simp]:
  "fr_database (next_faces ds fr) = fr_database fr"
  "fr_frameCount (next_faces ds fr) = fr_frameCount fr + 1"
  "fr_lastFaces (next_faces ds fr) =
     (if fr_frameCount fr mod kDetectEvery = 0 then ds else fr_lastFaces fr)"
  by (simp_all add: next_faces_def Let_def)

lemma run_frames_count:
  "fr_frameCount (run_frames frames fr) = fr_frameCount fr + int (length frames)"
  unfolding run_frames_def by (induction frames arbitrary: fr) auto

text \<open>
  The faces in use are those of the latest key frame: after frame number \<open>k\<close> (counting from
  0) the rectangles are what the cascade found in frame \<open>3 * (k div 3)\<close>, so a face is judged in
  a frame at most two after the one it was detected in, and the pixels under the rectangle are
  those of the new frame.
\<close>

theorem faces_of_latest_key_frame:
  assumes "fr_frameCount fr = 0" and "frames \<noteq> []"
  shows "fr_lastFaces (run_frames frames fr) = frames ! (3 * ((length frames - 1) div 3))"
  using assms(2)
proof (induction frames rule: rev_induct)
  case (snoc ds frames)
  let ?fr = "run_frames frames fr" and ?n = "length frames"
  have run: "run_frames (frames @ [ds]) fr = next_faces ds ?fr" by (simp add: run_frames_def)
  have n: "fr_frameCount ?fr = int ?n" using run_frames_count [of frames fr] assms(1) by simp
  have key: "fr_frameCount ?fr mod kDetectEvery = 0 \<longleftrightarrow> ?n mod 3 = 0"
    unfolding n kDetectEvery_def by (metis of_nat_0_eq_iff of_nat_mod of_nat_numeral)
  show ?case
  proof (cases "?n mod 3 = 0")
    case True
    then have "3 * (?n div 3) = ?n" by auto
    with True key show ?thesis by (simp add: run nth_append)
  next
    case False
    then have "frames \<noteq> []" and eq: "(?n - 1) div 3 = ?n div 3" by (auto, presburger)
    have "3 * (?n div 3) < ?n" using False by presburger
    then show ?thesis using False key snoc.IH [OF \<open>frames \<noteq> []\<close>] eq by (simp add: run nth_append)
  qed
qed simp

theorem faces_of_latest_key_frame_witness:
  "fr_lastFaces (run_frames [[1], [2], [3], [4], [5 :: nat]]
     \<lparr>fr_database = [] :: (string \<times> nat) list, fr_frameCount = 0, fr_lastFaces = []\<rparr>) = [4]"
  using faces_of_latest_key_frame [of "\<lparr>fr_database = [] :: (string \<times> nat) list,
      fr_frameCount = 0, fr_lastFaces = []\<rparr>" "[[1], [2], [3], [4], [5 :: nat]]"]
  by simp

section \<open>The threads around the frame queue\<close>

text \<open>
  One turn of the camera loop: a read that failed or gave an empty frame is skipped.
\<close>

definition camera_turn :: "bool \<Rightarrow> 'f option \<Rightarrow> 'f ts_queue \<Rightarrow> 'f ts_queue" where
  "camera_turn read_ok frame q =
     (if \<not> read_ok then q
      else case frame of None \<Rightarrow> q | Some f \<Rightarrow> pushBounded 4 f q)"

record ('f, 'r, 'e) vision =
  cs_queue :: "'f ts_queue"
  cs_recognizer :: "('r, 'e) recognizer"
  cs_lock :: "'r lock_system"

text \<open>
  One turn of the recognition loop: \<open>t\<close> is the wall clock, \<open>now\<close> the steady clock, \<open>key\<close> the key
  pressed in the preview window. The events of a frame are published in order.
\<close>

definition recognition_turn ::
  "time_point \<Rightarrow> time_point \<Rightarrow> int \<Rightarrow> ('e \<Rightarrow> 'e \<Rightarrow> score) \<Rightarrow> ('f \<Rightarrow> 'r list) \<Rightarrow> ('f \<Rightarrow> 'r \<Rightarrow> 'e) \<Rightarrow>
   ('f, 'r, 'e) vision \<Rightarrow> ('f, 'r, 'e) vision turn" where
  "recognition_turn t now key sim detect emb_of s =
     (case ts_pop (cs_queue s) of
        None \<Rightarrow> Waits
      | Some (None, q) \<Rightarrow> Exits (s\<lparr>cs_queue := q\<rparr>)
      | Some (Some frame, q) \<Rightarrow>
          (let s = s\<lparr>cs_queue := q\<rparr>;
               (events, fr) = process t sim (detect frame) (emb_of frame) (isActive (cs_lock s))
                                (cs_recognizer s);
               s = s\<lparr>cs_recognizer := fr\<rparr>;
               s = s\<lparr>cs_lock := fold (publish (door_bus now)) events (cs_lock s)\<rparr>
           in if key = 27 then Exits (s\<lparr>cs_queue := ts_close (cs_queue s)\<rparr>) else Goes s))"

lemma publish_all_door:
  "ls_door (fold (publish (door_bus now)) evs s) = fold (onAccessEvent now) evs (ls_door s)"
  by (induction evs arbitrary: s) (simp_all add: sys_simps)

lemma denied_events_keep_relay:
  "\<forall>ev \<in> set evs. ae_result ev = DENIED \<Longrightarrow> dl_relay (fold (onAccessEvent now) evs d) = dl_relay d"
  by (induction evs arbitrary: d) (auto simp: onAccessEvent_def Let_def)

lemma face_event_denied:
  "\<not> active \<Longrightarrow> fst (best_match sim (emb_of rect) db) = ''Unknown'' \<Longrightarrow>
   ae_result (face_event t sim emb_of active db rect) = DENIED"
  by (simp add: face_event_def split_beta Let_def)

lemma named_face:
  assumes "fst (best_match sim emb db) \<noteq> ''Unknown''"
  shows "\<exists>x \<in> set db. fst x \<noteq> ''Unknown'' \<and> float_at_least (sim emb (snd x)) (Some kMatchThreshold)"
proof -
  obtain m where m: "if m < kMatchThreshold then fst (best_match sim emb db) = ''Unknown''
       else winner (sim emb) db (fst (best_match sim emb db)) m"
    using best_match_inv [of sim emb db] by (auto simp: match_inv_def)
  with assms have w: "\<not> m < kMatchThreshold" "winner (sim emb) db (fst (best_match sim emb db)) m"
    by (auto split: if_splits)
  then obtain e where "(fst (best_match sim emb db), e) \<in> set db" "sim emb e = Some m"
    unfolding winner_def by (metis in_set_conv_decomp)
  with w(1) assms show ?thesis
    by (intro bexI [of _ "(fst (best_match sim emb db), e)"]) (auto simp: float_at_least_def)
qed

lemma unlocking_frame:
  assumes "recognition_turn t now key sim detect emb_of s \<in> {Goes s', Exits s'}"
    and "\<not> isActive (cs_lock s)" and "\<not> dl_relay (ls_door (cs_lock s))"
    and "dl_relay (ls_door (cs_lock s'))"
  shows "\<exists>frame rect x. ts_queue (cs_queue s) \<noteq> [] \<and> frame = hd (ts_queue (cs_queue s))
    \<and> rect \<in> set (fr_lastFaces (cs_recognizer s')) \<and> x \<in> set (fr_database (cs_recognizer s))
    \<and> fst x \<noteq> ''Unknown''
    \<and> float_at_least (sim (emb_of frame rect) (snd x)) (Some kMatchThreshold)"
proof -
  obtain frame q where pop: "ts_pop (cs_queue s) = Some (Some frame, q)"
    using assms by (auto simp: recognition_turn_def split: option.splits)
  let ?fr = "next_faces (detect frame) (cs_recognizer s)"
  let ?evs = "map (face_event t sim (emb_of frame) False (fr_database ?fr)) (fr_lastFaces ?fr)"
  have s': "cs_recognizer s' = ?fr"
    "cs_lock s' = fold (publish (door_bus now)) ?evs (cs_lock s)"
    using assms(1,2) pop
    by (auto simp: recognition_turn_def process_def Let_def split: if_splits)
  then have "dl_relay (fold (onAccessEvent now) ?evs (ls_door (cs_lock s)))"
    using assms(4) by (simp only: publish_all_door)
  then obtain rect where r: "rect \<in> set (fr_lastFaces ?fr)"
      "fst (best_match sim (emb_of frame rect) (fr_database ?fr)) \<noteq> ''Unknown''"
    using denied_events_keep_relay [of ?evs now "ls_door (cs_lock s)"] assms(3)
    by (auto simp del: next_faces_sel dest: face_event_denied [rotated])
  from named_face [OF r(2)] r(1) s'(1) have "\<exists>x \<in> set (fr_database (cs_recognizer s)).
      fst x \<noteq> ''Unknown'' \<and> float_at_least (sim (emb_of frame rect) (snd x)) (Some kMatchThreshold)"
    "rect \<in> set (fr_lastFaces (cs_recognizer s'))" by auto
  moreover have "ts_queue (cs_queue s) \<noteq> []" "frame = hd (ts_queue (cs_queue s))"
    using pop by (auto simp: ts_pop_def split: list.splits if_splits)
  ultimately show ?thesis by blast
qed

text \<open>
  From the frame to the bolt: without the override, a turn of the recognition thread that
  energises the relay had a frame in the queue in which one of the current face rectangles
  matches an entry of the database, with a proper name and a score of at least the threshold.
\<close>

theorem face_unlock_needs_match:
  assumes "recognition_turn t now key sim detect emb_of s \<in> {Goes s', Exits s'}"
    and "\<not> isActive (cs_lock s)" and "\<not> dl_relay (ls_door (cs_lock s))"
    and "dl_relay (ls_door (cs_lock s'))"
  shows "\<exists>frame rect x. ts_queue (cs_queue s) \<noteq> [] \<and> frame = hd (ts_queue (cs_queue s))
    \<and> rect \<in> set (fr_lastFaces (cs_recognizer s')) \<and> x \<in> set (fr_database (cs_recognizer s))
    \<and> fst x \<noteq> ''Unknown''
    \<and> float_at_least (sim (emb_of frame rect) (snd x)) (Some kMatchThreshold)"
  by (rule unlocking_frame [OF assms])

definition demo_vision :: "(nat, nat, nat) vision" where
  "demo_vision =
     \<lparr>cs_queue = ts_push 0 ThreadSafeQueue,
      cs_recognizer = \<lparr>fr_database = [(''Alice'', 1)], fr_frameCount = 0, fr_lastFaces = []\<rparr>,
      cs_lock = \<lparr>ls_override = False, ls_door = DoorController\<rparr>\<rparr>"

theorem face_unlock_needs_match_witness:
  "\<exists>s'. recognition_turn 0 5 (- 1) (\<lambda>_ _. Some 1) (\<lambda>f. [7]) (\<lambda>f r. 0) demo_vision = Goes s'
     \<and> (\<exists>x \<in> set (fr_database (cs_recognizer demo_vision)). fst x \<noteq> ''Unknown'')"
proof -
  obtain s' where s': "recognition_turn 0 5 (- 1) (\<lambda>_ _. Some 1) (\<lambda>f. [7]) (\<lambda>f r. 0) demo_vision = Goes s'"
      "dl_relay (ls_door (cs_lock s'))"
    by (simp add: recognition_turn_def demo_vision_def process_def next_faces_def kDetectEvery_def
        face_event_def best_match_def match_step_def float_greater_def float_at_least_def
        kMatchThreshold_def isActive_def sys_simps ts_pop_def ts_push_def ThreadSafeQueue_def
        DoorController_def Let_def)
  moreover have "\<not> isActive (cs_lock demo_vision)" "\<not> dl_relay (ls_door (cs_lock demo_vision))"
    by (simp_all add: demo_vision_def isActive_def DoorController_def)
  ultimately show ?thesis
    using face_unlock_needs_match [of 0 5 "- 1" "\<lambda>_ _. Some 1" "\<lambda>f. [7]" "\<lambda>f r. 0" demo_vision s']
    by blast
qed

text \<open>
  With the override active every face in view opens the door, known or not, and none is looked
  up in the database.
\<close>

lemma override_bypasses_database:
  "fst (process t sim ds emb_of True fr)
     = map (\<lambda>r. (override_event t ''Override'' ''Bypass active'')\<lparr>ae_faceRect := Some r\<rparr>)
         (fr_lastFaces (next_faces ds fr))"
  by (simp add: process_def face_event_def Let_def)

end
