(* ===== verification/Face_Database.thy ===== *)
theory Face_Database
  imports Face
begin

text \<open>
  Where the recogniser's data comes from: \<^verbatim>\<open>loadDatabase\<close>, \<^verbatim>\<open>loadModels\<close> and
  \<^verbatim>\<open>cosineSimilarity\<close> of \<^verbatim>\<open>src/FaceRecognizer.cpp\<close>, and the constructor of
  \<^verbatim>\<open>RecognitionThread\<close> (\<^verbatim>\<open>src/RecognitionThread.cpp\<close>), which uses the first two and ignores
  what they answer.
\<close>

section \<open>Loading\<close>

definition FaceRecognizer :: "('r, 'e) recognizer" where
  "FaceRecognizer = \<lparr>fr_database = [], fr_frameCount = 0, fr_lastFaces = []\<rparr>"

text \<open>
  \<open>people_file\<close> is what OpenCV's file storage gives for the list \<^verbatim>\<open>people\<close>: \<^term>\<open>None\<close> for a file that
  cannot be opened.
\<close>

definition loadDatabase ::
  "(string \<times> 'e) list option \<Rightarrow> ('r, 'e) recognizer \<Rightarrow> bool \<times> ('r, 'e) recognizer" where
  "loadDatabase people_file fr =
     (case people_file of
        None \<Rightarrow> (False, fr)
      | Some people \<Rightarrow>
          (let fr = fr\<lparr>fr_database := []\<rparr>;
               fr = fold (\<lambda>person fr. fr\<lparr>fr_database := fr_database fr @ [person]\<rparr>) people fr
           in (fr_database fr \<noteq> [], fr)))"

text \<open>The models are OpenCV's: here only whether the cascade and the network could be read.\<close>

definition loadModels :: "bool \<Rightarrow> bool \<Rightarrow> bool" where
  "loadModels cascade_ok net_ok = (if \<not> cascade_ok then False else if \<not> net_ok then False else True)"

definition RecognitionThread ::
  "bool \<Rightarrow> bool \<Rightarrow> (string \<times> 'e) list option \<Rightarrow> ('r, 'e) recognizer" where
  "RecognitionThread cascade_ok net_ok people_file =
     (let ignored = loadModels cascade_ok net_ok;
          (ignored, fr) = loadDatabase people_file FaceRecognizer
      in fr)"

lemma push_all_database:
  "fr_database (fold (\<lambda>p fr. fr\<lparr>fr_database := fr_database fr @ [p]\<rparr>) people fr)
     = fr_database fr @ people"
  by (induction people arbitrary: fr) simp_all

lemma loadDatabase_result:
  "loadDatabase (Some people) fr = (people \<noteq> [], snd (loadDatabase (Some people) fr))"
  "fr_database (snd (loadDatabase (Some people) fr)) = people"
  "loadDatabase None fr = (False, fr)"
  by (simp_all add: loadDatabase_def Let_def push_all_database)

lemma RecognitionThread_database:
  "fr_database (RecognitionThread c n people_file) = (case people_file of None \<Rightarrow> [] | Some people \<Rightarrow> people)"
  by (cases people_file)
    (simp_all add: RecognitionThread_def Let_def split_beta loadDatabase_def FaceRecognizer_def
      push_all_database)

section \<open>Similarity\<close>

text \<open>
  The arithmetic of \<^verbatim>\<open>float\<close> is a parameter, as its rounding and its order of evaluation are the
  platform's: \<open>fl_tiny\<close> is \<^verbatim>\<open>1e-9f\<close>, \<open>fl_less\<close> the comparison.
\<close>

record 'f float_ops =
  fl_zero :: 'f
  fl_tiny :: 'f
  fl_add :: "'f \<Rightarrow> 'f \<Rightarrow> 'f"
  fl_mul :: "'f \<Rightarrow> 'f \<Rightarrow> 'f"
  fl_div :: "'f \<Rightarrow> 'f \<Rightarrow> 'f"
  fl_sqrt :: "'f \<Rightarrow> 'f"
  fl_less :: "'f \<Rightarrow> 'f \<Rightarrow> bool"
  fl_score :: "'f \<Rightarrow> score"

fun dot_norms :: "'f float_ops \<Rightarrow> 'f list \<Rightarrow> 'f list \<Rightarrow> 'f \<times> 'f \<times> 'f \<Rightarrow> 'f \<times> 'f \<times> 'f" where
  "dot_norms F (a # xs) (b # ys) (dot, na, nb) =
     dot_norms F xs ys
       (fl_add F dot (fl_mul F a b), fl_add F na (fl_mul F a a), fl_add F nb (fl_mul F b b))"
| "dot_norms F _ _ acc = acc"

definition cosineSimilarity :: "'f float_ops \<Rightarrow> 'f list \<Rightarrow> 'f list \<Rightarrow> 'f" where
  "cosineSimilarity F a b =
     (if length a \<noteq> length b \<or> a = [] then fl_zero F
      else let (dot, na, nb) = dot_norms F a b (fl_zero F, fl_zero F, fl_zero F);
               d = fl_mul F (fl_sqrt F na) (fl_sqrt F nb)
           in if fl_less F d (fl_tiny F) then fl_zero F else fl_div F dot d)"

text \<open>What the matching loop uses.\<close>

definition similarity :: "'f float_ops \<Rightarrow> 'f list \<Rightarrow> 'f list \<Rightarrow> score" where
  "similarity F a b = fl_score F (cosineSimilarity F a b)"

lemma run_frames_database: "fr_database (run_frames frames fr) = fr_database fr"
  unfolding run_frames_def by (induction frames arbitrary: fr) auto

lemma float_zero_not_greater: "0 \<le> m \<Longrightarrow> \<not> float_greater (Some 0) (Some m)"
  by (simp add: float_greater_def)

text \<open>An entry whose similarity to the face is zero never changes the best match.\<close>

lemma zero_entries_ignored:
  assumes "\<And>x. x \<in> set db \<Longrightarrow> keep x \<or> sim emb (snd x) = Some 0"
    and "snd b = Some m" and "0 \<le> m"
  shows "fold (match_step sim emb) db b = fold (match_step sim emb) (filter keep db) b"
  using assms
proof (induction db arbitrary: b m)
  case Nil
  then show ?case by simp
next
  case (Cons x db)
  show ?case
  proof (cases "keep x")
    case True
    have "\<exists>m'. snd (match_step sim emb x b) = Some m' \<and> 0 \<le> m'"
      using Cons.prems(2,3)
      by (auto simp: match_step_def Let_def float_greater_def split: option.splits)
    then obtain m' where "snd (match_step sim emb x b) = Some m'" "0 \<le> m'" by blast
    with Cons.IH [of "match_step sim emb x b" m'] Cons.prems(1) True show ?thesis by simp
  next
    case False
    with Cons.prems(1) [of x] have "sim emb (snd x) = Some 0" by simp
    then have "match_step sim emb x b = b"
      using Cons.prems(2,3) by (simp add: match_step_def float_zero_not_greater)
    with Cons.IH [of b m] Cons.prems False show ?thesis by simp
  qed
qed

lemma other_length_ignored:
  assumes "fl_score F (fl_zero F) = Some 0"
  shows "best_match (similarity F) emb db =
    best_match (similarity F) emb (filter (\<lambda>x. length (snd x) = length emb \<and> emb \<noteq> []) db)"
  unfolding best_match_def
  by (rule zero_entries_ignored [where m = 0])
    (auto simp: similarity_def cosineSimilarity_def assms)

section \<open>Failing safe\<close>

text \<open>
  Recognition fails safe: without a database (the file cannot be opened, or it lists
  nobody), although nothing stops the recognition thread from running, every face in every
  frame is denied as unknown unless the override is active; and an embedding of another length
  than the one of the face, or an empty one, never counts, whatever the floats do.
\<close>

theorem recognition_fails_safe:
  assumes "fl_score F (fl_zero F) = Some 0"
  shows "(people_file = None \<or> people_file = Some [] \<longrightarrow>
      (\<forall>ev \<in> set (fst (process t sim detected emb_of False
          (run_frames frames (RecognitionThread c n people_file)))).
        ae_result ev = DENIED \<and> ae_identity ev = ''Unknown''))
    \<and> best_match (similarity F) emb db =
      best_match (similarity F) emb (filter (\<lambda>x. length (snd x) = length emb \<and> emb \<noteq> []) db)"
    (is "?empty \<and> ?lengths")
proof
  show ?empty
    by (auto simp: process_def Let_def face_event_def best_match_def run_frames_database
        RecognitionThread_database)
  show ?lengths by (rule other_length_ignored [OF assms])
qed

text \<open>Whole numbers stand in for floats here.\<close>

definition int_ops :: "int float_ops" where
  "int_ops = \<lparr>fl_zero = 0, fl_tiny = 1, fl_add = (+), fl_mul = (*), fl_div = (div),
     fl_sqrt = (\<lambda>x. x), fl_less = (<), fl_score = (\<lambda>x. Some (of_int x))\<rparr>"

theorem recognition_fails_safe_witness:
  "ae_result (hd (fst (process 0 (similarity int_ops) [7] (\<lambda>r. [1]) False
      (run_frames [] (RecognitionThread True False None :: (nat, int list) recognizer))))) = DENIED
   \<and> best_match (similarity int_ops) [1] [(''Alice'', [1, 2])] = (''Unknown'', Some 0)"
proof -
  have z: "fl_score int_ops (fl_zero int_ops) = Some 0" by (simp add: int_ops_def)
  have "fst (process 0 (similarity int_ops) [7] (\<lambda>r. [1]) False
      (run_frames [] (RecognitionThread True False None :: (nat, int list) recognizer))) \<noteq> []"
    by (simp add: process_def Let_def run_frames_def RecognitionThread_def loadDatabase_def
        FaceRecognizer_def)
  then show ?thesis
    using recognition_fails_safe [OF z, of None 0 "similarity int_ops" "[7]" "\<lambda>r. [1]"
        "[] :: nat list list" True False "[1]" "[(''Alice'', [1, 2])]"]
    by (simp add: best_match_def)
qed

end
