(* ===== verification/Gui.thy ===== *)
theory Gui
  imports Door_Lock
begin

text \<open>
  \<^verbatim>\<open>GUIServer\<close> (\<^verbatim>\<open>include/GUIServer.h\<close>, \<^verbatim>\<open>src/GUIServer.cpp\<close>): the request handler of the
  camera program's small HTTP server. It calls a logger singleton with an interface that the
  repository does not define; that logger is a parameter: what it adds for a manual entry, and
  the text of its entries as JSON.
\<close>

record 'l gui_logger =
  gl_log :: "string \<Rightarrow> string \<Rightarrow> string \<Rightarrow> 'l \<Rightarrow> 'l"
  gl_json :: "'l \<Rightarrow> string"

record ('r, 'l) gui =
  gu_lock :: "'r lock_system"
  gu_log :: 'l

definition nl :: string where
  "nl = [CHR 0x0D, CHR 0x0A]"

definition cors :: string where
  "cors = ''Access-Control-Allow-Origin: *'' @ nl
     @ ''Access-Control-Allow-Methods: GET, POST'' @ nl
     @ ''Access-Control-Allow-Headers: Content-Type'' @ nl"

definition http :: "string \<Rightarrow> string \<Rightarrow> string" where
  "http status body =
     ''HTTP/1.1 '' @ status @ nl @ ''Content-Type: application/json'' @ nl
     @ cors @ ''Content-Length: '' @ show_nat (length body) @ nl @ nl @ body"

definition jsonStatus :: "'r lock_system \<Rightarrow> string" where
  "jsonStatus s = ''{\"override\":'' @ (if isActive s then ''true'' else ''false'') @ ''}''"

definition contains :: "string \<Rightarrow> string \<Rightarrow> bool" where
  "contains req p \<longleftrightarrow> find_string p 0 req \<noteq> None"

text \<open>The note in a request: the text between the quotes behind the key.\<close>

definition note_of :: "string \<Rightarrow> string" where
  "note_of req =
     (case find_string ''\"note\":\"'' 0 req of
        None \<Rightarrow> ''Manual note''
      | Some pos \<Rightarrow>
          (case find_char CHR 0x22 (pos + 8) req of
             None \<Rightarrow> ''Manual note''
           | Some end_pos \<Rightarrow> substr (pos + 8) (end_pos - (pos + 8)) req))"

text \<open>\<open>w\<close> and \<open>now\<close> are the wall clock and the steady clock.\<close>

definition handleRequest ::
  "'l gui_logger \<Rightarrow> time_point \<Rightarrow> time_point \<Rightarrow> string \<Rightarrow> ('r, 'l) gui \<Rightarrow> string \<times> ('r, 'l) gui" where
  "handleRequest L w now req g =
     (if contains req ''GET /status'' then (http ''200 OK'' (jsonStatus (gu_lock g)), g)
      else if contains req ''GET /logs'' then (http ''200 OK'' (gl_json L (gu_log g)), g)
      else if contains req ''POST /override/on''
      then let g = g\<lparr>gu_lock := enable w now ''GUI'' (gu_lock g)\<rparr>
           in (http ''200 OK'' ''{\"ok\":true,\"override\":true}'', g)
      else if contains req ''POST /override/off''
      then let g = g\<lparr>gu_lock := disable w now ''GUI'' (gu_lock g)\<rparr>
           in (http ''200 OK'' ''{\"ok\":true,\"override\":false}'', g)
      else if contains req ''POST /unlock''
      then let g = g\<lparr>gu_log := gl_log L ''Admin'' ''MANUAL'' ''Manual unlock via GUI'' (gu_log g)\<rparr>
           in (http ''200 OK'' ''{\"ok\":true}'', g)
      else if contains req ''POST /note''
      then let g = g\<lparr>gu_log := gl_log L ''Admin'' ''NOTE'' (note_of req) (gu_log g)\<rparr>
           in (http ''200 OK'' ''{\"ok\":true}'', g)
      else (http ''404 Not Found'' ''{\"error\":\"not found\"}'', g))"

text \<open>
  What the server reads of a connection: at most 4095 bytes, up to the first NUL.
\<close>

definition read_request :: "string \<Rightarrow> string" where
  "read_request bytes = takeWhile (\<lambda>c. c \<noteq> CHR 0x00) (take 4095 bytes)"

definition serve_one ::
  "'l gui_logger \<Rightarrow> time_point \<Rightarrow> time_point \<Rightarrow> string \<Rightarrow> ('r, 'l) gui \<Rightarrow> string \<times> ('r, 'l) gui" where
  "serve_one L w now bytes g = handleRequest L w now (read_request bytes) g"

lemma first_match_found: "first_match p (pre @ p @ post) \<noteq> None"
proof (induction pre)
  case Nil
  then show ?case by (simp add: first_match_here)
next
  case (Cons c pre)
  then show ?case by (subst first_match.simps) auto
qed

lemma contains_iff: "contains req p \<longleftrightarrow> (\<exists>pre post. req = pre @ p @ post)"
proof
  assume "contains req p"
  then have "first_match p req \<noteq> None" by (auto simp: contains_def find_string_def)
  then show "\<exists>pre post. req = pre @ p @ post"
  proof (induction req)
    case Nil
    then show ?case by (subst (asm) first_match.simps) (auto split: if_splits)
  next
    case (Cons c req)
    show ?case
    proof (cases "take (length p) (c # req) = p")
      case True
      then show ?thesis by (metis append_Nil append_take_drop_id)
    next
      case False
      with Cons.prems have "first_match p req \<noteq> None"
        by (subst (asm) first_match.simps) auto
      with Cons.IH obtain pre post where "req = pre @ p @ post" by blast
      then have "c # req = (c # pre) @ p @ post" by simp
      then show ?thesis by blast
    qed
  qed
next
  assume "\<exists>pre post. req = pre @ p @ post"
  then show "contains req p"
    using first_match_found [of p] by (auto simp: contains_def find_string_def)
qed

lemma only_override_requests_touch_the_lock:
  "\<not> contains req ''POST /override/on'' \<Longrightarrow> \<not> contains req ''POST /override/off'' \<Longrightarrow>
   gu_lock (snd (handleRequest L w now req g)) = gu_lock g"
  by (simp add: handleRequest_def Let_def)

text \<open>
  The button \<^verbatim>\<open>Unlock\<close> of the GUI does not unlock: a request that is routed to
  \<^verbatim>\<open>POST /unlock\<close> is answered with success and logged as a manual unlock, and the lock is
  left as it was; among all requests only the two override requests touch the lock. Routing
  looks for the route's text anywhere in the request, so a note that quotes \<^verbatim>\<open>GET /status\<close> is
  answered as a status request and not recorded.
\<close>

theorem gui_requests_and_the_lock:
  "(\<not> contains req ''POST /override/on'' \<and> \<not> contains req ''POST /override/off'' \<longrightarrow>
      gu_lock (snd (handleRequest L w now req g)) = gu_lock g)
   \<and> handleRequest L w now (''POST /unlock HTTP/1.1'' @ nl @ nl) g =
       (http ''200 OK'' ''{\"ok\":true}'',
        g\<lparr>gu_log := gl_log L ''Admin'' ''MANUAL'' ''Manual unlock via GUI'' (gu_log g)\<rparr>)
   \<and> handleRequest L w now (''POST /note HTTP/1.1'' @ nl @ nl @ ''{\"note\":\"'' @ a @ ''GET /status'' @ b @ ''\"}'') g
       = (http ''200 OK'' (jsonStatus (gu_lock g)), g)"
proof (intro conjI impI)
  assume "\<not> contains req ''POST /override/on'' \<and> \<not> contains req ''POST /override/off''"
  then show "gu_lock (snd (handleRequest L w now req g)) = gu_lock g"
    by (simp add: only_override_requests_touch_the_lock)
next
  have "\<not> contains (''POST /unlock HTTP/1.1'' @ nl @ nl) p"
    if "p \<in> {''GET /status'', ''GET /logs'', ''POST /override/on'', ''POST /override/off''}" for p
    using that by (auto simp: contains_def find_string_def nl_def first_match_Cons first_match_Nil)
  moreover have "contains (''POST /unlock HTTP/1.1'' @ nl @ nl) ''POST /unlock''"
    unfolding contains_iff by (intro exI [of _ "''''"] exI [of _ "'' HTTP/1.1'' @ nl @ nl"]) simp
  ultimately show "handleRequest L w now (''POST /unlock HTTP/1.1'' @ nl @ nl) g =
       (http ''200 OK'' ''{\"ok\":true}'',
        g\<lparr>gu_log := gl_log L ''Admin'' ''MANUAL'' ''Manual unlock via GUI'' (gu_log g)\<rparr>)"
    by (simp add: handleRequest_def Let_def)
next
  let ?req = "''POST /note HTTP/1.1'' @ nl @ nl @ ''{\"note\":\"'' @ a @ ''GET /status'' @ b @ ''\"}''"
  have "contains ?req ''GET /status''"
    unfolding contains_iff
    by (intro exI [of _ "''POST /note HTTP/1.1'' @ nl @ nl @ ''{\"note\":\"'' @ a"]
        exI [of _ "b @ ''\"}''"]) simp
  then show "handleRequest L w now ?req g = (http ''200 OK'' (jsonStatus (gu_lock g)), g)"
    by (simp only: handleRequest_def if_True)
qed

text \<open>A logger that keeps the notes, to run the handler on concrete requests.\<close>

definition note_logger :: "string list gui_logger" where
  "note_logger = \<lparr>gl_log = (\<lambda>person meth note l. l @ [note]), gl_json = (\<lambda>l. ''[]'')\<rparr>"

theorem gui_requests_and_the_lock_witness:
  "gu_lock (snd (handleRequest note_logger 0 0 ''DELETE /''
      \<lparr>gu_lock = \<lparr>ls_override = False, ls_door = (DoorController :: nat door_lock)\<rparr>, gu_log = []\<rparr>))
   = \<lparr>ls_override = False, ls_door = DoorController\<rparr>"
proof -
  have "\<not> contains ''DELETE /'' ''POST /override/on''" "\<not> contains ''DELETE /'' ''POST /override/off''"
    by (simp_all add: contains_def find_string_def first_match_Cons first_match_Nil)
  then show ?thesis
    using gui_requests_and_the_lock [of "''DELETE /''" note_logger 0 0
        "\<lparr>gu_lock = \<lparr>ls_override = False, ls_door = (DoorController :: nat door_lock)\<rparr>, gu_log = []\<rparr>"
        "''''" "''''"]
    by simp
qed

end
