(* ===== verification/Camera_Program.thy ===== *)
theory Camera_Program
  imports Face_Database Gui
begin

text \<open>
  The camera lock as a whole program (\<^verbatim>\<open>main_cam.cpp\<close>): the main thread with its shutdown
  sequence, the signal handler (\<^verbatim>\<open>include/SignalHandler.h\<close>), the camera, recognition and GUI
  threads with their \<^verbatim>\<open>start()\<close> and \<^verbatim>\<open>stop()\<close>, and the lock with its own threads.
\<close>

section \<open>State\<close>

text \<open>
  A worker thread is about to test its run flag, is inside the body of its loop (for the
  recognition thread in \<^verbatim>\<open>pop()\<close>, for the camera in \<^verbatim>\<open>read()\<close>, for the GUI in \<^verbatim>\<open>accept()\<close>), or
  has left the loop.
\<close>

datatype thread_pc = At_Head | In_Call | Over

datatype main_pc =
    Polling
  | Rec_Flag | Rec_Close | Rec_Join
  | Cam_Flag | Cam_Close | Cam_Join
  | Gui_Flag | Gui_Close | Gui_Join
  | Exit

record ('f, 'r, 'e, 'l) program =
  pg_shutdown :: bool
  pg_main :: main_pc
  pg_vision :: "('f, 'r, 'e) vision"
  pg_log :: 'l
  pg_rec_running :: bool
  pg_rec :: thread_pc
  pg_cam_running :: bool
  pg_cam :: thread_pc
  pg_gui_running :: bool
  pg_gui :: thread_pc
  pg_socket :: bool

abbreviation on_vision where "on_vision f s \<equiv> s\<lparr>pg_vision := f (pg_vision s)\<rparr>"

abbreviation pg_queue where "pg_queue s \<equiv> cs_queue (pg_vision s)"
abbreviation pg_lock where "pg_lock s \<equiv> cs_lock (pg_vision s)"

section \<open>Starting\<close>

definition rec_start :: "('f, 'r, 'e, 'l) program \<Rightarrow> ('f, 'r, 'e, 'l) program" where
  "rec_start s = s\<lparr>pg_rec_running := True, pg_rec := At_Head\<rparr>"

text \<open>The camera's thread ends at once if the capture device cannot be opened.\<close>

definition cam_start :: "bool \<Rightarrow> ('f, 'r, 'e, 'l) program \<Rightarrow> ('f, 'r, 'e, 'l) program" where
  "cam_start opened s =
     s\<lparr>pg_cam_running := True, pg_cam := if opened then At_Head else Over\<rparr>"

definition gui_start :: "('f, 'r, 'e, 'l) program \<Rightarrow> ('f, 'r, 'e, 'l) program" where
  "gui_start s = s\<lparr>pg_gui_running := True, pg_gui := At_Head, pg_socket := True\<rparr>"

definition main_cam ::
  "bool \<Rightarrow> ('r, 'e) recognizer \<Rightarrow> 'l \<Rightarrow> ('f, 'r, 'e, 'l) program" where
  "main_cam opened fr l =
     (let s = \<lparr>pg_shutdown = False, pg_main = Polling,
               pg_vision = \<lparr>cs_queue = ThreadSafeQueue, cs_recognizer = fr,
                            cs_lock = \<lparr>ls_override = False, ls_door = DoorController\<rparr>\<rparr>,
               pg_log = l, pg_rec_running = False, pg_rec = Over, pg_cam_running = False,
               pg_cam = Over, pg_gui_running = False, pg_gui = Over, pg_socket = False\<rparr>;
          s = gui_start s;
          s = cam_start opened s
      in rec_start s)"

section \<open>The threads\<close>

definition on_signal :: "('f, 'r, 'e, 'l) program \<Rightarrow> ('f, 'r, 'e, 'l) program" where
  "on_signal s = s\<lparr>pg_shutdown := True\<rparr>"

text \<open>
  The main thread: one turn of its polling loop, then the statements of the three \<^verbatim>\<open>stop()\<close>
  calls. \<^term>\<open>None\<close>: blocked in a join, or past the end.
\<close>

definition main_turn :: "('f, 'r, 'e, 'l) program \<Rightarrow> ('f, 'r, 'e, 'l) program option" where
  "main_turn s =
     (case pg_main s of
        Polling \<Rightarrow> Some (if pg_shutdown s then s\<lparr>pg_main := Rec_Flag\<rparr> else s)
      | Rec_Flag \<Rightarrow> Some (s\<lparr>pg_rec_running := False, pg_main := Rec_Close\<rparr>)
      | Rec_Close \<Rightarrow> Some (on_vision (\<lambda>v. v\<lparr>cs_queue := ts_close (cs_queue v)\<rparr>) s\<lparr>pg_main := Rec_Join\<rparr>)
      | Rec_Join \<Rightarrow> if pg_rec s = Over then Some (s\<lparr>pg_main := Cam_Flag\<rparr>) else None
      | Cam_Flag \<Rightarrow> Some (s\<lparr>pg_cam_running := False, pg_main := Cam_Close\<rparr>)
      | Cam_Close \<Rightarrow> Some (on_vision (\<lambda>v. v\<lparr>cs_queue := ts_close (cs_queue v)\<rparr>) s\<lparr>pg_main := Cam_Join\<rparr>)
      | Cam_Join \<Rightarrow> if pg_cam s = Over then Some (s\<lparr>pg_main := Gui_Flag\<rparr>) else None
      | Gui_Flag \<Rightarrow> Some (s\<lparr>pg_gui_running := False, pg_main := Gui_Close\<rparr>)
      | Gui_Close \<Rightarrow> Some (s\<lparr>pg_socket := False, pg_main := Gui_Join\<rparr>)
      | Gui_Join \<Rightarrow> if pg_gui s = Over then Some (s\<lparr>pg_main := Exit\<rparr>) else None
      | Exit \<Rightarrow> None)"

definition rec_turn ::
  "time_point \<Rightarrow> time_point \<Rightarrow> int \<Rightarrow> ('e \<Rightarrow> 'e \<Rightarrow> score) \<Rightarrow> ('f \<Rightarrow> 'r list) \<Rightarrow> ('f \<Rightarrow> 'r \<Rightarrow> 'e) \<Rightarrow>
   ('f, 'r, 'e, 'l) program \<Rightarrow> ('f, 'r, 'e, 'l) program option" where
  "rec_turn t now key sim detect emb_of s =
     (case pg_rec s of
        At_Head \<Rightarrow> Some (s\<lparr>pg_rec := if pg_rec_running s then In_Call else Over\<rparr>)
      | In_Call \<Rightarrow>
          (case recognition_turn t now key sim detect emb_of (pg_vision s) of
             Waits \<Rightarrow> None
           | Exits v \<Rightarrow> Some (s\<lparr>pg_vision := v, pg_rec := Over\<rparr>)
           | Goes v \<Rightarrow> Some (s\<lparr>pg_vision := v, pg_rec := At_Head\<rparr>))
      | Over \<Rightarrow> None)"

definition cam_turn ::
  "bool \<Rightarrow> 'f option \<Rightarrow> ('f, 'r, 'e, 'l) program \<Rightarrow> ('f, 'r, 'e, 'l) program option" where
  "cam_turn read_ok frame s =
     (case pg_cam s of
        At_Head \<Rightarrow> Some (s\<lparr>pg_cam := if pg_cam_running s then In_Call else Over\<rparr>)
      | In_Call \<Rightarrow>
          Some (on_vision (\<lambda>v. v\<lparr>cs_queue := camera_turn read_ok frame (cs_queue v)\<rparr>) s\<lparr>pg_cam := At_Head\<rparr>)
      | Over \<Rightarrow> None)"

text \<open>\<open>client\<close>: what a client sent, or \<^term>\<open>None\<close> when \<^verbatim>\<open>accept()\<close> fails.\<close>

definition gui_turn ::
  "'l gui_logger \<Rightarrow> time_point \<Rightarrow> time_point \<Rightarrow> string option \<Rightarrow>
   ('f, 'r, 'e, 'l) program \<Rightarrow> ('f, 'r, 'e, 'l) program option" where
  "gui_turn L w now client s =
     (case pg_gui s of
        At_Head \<Rightarrow> Some (s\<lparr>pg_gui := if pg_gui_running s then In_Call else Over\<rparr>)
      | In_Call \<Rightarrow>
          (case client of
             None \<Rightarrow> Some (s\<lparr>pg_gui := Over\<rparr>)
           | Some bytes \<Rightarrow>
               (let g = snd (serve_one L w now bytes \<lparr>gu_lock = pg_lock s, gu_log = pg_log s\<rparr>);
                    s = on_vision (\<lambda>v. v\<lparr>cs_lock := gu_lock g\<rparr>) s
                in Some (s\<lparr>pg_log := gu_log g, pg_gui := At_Head\<rparr>)))
      | Over \<Rightarrow> None)"

section \<open>Interleavings\<close>

text \<open>
  \<open>wakes\<close>: whether closing a listening socket makes an \<^verbatim>\<open>accept()\<close> that is blocked on it fail, which
  differs between systems. The lock's own threads run as in \<^term>\<open>lock_step\<close>, without the
  destructor, which \<^verbatim>\<open>main\<close> reaches only after \<^term>\<open>Exit\<close>.
\<close>

inductive prog_step ::
  "bool \<Rightarrow> 'l gui_logger \<Rightarrow> ('e \<Rightarrow> 'e \<Rightarrow> score) \<Rightarrow> ('f \<Rightarrow> 'r list) \<Rightarrow> ('f \<Rightarrow> 'r \<Rightarrow> 'e) \<Rightarrow>
   ('f, 'r, 'e, 'l) program \<Rightarrow> ('f, 'r, 'e, 'l) program \<Rightarrow> bool"
  for wakes L sim detect emb_of where
  signal: "prog_step wakes L sim detect emb_of s (on_signal s)"
| main: "main_turn s = Some s' \<Longrightarrow> prog_step wakes L sim detect emb_of s s'"
| recognition: "rec_turn t now key sim detect emb_of s = Some s' \<Longrightarrow>
    prog_step wakes L sim detect emb_of s s'"
| camera: "cam_turn read_ok frame s = Some s' \<Longrightarrow> prog_step wakes L sim detect emb_of s s'"
| gui: "client = None \<Longrightarrow> pg_gui s = In_Call \<Longrightarrow> wakes \<and> \<not> pg_socket s \<Longrightarrow>
    gui_turn L w now client s = Some s' \<Longrightarrow> prog_step wakes L sim detect emb_of s s'"
| request: "client = Some bytes \<Longrightarrow> gui_turn L w now client s = Some s' \<Longrightarrow>
    prog_step wakes L sim detect emb_of s s'"
| relock: "timer_wake now (ls_door (pg_lock s)) = Some d \<or> timer_relock now (ls_door (pg_lock s)) = Some d
      \<or> red_off (ls_door (pg_lock s)) = Some d \<Longrightarrow>
    prog_step wakes L sim detect emb_of s
      (on_vision (\<lambda>v. v\<lparr>cs_lock := cs_lock v\<lparr>ls_door := d\<rparr>\<rparr>) s)"

inductive_cases prog_step_cases: "prog_step wakes L sim detect emb_of s s'"

lemmas turn_defs = main_turn_def rec_turn_def cam_turn_def gui_turn_def on_signal_def

section \<open>The shutdown sequence\<close>

fun phase :: "main_pc \<Rightarrow> nat" where
  "phase Polling = 0"
| "phase Rec_Flag = 1"
| "phase Rec_Close = 2"
| "phase Rec_Join = 3"
| "phase Cam_Flag = 4"
| "phase Cam_Close = 5"
| "phase Cam_Join = 6"
| "phase Gui_Flag = 7"
| "phase Gui_Close = 8"
| "phase Gui_Join = 9"
| "phase Exit = 10"

text \<open>What the main thread has reached tells what it has done.\<close>

definition prog_ok :: "('f, 'r, 'e, 'l) program \<Rightarrow> bool" where
  "prog_ok s \<longleftrightarrow>
     (1 \<le> phase (pg_main s) \<longrightarrow> pg_shutdown s) \<and>
     (2 \<le> phase (pg_main s) \<longrightarrow> \<not> pg_rec_running s) \<and>
     (3 \<le> phase (pg_main s) \<longrightarrow> ts_shutdown (pg_queue s)) \<and>
     (5 \<le> phase (pg_main s) \<longrightarrow> \<not> pg_cam_running s) \<and>
     (8 \<le> phase (pg_main s) \<longrightarrow> \<not> pg_gui_running s) \<and>
     (9 \<le> phase (pg_main s) \<longrightarrow> \<not> pg_socket s)"

lemma prog_ok_init: "prog_ok (main_cam opened fr l)"
  by (simp add: prog_ok_def main_cam_def rec_start_def cam_start_def gui_start_def Let_def)

lemma recognition_keeps_closed:
  assumes "recognition_turn t now key sim detect emb_of v \<in> {Goes v', Exits v'}"
    and "ts_shutdown (cs_queue v)"
  shows "ts_shutdown (cs_queue v')"
  using assms
  by (auto simp: recognition_turn_def ts_pop_def ts_close_def Let_def split_beta
      split: option.splits list.splits if_splits)

lemma recognition_not_blocked:
  "ts_shutdown (cs_queue v) \<Longrightarrow> recognition_turn t now key sim detect emb_of v \<noteq> Waits"
  by (auto simp: recognition_turn_def ts_pop_def Let_def split_beta split: list.splits)

lemma camera_keeps_closed:
  "ts_shutdown (camera_turn ok frame q) = ts_shutdown q"
  by (auto simp: camera_turn_def pushBounded_def split: option.splits)

text \<open>The effect of a turn of each worker thread, case by case.\<close>

lemma rec_turn_cases:
  assumes "rec_turn t now key sim detect emb_of s = Some s'"
  obtains "pg_rec s = At_Head" "s' = s\<lparr>pg_rec := if pg_rec_running s then In_Call else Over\<rparr>"
  | v where "pg_rec s = In_Call" "recognition_turn t now key sim detect emb_of (pg_vision s) = Exits v"
      "s' = s\<lparr>pg_vision := v, pg_rec := Over\<rparr>"
  | v where "pg_rec s = In_Call" "recognition_turn t now key sim detect emb_of (pg_vision s) = Goes v"
      "s' = s\<lparr>pg_vision := v, pg_rec := At_Head\<rparr>"
  using assms
  by (cases "pg_rec s"; cases "recognition_turn t now key sim detect emb_of (pg_vision s)")
    (simp_all add: rec_turn_def)

lemma cam_turn_cases:
  assumes "cam_turn ok frame s = Some s'"
  obtains "pg_cam s = At_Head" "s' = s\<lparr>pg_cam := if pg_cam_running s then In_Call else Over\<rparr>"
  | "pg_cam s = In_Call"
      "s' = s\<lparr>pg_vision := pg_vision s\<lparr>cs_queue := camera_turn ok frame (pg_queue s)\<rparr>, pg_cam := At_Head\<rparr>"
  using assms by (cases "pg_cam s") (simp_all add: cam_turn_def)

lemma gui_turn_cases:
  assumes "gui_turn L w now client s = Some s'"
  obtains "pg_gui s = At_Head" "s' = s\<lparr>pg_gui := if pg_gui_running s then In_Call else Over\<rparr>"
  | "pg_gui s = In_Call" "client = None" "s' = s\<lparr>pg_gui := Over\<rparr>"
  | bytes g where "pg_gui s = In_Call" "client = Some bytes"
      "g = snd (serve_one L w now bytes \<lparr>gu_lock = pg_lock s, gu_log = pg_log s\<rparr>)"
      "s' = s\<lparr>pg_vision := pg_vision s\<lparr>cs_lock := gu_lock g\<rparr>, pg_log := gu_log g, pg_gui := At_Head\<rparr>"
  using assms by (cases "pg_gui s"; cases client) (simp_all add: gui_turn_def Let_def)

lemma main_turn_ok: "main_turn s = Some s' \<Longrightarrow> prog_ok s \<Longrightarrow> prog_ok s'"
  by (cases "pg_main s")
    (simp_all add: main_turn_def prog_ok_def ts_close_def split: if_splits, auto)

lemma rec_turn_ok:
  assumes "rec_turn t now key sim detect emb_of s = Some s'" and "prog_ok s"
  shows "prog_ok s'"
  using assms(1)
proof (cases rule: rec_turn_cases)
  case (2 v)
  then show ?thesis using assms(2) recognition_keeps_closed [of t now key sim detect emb_of "pg_vision s" v]
    by (simp add: prog_ok_def)
next
  case (3 v)
  then show ?thesis using assms(2) recognition_keeps_closed [of t now key sim detect emb_of "pg_vision s" v]
    by (simp add: prog_ok_def)
qed (use assms(2) in \<open>simp add: prog_ok_def\<close>)

lemma cam_turn_ok:
  assumes "cam_turn ok frame s = Some s'" and "prog_ok s"
  shows "prog_ok s'"
  using assms(1)
  by (cases rule: cam_turn_cases) (use assms(2) in \<open>simp_all add: prog_ok_def camera_keeps_closed\<close>)

lemma gui_turn_ok:
  assumes "gui_turn L w now client s = Some s'" and "prog_ok s"
  shows "prog_ok s'"
  using assms(1) by (cases rule: gui_turn_cases) (use assms(2) in \<open>simp_all add: prog_ok_def\<close>)

interpretation program: safe_relation "prog_step wakes L sim detect emb_of" prog_ok
proof
  fix s t
  assume "prog_step wakes L sim detect emb_of s t" and "prog_ok s"
  then show "prog_ok t"
  proof (cases rule: prog_step.cases)
    case signal
    with \<open>prog_ok s\<close> show ?thesis by (simp add: on_signal_def prog_ok_def)
  next
    case (relock now d)
    with \<open>prog_ok s\<close> show ?thesis by (simp add: prog_ok_def)
  qed (use \<open>prog_ok s\<close> main_turn_ok rec_turn_ok cam_turn_ok gui_turn_ok in blast)+
qed

text \<open>
  The work left until \<^term>\<open>Exit\<close>: what the main thread has still to do, and for each thread
  the turns it may take once it has been told to stop.
\<close>

definition thread_left :: "bool \<Rightarrow> thread_pc \<Rightarrow> nat" where
  "thread_left running pc =
     (case pc of Over \<Rightarrow> 0 | At_Head \<Rightarrow> if running then 2 else 1 | In_Call \<Rightarrow> 2)"

definition work_left :: "('f, 'r, 'e, 'l) program \<Rightarrow> nat" where
  "work_left s =
     (10 - phase (pg_main s)) + thread_left (pg_rec_running s) (pg_rec s)
     + thread_left (pg_cam_running s) (pg_cam s) + thread_left (pg_gui_running s) (pg_gui s)"

lemmas work_defs = work_left_def thread_left_def

lemma thread_left_stop: "thread_left False pc \<le> thread_left b pc"
  by (simp add: thread_left_def split: thread_pc.splits)

lemma main_turn_work:
  assumes "main_turn s = Some s'"
  shows "work_left s' \<le> work_left s \<and> (pg_shutdown s \<longrightarrow> work_left s' < work_left s)"
proof -
  have le: "thread_left False (pg_rec s) \<le> thread_left (pg_rec_running s) (pg_rec s)"
    "thread_left False (pg_cam s) \<le> thread_left (pg_cam_running s) (pg_cam s)"
    "thread_left False (pg_gui s) \<le> thread_left (pg_gui_running s) (pg_gui s)"
    by (rule thread_left_stop)+
  show ?thesis
    using assms le
    by (cases "pg_main s") (auto simp: main_turn_def work_left_def split: if_splits)
qed

lemma rec_turn_work:
  assumes "rec_turn t now key sim detect emb_of s = Some s'"
  shows "work_left s' \<le> work_left s"
  using assms by (cases rule: rec_turn_cases) (simp_all add: work_defs)

lemma cam_turn_work:
  assumes "cam_turn ok frame s = Some s'"
  shows "work_left s' \<le> work_left s"
  using assms by (cases rule: cam_turn_cases) (simp_all add: work_defs)

lemma gui_turn_work:
  assumes "gui_turn L w now client s = Some s'"
  shows "work_left s' \<le> work_left s"
  using assms by (cases rule: gui_turn_cases) (simp_all add: work_defs)

lemma step_work:
  assumes "prog_step wakes L sim detect emb_of s s'"
  shows "work_left s' \<le> work_left s"
  using assms
proof (cases rule: prog_step.cases)
  case signal
  then show ?thesis by (simp add: on_signal_def work_defs)
next
  case main
  then show ?thesis using main_turn_work by blast
next
  case (relock now d)
  then show ?thesis by (simp add: work_defs)
qed (blast intro: rec_turn_work cam_turn_work gui_turn_work)+

text \<open>A thread that has been told to stop gets on with it.\<close>

lemma told_recognition_ends:
  assumes "\<not> pg_rec_running s" and "ts_shutdown (pg_queue s)" and "pg_rec s \<noteq> Over"
  shows "\<exists>s'. rec_turn t now key sim detect emb_of s = Some s' \<and> work_left s' < work_left s"
proof -
  have "recognition_turn t now key sim detect emb_of (pg_vision s) \<noteq> Waits"
    by (rule recognition_not_blocked [OF assms(2)])
  with assms(1,3) show ?thesis
    by (cases "pg_rec s"; cases "recognition_turn t now key sim detect emb_of (pg_vision s)")
      (simp_all add: rec_turn_def work_defs)
qed

lemma told_camera_ends:
  assumes "\<not> pg_cam_running s" and "pg_cam s \<noteq> Over"
  shows "\<exists>s'. cam_turn ok frame s = Some s' \<and> work_left s' < work_left s"
  using assms by (cases "pg_cam s") (simp_all add: cam_turn_def work_defs)

lemma told_gui_ends:
  assumes "\<not> pg_gui_running s" and "pg_gui s = At_Head"
  shows "\<exists>s'. gui_turn L w now (Some bytes) s = Some s' \<and> work_left s' < work_left s"
  using assms by (simp add: gui_turn_def work_defs)

lemma woken_gui_ends:
  "pg_gui s = In_Call \<Longrightarrow>
   \<exists>s'. gui_turn L w now None s = Some s' \<and> work_left s' < work_left s"
  by (simp add: gui_turn_def work_defs)

lemma main_gets_on:
  assumes "pg_shutdown s" and "main_turn s \<noteq> None"
  shows "\<exists>s'. prog_step wakes L sim detect emb_of s s' \<and> work_left s' < work_left s"
proof -
  obtain s' where s': "main_turn s = Some s'" using assms(2) by auto
  then have "prog_step wakes L sim detect emb_of s s'" by (rule prog_step.main)
  with s' main_turn_work assms(1) show ?thesis by blast
qed

lemma shutdown_gets_on:
  assumes ok: "prog_ok s" and "pg_shutdown s" and "pg_main s \<noteq> Exit"
  shows "(\<exists>s'. prog_step wakes L sim detect emb_of s s' \<and> work_left s' < work_left s)
    \<or> (\<not> wakes \<and> pg_main s = Gui_Join \<and> pg_gui s = In_Call)"
proof (cases "main_turn s")
  case (Some s')
  then show ?thesis using main_gets_on assms(2) by blast
next
  case None
  with assms(3) consider
      "pg_main s = Rec_Join" "pg_rec s \<noteq> Over" | "pg_main s = Cam_Join" "pg_cam s \<noteq> Over"
    | "pg_main s = Gui_Join" "pg_gui s \<noteq> Over"
    by (cases "pg_main s") (auto simp: main_turn_def split: if_splits)
  then show ?thesis
  proof cases
    case 1
    with ok told_recognition_ends [of s 0 0 0 sim detect emb_of] show ?thesis
      by (auto simp: prog_ok_def intro: prog_step.recognition)
  next
    case 2
    with ok told_camera_ends [of s False None] show ?thesis
      by (auto simp: prog_ok_def intro: prog_step.camera)
  next
    case 3
    then have told: "\<not> pg_gui_running s" "\<not> pg_socket s" using ok by (auto simp: prog_ok_def)
    show ?thesis
    proof (cases "pg_gui s")
      case At_Head
      with told told_gui_ends [of s L 0 0 "''''"] show ?thesis by (blast intro: prog_step.request)
    next
      case In_Call
      with told woken_gui_ends [of s L 0 0] 3 show ?thesis
        by (cases wakes) (blast intro: prog_step.gui)+
    qed (use 3 in simp)
  qed
qed

section \<open>The properties of the program\<close>


text \<open>The program right after its start, on which somebody presses Ctrl+C.\<close>

definition demo_program :: "(nat, nat, nat, string list) program" where
  "demo_program = main_cam True FaceRecognizer []"


interpretation ended: safe_relation "prog_step wakes L sim detect emb_of" "\<lambda>s. pg_rec s = Over"
proof
  fix s t
  assume "prog_step wakes L sim detect emb_of s t" and over: "pg_rec s = Over"
  then show "pg_rec t = Over"
  proof (cases rule: prog_step.cases)
    case main
    with over show ?thesis
      by (cases "pg_main s") (auto simp: main_turn_def split: if_splits)
  next
    case (recognition t' now key)
    with over show ?thesis by (simp add: rec_turn_def)
  next
    case (camera ok frame)
    from camera(1) over show ?thesis by (cases rule: cam_turn_cases) simp_all
  next
    case (gui client w now)
    from gui(4) over show ?thesis by (cases rule: gui_turn_cases) simp_all
  next
    case (request client bytes w now)
    from request(2) over show ?thesis by (cases rule: gui_turn_cases) simp_all
  qed (simp_all add: on_signal_def over)
qed

text \<open>
  The key that the start-up message offers for quitting does not quit: Escape in the
  preview ends the recognition thread for good, and as long as no signal arrives the main
  thread goes on polling: no face is looked at any more while the program, its camera and its
  GUI keep running.
\<close>

theorem escape_does_not_quit:
  assumes "(prog_step wakes L sim detect emb_of)\<^sup>*\<^sup>* (main_cam opened fr l) s"
    and "rec_turn t now 27 sim detect emb_of s = Some s'" and "pg_rec s = In_Call"
    and "(prog_step wakes L sim detect emb_of)\<^sup>*\<^sup>* s' s''" and "\<not> pg_shutdown s''"
  shows "pg_rec s'' = Over \<and> pg_main s'' = Polling"
proof
  have "prog_step wakes L sim detect emb_of s s'"
    using assms(2) by (rule prog_step.recognition)
  then have "prog_ok s''"
    using program.star_inv [OF rtranclp_trans [OF assms(1) converse_rtranclp_into_rtranclp] prog_ok_init]
      assms(4) by blast
  with assms(5) have "phase (pg_main s'') = 0" by (auto simp: prog_ok_def)
  then show "pg_main s'' = Polling" by (cases "pg_main s''") simp_all
  have "pg_rec s' = Over"
    using assms(2)
  proof (cases rule: rec_turn_cases)
    case (3 v)
    then show ?thesis
      by (auto simp: recognition_turn_def Let_def split_beta split: option.splits)
  qed (use assms(3) in simp_all)
  with assms(4) show "pg_rec s'' = Over" by (rule ended.star_inv)
qed

text \<open>The recognition thread has a frame to look at.\<close>

definition demo_frame :: "(nat, nat, nat, string list) program" where
  "demo_frame = demo_program\<lparr>pg_rec := In_Call,
     pg_vision := (pg_vision demo_program)\<lparr>cs_queue := pushBounded 4 5 ThreadSafeQueue\<rparr>\<rparr>"

lemma demo_frame_reachable:
  "(prog_step wakes L sim detect emb_of)\<^sup>*\<^sup>* (main_cam True FaceRecognizer []) demo_frame"
proof -
  let ?R = "prog_step wakes L sim detect emb_of"
  let ?a = "demo_program\<lparr>pg_rec := In_Call\<rparr>"
  let ?b = "?a\<lparr>pg_cam := In_Call\<rparr>"
  note defs = demo_frame_def demo_program_def main_cam_def rec_start_def cam_start_def
    gui_start_def Let_def rec_turn_def cam_turn_def camera_turn_def
  have "?R demo_program ?a"
    by (rule prog_step.recognition [where t = 0 and now = 0 and key = 0]) (simp add: defs)
  moreover have "?R ?a ?b"
    by (rule prog_step.camera [where read_ok = True and frame = None]) (simp add: defs)
  moreover have "?R ?b demo_frame"
    by (rule prog_step.camera [where read_ok = True and frame = "Some 5"]) (simp add: defs)
  ultimately show ?thesis
    unfolding demo_program_def
    by (meson converse_rtranclp_into_rtranclp r_into_rtranclp)
qed

theorem escape_does_not_quit_witness:
  "\<exists>s'. rec_turn 0 0 27 (\<lambda>_ _. None) (\<lambda>f. []) (\<lambda>f r. 0) demo_frame = Some s'
     \<and> pg_rec s' = Over \<and> pg_main s' = Polling"
proof -
  obtain s' where s': "rec_turn 0 0 27 (\<lambda>_ _. None) (\<lambda>f. []) (\<lambda>f r. 0) demo_frame = Some s'"
    and "pg_rec demo_frame = In_Call" "\<not> pg_shutdown s'"
    by (auto simp: demo_frame_def demo_program_def main_cam_def rec_start_def cam_start_def
        gui_start_def rec_turn_def recognition_turn_def process_def ts_pop_def pushBounded_def
        ThreadSafeQueue_def FaceRecognizer_def Let_def split_beta)
  with escape_does_not_quit [OF demo_frame_reachable s', of False note_logger s'] show ?thesis
    by blast
qed


text \<open>Switching the override on from the GUI opens the lock of the program just started.\<close>

definition demo_request :: "(nat, nat, nat, string list) program" where
  "demo_request = demo_program\<lparr>pg_gui := In_Call\<rparr>"


end
