(* ===== verification/Cam_Log.thy ===== *)
theory Cam_Log
  imports Door_Lock
begin

text \<open>
  The access log of the camera program, \<^verbatim>\<open>AsyncLoggerCam\<close> (\<^verbatim>\<open>include/LoggerCam.h\<close>,
  \<^verbatim>\<open>src/LoggerCam.cpp\<close>; \<^verbatim>\<open>src/Logger.cpp\<close> is the same code under the name
  \<^verbatim>\<open>AsyncLogger\<close>): a worker that takes access events from a queue and writes them to a CSV
  file, to the console and to a list in memory. The local time as text is a parameter, since it
  depends on the time zone of the machine.
\<close>

section \<open>Numbers with three decimals\<close>

text \<open>
  \<^verbatim>\<open>std::fixed << std::setprecision(3)\<close>: the exact value rounded to thousandths, ties to even.
\<close>

definition round_half_even :: "rat \<Rightarrow> int" where
  "round_half_even y =
     (let n = \<lfloor>y\<rfloor>; r = y - of_int n
      in if r < 1 / 2 then n else if r > 1 / 2 then n + 1 else if even n then n else n + 1)"

definition pad3 :: "nat \<Rightarrow> string" where
  "pad3 n = (if n < 10 then ''00'' else if n < 100 then ''0'' else '''') @ show_nat n"

definition fixed3 :: "score \<Rightarrow> string" where
  "fixed3 s =
     (case s of
        None \<Rightarrow> ''nan''
      | Some x \<Rightarrow>
          (let n = nat (round_half_even (\<bar>x\<bar> * 1000))
           in (if x < 0 then ''-'' else '''') @ show_nat (n div 1000) @ ''.'' @ pad3 (n mod 1000)))"

section \<open>State and operations\<close>

record 'r cam_log =
  cl_queue :: "'r access_event ts_queue"
  cl_csv :: "string list"
  cl_console :: "string list"
  cl_entries :: "'r access_event list"

text \<open>\<open>file\<close> is what the file contains already.\<close>

definition AsyncLoggerCam :: "string list \<Rightarrow> 'r cam_log" where
  "AsyncLoggerCam file =
     \<lparr>cl_queue = ThreadSafeQueue,
      cl_csv = (if file = [] then [''Time,Person,Method,Result,Confidence,Note''] else file),
      cl_console = [], cl_entries = []\<rparr>"

definition log_cam :: "'r access_event \<Rightarrow> 'r cam_log \<Rightarrow> 'r cam_log" where
  "log_cam ev l = l\<lparr>cl_queue := ts_push ev (cl_queue l)\<rparr>"

definition entries :: "'r cam_log \<Rightarrow> 'r access_event list" where
  "entries l = cl_entries l"

definition csv_row :: "(time_point \<Rightarrow> string) \<Rightarrow> 'r access_event \<Rightarrow> string" where
  "csv_row timeStr ev =
     [CHR 0x22] @ timeStr (ae_timestamp ev) @ [CHR 0x22] @ '',''
     @ [CHR 0x22] @ ae_identity ev @ [CHR 0x22] @ '',''
     @ [CHR 0x22] @ methodStr (ae_method ev) @ [CHR 0x22] @ '',''
     @ [CHR 0x22] @ resultStr (ae_result ev) @ [CHR 0x22] @ '',''
     @ fixed3 (ae_confidence ev) @ '',''
     @ [CHR 0x22] @ ae_note ev @ [CHR 0x22]"

definition log_line :: "(time_point \<Rightarrow> string) \<Rightarrow> 'r access_event \<Rightarrow> string" where
  "log_line timeStr ev =
     ''[LOG] '' @ timeStr (ae_timestamp ev)
     @ '' | '' @ methodStr (ae_method ev)
     @ '' | '' @ ae_identity ev
     @ '' | '' @ resultStr (ae_result ev)
     @ (if ae_note ev \<noteq> [] then '' | '' @ ae_note ev else '''')"

text \<open>One turn of the worker.\<close>

definition workerLoop_turn :: "(time_point \<Rightarrow> string) \<Rightarrow> 'r cam_log \<Rightarrow> 'r cam_log turn" where
  "workerLoop_turn timeStr l =
     (case ts_pop (cl_queue l) of
        None \<Rightarrow> Waits
      | Some (None, q) \<Rightarrow> Exits (l\<lparr>cl_queue := q\<rparr>)
      | Some (Some ev, q) \<Rightarrow>
          (let l = l\<lparr>cl_queue := q\<rparr>;
               l = l\<lparr>cl_csv := cl_csv l @ [csv_row timeStr ev]\<rparr>;
               l = l\<lparr>cl_console := cl_console l @ [log_line timeStr ev]\<rparr>
           in Goes (l\<lparr>cl_entries := cl_entries l @ [ev]\<rparr>)))"

text \<open>The loop, for at most \<open>n\<close> turns.\<close>

fun workerLoop :: "nat \<Rightarrow> (time_point \<Rightarrow> string) \<Rightarrow> 'r cam_log \<Rightarrow> 'r cam_log turn" where
  "workerLoop 0 timeStr l = Goes l"
| "workerLoop (Suc n) timeStr l =
     (case workerLoop_turn timeStr l of Goes l' \<Rightarrow> workerLoop n timeStr l' | r \<Rightarrow> r)"

text \<open>What the destructor does before it joins the worker.\<close>

definition close_log :: "'r cam_log \<Rightarrow> 'r cam_log" where
  "close_log l = l\<lparr>cl_queue := ts_close (cl_queue l)\<rparr>"

section \<open>Nothing is lost\<close>

lemma workerLoop_drain:
  assumes "ts_queue (cl_queue l) = es" and "ts_shutdown (cl_queue l)"
  shows "\<exists>l'. workerLoop (Suc (length es)) timeStr l = Exits l' \<and> ts_queue (cl_queue l') = []
    \<and> cl_csv l' = cl_csv l @ map (csv_row timeStr) es
    \<and> cl_console l' = cl_console l @ map (log_line timeStr) es
    \<and> entries l' = entries l @ es"
  using assms
proof (induction es arbitrary: l)
  case Nil
  then show ?case by (simp add: workerLoop_turn_def ts_pop_def entries_def)
next
  case (Cons e es)
  let ?l = "l\<lparr>cl_queue := (cl_queue l)\<lparr>ts_queue := es\<rparr>, cl_csv := cl_csv l @ [csv_row timeStr e],
    cl_console := cl_console l @ [log_line timeStr e], cl_entries := cl_entries l @ [e]\<rparr>"
  have "workerLoop_turn timeStr l = Goes ?l"
    using Cons.prems by (simp add: workerLoop_turn_def ts_pop_def Let_def)
  moreover have "\<exists>l'. workerLoop (Suc (length es)) timeStr ?l = Exits l'
    \<and> ts_queue (cl_queue l') = [] \<and> cl_csv l' = cl_csv ?l @ map (csv_row timeStr) es
    \<and> cl_console l' = cl_console ?l @ map (log_line timeStr) es \<and> entries l' = entries ?l @ es"
    by (rule Cons.IH) (use Cons.prems in simp_all)
  ultimately show ?case by (auto simp: entries_def)
qed

text \<open>
  The access log is complete: events logged before the logger is destroyed are each written
  to the file, to the console and to memory exactly once and in order, and the worker ends
  after one turn per event and one more, so the destructor's \<^verbatim>\<open>join()\<close> returns.
\<close>

theorem access_log_complete:
  "\<exists>l'. workerLoop (Suc (length evs)) timeStr (close_log (fold log_cam evs (AsyncLoggerCam file)))
        = Exits l'
     \<and> entries l' = evs
     \<and> cl_csv l' = (if file = [] then [''Time,Person,Method,Result,Confidence,Note''] else file)
         @ map (csv_row timeStr) evs
     \<and> cl_console l' = map (log_line timeStr) evs"
proof -
  have push: "ts_queue (cl_queue (fold log_cam evs l)) = ts_queue (cl_queue l) @ evs
      \<and> cl_csv (fold log_cam evs l) = cl_csv l \<and> cl_console (fold log_cam evs l) = cl_console l
      \<and> entries (fold log_cam evs l) = entries l"
    if "\<not> ts_shutdown (cl_queue l)" for l :: "'a cam_log"
    using that
    by (induction evs arbitrary: l) (simp_all add: log_cam_def ts_push_def entries_def)
  let ?l = "close_log (fold log_cam evs (AsyncLoggerCam file))"
  have "ts_queue (cl_queue ?l) = evs" "ts_shutdown (cl_queue ?l)"
    and "cl_csv ?l = (if file = [] then [''Time,Person,Method,Result,Confidence,Note''] else file)"
    "cl_console ?l = []" "entries ?l = []"
    using push [of "AsyncLoggerCam file"]
    by (simp_all add: close_log_def ts_close_def AsyncLoggerCam_def ThreadSafeQueue_def entries_def)
  with workerLoop_drain [of ?l evs timeStr] show ?thesis by (auto simp del: workerLoop.simps)
qed

end
