(* ===== verification/Mailer.thy ===== *)
theory Mailer
  imports Cpp_Text
begin

text \<open>
  \<^verbatim>\<open>EmailAlert\<close> (\<^verbatim>\<open>include/EmailAlert.h\<close>, \<^verbatim>\<open>src/EmailAlert.cpp\<close>): the message it builds
  and the callback through which libcurl reads it in pieces. The transfer itself is a
  parameter.
\<close>

section \<open>The object\<close>

record email_alert =
  smtpServer :: string
  smtpPort :: int
  senderEmail :: string
  senderPassword :: string
  recipientEmail :: string

definition EmailAlert :: email_alert where
  "EmailAlert =
     \<lparr>smtpServer = ''smtp.gmail.com'', smtpPort = 587,
      senderEmail = ''your-team-email@gmail.com'', senderPassword = ''your-app-password'',
      recipientEmail = ''your-personal-email@gmail.com''\<rparr>"

definition EmailAlert_with :: "string \<Rightarrow> int \<Rightarrow> string \<Rightarrow> string \<Rightarrow> string \<Rightarrow> email_alert" where
  "EmailAlert_with server port sender password recipient =
     \<lparr>smtpServer = server, smtpPort = port, senderEmail = sender, senderPassword = password,
      recipientEmail = recipient\<rparr>"

section \<open>The message\<close>

abbreviation CRLF :: string where "CRLF \<equiv> [CHR 0x0D, CHR 0x0A]"

definition buildPayload :: "string \<Rightarrow> string \<Rightarrow> string \<Rightarrow> string \<Rightarrow> string" where
  "buildPayload from_addr to_addr subject body =
     ''Date: Mon, 20 Apr 2026 14:00:00 +0000'' @ CRLF
     @ ''To: '' @ to_addr @ CRLF
     @ ''From: '' @ from_addr @ CRLF
     @ ''Subject: '' @ subject @ CRLF
     @ CRLF
     @ body @ CRLF"

section \<open>The upload callback\<close>

record upload_status =
  bytesRead :: nat
  payload :: string

text \<open>
  One call with room for \<open>sz * nmemb\<close> bytes: what it copies to the buffer (the result is its
  length), and the status afterwards.
\<close>

definition payloadSource :: "nat \<Rightarrow> nat \<Rightarrow> upload_status \<Rightarrow> string \<times> upload_status" where
  "payloadSource sz nmemb u =
     (let bufferSize = sz * nmemb
      in if bytesRead u \<ge> length (payload u) then ('''', u)
         else let remaining = length (payload u) - bytesRead u;
                  copySize = (if remaining < bufferSize then remaining else bufferSize)
              in (take copySize (drop (bytesRead u) (payload u)),
                  u\<lparr>bytesRead := bytesRead u + copySize\<rparr>))"

text \<open>
  What libcurl does with it: call until a call returns nothing, here for at most the given
  buffer sizes. The result says whether the end was reached.
\<close>

fun upload :: "nat list \<Rightarrow> upload_status \<Rightarrow> string \<times> bool" where
  "upload [] u = ('''', False)"
| "upload (n # ns) u =
     (let (chunk, u) = payloadSource 1 n u
      in if chunk = '''' then ('''', True)
         else let (rest, ended) = upload ns u in (chunk @ rest, ended))"

text \<open>
  \<open>transfer\<close> is libcurl: it gets the URL, the credentials, the addresses and what the callback
  delivers, and answers whether the server accepted the message; \<open>None\<close> for a handle that could
  not be created.
\<close>

definition send ::
  "(string \<Rightarrow> string \<Rightarrow> string \<Rightarrow> string \<Rightarrow> string \<Rightarrow> bool) option \<Rightarrow> nat list \<Rightarrow> string \<Rightarrow> string \<Rightarrow>
   email_alert \<Rightarrow> bool" where
  "send transfer sizes subject body e =
     (case transfer of
        None \<Rightarrow> False
      | Some t \<Rightarrow>
          (let smtpUrl = ''smtp://'' @ smtpServer e @ '':'' @ to_string (smtpPort e);
               message = buildPayload (senderEmail e) (recipientEmail e) subject body
           in t smtpUrl (senderEmail e) (senderPassword e) (recipientEmail e)
                (fst (upload sizes \<lparr>bytesRead = 0, payload = message\<rparr>))))"

lemma payloadSource_chunk:
  assumes "0 < n"
  shows "fst (payloadSource 1 n u) = take n (drop (bytesRead u) (payload u))"
    and "snd (payloadSource 1 n u) =
      u\<lparr>bytesRead := bytesRead u + min n (length (payload u) - bytesRead u)\<rparr>"
  using assms by (auto simp: payloadSource_def Let_def min_def)

text \<open>
  The whole message is sent, once: whatever sizes libcurl offers for its buffer, as long as
  none is empty and there are more of them than the message has bytes, the pieces put together
  are the message, and then the callback reports the end.
\<close>

theorem upload_sends_payload:
  assumes "\<forall>n \<in> set ns. 0 < n" and "length (payload u) - bytesRead u < length ns"
  shows "upload ns u = (drop (bytesRead u) (payload u), True)"
  using assms
proof (induction ns arbitrary: u)
  case (Cons n ns)
  let ?rest = "drop (bytesRead u) (payload u)"
  let ?u = "u\<lparr>bytesRead := bytesRead u + min n (length (payload u) - bytesRead u)\<rparr>"
  have n: "0 < n" using Cons.prems(1) by simp
  have call: "payloadSource 1 n u = (take n ?rest, ?u)"
    using payloadSource_chunk [OF n, of u] by (simp add: prod_eq_iff)
  show ?case
  proof (cases "?rest = ''''")
    case True
    then show ?thesis using call by simp
  next
    case False
    then have "length (payload ?u) - bytesRead ?u < length ns" using n Cons.prems(2) by auto
    with Cons have "upload ns ?u = (drop (bytesRead ?u) (payload u), True)" by simp
    moreover have "drop (bytesRead ?u) (payload u) = drop n ?rest"
      by (cases "n \<le> length (payload u) - bytesRead u") (auto simp: min_def add.commute)
    moreover have "take n ?rest @ drop n ?rest = ?rest" by (rule append_take_drop_id)
    ultimately show ?thesis using call False n by (simp del: append_take_drop_id drop_drop)
  qed
qed simp

theorem upload_sends_payload_witness:
  "upload (replicate 200 16)
     \<lparr>bytesRead = 0, payload = buildPayload ''a@b.c'' ''d@e.f'' ''Alarm'' ''Door open''\<rparr>
   = (buildPayload ''a@b.c'' ''d@e.f'' ''Alarm'' ''Door open'', True)"
  using upload_sends_payload [of "replicate 200 16"
      "\<lparr>bytesRead = 0, payload = buildPayload ''a@b.c'' ''d@e.f'' ''Alarm'' ''Door open''\<rparr>"]
  by (simp add: buildPayload_def)

end
