(* ===== verification/Legacy_Api.thy ===== *)
theory Legacy_Api
  imports Json
begin

text \<open>
  The earlier REST server: \<^verbatim>\<open>SystemState\<close> (\<^verbatim>\<open>src/system_state.hpp\<close>,
  \<^verbatim>\<open>src/system_state.cpp\<close>) and the routes of \<^verbatim>\<open>ApiServer::run\<close>
  (\<^verbatim>\<open>src/api_server.cpp\<close>). It keeps flags only: nothing reacts to them.
\<close>

section \<open>SystemState\<close>

record legacy_state =
  armed :: bool
  lg_doorOpen :: bool
  lg_alarmActive :: bool
  lastAuthUser :: string
  lastAuthTime :: int
  lastIntrusionTime :: int

definition new_state :: legacy_state where
  "new_state = \<lparr>armed = True, lg_doorOpen = False, lg_alarmActive = False, lastAuthUser = '''',
     lastAuthTime = 0, lastIntrusionTime = 0\<rparr>"

definition setArmed :: "bool \<Rightarrow> legacy_state \<Rightarrow> legacy_state" where
  "setArmed v s = s\<lparr>armed := v\<rparr>"

definition isArmed :: "legacy_state \<Rightarrow> bool" where
  "isArmed s = armed s"

definition setDoorOpen :: "bool \<Rightarrow> legacy_state \<Rightarrow> legacy_state" where
  "setDoorOpen v s = s\<lparr>lg_doorOpen := v\<rparr>"

definition lg_isDoorOpen :: "legacy_state \<Rightarrow> bool" where
  "lg_isDoorOpen s = lg_doorOpen s"

definition setAlarmActive :: "bool \<Rightarrow> legacy_state \<Rightarrow> legacy_state" where
  "setAlarmActive v s = s\<lparr>lg_alarmActive := v\<rparr>"

definition lg_isAlarmActive :: "legacy_state \<Rightarrow> bool" where
  "lg_isAlarmActive s = lg_alarmActive s"

definition setLastAuth :: "string \<Rightarrow> int \<Rightarrow> legacy_state \<Rightarrow> legacy_state" where
  "setLastAuth user timeMs s = s\<lparr>lastAuthUser := user, lastAuthTime := timeMs\<rparr>"

definition getLastAuthUser :: "legacy_state \<Rightarrow> string" where
  "getLastAuthUser s = lastAuthUser s"

definition getLastAuthTime :: "legacy_state \<Rightarrow> int" where
  "getLastAuthTime s = lastAuthTime s"

definition setLastIntrusionTime :: "int \<Rightarrow> legacy_state \<Rightarrow> legacy_state" where
  "setLastIntrusionTime timeMs s = s\<lparr>lastIntrusionTime := timeMs\<rparr>"

definition getLastIntrusionTime :: "legacy_state \<Rightarrow> int" where
  "getLastIntrusionTime s = lastIntrusionTime s"

definition toJson :: "legacy_state \<Rightarrow> string" where
  "toJson s =
     ''{''
     @ ''\"armed\":'' @ (if armed s then ''true'' else ''false'') @ '',''
     @ ''\"door_open\":'' @ (if lg_doorOpen s then ''true'' else ''false'') @ '',''
     @ ''\"alarm_active\":'' @ (if lg_alarmActive s then ''true'' else ''false'') @ '',''
     @ ''\"last_auth_user\":\"'' @ lastAuthUser s @ ''\",''
     @ ''\"last_auth_time\":'' @ to_string (lastAuthTime s) @ '',''
     @ ''\"last_intrusion_time\":'' @ to_string (lastIntrusionTime s)
     @ ''}''"

section \<open>Routes\<close>

definition nowMs :: "time_point \<Rightarrow> int" where
  "nowMs t = count_milliseconds t"

definition extractUserFromJson :: "string \<Rightarrow> string" where
  "extractUserFromJson body =
     (case find_string ''\"user\"'' 0 body of
        None \<Rightarrow> ''unknown''
      | Some keyPos \<Rightarrow>
     (case find_char CHR '':'' keyPos body of
        None \<Rightarrow> ''unknown''
      | Some colonPos \<Rightarrow>
     (case find_char QUOTE (colonPos + 1) body of
        None \<Rightarrow> ''unknown''
      | Some firstQuote \<Rightarrow>
     (case find_char QUOTE (firstQuote + 1) body of
        None \<Rightarrow> ''unknown''
      | Some secondQuote \<Rightarrow> substr (firstQuote + 1) (secondQuote - firstQuote - 1) body))))"

text \<open>The routes, with the text each answers; \<^term>\<open>None\<close> where no route matches.\<close>

definition legacy_request ::
  "time_point \<Rightarrow> string \<Rightarrow> string \<Rightarrow> string \<Rightarrow> legacy_state \<Rightarrow> string option \<times> legacy_state" where
  "legacy_request t meth path body s =
     (if meth = ''GET'' \<and> path = ''/api/status'' then (Some (toJson s), s)
      else if meth \<noteq> ''POST'' then (None, s)
      else if path = ''/api/auth''
      then let user = extractUserFromJson body
           in (Some (''{'' @ ''\"ok\":true,'' @ ''\"message\":\"Authorization recorded\",''
                     @ ''\"user\":\"'' @ user @ ''\"'' @ ''}''),
               setLastAuth user (nowMs t) s)
      else if path = ''/api/alarm/reset''
      then (Some (''{'' @ ''\"ok\":true,'' @ ''\"alarm_active\":false'' @ ''}''), setAlarmActive False s)
      else if path = ''/api/system/arm''
      then (Some (''{'' @ ''\"ok\":true,'' @ ''\"armed\":true'' @ ''}''), setArmed True s)
      else if path = ''/api/system/disarm''
      then (Some (''{'' @ ''\"ok\":true,'' @ ''\"armed\":false'' @ ''}''), setArmed False s)
      else if path = ''/api/test/door/open''
      then (Some (''{'' @ ''\"ok\":true,'' @ ''\"door_open\":true'' @ ''}''), setDoorOpen True s)
      else if path = ''/api/test/door/close''
      then (Some (''{'' @ ''\"ok\":true,'' @ ''\"door_open\":false'' @ ''}''), setDoorOpen False s)
      else (None, s))"

lemmas legacy_defs [api_simps] =
  setArmed_def setDoorOpen_def setAlarmActive_def setLastAuth_def setLastIntrusionTime_def

text \<open>The server never raises an alarm: its routes can only switch the flag off.\<close>

lemma legacy_alarm_only_falls:
  "lg_alarmActive (snd (legacy_request t meth path body s)) \<Longrightarrow> lg_alarmActive s"
  by (auto simp: legacy_request_def api_simps Let_def split: if_splits)

text \<open>
  The user is not escaped: a name that ends in a backslash is accepted, and the string literal
  in the status then runs on past its closing quote.
\<close>

lemma legacy_status_literal:
  "read_literal (lastAuthUser (setLastAuth [BACKSLASH] n s) @ ''\",'' @ rest) =
     map_option (apfst (\<lambda>v. QUOTE # CHR '','' # v)) (read_literal rest)"
proof -
  have "read_literal (CHR '','' # rest) = map_option (apfst ((#) CHR '','')) (read_literal rest)"
    by (simp add: code_def)
  then show ?thesis
    by (simp add: setLastAuth_def unescape_def option.map_comp comp_def apfst_compose)
qed

end
