(* ===== verification/Main_Program.thy ===== *)
theory Main_Program
  imports Wakeup
begin

text \<open>
  The wait of the integrated program (\<^verbatim>\<open>src/main.cpp\<close>): the main thread sleeps on a condition
  variable until the handler of the interrupt signal has set \<^verbatim>\<open>should_exit\<close>. The subsystems it
  then stops are in \<^verbatim>\<open>Door_System\<close> and \<^verbatim>\<open>Camera_Program\<close>.
\<close>

section \<open>The handler and the wait\<close>

text \<open>The predicate of the wait, and what the handler does under the mutex.\<close>

definition should_exit :: "bool \<Rightarrow> bool" where
  "should_exit flag \<longleftrightarrow> flag"

definition signalHandler :: "bool \<Rightarrow> bool \<Rightarrow> bool" where
  "signalHandler flag flag' \<longleftrightarrow> flag' = True"

text \<open>After the wait the main thread goes on to the teardown and leaves the flag as it is.\<close>

definition after_wait :: "bool \<Rightarrow> bool" where
  "after_wait flag = flag"

interpretation main_wait: guarded_wait should_exit signalHandler "\<lambda>flag flag'. False" after_wait
  by unfold_locales simp

text \<open>
  A signal handler runs on some thread of the program. On the main thread it interrupts
  whatever that thread does; if the thread holds the mutex then, the handler's lock never
  returns (\<^term>\<open>None\<close>).
\<close>

definition handler_on_main :: "bool monitor \<Rightarrow> bool monitor option" where
  "handler_on_main m =
     (if holds_mutex (mo_waiter m) then None
      else Some (m\<lparr>mo_data := True, mo_pending := Suc (mo_pending m)\<rparr>))"

lemma handler_on_main_step:
  "handler_on_main m = Some m' \<Longrightarrow>
   cv_step should_exit signalHandler (\<lambda>flag flag'. False) after_wait m m'"
  using cv_step.update_locked [of m signalHandler True]
  by (auto simp: handler_on_main_def signalHandler_def split: if_splits)

text \<open>
  An interrupt handled on another thread, or while the main thread does not hold
  the mutex, is never lost: the main thread cannot sleep on a set flag without a notification
  on its way. But the handler is not safe on the main thread itself: there is a reachable
  state, between the test of the flag and the sleep, in which it blocks for ever on the mutex
  that its own thread holds.
\<close>

theorem interrupt_reaches_main:
  "{m. (cv_step should_exit signalHandler (\<lambda>flag flag'. False) after_wait)\<^sup>*\<^sup>* (monitor_start False) m}
     \<subseteq> {m. \<not> lost_wakeup should_exit m}
   \<and> (\<exists>m. (cv_step should_exit signalHandler (\<lambda>flag flag'. False) after_wait)\<^sup>*\<^sup>* (monitor_start False) m
        \<and> \<not> should_exit (mo_data m) \<and> handler_on_main m = None)"
proof
  show "{m. (cv_step should_exit signalHandler (\<lambda>flag flag'. False) after_wait)\<^sup>*\<^sup>* (monitor_start False) m}
     \<subseteq> {m. \<not> lost_wakeup should_exit m}"
    using main_wait.no_lost_wakeup by blast
  have "\<not> should_exit False" by (simp add: should_exit_def)
  from run_to_parking [of should_exit, OF this, of signalHandler "\<lambda>flag flag'. False" after_wait]
  show "\<exists>m. (cv_step should_exit signalHandler (\<lambda>flag flag'. False) after_wait)\<^sup>*\<^sup>* (monitor_start False) m
        \<and> \<not> should_exit (mo_data m) \<and> handler_on_main m = None"
    by (intro exI [of _ "\<lparr>mo_data = False, mo_waiter = Parking, mo_pending = 0\<rparr>"])
      (simp add: handler_on_main_def should_exit_def)
qed

end
