(* ===== verification/Unit_Tests.thy ===== *)
theory Unit_Tests
  imports Alarm
begin

text \<open>
  The repository's own unit tests (\<^verbatim>\<open>tests/tests.cpp\<close>) as definitions: each gives the values of
  its assertions in order. The objects are the ones the tests build: pins that were never
  initialised, a logger that was never started, an alarm manager without a logger.
\<close>

section \<open>The tests\<close>

definition test_fsm :: "periph fsm" where
  "test_fsm = DoorAlarmFSM (new_periph (AsyncLogger [] True True))"

text \<open>One \<^verbatim>\<open>fsm.handleEvent({type, source})\<close>: \<open>w\<close> and \<open>t\<close> are the readings of the clocks.\<close>

definition feed :: "time_point \<Rightarrow> time_point \<Rightarrow> event_type \<Rightarrow> string \<Rightarrow> periph fsm \<Rightarrow> periph fsm" where
  "feed w t ty src s = handleEvent alarm_ports t (Event w ty src) s"

definition test_successful_entry :: "(nat \<Rightarrow> time_point \<times> time_point) \<Rightarrow> bool list" where
  "test_successful_entry clk =
     (let fsm = test_fsm;
          a1 = (getState fsm = ArmedIdle);
          fsm = feed (fst (clk 0)) (snd (clk 0)) DoorOpened ''Sensor'' fsm;
          a2 = (getState fsm = PendingVerification);
          fsm = feed (fst (clk 1)) (snd (clk 1)) AuthorizedByNfc ''UID_123'' fsm;
          a3 = (getState fsm = AuthorizedEntry);
          a4 = (isAlarmActive (fs_ports fsm) = False)
      in [a1, a2, a3, a4])"

definition test_security_breach_timeout :: "(nat \<Rightarrow> time_point \<times> time_point) \<Rightarrow> bool list" where
  "test_security_breach_timeout clk =
     (let fsm = test_fsm;
          fsm = feed (fst (clk 0)) (snd (clk 0)) DoorOpened ''Sensor'' fsm;
          fsm = feed (fst (clk 1)) (snd (clk 1)) VerificationTimeout ''Timer'' fsm
      in [getState fsm = AlarmActive, isAlarmActive (fs_ports fsm) = True])"

definition test_auto_rearm :: "(nat \<Rightarrow> time_point \<times> time_point) \<Rightarrow> bool list" where
  "test_auto_rearm clk =
     (let fsm = test_fsm;
          fsm = feed (fst (clk 0)) (snd (clk 0)) DoorOpened ''Sensor'' fsm;
          fsm = feed (fst (clk 1)) (snd (clk 1)) AuthorizedByNfc ''UID_123'' fsm;
          fsm = feed (fst (clk 2)) (snd (clk 2)) DoorClosed ''Sensor'' fsm
      in [getState fsm = ArmedIdle, isAlarmActive (fs_ports fsm) = False])"

section \<open>The queue test\<close>

text \<open>
  The producer's hundred pushes interleave with the consumer's pops as the schedule says
  (\<^term>\<open>True\<close> for the producer); a scheduled consumer whose queue is empty waits. The result is
  the number of pushes left, the number of events popped, and the queue.
\<close>

fun stress_step :: "bool \<Rightarrow> nat \<times> nat \<times> event_queue \<Rightarrow> nat \<times> nat \<times> event_queue" where
  "stress_step True (todo, count, q) =
     (if todo = 0 then (todo, count, q)
      else (todo - 1, count, push (Event 0 PrintStatus ''StressTest'') q))"
| "stress_step False (todo, count, q) =
     (if count = 100 then (todo, count, q)
      else case waitAndPop (Event 0 PrintStatus ''system'') q of
             None \<Rightarrow> (todo, count, q)
           | Some (ok, e, q) \<Rightarrow> (todo, if ok then count + 1 else count, q))"

definition test_event_queue_concurrency :: "bool list \<Rightarrow> nat \<times> nat \<times> event_queue" where
  "test_event_queue_concurrency schedule = fold stress_step schedule (100, 0, EventQueue)"

definition stress_ok :: "nat \<times> nat \<times> event_queue \<Rightarrow> bool" where
  "stress_ok c \<longleftrightarrow>
     (case c of (todo, count, q) \<Rightarrow>
        \<not> eq_shutdown q \<and> todo + count + length (eq_queue q) = 100)"

lemma stress_step_ok:
  assumes "stress_ok c"
  shows "stress_ok (stress_step b c)"
proof -
  obtain todo count q where c: "c = (todo, count, q)" by (cases c) auto
  show ?thesis
    using assms
    by (cases b) (auto simp: stress_ok_def c push_def waitAndPop_def pop_front_def
        split: list.splits option.splits)
qed

text \<open>The work left: a push counts twice, for it will have to be popped as well.\<close>

definition stress_work :: "nat \<times> nat \<times> event_queue \<Rightarrow> nat" where
  "stress_work c = (case c of (todo, count, q) \<Rightarrow> 2 * todo + length (eq_queue q))"

lemma stress_progress:
  assumes "stress_ok c"
  shows "stress_work c = 0 \<longleftrightarrow> fst (snd c) = 100"
    and "fst (snd c) = 100 \<or> (\<exists>b. stress_work (stress_step b c) < stress_work c)"
    and "stress_work (stress_step b c) \<le> stress_work c"
proof -
  obtain todo count q where c: "c = (todo, count, q)" by (cases c) auto
  show "stress_work c = 0 \<longleftrightarrow> fst (snd c) = 100"
    using assms by (auto simp: stress_ok_def stress_work_def c)
  show "stress_work (stress_step b c) \<le> stress_work c"
    by (cases b) (auto simp: stress_work_def c push_def waitAndPop_def pop_front_def
        split: list.splits option.splits)
  have pop: "stress_work (stress_step False c) < stress_work c"
    if "count \<noteq> 100" and "eq_queue q \<noteq> []"
    using that
    by (auto simp: stress_work_def c waitAndPop_def pop_front_def neq_Nil_conv)
  have push: "stress_work (stress_step True c) < stress_work c" if "todo \<noteq> 0"
    using that by (auto simp: stress_work_def c push_def)
  have "count = 100 \<or> todo \<noteq> 0 \<or> eq_queue q \<noteq> []"
    using assms by (auto simp: stress_ok_def c)
  with pop push show "fst (snd c) = 100 \<or> (\<exists>b. stress_work (stress_step b c) < stress_work c)"
    unfolding c fst_conv snd_conv by metis
qed

lemma stress_run_ok: "stress_ok (test_event_queue_concurrency schedule)"
proof -
  have "stress_ok (fold stress_step schedule c)" if "stress_ok c" for c
    using that by (induction schedule arbitrary: c) (simp_all add: stress_step_ok)
  then show ?thesis
    by (simp add: test_event_queue_concurrency_def stress_ok_def EventQueue_def)
qed

section \<open>The verdicts\<close>

lemma test_fsm_sel [fsm_simps]:
  "fs_state test_fsm = ArmedIdle" "\<not> fs_doorOpen test_fsm"
  "\<not> am_active (pe_alarm (fs_ports test_fsm))"
  by (simp_all add: test_fsm_def DoorAlarmFSM_def new_periph_def AlarmManager_def)

text \<open>
  The verdicts of the repository's unit tests, whatever the clocks say: the first test
  fails in its third assertion, since an authorization after the opening is refused; the
  timeout test and the re-arm test pass; and in the queue test, under every interleaving,
  the consumer has popped a hundred events exactly when the work is done, until then one of
  the two threads can get on with it, and no turn of either undoes any of it.
\<close>

theorem unit_test_verdicts:
  "test_successful_entry clk = [True, True, False, True]
   \<and> test_security_breach_timeout clk = [True, True]
   \<and> test_auto_rearm clk = [True, True]
   \<and> (let c = test_event_queue_concurrency schedule
      in (stress_work c = 0 \<longleftrightarrow> fst (snd c) = 100)
       \<and> (fst (snd c) = 100 \<or> (\<exists>b. stress_work (stress_step b c) < stress_work c))
       \<and> stress_work (stress_step b c) \<le> stress_work c)"
proof -
  note defs = feed_def handleEvent_def handler_defs getter_defs fsm_simps Event_def pin_simps
    isAlarmActive_def Let_def
  have "test_successful_entry clk = [True, True, False, True]"
    by (simp add: test_successful_entry_def defs)
  moreover have "test_security_breach_timeout clk = [True, True]"
    by (simp add: test_security_breach_timeout_def defs)
  moreover have "test_auto_rearm clk = [True, True]"
    by (simp add: test_auto_rearm_def defs)
  ultimately show ?thesis
    using stress_progress [OF stress_run_ok [of schedule]] by (simp add: Let_def)
qed

end
