(* ===== verification/Gpio_Lines.thy ===== *)
theory Gpio_Lines
  imports Cpp_Text
begin

text \<open>
  Opening GPIO lines: the output pin of the camera lock (\<^verbatim>\<open>include/GpioPin.h\<close>, compiled with
  \<^verbatim>\<open>REAL_GPIO\<close>) with its search for the right chip, and the older output handler
  (\<^verbatim>\<open>src/OutputHandler.cpp\<close>). libgpiod is a parameter.
\<close>

section \<open>The chips\<close>

text \<open>
  \<open>gd_dev\<close> lists the file names in \<^verbatim>\<open>/dev\<close> in the order of the directory; the other fields
  are the calls of libgpiod, \<^term>\<open>None\<close> standing for a null pointer.
\<close>

record ('c, 'l) gpiod =
  gd_dev :: "string list"
  gd_open :: "string \<Rightarrow> 'c option"
  gd_by_name :: "string \<Rightarrow> 'c option"
  gd_label :: "'c \<Rightarrow> string"
  gd_line :: "'c \<Rightarrow> nat \<Rightarrow> 'l option"
  gd_request :: "'l \<Rightarrow> string \<Rightarrow> int \<Rightarrow> int"

text \<open>What has been done to chips and lines, in order.\<close>

datatype ('c, 'l) chip_call =
    Opened 'c
  | Closed 'c
  | Value 'l int
  | Released 'l

fun scan_dev :: "('c, 'l) gpiod \<Rightarrow> string list \<Rightarrow> 'c option \<times> ('c, 'l) chip_call list" where
  "scan_dev G [] = (None, [])"
| "scan_dev G (name # names) =
     (if take 8 name \<noteq> ''gpiochip'' then scan_dev G names
      else case gd_open G (''/dev/'' @ name) of
             None \<Rightarrow> scan_dev G names
           | Some c \<Rightarrow>
               if gd_label G c = ''pinctrl-rp1'' then (Some c, [Opened c])
               else let (found, calls) = scan_dev G names
                    in (found, Opened c # Closed c # calls))"

fun first_by_name :: "('c, 'l) gpiod \<Rightarrow> string list \<Rightarrow> 'c option \<times> ('c, 'l) chip_call list" where
  "first_by_name G [] = (None, [])"
| "first_by_name G (n # ns) =
     (case gd_by_name G n of Some c \<Rightarrow> (Some c, [Opened c]) | None \<Rightarrow> first_by_name G ns)"

definition openCorrectChip :: "('c, 'l) gpiod \<Rightarrow> 'c option \<times> ('c, 'l) chip_call list" where
  "openCorrectChip G =
     (case scan_dev G (gd_dev G) of
        (Some c, calls) \<Rightarrow> (Some c, calls)
      | (None, calls) \<Rightarrow>
          (let (found, more) = first_by_name G [''gpiochip4'', ''gpiochip0'']
           in (found, calls @ more)))"

section \<open>The pin\<close>

record ('c, 'l) gpio_line =
  gl_pin :: nat
  gl_chip :: "'c option"
  gl_line :: "'l option"

text \<open>The constructor: the exception's text, or the object; and the calls made on the way.\<close>

definition GpioPin ::
  "('c, 'l) gpiod \<Rightarrow> nat \<Rightarrow> int \<Rightarrow> string \<Rightarrow>
   (string + ('c, 'l) gpio_line) \<times> ('c, 'l) chip_call list" where
  "GpioPin G bcmPin initialValue consumer =
     (case openCorrectChip G of
        (None, calls) \<Rightarrow> (Inl ''GpioPin: cannot open any GPIO chip'', calls)
      | (Some c, calls) \<Rightarrow>
          (case gd_line G c bcmPin of
             None \<Rightarrow> (Inl (''GpioPin: cannot get line '' @ show_nat bcmPin), calls)
           | Some l \<Rightarrow>
               if gd_request G l consumer initialValue < 0
               then (Inl (''GpioPin: cannot request output on pin '' @ show_nat bcmPin), calls)
               else (Inr \<lparr>gl_pin = bcmPin, gl_chip = Some c, gl_line = Some l\<rparr>,
                     calls @ [Value l initialValue])))"

definition set_pin :: "int \<Rightarrow> ('c, 'l) gpio_line \<Rightarrow> ('c, 'l) chip_call list" where
  "set_pin v p = (case gl_line p of Some l \<Rightarrow> [Value l v] | None \<Rightarrow> [])"

definition high :: "('c, 'l) gpio_line \<Rightarrow> ('c, 'l) chip_call list" where
  "high p = set_pin 1 p"

definition low :: "('c, 'l) gpio_line \<Rightarrow> ('c, 'l) chip_call list" where
  "low p = set_pin 0 p"

definition drop_pin :: "('c, 'l) gpio_line \<Rightarrow> ('c, 'l) chip_call list" where
  "drop_pin p =
     (case gl_line p of Some l \<Rightarrow> [Value l 0, Released l] | None \<Rightarrow> [])
     @ (case gl_chip p of Some c \<Rightarrow> [Closed c] | None \<Rightarrow> [])"

section \<open>What stays open\<close>

text \<open>The chips opened and not closed again by a sequence of calls.\<close>

fun still_open :: "('c, 'l) chip_call list \<Rightarrow> 'c list \<Rightarrow> 'c list" where
  "still_open [] cs = cs"
| "still_open (Opened c # calls) cs = still_open calls (c # cs)"
| "still_open (Closed c # calls) cs = still_open calls (remove1 c cs)"
| "still_open (_ # calls) cs = still_open calls cs"

lemma still_open_append: "still_open (a @ b) cs = still_open b (still_open a cs)"
  by (induction a cs rule: still_open.induct) auto

definition the_chip :: "'c option \<Rightarrow> 'c list" where
  "the_chip r = (case r of Some c \<Rightarrow> [c] | None \<Rightarrow> [])"

lemma scan_dev_open:
  "still_open (snd (scan_dev G names)) cs = the_chip (fst (scan_dev G names)) @ cs"
  by (induction names)
    (simp_all add: the_chip_def Let_def split_beta split: option.splits)

lemma first_by_name_open:
  "still_open (snd (first_by_name G names)) cs = the_chip (fst (first_by_name G names)) @ cs"
  by (induction names) (simp_all add: the_chip_def split: option.splits)

lemma openCorrectChip_open:
  "still_open (snd (openCorrectChip G)) [] = the_chip (fst (openCorrectChip G))"
  using scan_dev_open [of G "gd_dev G" "[]"]
    first_by_name_open [of G "[''gpiochip4'', ''gpiochip0'']" "[]"]
  by (auto simp: openCorrectChip_def still_open_append the_chip_def split_beta
      simp del: first_by_name.simps split: prod.splits option.splits)

text \<open>The devices the search considers, in order.\<close>

definition rp1_chips :: "('c, 'l) gpiod \<Rightarrow> 'c list" where
  "rp1_chips G =
     [c \<leftarrow> List.map_filter (\<lambda>name. gd_open G (''/dev/'' @ name))
        [name \<leftarrow> gd_dev G. take 8 name = ''gpiochip'']. gd_label G c = ''pinctrl-rp1'']"

lemma scan_dev_found:
  "fst (scan_dev G names) =
     (case [c \<leftarrow> List.map_filter (\<lambda>name. gd_open G (''/dev/'' @ name))
        [name \<leftarrow> names. take 8 name = ''gpiochip'']. gd_label G c = ''pinctrl-rp1''] of
        [] \<Rightarrow> None | c # _ \<Rightarrow> Some c)"
  by (induction names) (auto simp: map_filter_simps split: option.splits prod.splits list.splits)

lemma openCorrectChip_found:
  "fst (openCorrectChip G) =
     (case rp1_chips G of
        c # _ \<Rightarrow> Some c
      | [] \<Rightarrow> (case gd_by_name G ''gpiochip4'' of
                 Some c \<Rightarrow> Some c
               | None \<Rightarrow> gd_by_name G ''gpiochip0''))"
  using scan_dev_found [of G "gd_dev G"]
  by (auto simp: openCorrectChip_def rp1_chips_def split: prod.splits option.splits list.splits)

text \<open>
  Which chip the lock drives, and who closes it: the constructor takes the first chip of
  the directory that can be opened and is a Raspberry Pi 5 header, else \<^verbatim>\<open>gpiochip4\<close>, else
  \<^verbatim>\<open>gpiochip0\<close>, and closes every other chip it opened on the way; an object's destructor
  switches the line off and closes the chip, so nothing stays open; but a constructor that
  throws after it has found a chip leaves that chip open, for no destructor runs.
\<close>

theorem pin_chip_lifetime:
  "fst (openCorrectChip G) =
     (case rp1_chips G of
        c # _ \<Rightarrow> Some c
      | [] \<Rightarrow> (case gd_by_name G ''gpiochip4'' of
                 Some c \<Rightarrow> Some c
               | None \<Rightarrow> gd_by_name G ''gpiochip0''))
   \<and> (case GpioPin G pin v consumer of
        (Inr p, calls) \<Rightarrow>
          (\<exists>l. drop_pin p = [Value l 0, Released l, Closed (the (gl_chip p))])
          \<and> gl_chip p = fst (openCorrectChip G) \<and> still_open (calls @ drop_pin p) [] = []
      | (Inl e, calls) \<Rightarrow> still_open calls [] = the_chip (fst (openCorrectChip G)))"
proof
  show "case GpioPin G pin v consumer of
        (Inr p, calls) \<Rightarrow>
          (\<exists>l. drop_pin p = [Value l 0, Released l, Closed (the (gl_chip p))])
          \<and> gl_chip p = fst (openCorrectChip G) \<and> still_open (calls @ drop_pin p) [] = []
      | (Inl e, calls) \<Rightarrow> still_open calls [] = the_chip (fst (openCorrectChip G))"
    using openCorrectChip_open [of G]
    by (auto simp: GpioPin_def drop_pin_def the_chip_def still_open_append
        split: prod.splits option.splits)
qed (rule openCorrectChip_found)

section \<open>The older output handler\<close>

text \<open>
  The lines are requested one after the other; an exception on the way is caught, and the
  lines requested before it stay with the object.
\<close>

record 'l output_handler =
  oh_relay :: "'l option"
  oh_green :: "'l option"
  oh_red :: "'l option"
  oh_buzzer :: "'l option"

definition init_handler ::
  "bool \<Rightarrow> (nat \<Rightarrow> 'l option) \<Rightarrow> nat \<Rightarrow> nat \<Rightarrow> nat \<Rightarrow> nat \<Rightarrow> 'l output_handler \<Rightarrow> bool \<times> 'l output_handler" where
  "init_handler chip_ok request rp gp rdp bp h =
     (if \<not> chip_ok then (False, h)
      else case request rp of None \<Rightarrow> (False, h)
      | Some l \<Rightarrow> let h = h\<lparr>oh_relay := Some l\<rparr> in
        case request gp of None \<Rightarrow> (False, h)
      | Some l \<Rightarrow> let h = h\<lparr>oh_green := Some l\<rparr> in
        case request rdp of None \<Rightarrow> (False, h)
      | Some l \<Rightarrow> let h = h\<lparr>oh_red := Some l\<rparr> in
        case request bp of None \<Rightarrow> (False, h)
      | Some l \<Rightarrow> (True, h\<lparr>oh_buzzer := Some l\<rparr>))"

lemma init_handler_all_lines:
  "fst (init_handler ok request rp gp rdp bp h) \<longleftrightarrow>
     ok \<and> request rp \<noteq> None \<and> request gp \<noteq> None \<and> request rdp \<noteq> None \<and> request bp \<noteq> None"
  "fst (init_handler ok request rp gp rdp bp h) \<Longrightarrow>
     snd (init_handler ok request rp gp rdp bp h) =
       h\<lparr>oh_relay := request rp, oh_green := request gp, oh_red := request rdp,
          oh_buzzer := request bp\<rparr>"
  by (auto simp: init_handler_def Let_def split: option.splits if_splits)

end
