(* ===== verification/Edge_Thread.thy ===== *)
theory Edge_Thread
  imports Prelude
begin

text \<open>
  The older GPIO input class (\<^verbatim>\<open>src/gpioevent.cpp\<close>), whose worker sets the run flag itself when
  it begins. Steps of the worker and of the thread that owns the object interleave.
\<close>

section \<open>State and steps\<close>

datatype worker_pc = Unborn | Spawned | Head | Finished
datatype stop_pc = Free | Joining | Stopped

text \<open>\<open>ep_seen\<close> are the edges handed to the callback; \<open>ep_callback\<close> says whether there is one.\<close>

record 'e edge_pin =
  ep_running :: bool
  ep_worker :: worker_pc
  ep_stop :: stop_pc
  ep_callback :: bool
  ep_seen :: "'e list"

definition edge_pin_start :: "'e edge_pin \<Rightarrow> 'e edge_pin" where
  "edge_pin_start p = p\<lparr>ep_worker := Spawned\<rparr>"

definition gpioEvent :: "'e \<Rightarrow> 'e edge_pin \<Rightarrow> 'e edge_pin" where
  "gpioEvent e p = (if ep_callback p then p\<lparr>ep_seen := ep_seen p @ [e]\<rparr> else p)"

text \<open>The worker's statements: the assignment before the loop, and one turn of the loop.\<close>

definition edge_begin :: "'e edge_pin \<Rightarrow> 'e edge_pin" where
  "edge_begin p = p\<lparr>ep_running := True, ep_worker := Head\<rparr>"

definition edge_turn :: "'e option \<Rightarrow> 'e edge_pin \<Rightarrow> 'e edge_pin" where
  "edge_turn r p =
     (if ep_running p then (case r of Some e \<Rightarrow> gpioEvent e p | None \<Rightarrow> p)
      else p\<lparr>ep_worker := Finished\<rparr>)"

text \<open>\<open>stop()\<close>: the flag, and the join of a thread that has been started.\<close>

definition edge_stop :: "'e edge_pin \<Rightarrow> 'e edge_pin" where
  "edge_stop p = p\<lparr>ep_running := False, ep_stop := if ep_worker p = Unborn then Stopped else Joining\<rparr>"

definition new_edge_pin :: "bool \<Rightarrow> bool \<Rightarrow> 'e edge_pin" where
  "new_edge_pin run cb =
     \<lparr>ep_running = run, ep_worker = Unborn, ep_stop = Free, ep_callback = cb, ep_seen = []\<rparr>"

inductive edge_step :: "'e edge_pin \<Rightarrow> 'e edge_pin \<Rightarrow> bool" where
  spawned: "ep_worker p = Unborn \<Longrightarrow> ep_stop p = Free \<Longrightarrow> edge_step p (edge_pin_start p)"
| begins: "ep_worker p = Spawned \<Longrightarrow> edge_step p (edge_begin p)"
| turns: "ep_worker p = Head \<Longrightarrow> edge_step p (edge_turn r p)"
| stops: "ep_stop p = Free \<Longrightarrow> edge_step p (edge_stop p)"
| joins: "ep_stop p = Joining \<Longrightarrow> ep_worker p = Finished \<Longrightarrow> edge_step p (p\<lparr>ep_stop := Stopped\<rparr>)"

inductive_cases edge_step_cases: "edge_step p q"

lemmas edge_defs = edge_pin_start_def gpioEvent_def edge_begin_def edge_turn_def edge_stop_def

section \<open>Stopping too early and in time\<close>

definition runs_for_ever :: "'e edge_pin \<Rightarrow> bool" where
  "runs_for_ever p \<longleftrightarrow> ep_running p \<and> ep_worker p = Head \<and> ep_stop p = Joining"

definition will_stop :: "'e edge_pin \<Rightarrow> bool" where
  "will_stop p \<longleftrightarrow> \<not> ep_running p \<and> ep_stop p \<noteq> Free \<and> ep_worker p \<in> {Head, Finished}"

interpretation stuck_pin: safe_relation edge_step runs_for_ever
proof
  fix p q :: "'e edge_pin"
  assume "edge_step p q" and "runs_for_ever p"
  then show "runs_for_ever q"
    by (cases rule: edge_step_cases) (auto simp: runs_for_ever_def edge_defs split: option.splits)
qed

interpretation stopping_pin: safe_relation edge_step will_stop
proof
  fix p q :: "'e edge_pin"
  assume "edge_step p q" and "will_stop p"
  then show "will_stop q"
    by (cases rule: edge_step_cases) (auto simp: will_stop_def edge_defs split: option.splits)
qed

text \<open>The owner's call between the creation of the thread and its first statement, and after it.\<close>

definition stopped_early :: "bool \<Rightarrow> bool \<Rightarrow> 'e edge_pin" where
  "stopped_early run cb = edge_begin (edge_stop (edge_pin_start (new_edge_pin run cb)))"

definition stopped_late :: "bool \<Rightarrow> bool \<Rightarrow> 'e edge_pin" where
  "stopped_late run cb = edge_stop (edge_begin (edge_pin_start (new_edge_pin run cb)))"

text \<open>
  A stop that comes before the worker's first statement is undone by it: from the state
  that then arises, every reachable state has the worker in its loop, its flag set, and
  \<^verbatim>\<open>stop()\<close> waiting for it in \<^verbatim>\<open>join()\<close>. A stop that comes later is never undone: from then on the
  flag stays clear, so the worker's next turn is its last.
\<close>

theorem early_stop_is_undone:
  "edge_step\<^sup>*\<^sup>* (new_edge_pin run cb) (stopped_early run cb)
   \<and> {p. edge_step\<^sup>*\<^sup>* (stopped_early run cb) p}
        \<subseteq> {p. ep_running p \<and> ep_worker p = Head \<and> ep_stop p = Joining}
   \<and> edge_step\<^sup>*\<^sup>* (new_edge_pin run cb) (stopped_late run cb)
   \<and> {p. edge_step\<^sup>*\<^sup>* (stopped_late run cb) p}
        \<subseteq> {p. \<not> ep_running p \<and> ep_worker (edge_turn r p) = Finished}"
proof (intro conjI)
  let ?new = "new_edge_pin run cb"
  have 1: "edge_step ?new (edge_pin_start ?new)"
    by (rule spawned) (simp_all add: new_edge_pin_def)
  have "edge_step (edge_pin_start ?new) (edge_stop (edge_pin_start ?new))"
    by (rule stops) (simp add: new_edge_pin_def edge_defs)
  moreover have "edge_step (edge_stop (edge_pin_start ?new)) (stopped_early run cb)"
    unfolding stopped_early_def by (rule begins) (simp add: new_edge_pin_def edge_defs)
  ultimately show "edge_step\<^sup>*\<^sup>* ?new (stopped_early run cb)" 
    using 1 by (meson converse_rtranclp_into_rtranclp r_into_rtranclp)
  have "edge_step (edge_pin_start ?new) (edge_begin (edge_pin_start ?new))"
    by (rule begins) (simp add: new_edge_pin_def edge_defs)
  moreover have "edge_step (edge_begin (edge_pin_start ?new)) (stopped_late run cb)"
    unfolding stopped_late_def by (rule stops) (simp add: new_edge_pin_def edge_defs)
  ultimately show "edge_step\<^sup>*\<^sup>* ?new (stopped_late run cb)" 
    using 1 by (meson converse_rtranclp_into_rtranclp r_into_rtranclp)
  have "runs_for_ever (stopped_early run cb)"
    by (simp add: stopped_early_def runs_for_ever_def edge_defs new_edge_pin_def)
  then show "{p. edge_step\<^sup>*\<^sup>* (stopped_early run cb) p} \<subseteq> {p. ep_running p \<and> ep_worker p = Head \<and> ep_stop p = Joining}"
    using stuck_pin.star_inv by (auto simp: runs_for_ever_def)
  have "will_stop (stopped_late run cb)"
    by (simp add: stopped_late_def will_stop_def edge_defs new_edge_pin_def)
  then show "{p. edge_step\<^sup>*\<^sup>* (stopped_late run cb) p} \<subseteq> {p. \<not> ep_running p \<and> ep_worker (edge_turn r p) = Finished}"
    using stopping_pin.star_inv by (auto simp: will_stop_def edge_turn_def)
qed

end
