(* ===== verification/Http_Text.thy ===== *)
theory Http_Text
  imports Cpp_Text
begin

text \<open>
  The character and string helpers of \<^verbatim>\<open>external/httplib.h\<close> on which its message parser
  rests: letter case, numbers in a given base, hexadecimal digits, UTF-8, trimming, splitting,
  the character classes of header fields, and the check that a path stays below its root. A
  range of pointers is the string it spans. A byte is a \<^typ>\<open>char\<close> and its value as an
  \<^verbatim>\<open>unsigned char\<close> is \<^const>\<open>code\<close>.
\<close>

unbundle bit_operations_syntax

named_theorems http_simps "equations of the HTTP text functions"

section \<open>Letter case\<close>

text \<open>
  The table of \<^verbatim>\<open>case_ignore::to_lower\<close>: it moves the ASCII capitals and those of Latin-1
  (192 to 222 without the multiplication sign 215), and nothing else.
\<close>

definition ci_lower :: "char \<Rightarrow> char" where
  "ci_lower c =
     (let n = code c
      in if 65 \<le> n \<and> n \<le> 90 \<or> 192 \<le> n \<and> n \<le> 222 \<and> n \<noteq> 215 then char_of (n + 32) else c)"

definition ci_lower_string :: "string \<Rightarrow> string" where
  "ci_lower_string s = map ci_lower s"

definition ci_equal :: "string \<Rightarrow> string \<Rightarrow> bool" where
  "ci_equal a b \<longleftrightarrow> length a = length b \<and> list_all2 (\<lambda>ca cb. ci_lower ca = ci_lower cb) a b"

definition is_alnum :: "char \<Rightarrow> bool" where
  "is_alnum c \<longleftrightarrow>
     is_digit c \<or> (65 \<le> code c \<and> code c \<le> 90) \<or> (97 \<le> code c \<and> code c \<le> 122)"

lemma ci_equal_iff: "ci_equal a b \<longleftrightarrow> ci_lower_string a = ci_lower_string b"
  by (auto simp: ci_equal_def ci_lower_string_def list_all2_conv_all_nth list_eq_iff_nth_eq)

lemma ci_equal_refl [simp]: "ci_equal a a"
  by (simp add: ci_equal_iff)

lemma ci_equal_sym: "ci_equal a b \<Longrightarrow> ci_equal b a"
  by (simp add: ci_equal_iff)

lemma ci_equal_trans: "ci_equal a b \<Longrightarrow> ci_equal b c \<Longrightarrow> ci_equal a c"
  by (simp add: ci_equal_iff)

lemma code_lt [simp]: "code c < 256"
  by (simp add: code_def)

lemma code_char_of [simp]: "code (char_of n) = n mod 256"
  by (simp add: code_def)

lemma char_of_code [simp]: "char_of (code c) = c"
  by (simp add: code_def)

lemma code_inject [simp]: "code c = code d \<longleftrightarrow> c = d"
  by (metis char_of_code)

lemma char_eq_iff: "c = char_of n \<longleftrightarrow> code c = n mod 256"
  by (metis code_char_of code_inject)

section \<open>Numbers\<close>

text \<open>
  \<open>detail::from_chars\<close> for \<open>ssize_t\<close>, the type at which the server uses it: an optional minus
  sign and digits below the base; it stops at the first character that is none. The result has
  the characters that are left, or the error code.
\<close>

datatype errc = Invalid_Argument_C | Result_Out_Of_Range_C

definition SSIZE_MAX :: int where
  "SSIZE_MAX = 2 ^ 63 - 1"

definition alnum_digit :: "char \<Rightarrow> int option" where
  "alnum_digit c =
     (let n = int (code c)
      in if 48 \<le> n \<and> n \<le> 57 then Some (n - 48)
         else if 97 \<le> n \<and> n \<le> 122 then Some (n - 97 + 10)
         else if 65 \<le> n \<and> n \<le> 90 then Some (n - 65 + 10) else None)"

fun from_chars_loop :: "int \<Rightarrow> int \<Rightarrow> string \<Rightarrow> errc + int \<times> string" where
  "from_chars_loop base result [] = Inr (result, [])"
| "from_chars_loop base result (c # cs) =
     (case alnum_digit c of
        None \<Rightarrow> Inr (result, c # cs)
      | Some d \<Rightarrow>
          if d \<ge> base then Inr (result, c # cs)
          else if result > (SSIZE_MAX - d) div base then Inl Result_Out_Of_Range_C
          else from_chars_loop base (result * base + d) cs)"

definition from_chars :: "string \<Rightarrow> int \<Rightarrow> errc + int \<times> string" where
  "from_chars s base =
     (let negative = (s \<noteq> [] \<and> hd s = CHR ''-''); p = (if negative then tl s else s)
      in if p = [] then Inl Invalid_Argument_C
         else case from_chars_loop base 0 p of
                Inl e \<Rightarrow> Inl e
              | Inr (result, rest) \<Rightarrow>
                  if rest = p then Inl Invalid_Argument_C
                  else Inr (if negative then - result else result, rest))"

text \<open>\<open>is_hex\<close>, \<open>from_hex_to_i\<close> (which reads the terminating zero at the end) and
  \<open>from_i_to_hex\<close>.\<close>

definition is_hex :: "char \<Rightarrow> int option" where
  "is_hex c =
     (let n = int (code c)
      in if is_digit c then Some (n - 48)
         else if 65 \<le> n \<and> n \<le> 70 then Some (n - 65 + 10)
         else if 97 \<le> n \<and> n \<le> 102 then Some (n - 97 + 10) else None)"

fun from_hex_loop :: "nat \<Rightarrow> string \<Rightarrow> int \<Rightarrow> int option" where
  "from_hex_loop 0 s val = Some val"
| "from_hex_loop (Suc cnt) [] val = None"
| "from_hex_loop (Suc cnt) (c # cs) val =
     (if code c = 0 then None
      else case is_hex c of None \<Rightarrow> None | Some v \<Rightarrow> from_hex_loop cnt cs (val * 16 + v))"

definition from_hex_to_i :: "string \<Rightarrow> nat \<Rightarrow> nat \<Rightarrow> int option" where
  "from_hex_to_i s i cnt = (if i \<ge> length s then None else from_hex_loop cnt (drop i s) 0)"

fun from_i_to_hex :: "nat \<Rightarrow> string" where
  "from_i_to_hex n =
     (let d = ''0123456789abcdef'' ! (n mod 16)
      in if n div 16 = 0 then [d] else from_i_to_hex (n div 16) @ [d])"

declare from_i_to_hex.simps [simp del]

text \<open>The two capital hexadecimal digits of a byte, as \<^verbatim>\<open>snprintf\<close> prints them for \<^verbatim>\<open>%02X\<close>.\<close>

definition hex2 :: "char \<Rightarrow> string" where
  "hex2 c = [''0123456789ABCDEF'' ! (code c div 16), ''0123456789ABCDEF'' ! (code c mod 16)]"

lemma below_sixteen:
  "(k::nat) < 16 \<Longrightarrow> k = 0 \<or> k = 1 \<or> k = 2 \<or> k = 3 \<or> k = 4 \<or> k = 5 \<or> k = 6 \<or> k = 7 \<or>
     k = 8 \<or> k = 9 \<or> k = 10 \<or> k = 11 \<or> k = 12 \<or> k = 13 \<or> k = 14 \<or> k = 15"
  by arith

lemma is_hex_upper: "k < 16 \<Longrightarrow> is_hex (''0123456789ABCDEF'' ! k) = Some (int k)"
  by (drule below_sixteen, elim disjE) (simp_all add: is_hex_def is_digit_def code_def)

lemma is_hex_lower: "k < 16 \<Longrightarrow> is_hex (''0123456789abcdef'' ! k) = Some (int k)"
  by (drule below_sixteen, elim disjE) (simp_all add: is_hex_def is_digit_def code_def)

lemma upper_is_alnum:
  assumes "k < 16"
  shows "is_alnum (''0123456789ABCDEF'' ! k)" "code (''0123456789ABCDEF'' ! k) < 71"
    "code (''0123456789ABCDEF'' ! k) \<noteq> 0"
  using below_sixteen [OF assms]
  by (elim disjE, simp_all add: is_alnum_def is_digit_def code_def)+

lemma code_div_lt [simp]: "code c div 16 < 16"
  using code_lt [of c] by linarith

lemma from_hex_hex2 [http_simps]: "from_hex_loop 2 (hex2 c @ s) 0 = Some (int (code c))"
proof -
  have "int (code c div 16) * 16 + int (code c mod 16) = int (code c)"
    by (metis add.commute mult.commute mod_mult_div_eq of_nat_add of_nat_mult of_nat_numeral)
  then show ?thesis
    using upper_is_alnum(3) [of "code c div 16"] upper_is_alnum(3) [of "code c mod 16"]
    by (simp add: hex2_def numeral_2_eq_2 is_hex_upper)
qed

section \<open>UTF-8\<close>

text \<open>The bytes of a code point; none for the surrogates and beyond \<open>0x10FFFF\<close>.\<close>

definition byte_of :: "int \<Rightarrow> char" where
  "byte_of v = char_of (nat (v mod 256))"

definition to_utf8 :: "int \<Rightarrow> string" where
  "to_utf8 cp =
     (if cp < 0x80 then [byte_of (cp AND 0x7F)]
      else if cp < 0x800
      then [byte_of (0xC0 OR (drop_bit 6 cp AND 0x1F)), byte_of (0x80 OR (cp AND 0x3F))]
      else if cp < 0xD800
      then [byte_of (0xE0 OR (drop_bit 12 cp AND 0xF)),
            byte_of (0x80 OR (drop_bit 6 cp AND 0x3F)), byte_of (0x80 OR (cp AND 0x3F))]
      else if cp < 0xE000 then []
      else if cp < 0x10000
      then [byte_of (0xE0 OR (drop_bit 12 cp AND 0xF)),
            byte_of (0x80 OR (drop_bit 6 cp AND 0x3F)), byte_of (0x80 OR (cp AND 0x3F))]
      else if cp < 0x110000
      then [byte_of (0xF0 OR (drop_bit 18 cp AND 0x7)),
            byte_of (0x80 OR (drop_bit 12 cp AND 0x3F)),
            byte_of (0x80 OR (drop_bit 6 cp AND 0x3F)), byte_of (0x80 OR (cp AND 0x3F))]
      else [])"

text \<open>
  \<open>is_valid_utf8\<close>: \<open>utf8_lead\<close> gives the length and the first bits of a sequence, the inner
  loop adds six bits of each continuation byte.
\<close>

definition utf8_lead :: "int \<Rightarrow> (nat \<times> int) option" where
  "utf8_lead c =
     (if c AND 0xE0 = 0xC0 then Some (2, c AND 0x1F)
      else if c AND 0xF0 = 0xE0 then Some (3, c AND 0x0F)
      else if c AND 0xF8 = 0xF0 then Some (4, c AND 0x07) else None)"

fun utf8_continue :: "int \<Rightarrow> string \<Rightarrow> int option" where
  "utf8_continue cp [] = Some cp"
| "utf8_continue cp (b # bs) =
     (let b = int (code b)
      in if b AND 0xC0 \<noteq> 0x80 then None
         else utf8_continue (push_bit 6 cp OR (b AND 0x3F)) bs)"

definition utf8_in_range :: "nat \<Rightarrow> int \<Rightarrow> bool" where
  "utf8_in_range len cp \<longleftrightarrow>
     \<not> (len = 2 \<and> cp < 0x80) \<and> \<not> (len = 3 \<and> cp < 0x800) \<and> \<not> (len = 4 \<and> cp < 0x10000) \<and>
     \<not> (cp \<ge> 0xD800 \<and> cp \<le> 0xDFFF) \<and> \<not> cp > 0x10FFFF"

lemma utf8_lead_len: "utf8_lead c = Some (len, cp) \<Longrightarrow> 2 \<le> len"
  by (auto simp: utf8_lead_def split: if_splits)

function is_valid_utf8 :: "string \<Rightarrow> bool" where
  "is_valid_utf8 [] = True"
| "is_valid_utf8 (c # s) =
     (if code c < 0x80 then is_valid_utf8 s
      else case utf8_lead (int (code c)) of
             None \<Rightarrow> False
           | Some (len, cp) \<Rightarrow>
               if len > length (c # s) then False
               else (case utf8_continue cp (take (len - 1) s) of
                       None \<Rightarrow> False
                     | Some cp \<Rightarrow> utf8_in_range len cp \<and> is_valid_utf8 (drop (len - 1) s)))"
  by pat_completeness auto
termination
  by (relation "measure length") auto

declare is_valid_utf8.simps(2) [simp del]

text \<open>
  Every sequence that \<open>to_utf8\<close> writes is one that \<open>is_valid_utf8\<close> accepts: a byte below 128,
  or a lead byte and continuation bytes that give back the code point.
\<close>

lemma int_cases_upto: "0 \<le> x \<Longrightarrow> x < n \<Longrightarrow> list_all P [0..n-1] \<Longrightarrow> P (x::int)"
  by (simp add: list_all_iff)

lemma utf8_lead_bytes:
  "0 \<le> x \<Longrightarrow> x < 32 \<Longrightarrow> utf8_lead (int (code (byte_of (0xC0 OR x)))) = Some (2, x) \<and> 128 \<le> code (byte_of (0xC0 OR x))"
  "0 \<le> x \<Longrightarrow> x < 16 \<Longrightarrow> utf8_lead (int (code (byte_of (0xE0 OR x)))) = Some (3, x) \<and> 128 \<le> code (byte_of (0xE0 OR x))"
  "0 \<le> x \<Longrightarrow> x < 8 \<Longrightarrow> utf8_lead (int (code (byte_of (0xF0 OR x)))) = Some (4, x) \<and> 128 \<le> code (byte_of (0xF0 OR x))"
  by (erule (1) int_cases_upto, simp add: upto_rec1 byte_of_def code_def utf8_lead_def)+

lemma utf8_tail_byte:
  "0 \<le> y \<Longrightarrow> y < 64 \<Longrightarrow> int (code (byte_of (0x80 OR y))) AND 0xC0 = 0x80 \<and>
     int (code (byte_of (0x80 OR y))) AND 0x3F = y"
  by (erule (1) int_cases_upto, simp add: upto_rec1 byte_of_def code_def)

lemma push6: 
  assumes "0 \<le> y" "y < 64"
  shows "push_bit 6 v OR y = v * 64 + (y::int)"
proof -
  have "y = take_bit 6 y" using assms by (simp add: take_bit_int_eq_self)
  then have "push_bit 6 v OR y = push_bit 6 v + y"
    by (metis disjunctive_add bit_push_bit_iff bit_take_bit_iff linorder_not_le)
  then show ?thesis by (simp add: push_bit_eq_mult)
qed

lemma utf8_continue_step:
  "0 \<le> y \<Longrightarrow> y < 64 \<Longrightarrow> utf8_continue v (byte_of (0x80 OR y) # bs) = utf8_continue (v * 64 + y) bs"
  using utf8_tail_byte [of y] push6 [of y v] by (simp add: Let_def)


lemma and_masks:
  "(cp::int) AND 0x7F = cp mod 128" "cp AND 0x3F = cp mod 64" "cp AND 0x1F = cp mod 32"
  "cp AND 0xF = cp mod 16" "cp AND 0x7 = cp mod 8"
  by (simp_all add: take_bit_eq_mask [symmetric] take_bit_eq_mod [symmetric] mask_eq_exp_minus_1
    take_bit_eq_mask [of 7 cp, simplified mask_eq_exp_minus_1, simplified, symmetric]
    take_bit_eq_mask [of 6 cp, simplified mask_eq_exp_minus_1, simplified, symmetric]
    take_bit_eq_mask [of 5 cp, simplified mask_eq_exp_minus_1, simplified, symmetric]
    take_bit_eq_mask [of 4 cp, simplified mask_eq_exp_minus_1, simplified, symmetric]
    take_bit_eq_mask [of 3 cp, simplified mask_eq_exp_minus_1, simplified, symmetric]
    take_bit_eq_mod)

lemma valid_utf8_ascii: "code c < 0x80 \<Longrightarrow> is_valid_utf8 (c # s) = is_valid_utf8 s"
  by (simp add: is_valid_utf8.simps(2))

lemma valid_utf8_sequence:
  assumes "128 \<le> code c" "utf8_lead (int (code c)) = Some (Suc (length t), v)"
    "utf8_continue v t = Some cp"
  shows "is_valid_utf8 (c # t @ s) \<longleftrightarrow> utf8_in_range (Suc (length t)) cp \<and> is_valid_utf8 s"
proof -
  have "drop (Suc (length t) - 1) (t @ s) = s" "take (Suc (length t) - 1) (t @ s) = t" by simp_all
  with assms show ?thesis by (subst is_valid_utf8.simps(2)) (simp del: diff_Suc_1)
qed

lemma valid_utf8_sequences:
  assumes "0 \<le> y" "y < 64" "0 \<le> z" "z < 64" "0 \<le> w" "w < 64"
  shows "0 \<le> x \<Longrightarrow> x < 32 \<Longrightarrow> is_valid_utf8 (byte_of (0xC0 OR x) # byte_of (0x80 OR y) # s) \<longleftrightarrow>
      utf8_in_range 2 (x * 64 + y) \<and> is_valid_utf8 s"
    and "0 \<le> x \<Longrightarrow> x < 16 \<Longrightarrow> is_valid_utf8 (byte_of (0xE0 OR x) # byte_of (0x80 OR y) # byte_of (0x80 OR z) # s) \<longleftrightarrow>
      utf8_in_range 3 ((x * 64 + y) * 64 + z) \<and> is_valid_utf8 s"
    and "0 \<le> x \<Longrightarrow> x < 8 \<Longrightarrow>
      is_valid_utf8 (byte_of (0xF0 OR x) # byte_of (0x80 OR y) # byte_of (0x80 OR z) # byte_of (0x80 OR w) # s) \<longleftrightarrow>
      utf8_in_range 4 (((x * 64 + y) * 64 + z) * 64 + w) \<and> is_valid_utf8 s"
  using assms utf8_lead_bytes [of x]
    valid_utf8_sequence [of "byte_of (0xC0 OR x)" "[byte_of (0x80 OR y)]" x]
    valid_utf8_sequence [of "byte_of (0xE0 OR x)" "[byte_of (0x80 OR y), byte_of (0x80 OR z)]" x]
    valid_utf8_sequence [of "byte_of (0xF0 OR x)" "[byte_of (0x80 OR y), byte_of (0x80 OR z), byte_of (0x80 OR w)]" x]
  by (simp_all add: utf8_continue_step numeral_2_eq_2 [symmetric] del: utf8_continue.simps(2))

lemma to_utf8_cases:
  "cp < 0x80 \<Longrightarrow> to_utf8 cp = [byte_of (cp mod 128)]"
  "0x80 \<le> cp \<Longrightarrow> cp < 0x800 \<Longrightarrow>
     to_utf8 cp = [byte_of (0xC0 OR cp div 64 mod 32), byte_of (0x80 OR cp mod 64)]"
  "0x800 \<le> cp \<Longrightarrow> cp < 0x10000 \<Longrightarrow> cp < 0xD800 \<or> 0xE000 \<le> cp \<Longrightarrow>
     to_utf8 cp = [byte_of (0xE0 OR cp div 4096 mod 16), byte_of (0x80 OR cp div 64 mod 64),
                   byte_of (0x80 OR cp mod 64)]"
  "0x10000 \<le> cp \<Longrightarrow> cp < 0x110000 \<Longrightarrow>
     to_utf8 cp = [byte_of (0xF0 OR cp div 262144 mod 8), byte_of (0x80 OR cp div 4096 mod 64),
                   byte_of (0x80 OR cp div 64 mod 64), byte_of (0x80 OR cp mod 64)]"
proof -
  have d: "drop_bit 6 cp = cp div 64" "drop_bit 12 cp = cp div 4096" "drop_bit 18 cp = cp div 262144"
    by (simp_all add: drop_bit_eq_div)
  show "cp < 0x80 \<Longrightarrow> to_utf8 cp = [byte_of (cp mod 128)]"
    by (simp only: to_utf8_def and_masks if_True)
  show "to_utf8 cp = [byte_of (0xC0 OR cp div 64 mod 32), byte_of (0x80 OR cp mod 64)]"
    if "0x80 \<le> cp" "cp < 0x800"
  proof -
    from that have "\<not> cp < 0x80" by linarith
    with \<open>cp < 0x800\<close> show ?thesis by (simp only: to_utf8_def and_masks d if_True if_False)
  qed
  show "to_utf8 cp = [byte_of (0xE0 OR cp div 4096 mod 16), byte_of (0x80 OR cp div 64 mod 64),
                   byte_of (0x80 OR cp mod 64)]"
    if "0x800 \<le> cp" "cp < 0x10000" "cp < 0xD800 \<or> 0xE000 \<le> cp"
  proof -
    from that have "\<not> cp < 0x80" "\<not> cp < 0x800" "\<not> cp < 0xD800 \<Longrightarrow> \<not> cp < 0xE000" by linarith+
    with \<open>cp < 0x10000\<close> show ?thesis
      by (cases "cp < 0xD800") (simp_all only: to_utf8_def and_masks d if_True if_False not_False_eq_True)
  qed
  show "to_utf8 cp = [byte_of (0xF0 OR cp div 262144 mod 8), byte_of (0x80 OR cp div 4096 mod 64),
                   byte_of (0x80 OR cp div 64 mod 64), byte_of (0x80 OR cp mod 64)]"
    if "0x10000 \<le> cp" "cp < 0x110000"
  proof -
    from that have "\<not> cp < 0x80" "\<not> cp < 0x800" "\<not> cp < 0xD800" "\<not> cp < 0xE000" "\<not> cp < 0x10000" by linarith+
    with \<open>cp < 0x110000\<close> show ?thesis
      by (simp only: to_utf8_def and_masks d if_True if_False)
  qed
qed

lemma base64_digits:
  fixes cp :: int
  shows "cp div 64 * 64 + cp mod 64 = cp" "cp div 4096 * 64 + cp div 64 mod 64 = cp div 64"
    "cp div 262144 * 64 + cp div 4096 mod 64 = cp div 4096"
proof -
  have "cp div 4096 = cp div 64 div 64" "cp div 262144 = cp div 4096 div 64"
    by (subst zdiv_zmult2_eq [symmetric]; simp)+
  then show "cp div 64 * 64 + cp mod 64 = cp" "cp div 4096 * 64 + cp div 64 mod 64 = cp div 64"
    "cp div 262144 * 64 + cp div 4096 mod 64 = cp div 4096"
    by (metis div_mult_mod_eq)+
qed

lemma to_utf8_valid_append:
  assumes "0 \<le> cp"
  shows "is_valid_utf8 (to_utf8 cp @ s) = is_valid_utf8 s"
proof -
  note sq = valid_utf8_sequences
  consider "cp < 0x80" | "0x80 \<le> cp" "cp < 0x800" | "0x800 \<le> cp" "cp < 0x10000" "cp < 0xD800 \<or> 0xE000 \<le> cp"
    | "0xD800 \<le> cp" "cp < 0xE000" | "0x10000 \<le> cp" "cp < 0x110000" | "0x110000 \<le> cp" by linarith
  then show ?thesis
  proof cases
    case 1
    have "nat (cp mod 128 mod 256) mod 256 < 128"
      using pos_mod_bound [of 128 cp] pos_mod_sign [of 128 cp] by simp
    then have "code (byte_of (cp mod 128)) < 0x80" by (simp only: byte_of_def code_char_of)
    then show ?thesis by (simp only: to_utf8_cases(1) [OF 1] append.simps valid_utf8_ascii)
  next
    case 2
    have "cp div 64 mod 32 = cp div 64" using 2 assms by (intro mod_pos_pos_trivial) linarith+
    then have e: "cp div 64 mod 32 * 64 + cp mod 64 = cp" by (simp only: base64_digits)
    have "is_valid_utf8 (byte_of (0xC0 OR cp div 64 mod 32) # byte_of (0x80 OR cp mod 64) # s) =
        (utf8_in_range 2 cp \<and> is_valid_utf8 s)"
      by (rule sq(1) [of "cp mod 64" 0 0 "cp div 64 mod 32" s, unfolded e]) simp_all
    with 2 show ?thesis by (simp add: to_utf8_cases utf8_in_range_def)
  next
    case 3
    have "cp div 4096 mod 16 = cp div 4096" using 3 assms by (intro mod_pos_pos_trivial) linarith+
    then have e: "(cp div 4096 mod 16 * 64 + cp div 64 mod 64) * 64 + cp mod 64 = cp"
      by (simp only: base64_digits)
    have "is_valid_utf8 (byte_of (0xE0 OR cp div 4096 mod 16) # byte_of (0x80 OR cp div 64 mod 64)
         # byte_of (0x80 OR cp mod 64) # s) = (utf8_in_range 3 cp \<and> is_valid_utf8 s)"
      by (rule sq(2) [of "cp div 64 mod 64" "cp mod 64" 0 "cp div 4096 mod 16" s, unfolded e]) simp_all
    with 3 show ?thesis by (auto simp add: to_utf8_cases utf8_in_range_def)
  next
    case 5
    have "cp div 262144 mod 8 = cp div 262144" using 5 assms by (intro mod_pos_pos_trivial) linarith+
    then have e: "((cp div 262144 mod 8 * 64 + cp div 4096 mod 64) * 64 + cp div 64 mod 64) * 64 + cp mod 64 = cp"
      by (simp only: base64_digits)
    have "is_valid_utf8 (byte_of (0xF0 OR cp div 262144 mod 8) # byte_of (0x80 OR cp div 4096 mod 64)
         # byte_of (0x80 OR cp div 64 mod 64) # byte_of (0x80 OR cp mod 64) # s) =
         (utf8_in_range 4 cp \<and> is_valid_utf8 s)"
      by (rule sq(3) [of "cp div 4096 mod 64" "cp div 64 mod 64" "cp mod 64" "cp div 262144 mod 8" s, unfolded e]) simp_all
    with 5 show ?thesis by (simp add: to_utf8_cases utf8_in_range_def)
  qed (simp_all add: to_utf8_def)
qed

section \<open>Trimming and splitting\<close>

definition is_space_or_tab :: "char \<Rightarrow> bool" where
  "is_space_or_tab c \<longleftrightarrow> c = CHR '' '' \<or> code c = 9"

text \<open>
  \<open>trim\<close> on a range: blanks are dropped at both ends, and a range of blanks becomes empty (its
  two ends cross, which every caller reads as empty).
\<close>

definition trim :: "string \<Rightarrow> string" where
  "trim s = rev (dropWhile is_space_or_tab (rev (dropWhile is_space_or_tab s)))"

definition trim_copy :: "string \<Rightarrow> string" where
  "trim_copy s = trim s"

definition trim_double_quotes_copy :: "string \<Rightarrow> string" where
  "trim_double_quotes_copy s =
     (if length s \<ge> 2 \<and> hd s = CHR 0x22 \<and> s ! (length s - 1) = CHR 0x22
      then substr 1 (length s - 2) s else s)"

text \<open>\<open>divide\<close>: what stands before the first \<open>d\<close>, and what stands after it.\<close>

definition divide :: "string \<Rightarrow> char \<Rightarrow> string \<times> string" where
  "divide s d =
     (let lhs = takeWhile (\<lambda>c. c \<noteq> d) s; found = (if lhs = s then 0 else 1)
      in (lhs, drop (length lhs + found) s))"

text \<open>
  \<open>split\<close> hands the parts between the delimiters to its callback, trimmed, the empty ones left
  out. The callback is a fold over the list of parts; the limit on their number is
  \<open>SIZE_MAX\<close> in every call of the library. \<open>seg\<close> is the part since \<open>beg\<close>.
\<close>

definition split_part :: "string \<Rightarrow> string list" where
  "split_part seg = (let r = trim seg in if r = [] then [] else [r])"

fun split_loop :: "char \<Rightarrow> string \<Rightarrow> string \<Rightarrow> string list" where
  "split_loop d seg [] = split_part seg"
| "split_loop d seg (c # cs) =
     (if c = d then split_part seg @ split_loop d [] cs else split_loop d (seg @ [c]) cs)"

definition split :: "string \<Rightarrow> char \<Rightarrow> string list" where
  "split s d = split_loop d [] s"

text \<open>\<open>split_find\<close> stops at the first part that its callback accepts.\<close>

definition split_find :: "string \<Rightarrow> char \<Rightarrow> (string \<Rightarrow> bool) \<Rightarrow> bool" where
  "split_find s d fn = list_ex fn (split s d)"

lemma split_loop_cut:
  assumes "d \<notin> set t"
  shows "split_loop d seg (t @ d # s) = split_part (seg @ t) @ split_loop d [] s"
    and "split_loop d seg t = split_part (seg @ t)"
  using assms by (induction t arbitrary: seg) auto

lemma split_cut [http_simps]: "d \<notin> set t \<Longrightarrow> split (t @ d # s) d = split_part t @ split s d"
  by (simp add: split_def split_loop_cut)

lemma split_single [http_simps]: "d \<notin> set t \<Longrightarrow> split t d = split_part t"
  by (simp add: split_def split_loop_cut)

lemma dropWhile_none: "\<forall>c \<in> set s. \<not> P c \<Longrightarrow> dropWhile P s = s"
  by (cases s) auto

lemma trim_dense [http_simps]: "\<forall>c \<in> set s. \<not> is_space_or_tab c \<Longrightarrow> trim s = s"
  by (simp add: trim_def dropWhile_none)

lemma split_part_dense [http_simps]:
  "\<forall>c \<in> set s. \<not> is_space_or_tab c \<Longrightarrow> split_part s = (if s = [] then [] else [s])"
  by (simp add: split_part_def trim_dense)

lemma divide_cut [http_simps]: "d \<notin> set k \<Longrightarrow> divide (k @ d # v) d = (k, v)"
  by (simp add: divide_def Let_def takeWhile_append)

lemma divide_none [http_simps]: "d \<notin> set k \<Longrightarrow> divide k d = (k, [])"
proof -
  assume "d \<notin> set k"
  then have t: "takeWhile (\<lambda>c. c \<noteq> d) k = k" by (auto simp: takeWhile_eq_all_conv)
  show ?thesis by (simp only: divide_def Let_def t) simp
qed

lemma trim_set: "set (trim s) \<subseteq> set s"
  by (auto simp: trim_def dest!: set_dropWhileD)

lemma split_loop_set: "p \<in> set (split_loop d seg s) \<Longrightarrow> p \<noteq> [] \<and> set p \<subseteq> set seg \<union> set s"
  by (induction d seg s rule: split_loop.induct)
    (auto simp: split_part_def Let_def split: if_splits dest: trim_set [THEN subsetD])

lemma split_set: "p \<in> set (split s d) \<Longrightarrow> p \<noteq> [] \<and> set p \<subseteq> set s"
  using split_loop_set [of p d "[]" s] by (simp add: split_def)

section \<open>Header fields\<close>

definition is_token_char :: "char \<Rightarrow> bool" where
  "is_token_char c \<longleftrightarrow> is_alnum c \<or> c \<in> set ''!#$%&*+-.^_|~'' \<or> code c = 39 \<or> code c = 96"

definition is_token :: "string \<Rightarrow> bool" where
  "is_token s \<longleftrightarrow> s \<noteq> [] \<and> list_all is_token_char s"

definition is_field_name :: "string \<Rightarrow> bool" where
  "is_field_name s \<longleftrightarrow> is_token s"

definition is_vchar :: "char \<Rightarrow> bool" where
  "is_vchar c \<longleftrightarrow> 33 \<le> code c \<and> code c \<le> 126"

definition is_obs_text :: "char \<Rightarrow> bool" where
  "is_obs_text c \<longleftrightarrow> 128 \<le> code c"

definition is_field_vchar :: "char \<Rightarrow> bool" where
  "is_field_vchar c \<longleftrightarrow> is_vchar c \<or> is_obs_text c"

text \<open>The loop of \<open>is_field_content\<close>, from the second character to the last but one.\<close>

definition is_field_content :: "string \<Rightarrow> bool" where
  "is_field_content s =
     (if s = [] then True
      else if length s = 1 then is_field_vchar (s ! 0)
      else if length s = 2 then is_field_vchar (s ! 0) \<and> is_field_vchar (s ! 1)
      else if \<not> is_field_vchar (s ! 0) then False
      else if \<not> list_all (\<lambda>c. c = CHR '' '' \<or> code c = 9 \<or> is_field_vchar c)
                 (take (length s - 2) (drop 1 s)) then False
      else is_field_vchar (s ! (length s - 1)))"

definition is_field_value :: "string \<Rightarrow> bool" where
  "is_field_value s \<longleftrightarrow> is_field_content s"

text \<open>No character of a field name or value can end its line.\<close>

lemma token_char_safe: "is_token_char c \<Longrightarrow> 33 \<le> code c \<and> code c \<le> 126 \<and> code c \<noteq> 58"
  by (auto simp: is_token_char_def is_alnum_def is_digit_def) (simp_all add: code_def)

lemma field_name_safe: "is_field_name s \<Longrightarrow> c \<in> set s \<Longrightarrow> 33 \<le> code c \<and> code c \<le> 126 \<and> code c \<noteq> 58"
  by (auto simp: is_field_name_def is_token_def list_all_iff dest: token_char_safe)

lemma field_content_long:
  assumes "m \<noteq> []"
  shows "is_field_content (a # m @ [z]) \<longleftrightarrow>
    is_field_vchar a \<and> list_all (\<lambda>c. c = CHR '' '' \<or> code c = 9 \<or> is_field_vchar c) m \<and> is_field_vchar z"
proof -
  have "length (a # m @ [z]) - 2 = length m" "length (a # m @ [z]) \<noteq> 1" "length (a # m @ [z]) \<noteq> 2"
    "(a # m @ [z]) ! 0 = a" "(a # m @ [z]) ! (length (a # m @ [z]) - 1) = z" "a # m @ [z] \<noteq> []"
    "take (length m) (drop 1 (a # m @ [z])) = m"
    using assms by (auto simp: nth_append)
  then show ?thesis by (simp only: is_field_content_def if_False if_bool_eq_conj) blast
qed

lemma field_content_chars:
  assumes "is_field_content s"
  shows "\<forall>c \<in> set s. code c = 9 \<or> code c = 32 \<or> is_field_vchar c"
proof (cases "length s \<le> 2")
  case True
  then consider "s = []" | a where "s = [a]" | a b where "s = [a, b]"
    by (cases s; cases "tl s"; cases "tl (tl s)") auto
  then show ?thesis
    by cases (use assms in \<open>auto simp: is_field_content_def\<close>)
next
  case False
  then obtain a m z where s: "s = a # m @ [z]"
    by (cases s; cases "tl s" rule: rev_cases) auto
  with False have "m \<noteq> []" by auto
  have sp: "code (CHR '' '') = 32" by (simp add: code_def)
  from assms field_content_long [OF \<open>m \<noteq> []\<close>, of a z]
  have "is_field_vchar a" "is_field_vchar z"
    "\<forall>c \<in> set m. c = CHR '' '' \<or> code c = 9 \<or> is_field_vchar c"
    unfolding s list_all_iff by blast+
  with sp show ?thesis unfolding s by (metis Un_iff empty_iff list.set(1) list.set(2) insert_iff set_append)
qed

lemma field_value_no_line_end: "is_field_value s \<Longrightarrow> c \<in> set s \<Longrightarrow> code c \<noteq> 10 \<and> code c \<noteq> 13"
  using field_content_chars by (fastforce simp: is_field_value_def is_field_vchar_def is_vchar_def is_obs_text_def)

section \<open>Paths\<close>

text \<open>
  \<open>is_valid_path\<close>: no zero byte and no backslash, and at no point more \<^verbatim>\<open>..\<close> than
  components to leave.
\<close>

abbreviation slash :: char where
  "slash \<equiv> CHR ''/''"

function valid_path_loop :: "nat \<Rightarrow> string \<Rightarrow> bool" where
  "valid_path_loop level s =
     (if s = [] then True
      else let comp = takeWhile (\<lambda>c. c \<noteq> slash) s;
               rest = dropWhile (\<lambda>c. c = slash) (dropWhile (\<lambda>c. c \<noteq> slash) s)
           in if list_ex (\<lambda>c. code c = 0 \<or> code c = 92) comp then False
              else if comp = ''.'' then valid_path_loop level rest
              else if comp = ''..'' then (if level = 0 then False else valid_path_loop (level - 1) rest)
              else valid_path_loop (level + 1) rest)"
  by pat_completeness auto

lemma next_component:
  "s \<noteq> [] \<Longrightarrow>
     length (dropWhile (\<lambda>c. c = slash) (dropWhile (\<lambda>c. c \<noteq> slash) s)) < length s"
proof (cases s)
  case (Cons c t)
  have "length (dropWhile P t) < Suc (length t)" for P and t :: string
    by (simp add: length_dropWhile_le less_Suc_eq_le)
  moreover have "length (dropWhile Q (dropWhile P t)) \<le> length t" for P Q and t :: string
    by (meson length_dropWhile_le le_trans)
  ultimately show ?thesis by (cases "c = slash") (auto simp: Cons less_Suc_eq_le)
qed simp

termination valid_path_loop
  by (relation "measure (\<lambda>(_, s). length s)") (simp_all add: next_component)

declare valid_path_loop.simps [simp del]

definition is_valid_path :: "string \<Rightarrow> bool" where
  "is_valid_path path = valid_path_loop 0 (dropWhile (\<lambda>c. c = slash) path)"

fun encode_path :: "string \<Rightarrow> string" where
  "encode_path [] = []"
| "encode_path (c # s) =
     (if code c = 0 then []
      else (if c = CHR '' '' then ''%20''
            else if c = CHR ''+'' then ''%2B''
            else if code c = 13 then ''%0D''
            else if code c = 10 then ''%0A''
            else if code c = 39 then ''%27''
            else if c = CHR '','' then ''%2C''
            else if c = CHR '';'' then ''%3B''
            else if code c \<ge> 0x80 then CHR ''%'' # hex2 c
            else [c]) @ encode_path s)"

end
