(* ===== verification/Http_Uri.thy ===== *)
theory Http_Uri
  imports Http_Text "HOL-Library.Sublist"
begin

text \<open>
  The percent encodings of \<^verbatim>\<open>external/httplib.h\<close>: URI components, whole URIs, path components
  and query components, the query string of a set of parameters and its parser. Every encoder
  is inverted by its decoder, and writes visible ASCII only.
\<close>

section \<open>URI components\<close>

definition uri_component_char :: "char \<Rightarrow> bool" where
  "uri_component_char c \<longleftrightarrow> is_alnum c \<or> c \<in> set ''-_.!~*()'' \<or> code c = 39"

definition uri_char :: "char \<Rightarrow> bool" where
  "uri_char c \<longleftrightarrow> uri_component_char c \<or> c \<in> set '';/?:@&=+$,#''"

definition percent :: "char \<Rightarrow> string" where
  "percent c = CHR ''%'' # hex2 c"

definition encode_uri_component :: "string \<Rightarrow> string" where
  "encode_uri_component value =
     concat (map (\<lambda>c. if uri_component_char c then [c] else percent c) value)"

definition encode_uri :: "string \<Rightarrow> string" where
  "encode_uri value = concat (map (\<lambda>c. if uri_char c then [c] else percent c) value)"

text \<open>
  The two decoders have the same body. A byte is the value modulo 256; the loop is written on
  what is left of the text.
\<close>

fun decode_uri_component :: "string \<Rightarrow> string" where
  "decode_uri_component [] = []"
| "decode_uri_component (c # s) =
     (if c = CHR ''%'' \<and> 2 < length (c # s)
      then case from_hex_to_i (c # s) 1 2 of
             Some val \<Rightarrow> byte_of val # decode_uri_component (drop 2 s)
           | None \<Rightarrow> c # decode_uri_component s
      else c # decode_uri_component s)"

fun decode_uri :: "string \<Rightarrow> string" where
  "decode_uri [] = []"
| "decode_uri (c # s) =
     (if c = CHR ''%'' \<and> 2 < length (c # s)
      then case from_hex_to_i (c # s) 1 2 of
             Some val \<Rightarrow> byte_of val # decode_uri (drop 2 s)
           | None \<Rightarrow> c # decode_uri s
      else c # decode_uri s)"

section \<open>Path components\<close>

definition path_component_char :: "char \<Rightarrow> bool" where
  "path_component_char c \<longleftrightarrow>
     is_alnum c \<or> c \<in> set ''-._~'' \<or> c \<in> set ''!$&()*+,;='' \<or> code c = 39 \<or>
     c = CHR '':'' \<or> c = CHR ''@''"

definition encode_path_component :: "string \<Rightarrow> string" where
  "encode_path_component component =
     concat (map (\<lambda>c. if path_component_char c then [c] else percent c) component)"

text \<open>
  A percent sign at the end of the text stands for itself; \<^verbatim>\<open>%uXXXX\<close> is a code point, of which
  a surrogate leaves nothing; other text after a percent sign is two digits or left as it is.
\<close>

fun decode_path_component :: "string \<Rightarrow> string" where
  "decode_path_component [] = []"
| "decode_path_component (c # s) =
     (if c = CHR ''%'' \<and> 1 < length (c # s)
      then if hd s = CHR ''u''
           then case from_hex_to_i (c # s) 2 4 of
                  Some val \<Rightarrow> to_utf8 val @ decode_path_component (drop 5 s)
                | None \<Rightarrow> c # decode_path_component s
           else case from_hex_to_i (c # s) 1 2 of
                  Some val \<Rightarrow> byte_of val # decode_path_component (drop 2 s)
                | None \<Rightarrow> c # decode_path_component s
      else c # decode_path_component s)"

section \<open>Query components\<close>

definition query_component_char :: "char \<Rightarrow> bool" where
  "query_component_char c \<longleftrightarrow>
     is_alnum c \<or> c \<in> set ''-._~'' \<or> c \<in> set ''!$()*,;'' \<or> code c = 39 \<or>
     c = CHR '':'' \<or> c = CHR ''@'' \<or> c = slash \<or> c = CHR ''?''"

definition query_piece :: "bool \<Rightarrow> char \<Rightarrow> string" where
  "query_piece space_as_plus c =
     (if c = CHR '' '' then (if space_as_plus then ''+'' else ''%20'')
      else if c = CHR ''+'' then (if space_as_plus then ''%2B'' else [c])
      else if query_component_char c then [c] else percent c)"

definition encode_query_component :: "string \<Rightarrow> bool \<Rightarrow> string" where
  "encode_query_component component space_as_plus = concat (map (query_piece space_as_plus) component)"

text \<open>
  \<^verbatim>\<open>strtoul\<close> on the two characters after a percent sign, in base 16: it takes white space and
  a sign as well, so that \<^verbatim>\<open>%+1\<close> and \<^verbatim>\<open>% 1\<close> are bytes 1 and \<^verbatim>\<open>%-1\<close> is byte 255. The decoder asks
  that both characters were used; with two characters the prefix \<^verbatim>\<open>0x\<close> has no digit behind it.
\<close>

definition strtoul2 :: "char \<Rightarrow> char \<Rightarrow> int option" where
  "strtoul2 a b =
     (case (is_hex a, is_hex b) of
        (Some v, Some w) \<Rightarrow> Some (v * 16 + w)
      | (None, Some w) \<Rightarrow>
          if is_space a \<or> a = CHR ''+'' then Some w
          else if a = CHR ''-'' then Some ((- w) mod 2 ^ 64) else None
      | _ \<Rightarrow> None)"

fun decode_query_component :: "string \<Rightarrow> bool \<Rightarrow> string" where
  "decode_query_component [] plus_as_space = []"
| "decode_query_component (c # s) plus_as_space =
     (if c = CHR ''%'' \<and> 2 < length (c # s)
      then case strtoul2 (s ! 0) (s ! 1) of
             Some value \<Rightarrow> byte_of value # decode_query_component (drop 2 s) plus_as_space
           | None \<Rightarrow> c # decode_query_component s plus_as_space
      else if c = CHR ''+'' \<and> plus_as_space
      then CHR '' '' # decode_query_component s plus_as_space
      else c # decode_query_component s plus_as_space)"

section \<open>Parameters\<close>

text \<open>
  \<^verbatim>\<open>Params\<close> is a \<^verbatim>\<open>std::multimap\<close>: entries in the order of their keys (as bytes), those of
  equal keys in the order in which they came. \<open>emplace\<close> puts an entry behind its equals.
\<close>

type_synonym params = "(string \<times> string) list"

fun string_less :: "string \<Rightarrow> string \<Rightarrow> bool" where
  "string_less a [] = False"
| "string_less [] (d # ds) = True"
| "string_less (c # cs) (d # ds) =
     (code c < code d \<or> (code c = code d \<and> string_less cs ds))"

fun params_emplace :: "string \<Rightarrow> string \<Rightarrow> params \<Rightarrow> params" where
  "params_emplace k v [] = [(k, v)]"
| "params_emplace k v (p # ps) =
     (if string_less k (fst p) then (k, v) # p # ps else p # params_emplace k v ps)"

text \<open>The encoder and decoder are called with their default arguments: a space is a plus.\<close>

fun params_query_loop :: "bool \<Rightarrow> params \<Rightarrow> string" where
  "params_query_loop first [] = []"
| "params_query_loop first ((k, v) # ps) =
     (if first then [] else ''&'') @ encode_query_component k True @ ''='' @ encode_query_component v True
     @ params_query_loop False ps"

definition params_to_query_str :: "params \<Rightarrow> string" where
  "params_to_query_str ps = params_query_loop True ps"

text \<open>
  \<open>parse_query_text\<close>: a part that was already seen, letter by letter, is passed over.
\<close>

fun parse_query_parts :: "string list \<Rightarrow> string list \<Rightarrow> params \<Rightarrow> params" where
  "parse_query_parts cache [] ps = ps"
| "parse_query_parts cache (kv # kvs) ps =
     (if kv \<in> set cache then parse_query_parts cache kvs ps
      else let (key, val) = divide kv (CHR ''='');
               ps = (if key \<noteq> [] then params_emplace (decode_query_component key True)
                                                        (decode_query_component val True) ps else ps)
           in parse_query_parts (kv # cache) kvs ps)"

definition parse_query_text :: "string \<Rightarrow> params \<Rightarrow> params" where
  "parse_query_text s ps = parse_query_parts [] (split s (CHR ''&'')) ps"

definition normalize_part :: "string \<Rightarrow> string \<Rightarrow> string" where
  "normalize_part result kv =
     (let (key, val) = divide kv (CHR ''='')
      in if key = [] then result
         else let dec_key = decode_query_component key True;
                  dec_val = decode_query_component val True;
                  result = (if result \<noteq> [] then result @ ''&'' else result) @ encode_query_component dec_key True
              in if val \<noteq> [] \<or> CHR ''='' \<in> set kv
                 then result @ ''='' @ encode_query_component dec_val True else result)"

definition normalize_query_string :: "string \<Rightarrow> string" where
  "normalize_query_string query = foldl normalize_part [] (split query (CHR ''&''))"

section \<open>Round trips\<close>

lemma byte_of_code [simp]: "byte_of (int (code c)) = c"
proof -
  have "int (code c) mod 256 = int (code c)" by (simp add: zmod_trivial_iff)
  then show ?thesis by (simp only: byte_of_def nat_int char_of_code)
qed

lemma hex2_length [simp]: "length (hex2 c) = 2"
  by (simp add: hex2_def)

lemma hex_to_i_percent [http_simps]: "from_hex_to_i (CHR ''%'' # hex2 c @ s) 1 2 = Some (int (code c))"
  by (simp add: from_hex_to_i_def from_hex_hex2)

lemma alnum_not_percent: "is_alnum c \<Longrightarrow> c \<noteq> CHR ''%'' \<and> c \<noteq> CHR ''+''"
  by (auto simp: is_alnum_def is_digit_def code_def)

lemma hd_hex2: "hd (hex2 c @ s) \<noteq> CHR ''u''"
proof -
  have "code (''0123456789ABCDEF'' ! (code c div 16)) < 71" by (rule upper_is_alnum) simp
  moreover have "code (CHR ''u'') = 117" by (simp add: code_def)
  ultimately show ?thesis by (auto simp: hex2_def)
qed

lemma decode_percent [http_simps]:
  "decode_uri_component (percent c @ s) = c # decode_uri_component s"
  "decode_uri (percent c @ s) = c # decode_uri s"
  "decode_path_component (percent c @ s) = c # decode_path_component s"
  by (simp_all add: percent_def hex_to_i_percent [unfolded One_nat_def] hd_hex2 del: from_hex_loop.simps)

lemma strtoul2_hex2: "strtoul2 (hex2 c ! 0) (hex2 c ! 1) = Some (int (code c))"
proof -
  have "int (code c div 16) * 16 + int (code c mod 16) = int (code c)"
    by (metis add.commute mult.commute mod_mult_div_eq of_nat_add of_nat_mult of_nat_numeral)
  then show ?thesis by (simp add: strtoul2_def hex2_def is_hex_upper)
qed

lemma decode_query_percent [http_simps]:
  "decode_query_component (percent c @ s) b = c # decode_query_component s b"
  using strtoul2_hex2 [of c] by (simp add: percent_def nth_append)

lemma decode_uri_component_encode:
  "decode_uri_component (encode_uri_component s) = s"
proof (induction s)
  case (Cons c s)
  have "uri_component_char c \<Longrightarrow> c \<noteq> CHR ''%''"
    by (auto simp: uri_component_char_def code_def dest: alnum_not_percent)
  with Cons show ?case by (auto simp: encode_uri_component_def decode_percent)
qed (simp add: encode_uri_component_def)

lemma decode_uri_encode: "decode_uri (encode_uri s) = s"
proof (induction s)
  case (Cons c s)
  have "uri_char c \<Longrightarrow> c \<noteq> CHR ''%''"
    by (auto simp: uri_char_def uri_component_char_def code_def dest: alnum_not_percent)
  with Cons show ?case by (auto simp: encode_uri_def decode_percent)
qed (simp add: encode_uri_def)

lemma decode_path_encode: "decode_path_component (encode_path_component s) = s"
proof (induction s)
  case (Cons c s)
  have "path_component_char c \<Longrightarrow> c \<noteq> CHR ''%''"
    by (auto simp: path_component_char_def code_def dest: alnum_not_percent)
  with Cons show ?case by (auto simp: encode_path_component_def decode_percent)
qed (simp add: encode_path_component_def)

lemma percent_literals: "''%20'' = percent (CHR '' '')" "''%2B'' = percent (CHR ''+'')"
  by (simp_all add: percent_def hex2_def code_def)

lemma decode_query_piece [http_simps]:
  "decode_query_component (query_piece b c @ t) b = c # decode_query_component t b"
proof -
  have "query_component_char c \<Longrightarrow> c \<noteq> CHR ''%'' \<and> c \<noteq> CHR ''+''"
    by (auto simp: query_component_char_def code_def dest: alnum_not_percent)
  then show ?thesis
    unfolding query_piece_def percent_literals by (simp add: decode_query_percent)
qed

lemma decode_query_encode_step:
  "decode_query_component (encode_query_component s b @ t) b = s @ decode_query_component t b"
  by (induction s) (simp_all add: encode_query_component_def decode_query_piece)

lemma decode_query_encode: "decode_query_component (encode_query_component s b) b = s"
  using decode_query_encode_step [of s b "[]"] by simp

lemma hex2_chars: "c \<in> set (hex2 d) \<Longrightarrow> is_alnum c"
  using upper_is_alnum(1) [of "code d div 16"] upper_is_alnum(1) [of "code d mod 16"] by (auto simp: hex2_def)

text \<open>What a component is written with: visible characters, none of them a delimiter.\<close>

definition query_safe :: "char \<Rightarrow> bool" where
  "query_safe c \<longleftrightarrow> is_vchar c \<and> c \<noteq> CHR ''&'' \<and> c \<noteq> CHR ''=''"

lemma alnum_query_safe: "is_alnum c \<Longrightarrow> query_safe c"
  by (auto simp: query_safe_def is_vchar_def is_alnum_def is_digit_def) (auto simp: code_def)

lemma percent_query_safe: "\<forall>d \<in> set (percent c). query_safe d"
  by (auto simp: percent_def dest: hex2_chars alnum_query_safe) (simp add: query_safe_def is_vchar_def code_def)

lemma query_piece_safe: "\<forall>d \<in> set (query_piece b c). query_safe d"
proof -
  have "query_component_char c \<Longrightarrow> query_safe c"
    by (auto simp: query_component_char_def dest: alnum_query_safe)
      (auto simp: query_safe_def is_vchar_def code_def)
  moreover have "query_safe (CHR ''+'')" by (simp add: query_safe_def is_vchar_def code_def)
  ultimately show ?thesis
    using percent_query_safe unfolding query_piece_def percent_literals by simp
qed

lemma encode_query_safe: "c \<in> set (encode_query_component s b) \<Longrightarrow> query_safe c"
  using query_piece_safe by (auto simp: encode_query_component_def)

definition query_pair :: "string \<times> string \<Rightarrow> string" where
  "query_pair p = encode_query_component (fst p) True @ CHR ''='' # encode_query_component (snd p) True"

lemma query_pair_chars: "c \<in> set (query_pair p) \<Longrightarrow> is_vchar c \<and> c \<noteq> CHR ''&''"
  by (auto simp: query_pair_def query_safe_def dest!: encode_query_safe) (simp_all add: is_vchar_def code_def)

lemma vchar_not_blank: "is_vchar c \<Longrightarrow> \<not> is_space_or_tab c"
  by (auto simp: is_vchar_def is_space_or_tab_def code_def)

lemma split_part_query_pair: "split_part (query_pair p) = [query_pair p]"
  by (subst split_part_dense) (auto simp: vchar_not_blank query_pair_chars query_pair_def)

lemma params_query_loop_False:
  "ps \<noteq> [] \<Longrightarrow> params_query_loop False ps = CHR ''&'' # params_query_loop True ps"
  by (cases ps) auto

lemma split_query_str: "split (params_query_loop True ps) (CHR ''&'') = map query_pair ps"
proof (induction ps)
  case (Cons p ps)
  obtain k v where p: "p = (k, v)" by (cases p)
  have q: "params_query_loop True (p # ps) = query_pair p @ params_query_loop False ps"
    by (simp add: p query_pair_def)
  have n: "CHR ''&'' \<notin> set (query_pair p)" using query_pair_chars by blast
  show ?case
  proof (cases "ps = []")
    case True
    then show ?thesis using q n by (simp add: split_single split_part_query_pair)
  next
    case False
    then show ?thesis
      using q n Cons by (simp add: params_query_loop_False split_cut split_part_query_pair)
  qed
qed (simp add: split_def split_part_def trim_def)

lemma encode_query_no_eq: "CHR ''='' \<notin> set (encode_query_component s b)"
  using encode_query_safe by (auto simp: query_safe_def)

lemma divide_query_pair [http_simps]:
  "divide (query_pair p) (CHR ''='') = (encode_query_component (fst p) True, encode_query_component (snd p) True)"
  unfolding query_pair_def by (rule divide_cut) (rule encode_query_no_eq)

lemma query_pair_inject: "query_pair p = query_pair q \<Longrightarrow> p = q"
  by (metis decode_query_encode divide_query_pair fst_conv prod.expand snd_conv)

lemma encode_query_empty [http_simps]: "encode_query_component k b = [] \<longleftrightarrow> k = []"
  by (cases k) (auto simp: encode_query_component_def query_piece_def percent_def)

lemma parse_query_parts_pairs:
  assumes "distinct ps" "\<forall>p \<in> set ps. fst p \<noteq> [] \<and> query_pair p \<notin> set cache"
  shows "parse_query_parts cache (map query_pair ps) qs = foldl (\<lambda>qs p. params_emplace (fst p) (snd p) qs) qs ps"
  using assms
proof (induction ps arbitrary: cache qs)
  case (Cons p ps)
  then have "\<forall>q \<in> set ps. fst q \<noteq> [] \<and> query_pair q \<notin> set (query_pair p # cache)"
    by (auto dest: query_pair_inject)
  with Cons show ?case
    by (simp add: divide_query_pair decode_query_encode encode_query_empty)
qed simp

lemma params_emplace_last:
  "\<forall>q \<in> set qs. \<not> string_less k (fst q) \<Longrightarrow> params_emplace k v qs = qs @ [(k, v)]"
  by (induction qs) auto

definition params_sorted :: "params \<Rightarrow> bool" where
  "params_sorted ps \<longleftrightarrow> sorted_wrt (\<lambda>p q. \<not> string_less (fst q) (fst p)) ps"

lemma foldl_emplace_sorted:
  "params_sorted (qs @ ps) \<Longrightarrow> foldl (\<lambda>qs p. params_emplace (fst p) (snd p) qs) qs ps = qs @ ps"
proof (induction ps arbitrary: qs)
  case (Cons p ps)
  then have "params_emplace (fst p) (snd p) qs = qs @ [p]"
    by (subst params_emplace_last) (auto simp: params_sorted_def sorted_wrt_append)
  with Cons.prems Cons.IH [of "qs @ [p]"] show ?case by simp
qed simp

lemma query_string_read_back:
  assumes "params_sorted ps" "distinct ps" "\<forall>p \<in> set ps. fst p \<noteq> []"
  shows "parse_query_text (params_to_query_str ps) [] = ps"
  using assms foldl_emplace_sorted [of "[]" ps]
  by (simp add: parse_query_text_def params_to_query_str_def split_query_str parse_query_parts_pairs)

lemma query_string_read_back_example:
  "parse_query_text (params_to_query_str [(''a b'', ''1&2''), (''a b'', ''100%''), (''q'', [])]) []
     = [(''a b'', ''1&2''), (''a b'', ''100%''), (''q'', [])]"
  by (rule query_string_read_back) (simp_all add: params_sorted_def code_def)

text \<open>A query string that the library wrote is in normal form.\<close>

lemma normalize_pairs:
  assumes "\<forall>p \<in> set ps. fst p \<noteq> []"
  shows "foldl normalize_part r (map query_pair ps) = r @ params_query_loop (r = []) ps"
  using assms
proof (induction ps arbitrary: r)
  case (Cons p ps)
  have "normalize_part r (query_pair p) = r @ (if r = [] then [] else ''&'') @ query_pair p"
    using Cons.prems
    by (simp add: normalize_part_def divide_query_pair encode_query_empty decode_query_encode)
      (simp add: query_pair_def decode_query_encode)
  with Cons show ?case by (cases p) (simp add: query_pair_def)
qed simp

lemma normalize_query_string_fixed:
  "\<forall>p \<in> set ps. fst p \<noteq> [] \<Longrightarrow> normalize_query_string (params_to_query_str ps) = params_to_query_str ps"
  by (simp add: normalize_query_string_def params_to_query_str_def split_query_str normalize_pairs)

end
