(* ===== verification/Http_Ranges.thy ===== *)
theory Http_Ranges
  imports Http_Message
begin

text \<open>
  Range requests in \<^verbatim>\<open>external/httplib.h\<close>: the parser of the \<^verbatim>\<open>Range\<close> header, the check against
  the length of the content, and the coalescing of overlapping ranges. A bound is an
  \<^verbatim>\<open>ssize_t\<close>, with -1 for a missing one.
\<close>

type_synonym range = "int \<times> int"

section \<open>The header\<close>

text \<open>One bound: digits that overflow leave it missing.\<close>

definition range_bound :: "string \<Rightarrow> int" where
  "range_bound s =
     (if s = [] then -1 else case from_chars s 10 of Inl e \<Rightarrow> -1 | Inr (v, rest) \<Rightarrow> v)"

definition parse_range :: "string \<Rightarrow> range option" where
  "parse_range part =
     (if CHR ''-'' \<notin> set part then None
      else let (lhs, rhs) = divide part (CHR ''-'')
           in if \<not> list_all is_digit lhs \<or> \<not> list_all is_digit rhs then None
              else let first = range_bound lhs; end = range_bound rhs
                   in if (first = -1 \<and> end = -1) \<or> (first \<noteq> -1 \<and> end \<noteq> -1 \<and> first > end) then None
                      else Some (first, end))"

text \<open>The callback of \<open>split\<close>: after an invalid part the others are passed over.\<close>

fun parse_range_parts :: "string list \<Rightarrow> range list \<Rightarrow> bool \<times> range list" where
  "parse_range_parts [] ranges = (True, ranges)"
| "parse_range_parts (p # ps) ranges =
     (case parse_range p of
        None \<Rightarrow> (False, ranges)
      | Some r \<Rightarrow> parse_range_parts ps (ranges @ [r]))"

definition parse_range_header :: "string \<Rightarrow> range list \<Rightarrow> bool \<times> range list" where
  "parse_range_header s ranges =
     (if length s > 7 \<and> compare_eq 0 6 ''bytes='' s
      then let (ok, ranges) = parse_range_parts (split (drop 6 s) (CHR '','')) ranges
           in (ok \<and> ranges \<noteq> [], ranges)
      else (False, ranges))"

section \<open>Against the content\<close>

text \<open>The steps that \<open>range_error\<close> and \<open>coalesce_ranges\<close> take with a range.\<close>

definition resolve_range :: "int \<Rightarrow> range \<Rightarrow> range" where
  "resolve_range len r =
     (let (first, end) = r;
          (first, end) = (if first = -1 \<and> end = -1 then (0, len) else (first, end));
          (first, end) = (if first = -1 then (len - end, len - 1) else (first, end))
      in (first, if end = -1 \<or> end \<ge> len then len - 1 else end))"

definition range_inside :: "int \<Rightarrow> range \<Rightarrow> bool" where
  "range_inside len r \<longleftrightarrow> 0 \<le> fst r \<and> fst r \<le> snd r \<and> snd r < len"

text \<open>
  The loop over the sorted ranges; \<open>acc\<close> is the vector of results with its last element in
  front.
\<close>

fun coalesce_loop :: "int \<Rightarrow> range list \<Rightarrow> range list \<Rightarrow> range list" where
  "coalesce_loop len acc [] = rev acc"
| "coalesce_loop len acc (r # rs) =
     (let r = resolve_range len r
      in if \<not> range_inside len r then coalesce_loop len acc rs
         else case acc of
                [] \<Rightarrow> coalesce_loop len [r] rs
              | prev # acc' \<Rightarrow>
                  if fst r \<le> snd prev + 1 \<and> \<not> (fst r = fst prev \<and> snd r = snd prev)
                  then coalesce_loop len ((fst prev, max (snd prev) (snd r)) # acc') rs
                  else coalesce_loop len (r # acc) rs)"

text \<open>
  \<^verbatim>\<open>std::sort\<close> leaves the order of ranges with the same start open; here it is that of a stable
  sort, and the lemmas hold for every sorted list.
\<close>

definition coalesce_ranges :: "range list \<Rightarrow> int \<Rightarrow> range list" where
  "coalesce_ranges ranges len =
     (if length ranges \<le> 1 then ranges else coalesce_loop len [] (sort_key fst ranges))"

definition CPPHTTPLIB_RANGE_MAX_COUNT :: nat where
  "CPPHTTPLIB_RANGE_MAX_COUNT = 1024"

text \<open>\<open>None\<close> is the error; otherwise the ranges with their bounds filled in.\<close>

fun range_error_loop :: "int \<Rightarrow> nat \<Rightarrow> range list \<Rightarrow> range list \<Rightarrow> range list option" where
  "range_error_loop len overwrapping processed [] = Some processed"
| "range_error_loop len overwrapping processed (r # rs) =
     (let r = resolve_range len r
      in if \<not> range_inside len r then None
         else let overlaps = list_ex (\<lambda>p. \<not> (snd r < fst p \<or> fst r > snd p)) processed;
                  overwrapping = (if overlaps then overwrapping + 1 else overwrapping)
              in if overlaps \<and> overwrapping > 2 then None
                 else range_error_loop len overwrapping (processed @ [r]) rs)"

definition range_error :: "range list \<Rightarrow> int \<Rightarrow> nat \<Rightarrow> bool \<times> range list" where
  "range_error ranges status body_len =
     (if ranges \<noteq> [] \<and> 200 \<le> status \<and> status < 300
      then let len = int body_len
           in if length ranges > CPPHTTPLIB_RANGE_MAX_COUNT then (True, ranges)
              else case range_error_loop len 0 [] ranges of
                     None \<Rightarrow> (True, ranges)
                   | Some rs \<Rightarrow> (False, coalesce_ranges rs len)
      else (False, ranges))"

definition get_range_offset_and_length :: "range \<Rightarrow> nat \<times> nat" where
  "get_range_offset_and_length r = (nat (fst r), nat (snd r - fst r) + 1)"

definition make_content_range_header_field :: "nat \<times> nat \<Rightarrow> nat \<Rightarrow> string" where
  "make_content_range_header_field ol len =
     (let st = fst ol; ed = st + snd ol - 1
      in ''bytes '' @ show_nat st @ ''-'' @ show_nat ed @ ''/'' @ show_nat len)"

section \<open>What a range request may get\<close>

definition range_bytes :: "range list \<Rightarrow> int set" where
  "range_bytes rs = (\<Union>r \<in> set rs. {fst r..snd r})"

lemma resolve_inside [http_simps]: "range_inside len r \<Longrightarrow> resolve_range len r = r"
  by (cases r) (auto simp: resolve_range_def range_inside_def)

lemma range_bytes_simps [simp]:
  "range_bytes [] = {}" "range_bytes (r # rs) = {fst r..snd r} \<union> range_bytes rs"
  "range_bytes (xs @ ys) = range_bytes xs \<union> range_bytes ys" "range_bytes (rev xs) = range_bytes xs"
  by (auto simp: range_bytes_def)

text \<open>Coalescing keeps the bytes, the bounds, and does not make more ranges.\<close>

lemma merge_interval:
  "pf \<le> f \<Longrightarrow> f \<le> pl + 1 \<Longrightarrow> {pf..max pl l} = {pf..pl} \<union> {f..(l::int)}"
  by auto

lemma coalesce_loop_bytes:
  assumes "sorted (map fst rs)" "list_all (range_inside len) rs" "list_all (range_inside len) acc"
    and "acc = [] \<or> (\<forall>r \<in> set rs. fst (hd acc) \<le> fst r)"
  shows "range_bytes (coalesce_loop len acc rs) = range_bytes acc \<union> range_bytes rs \<and>
    list_all (range_inside len) (coalesce_loop len acc rs) \<and>
    length (coalesce_loop len acc rs) \<le> length acc + length rs"
  using assms
proof (induction rs arbitrary: acc)
  case (Cons r rs)
  have r: "resolve_range len r = r" "range_inside len r" using Cons.prems by (auto simp: resolve_inside)
  have rs: "sorted (map fst rs)" "list_all (range_inside len) rs" "\<forall>x \<in> set rs. fst r \<le> fst x"
    using Cons.prems by auto
  show ?case
  proof (cases acc)
    case Nil
    then show ?thesis using Cons.IH [of "[r]"] r rs by (simp add: Let_def)
  next
    case (Cons prev acc')
    show ?thesis
    proof (cases "fst r \<le> snd prev + 1 \<and> \<not> (fst r = fst prev \<and> snd r = snd prev)")
      case True
      let ?m = "(fst prev, max (snd prev) (snd r))"
      have "range_inside len ?m" using Cons.prems r Cons by (auto simp: range_inside_def)
      moreover have "{fst prev..max (snd prev) (snd r)} = {fst prev..snd prev} \<union> {fst r..snd r}"
        using Cons.prems Cons True by (intro merge_interval) auto
      moreover have "coalesce_loop len acc (r # rs) = coalesce_loop len (?m # acc') rs"
        using True r Cons by (simp add: Let_def)
      ultimately show ?thesis
        using Cons.IH [of "?m # acc'"] Cons.prems rs Cons by auto
    next
      case False
      then have "coalesce_loop len acc (r # rs) = coalesce_loop len (r # acc) rs"
        unfolding coalesce_loop.simps Let_def r(1) by (simp only: r(2) not_True_eq_False if_False Cons list.case)
      then show ?thesis using Cons.IH [of "r # acc"] Cons.prems r rs Cons by auto
    qed
  qed
qed (simp add: list_all_iff)

lemma coalesce_ranges_bytes:
  assumes "list_all (range_inside len) rs"
  shows "range_bytes (coalesce_ranges rs len) = range_bytes rs"
    "list_all (range_inside len) (coalesce_ranges rs len)" "length (coalesce_ranges rs len) \<le> length rs"
proof -
  have "list_all (range_inside len) (sort_key fst rs)" using assms by (simp add: list_all_iff)
  from coalesce_loop_bytes [OF _ this, of "[]"] assms
  show "range_bytes (coalesce_ranges rs len) = range_bytes rs"
    "list_all (range_inside len) (coalesce_ranges rs len)" "length (coalesce_ranges rs len) \<le> length rs"
    by (auto simp: coalesce_ranges_def range_bytes_def)
qed

lemma range_error_loop_Some:
  "range_error_loop len n processed rs = Some out \<Longrightarrow>
     out = processed @ map (resolve_range len) rs \<and>
     (list_all (range_inside len) processed \<longrightarrow> list_all (range_inside len) out)"
proof (induction len n processed rs rule: range_error_loop.induct)
  case (2 len n processed r rs)
  then show ?case by (fastforce simp: Let_def split: if_splits)
qed simp


text \<open>The bytes of a single range are those of the content from its first to its last position.\<close>

lemma range_text:
  assumes "range_inside (int (length body)) r" "get_range_offset_and_length r = (off, n)"
  shows "off + n \<le> length body" "substr off n body = map (\<lambda>i. body ! nat i) [fst r..snd r]"
proof -
  have b: "off = nat (fst r)" "n = nat (snd r - fst r) + 1" "0 \<le> fst r" "fst r \<le> snd r" "snd r < int (length body)"
    using assms by (auto simp: get_range_offset_and_length_def range_inside_def)
  then show "off + n \<le> length body" by linarith
  show "substr off n body = map (\<lambda>i. body ! nat i) [fst r..snd r]"
    using b by (intro nth_equalityI) (auto simp: substr_def nat_add_distrib)
qed


text \<open>
  A suffix longer than the content is an error, where RFC 9110 (which the source cites for the
  other bounds) asks for the whole content.
\<close>

lemma long_suffix_refused:
  "int len < n \<Longrightarrow> range_error [(-1, n)] 200 len = (True, [(-1, n)])"
  by (simp add: range_error_def resolve_range_def range_inside_def CPPHTTPLIB_RANGE_MAX_COUNT_def)

section \<open>Several ranges\<close>

text \<open>
  The parts of a multipart answer. The caller says what to do with the tokens and with the
  bytes of a range: collect them, or count them.
\<close>

definition range_part :: "string \<Rightarrow> string \<Rightarrow> nat \<Rightarrow> range \<Rightarrow> string" where
  "range_part boundary content_type len r =
     ''--'' @ boundary @ crlf
     @ (if content_type \<noteq> [] then ''Content-Type: '' @ content_type @ crlf else [])
     @ ''Content-Range: '' @ make_content_range_header_field (get_range_offset_and_length r) len @ crlf @ crlf"

definition make_multipart_ranges_data :: "range list \<Rightarrow> string \<Rightarrow> string \<Rightarrow> string \<Rightarrow> string" where
  "make_multipart_ranges_data ranges body boundary content_type =
     concat (map (\<lambda>r. range_part boundary content_type (length body) r
                      @ (let (off, n) = get_range_offset_and_length r in substr off n body) @ crlf) ranges)
     @ ''--'' @ boundary @ ''--''"

definition get_multipart_ranges_data_length :: "range list \<Rightarrow> string \<Rightarrow> string \<Rightarrow> nat \<Rightarrow> nat" where
  "get_multipart_ranges_data_length ranges boundary content_type len =
     sum_list (map (\<lambda>r. length (range_part boundary content_type len r) + snd (get_range_offset_and_length r) + 2) ranges)
     + length (''--'' @ boundary @ ''--'')"

text \<open>The length announced for the parts is the length of the parts.\<close>

lemma multipart_ranges_length:
  assumes "list_all (range_inside (int (length body))) ranges"
  shows "get_multipart_ranges_data_length ranges boundary content_type (length body) =
    length (make_multipart_ranges_data ranges body boundary content_type)"
proof -
  have "length (let (off, n) = get_range_offset_and_length r in substr off n body) = snd (get_range_offset_and_length r)"
    if "range_inside (int (length body)) r" for r
    using range_text(1) [OF that, of "fst (get_range_offset_and_length r)" "snd (get_range_offset_and_length r)"]
    by (auto simp: substr_def case_prod_beta)
  with assms show ?thesis
    unfolding get_multipart_ranges_data_length_def make_multipart_ranges_data_def
    by (induction ranges) (auto simp: add.assoc)
qed

end
