(* ===== verification/Http_Multipart.thy ===== *)
theory Http_Multipart
  imports Http_Message
begin

text \<open>
  Multipart form data in \<^verbatim>\<open>external/httplib.h\<close>: media types and their parameters, the
  incremental parser \<^verbatim>\<open>FormDataParser\<close> with its sliding buffer, the callbacks with which
  \<^verbatim>\<open>Server::read_content\<close> collects fields and files, and the serializer of the client side.
\<close>

section \<open>Parameters\<close>

text \<open>The two-level callbacks: the first part is the key, the last of the others the value.\<close>

fun key_and_value :: "string list \<Rightarrow> string \<times> string \<Rightarrow> string \<times> string" where
  "key_and_value [] kv = kv"
| "key_and_value (p # ps) (key, val) =
     key_and_value ps (if key = [] then (p, val) else (key, p))"

text \<open>A \<^verbatim>\<open>std::map\<close> keeps the first entry of a key.\<close>

definition map_emplace :: "string \<Rightarrow> string \<Rightarrow> (string \<rightharpoonup> string) \<Rightarrow> (string \<rightharpoonup> string)" where
  "map_emplace k v m = (if m k = None then m(k \<mapsto> v) else m)"

definition media_param :: "(string \<rightharpoonup> string) \<Rightarrow> string \<Rightarrow> (string \<rightharpoonup> string)" where
  "media_param m part =
     (let (key, val) = key_and_value (split part (CHR ''='')) ([], [])
      in if key \<noteq> [] then map_emplace (trim_copy key) (trim_double_quotes_copy val) m else m)"

definition extract_media_type :: "string \<Rightarrow> string \<times> (string \<rightharpoonup> string)" where
  "extract_media_type content_type =
     (case find_char (CHR '';'') 0 content_type of
        None \<Rightarrow> (trim_copy content_type, Map.empty)
      | Some pos \<Rightarrow>
          (trim_copy (take pos content_type),
           foldl media_param Map.empty (split (drop (pos + 1) content_type) (CHR '';''))))"

definition parse_multipart_boundary :: "string \<Rightarrow> string option" where
  "parse_multipart_boundary content_type =
     (case snd (extract_media_type content_type) ''boundary'' of
        None \<Rightarrow> None
      | Some b \<Rightarrow> if b = [] then None else Some b)"

definition is_multipart_form_data :: "headers \<Rightarrow> bool" where
  "is_multipart_form_data hs \<longleftrightarrow>
     fst (extract_media_type (header_value hs ''Content-Type'')) = ''multipart/form-data''"

fun disposition_parts :: "string list \<Rightarrow> string list \<Rightarrow> params \<Rightarrow> params" where
  "disposition_parts cache [] ps = ps"
| "disposition_parts cache (kv # kvs) ps =
     (if kv \<in> set cache then disposition_parts cache kvs ps
      else let (key, val) = key_and_value (split kv (CHR ''='')) ([], []);
               ps = (if key \<noteq> [] then params_emplace (trim_double_quotes_copy key)
                                                        (trim_double_quotes_copy val) ps else ps)
           in disposition_parts (kv # cache) kvs ps)"

definition parse_disposition_params :: "string \<Rightarrow> params \<Rightarrow> params" where
  "parse_disposition_params s ps = disposition_parts [] (split s (CHR '';'')) ps"

section \<open>The buffer\<close>

record form_buffer =
  fb_text :: string
  fb_spos :: nat
  fb_epos :: nat

definition buf_size :: "form_buffer \<Rightarrow> nat" where
  "buf_size fb = fb_epos fb - fb_spos fb"

definition buf_head :: "nat \<Rightarrow> form_buffer \<Rightarrow> string" where
  "buf_head l fb = take l (drop (fb_spos fb) (fb_text fb))"

definition buf_start_with :: "string \<Rightarrow> form_buffer \<Rightarrow> bool" where
  "buf_start_with b fb \<longleftrightarrow>
     length b \<le> fb_epos fb - fb_spos fb \<and> take (length b) (drop (fb_spos fb) (fb_text fb)) = b"

fun buf_find_loop :: "string \<Rightarrow> nat \<Rightarrow> string \<Rightarrow> nat option" where
  "buf_find_loop s off [] = None"
| "buf_find_loop s off (c # cs) =
     (if c \<noteq> hd s then buf_find_loop s (off + 1) cs
      else if length s > length (c # cs) then None
      else if take (length s) (c # cs) = s then Some off
      else buf_find_loop s (off + 1) cs)"

definition buf_find :: "string \<Rightarrow> form_buffer \<Rightarrow> nat" where
  "buf_find s fb =
     (case buf_find_loop s 0 (take (buf_size fb) (drop (fb_spos fb) (fb_text fb))) of
        None \<Rightarrow> buf_size fb
      | Some pos \<Rightarrow> pos)"

text \<open>The unread bytes move to the front, the new ones are written behind them.\<close>

definition overwrite :: "nat \<Rightarrow> string \<Rightarrow> string \<Rightarrow> string" where
  "overwrite pos new t = take pos t @ new @ drop (pos + length new) t"

definition buf_append :: "string \<Rightarrow> form_buffer \<Rightarrow> form_buffer" where
  "buf_append d fb =
     (let remaining = buf_size fb;
          t = fb_text fb;
          t = (if remaining > 0 \<and> fb_spos fb > 0 then overwrite 0 (take remaining (drop (fb_spos fb) t)) t else t);
          t = (if remaining + length d > length t
               then t @ replicate (remaining + length d - length t) (CHR 0x00) else t)
      in \<lparr>fb_text = overwrite remaining d t, fb_spos = 0, fb_epos = remaining + length d\<rparr>)"

definition buf_erase :: "nat \<Rightarrow> form_buffer \<Rightarrow> form_buffer" where
  "buf_erase n fb = fb\<lparr>fb_spos := fb_spos fb + n\<rparr>"

text \<open>What the buffer stands for: the bytes between its two positions.\<close>

definition buf_abs :: "form_buffer \<Rightarrow> string" where
  "buf_abs fb = take (buf_size fb) (drop (fb_spos fb) (fb_text fb))"

definition buf_ok :: "form_buffer \<Rightarrow> bool" where
  "buf_ok fb \<longleftrightarrow> fb_spos fb \<le> fb_epos fb \<and> fb_epos fb \<le> length (fb_text fb)"

lemma buf_size_abs: "buf_ok fb \<Longrightarrow> buf_size fb = length (buf_abs fb)"
  by (auto simp: buf_ok_def buf_abs_def buf_size_def)

lemma buf_head_abs: "buf_ok fb \<Longrightarrow> l \<le> buf_size fb \<Longrightarrow> buf_head l fb = take l (buf_abs fb)"
  by (simp add: buf_head_def buf_abs_def min_def)

lemma buf_start_with_abs: "buf_ok fb \<Longrightarrow> buf_start_with b fb \<longleftrightarrow> take (length b) (buf_abs fb) = b"
proof -
  assume ok: "buf_ok fb"
  then have "length (buf_abs fb) = fb_epos fb - fb_spos fb" using buf_size_abs [OF ok] by (simp add: buf_size_def)
  moreover have "length b \<le> fb_epos fb - fb_spos fb \<Longrightarrow>
      take (length b) (buf_abs fb) = take (length b) (drop (fb_spos fb) (fb_text fb))"
    by (simp add: buf_abs_def buf_size_def min_def)
  ultimately show ?thesis
    by (metis (no_types, lifting) buf_start_with_def length_take min.cobounded1 min.commute)
qed

lemma buf_erase_abs:
  "buf_ok fb \<Longrightarrow> n \<le> buf_size fb \<Longrightarrow> buf_ok (buf_erase n fb) \<and> buf_abs (buf_erase n fb) = drop n (buf_abs fb)"
  by (auto simp: buf_ok_def buf_erase_def buf_abs_def buf_size_def drop_take add.commute)

lemma overwrite_take: "pos \<le> length t \<Longrightarrow> take pos (overwrite pos new t) = take pos t"
  by (simp add: overwrite_def)

lemma buf_append_abs:
  assumes "buf_ok fb"
  shows "buf_ok (buf_append d fb) \<and> buf_abs (buf_append d fb) = buf_abs fb @ d"
proof -
  let ?n = "buf_size fb"
  define t where "t = (if ?n > 0 \<and> fb_spos fb > 0
      then overwrite 0 (take ?n (drop (fb_spos fb) (fb_text fb))) (fb_text fb) else fb_text fb)"
  define u where "u = (if ?n + length d > length t then t @ replicate (?n + length d - length t) (CHR 0x00) else t)"
  have n: "?n \<le> length (fb_text fb) - fb_spos fb" using assms by (auto simp: buf_ok_def buf_size_def)
  have t: "length t = length (fb_text fb)" "take ?n t = buf_abs fb"
    using n by (auto simp: t_def overwrite_def buf_abs_def)
  have lt: "?n \<le> length t" using n t(1) by simp
  have u: "?n + length d \<le> length u" "take ?n u = buf_abs fb"
    using t lt by (auto simp: u_def)
  have a: "buf_append d fb = \<lparr>fb_text = overwrite ?n d u, fb_spos = 0, fb_epos = ?n + length d\<rparr>"
    by (simp add: buf_append_def Let_def u_def t_def)
  have "length (overwrite ?n d u) = length u" using u(1) by (simp add: overwrite_def)
  moreover have "take (?n + length d) (overwrite ?n d u) = buf_abs fb @ d"
    using u buf_size_abs [OF assms] by (simp add: overwrite_def)
  ultimately show ?thesis using u(1) by (simp add: a buf_ok_def buf_abs_def buf_size_def)
qed

section \<open>Entries\<close>

record form_data =
  fd_name :: string
  fd_content :: string
  fd_filename :: string
  fd_content_type :: string
  fd_headers :: headers

record form_field =
  ff_name :: string
  ff_content :: string
  ff_headers :: headers

text \<open>
  What \<^verbatim>\<open>Server::read_content\<close> keeps while a form comes in: the fields and files in the order
  of their coming, and to which of them content belongs.
\<close>

record form_items =
  fi_fields :: "form_field list"
  fi_files :: "form_data list"
  fi_is_text :: bool
  fi_count :: nat

definition CPPHTTPLIB_MULTIPART_FORM_DATA_FILE_MAX_COUNT :: nat where
  "CPPHTTPLIB_MULTIPART_FORM_DATA_FILE_MAX_COUNT = 1024"

definition form_header_callback :: "form_data \<Rightarrow> form_items \<Rightarrow> bool \<times> form_items" where
  "form_header_callback file items =
     (let full = (fi_count items = CPPHTTPLIB_MULTIPART_FORM_DATA_FILE_MAX_COUNT);
          items = items\<lparr>fi_count := fi_count items + 1\<rparr>
      in if full then (False, items)
         else if fd_filename file = []
         then (True, items\<lparr>fi_fields := fi_fields items @
                 [\<lparr>ff_name = fd_name file, ff_content = fd_content file, ff_headers = fd_headers file\<rparr>],
                 fi_is_text := True\<rparr>)
         else (True, items\<lparr>fi_files := fi_files items @ [file], fi_is_text := False\<rparr>))"

definition form_content_callback :: "string \<Rightarrow> form_items \<Rightarrow> bool \<times> form_items" where
  "form_content_callback d items =
     (if fi_is_text items
      then let f = last (fi_fields items)
           in (True, items\<lparr>fi_fields := butlast (fi_fields items) @ [f\<lparr>ff_content := ff_content f @ d\<rparr>]\<rparr>)
      else let f = last (fi_files items)
           in (True, items\<lparr>fi_files := butlast (fi_files items) @ [f\<lparr>fd_content := fd_content f @ d\<rparr>]\<rparr>))"

definition start_with_case_ignore :: "string \<Rightarrow> string \<Rightarrow> nat \<Rightarrow> bool" where
  "start_with_case_ignore a b offset \<longleftrightarrow>
     offset + length b \<le> length a \<and> ci_equal (take (length b) (drop offset a)) b"

definition parse_content_disposition :: "string \<Rightarrow> string option" where
  "parse_content_disposition header =
     (if \<not> start_with_case_ignore header ''Content-Disposition:'' 0 then None
      else let rest = dropWhile is_space_or_tab (drop 20 header)
           in if \<not> start_with_case_ignore rest ''form-data;'' 0 then None
              else Some (dropWhile is_space_or_tab (drop 10 rest)))"

definition find_param :: "params \<Rightarrow> string \<Rightarrow> string option" where
  "find_param ps key = (case filter (\<lambda>p. fst p = key) ps of [] \<Rightarrow> None | p # _ \<Rightarrow> Some (snd p))"

text \<open>One header line of an entry; \<open>None\<close> makes the form invalid.\<close>

definition form_header :: "string \<Rightarrow> form_data \<Rightarrow> form_data option" where
  "form_header header file =
     (case parse_header header of
        None \<Rightarrow> None
      | Some (key, val) \<Rightarrow>
          let file = file\<lparr>fd_headers := header_emplace key val (fd_headers file)\<rparr>
          in if start_with_case_ignore header ''Content-Type:'' 0
             then Some (file\<lparr>fd_content_type := trim_copy (drop 13 header)\<rparr>)
             else case parse_content_disposition header of
                    None \<Rightarrow> Some file
                  | Some dp \<Rightarrow>
                      let ps = parse_disposition_params dp []
                      in case find_param ps ''name'' of
                           None \<Rightarrow> None
                         | Some n \<Rightarrow>
                             let file = file\<lparr>fd_name := n\<rparr>;
                                 file = (case find_param ps ''filename'' of
                                           None \<Rightarrow> file | Some f \<Rightarrow> file\<lparr>fd_filename := f\<rparr>)
                             in case find_param ps ''filename*'' of
                                  None \<Rightarrow> Some file
                                | Some v \<Rightarrow>
                                    if length v > 7 \<and> start_with_case_ignore v (''UTF-8'' @ [CHR 0x27, CHR 0x27]) 0
                                    then Some (file\<lparr>fd_filename := decode_path_component (drop 7 v)\<rparr>)
                                    else None)"

section \<open>The parser\<close>

text \<open>
  The two delimiters that \<open>set_boundary\<close> computes are functions of the boundary here; the parser
  is not used before the boundary is set.
\<close>

record form_parser =
  fp_boundary :: string
  fp_state :: nat
  fp_is_valid :: bool
  fp_file :: form_data
  fp_buf :: form_buffer

definition no_file :: form_data where
  "no_file = \<lparr>fd_name = [], fd_content = [], fd_filename = [], fd_content_type = [], fd_headers = []\<rparr>"

definition FormDataParser :: form_parser where
  "FormDataParser = \<lparr>fp_boundary = [], fp_state = 0, fp_is_valid = False,
     fp_file = no_file, fp_buf = \<lparr>fb_text = [], fb_spos = 0, fb_epos = 0\<rparr>\<rparr>"

definition set_boundary :: "string \<Rightarrow> form_parser \<Rightarrow> form_parser" where
  "set_boundary b p = p\<lparr>fp_boundary := b\<rparr>"

definition fp_dash_boundary_crlf :: "form_parser \<Rightarrow> string" where
  "fp_dash_boundary_crlf p = ''--'' @ fp_boundary p @ crlf"

definition fp_crlf_dash_boundary :: "form_parser \<Rightarrow> string" where
  "fp_crlf_dash_boundary p = crlf @ ''--'' @ fp_boundary p"

definition clear_file_info :: "form_parser \<Rightarrow> form_parser" where
  "clear_file_info p = p\<lparr>fp_file := (fp_file p)\<lparr>fd_name := [], fd_filename := [], fd_content_type := [],
     fd_headers := []\<rparr>\<rparr>"

definition erase_buf :: "nat \<Rightarrow> form_parser \<Rightarrow> form_parser" where
  "erase_buf n p = p\<lparr>fp_buf := buf_erase n (fp_buf p)\<rparr>"

lemma buf_size_erase [http_simps]: "buf_size (buf_erase n fb) = buf_size fb - n"
  by (simp add: buf_size_def buf_erase_def)

lemma fp_buf_erase [http_simps]: "buf_size (fp_buf (erase_buf n p)) = buf_size (fp_buf p) - n"
  by (simp add: erase_buf_def buf_size_erase)

text \<open>
  The loop over the header lines of an entry; the flag is the value with which \<open>parse\<close> returns,
  when it returns there.
\<close>

function form_headers_loop :: "form_parser \<Rightarrow> form_items \<Rightarrow> bool option \<times> form_parser \<times> form_items" where
  "form_headers_loop p items =
     (let pos = buf_find crlf (fp_buf p)
      in if pos < buf_size (fp_buf p)
         then if pos = 0
              then let (ok, items) = form_header_callback (fp_file p) items
                   in if \<not> ok then (Some False, p\<lparr>fp_is_valid := False\<rparr>, items)
                      else (None, (erase_buf 2 p)\<lparr>fp_state := 3\<rparr>, items)
              else case form_header (buf_head pos (fp_buf p)) (fp_file p) of
                     None \<Rightarrow> (Some False, p\<lparr>fp_is_valid := False\<rparr>, items)
                   | Some file \<Rightarrow> form_headers_loop (erase_buf (pos + 2) (p\<lparr>fp_file := file\<rparr>)) items
         else (if fp_state p \<noteq> 3 then Some True else None, p, items))"
  by pat_completeness auto
termination
  by (relation "measure (\<lambda>(p, _). buf_size (fp_buf p))") (auto simp: http_simps)

declare form_headers_loop.simps [simp del]

text \<open>One turn of the loop of \<open>parse\<close>.\<close>

definition form_turn :: "form_parser \<Rightarrow> form_items \<Rightarrow> bool option \<times> form_parser \<times> form_items" where
  "form_turn p items =
     (let fb = fp_buf p; size = buf_size fb
      in if fp_state p = 0
         then let pos = buf_find (fp_dash_boundary_crlf p) fb
              in if pos = size then (Some True, p, items)
                 else (None, (erase_buf (pos + length (fp_dash_boundary_crlf p)) p)\<lparr>fp_state := 1\<rparr>, items)
         else if fp_state p = 1
         then (None, (clear_file_info p)\<lparr>fp_state := 2\<rparr>, items)
         else if fp_state p = 2
         then if buf_find crlf fb > CPPHTTPLIB_HEADER_MAX_LENGTH then (Some False, p, items)
              else form_headers_loop p items
         else if fp_state p = 3
         then if length (fp_crlf_dash_boundary p) > size then (Some True, p, items)
              else let pos = buf_find (fp_crlf_dash_boundary p) fb
                   in if pos < size
                      then let (ok, items) = form_content_callback (buf_head pos fb) items
                           in if \<not> ok then (Some False, p\<lparr>fp_is_valid := False\<rparr>, items)
                              else (None, (erase_buf (pos + length (fp_crlf_dash_boundary p)) p)\<lparr>fp_state := 4\<rparr>, items)
                      else let len = size - length (fp_crlf_dash_boundary p)
                           in if len > 0
                              then let (ok, items) = form_content_callback (buf_head len fb) items
                                   in if \<not> ok then (Some False, p\<lparr>fp_is_valid := False\<rparr>, items)
                                      else (Some True, erase_buf len p, items)
                              else (Some True, p, items)
         else if 2 > size then (Some True, p, items)
         else if buf_start_with crlf fb then (None, (erase_buf 2 p)\<lparr>fp_state := 1\<rparr>, items)
         else if buf_start_with ''--'' fb
         then let p = (erase_buf 2 p)\<lparr>fp_is_valid := True\<rparr>
              in (None, erase_buf (buf_size (fp_buf p)) p, items)
         else (Some True, p, items))"

text \<open>Every turn that goes on has used up bytes, or moves from state 1 to state 2.\<close>

definition form_measure :: "form_parser \<Rightarrow> nat" where
  "form_measure p = 2 * buf_size (fp_buf p) + (if fp_state p = 1 then 1 else 0)"

lemma form_headers_loop_goes_on:
  "form_headers_loop p items = (None, p', items') \<Longrightarrow> fp_state p = 2 \<Longrightarrow>
     fp_state p' = 3 \<and> buf_size (fp_buf p') < buf_size (fp_buf p) \<and>
     fp_boundary p' = fp_boundary p"
proof (induction p items rule: form_headers_loop.induct)
  case (1 p items)
  let ?pos = "buf_find crlf (fp_buf p)"
  have more: "?pos < buf_size (fp_buf p)"
    using 1(2,3) by (subst (asm) form_headers_loop.simps) (auto simp: Let_def split: if_splits)
  show ?case
  proof (cases "?pos = 0")
    case True
    with 1(2,3) more show ?thesis
      by (subst (asm) form_headers_loop.simps)
        (auto simp: Let_def http_simps erase_buf_def split: if_splits prod.splits)
  next
    case False
    with 1(2,3) more obtain fl where f: "form_header (buf_head ?pos (fp_buf p)) (fp_file p) = Some fl"
        "form_headers_loop (erase_buf (?pos + 2) (p\<lparr>fp_file := fl\<rparr>)) items = (None, p', items')"
      by (subst (asm) form_headers_loop.simps) (auto simp: Let_def split: if_splits option.splits)
    from 1(1) [OF refl more False f(1) f(2)] 1(3) more
    have "fp_state p' = 3" "fp_boundary p' = fp_boundary p"
      "buf_size (fp_buf p') < buf_size (fp_buf p) - (?pos + 2)"
      by (simp_all add: http_simps erase_buf_def)
    then show ?thesis by linarith
  qed
qed

lemma form_turn_measure:
  assumes "form_turn p items = (None, p', items')" "0 < buf_size (fp_buf p)"
  shows "form_measure p' < form_measure p"
  using assms form_headers_loop_goes_on [of p items p' items']
  by (auto simp: form_turn_def Let_def form_measure_def http_simps erase_buf_def clear_file_info_def
      fp_dash_boundary_crlf_def fp_crlf_dash_boundary_def split: if_splits prod.splits)

function form_parse_loop :: "form_parser \<Rightarrow> form_items \<Rightarrow> bool \<times> form_parser \<times> form_items" where
  "form_parse_loop p items =
     (if buf_size (fp_buf p) > 0
      then case form_turn p items of
             (Some r, p', items') \<Rightarrow> (r, p', items')
           | (None, p', items') \<Rightarrow> form_parse_loop p' items'
      else (True, p, items))"
  by pat_completeness auto
termination
  by (relation "measure (\<lambda>(p, _). form_measure p)") (auto dest: form_turn_measure [OF sym])

declare form_parse_loop.simps [simp del]

definition form_parse :: "string \<Rightarrow> form_parser \<Rightarrow> form_items \<Rightarrow> bool \<times> form_parser \<times> form_items" where
  "form_parse d p items = form_parse_loop (p\<lparr>fp_buf := buf_append d (fp_buf p)\<rparr>) items"

section \<open>The serializer\<close>

definition serialize_item_begin :: "form_data \<Rightarrow> string \<Rightarrow> string" where
  "serialize_item_begin item boundary =
     ''--'' @ boundary @ crlf
     @ ''Content-Disposition: form-data; name=\"'' @ fd_name item @ ''\"''
     @ (if fd_filename item \<noteq> [] then ''; filename=\"'' @ fd_filename item @ ''\"'' else [])
     @ crlf
     @ (if fd_content_type item \<noteq> [] then ''Content-Type: '' @ fd_content_type item @ crlf else [])
     @ crlf"

definition serialize_item_end :: string where
  "serialize_item_end = crlf"

definition serialize_finish :: "string \<Rightarrow> string" where
  "serialize_finish boundary = ''--'' @ boundary @ ''--'' @ crlf"

definition serialize_content_type :: "string \<Rightarrow> string" where
  "serialize_content_type boundary = ''multipart/form-data; boundary='' @ boundary"

definition serialize_multipart_formdata :: "form_data list \<Rightarrow> string \<Rightarrow> bool \<Rightarrow> string" where
  "serialize_multipart_formdata items boundary finish =
     concat (map (\<lambda>item. serialize_item_begin item boundary @ fd_content item @ serialize_item_end) items)
     @ (if finish then serialize_finish boundary else [])"

definition get_multipart_content_length :: "form_data list \<Rightarrow> string \<Rightarrow> nat" where
  "get_multipart_content_length items boundary =
     sum_list (map (\<lambda>item. length (serialize_item_begin item boundary) + length (fd_content item)
                            + length serialize_item_end) items)
     + length (serialize_finish boundary)"

lemma multipart_content_length:
  "get_multipart_content_length items b = length (serialize_multipart_formdata items b True)"
  by (simp add: get_multipart_content_length_def serialize_multipart_formdata_def length_concat comp_def add.assoc)

section \<open>A form has at most 1024 entries\<close>

definition some_entry :: "form_items \<Rightarrow> bool" where
  "some_entry items \<longleftrightarrow> (if fi_is_text items then fi_fields items \<noteq> [] else fi_files items \<noteq> [])"

text \<open>
  While the parser goes on, the counter is the number of entries; content comes only to an
  entry that is there.
\<close>

definition form_counted :: "form_parser \<times> form_items \<Rightarrow> bool" where
  "form_counted s \<longleftrightarrow>
     length (fi_fields (snd s)) + length (fi_files (snd s)) = fi_count (snd s) \<and>
     fi_count (snd s) \<le> CPPHTTPLIB_MULTIPART_FORM_DATA_FILE_MAX_COUNT \<and>
     (fp_state (fst s) = 3 \<longrightarrow> some_entry (snd s))"

definition form_bounded :: "form_items \<Rightarrow> bool" where
  "form_bounded items \<longleftrightarrow>
     length (fi_fields items) + length (fi_files items) \<le> CPPHTTPLIB_MULTIPART_FORM_DATA_FILE_MAX_COUNT"

lemma form_counted_bounded: "form_counted (p, items) \<Longrightarrow> form_bounded items"
  by (auto simp: form_counted_def form_bounded_def)

lemma header_callback_counted:
  assumes "form_counted (p, items)" "form_header_callback f items = (ok, items')"
  shows "form_bounded items'" "ok \<Longrightarrow> form_counted (q, items')"
  using assms
  by (auto simp: form_counted_def form_bounded_def form_header_callback_def some_entry_def Let_def split: if_splits)

lemma content_callback_counted:
  assumes "form_counted (p, items)" "fp_state p = 3" "form_content_callback d items = (ok, items')"
  shows "form_counted (q, items')"
proof -
  have "length (butlast xs @ [x]) = length xs" if "xs \<noteq> []" for xs :: "'a list" and x
    using that by (cases xs rule: rev_cases) auto
  with assms show ?thesis
    by (auto simp: form_counted_def form_content_callback_def some_entry_def Let_def split: if_splits)
qed

lemma form_headers_loop_counted:
  "form_counted (p, items) \<Longrightarrow> form_headers_loop p items = (r, p', items') \<Longrightarrow>
     form_bounded items' \<and> (r = None \<longrightarrow> form_counted (p', items'))"
proof (induction p items rule: form_headers_loop.induct)
  case (1 p items)
  let ?pos = "buf_find crlf (fp_buf p)"
  show ?case
  proof (cases "?pos < buf_size (fp_buf p)")
    case False
    with 1(2,3) show ?thesis
      by (subst (asm) form_headers_loop.simps) (auto simp: form_counted_bounded split: if_splits)
  next
    case more: True
    show ?thesis
    proof (cases "?pos = 0")
      case True
      obtain ok items1 where cb: "form_header_callback (fp_file p) items = (ok, items1)" by fastforce
      from header_callback_counted [OF 1(2) cb] 1(3) more True show ?thesis
        by (subst (asm) form_headers_loop.simps) (auto simp: cb split: if_splits)
    next
      case False
      show ?thesis
      proof (cases "form_header (buf_head ?pos (fp_buf p)) (fp_file p)")
        case None
        with 1(2,3) more False show ?thesis
          by (subst (asm) form_headers_loop.simps) (auto simp: form_counted_bounded)
      next
        case (Some fl)
        have "form_headers_loop (erase_buf (?pos + 2) (p\<lparr>fp_file := fl\<rparr>)) items = (r, p', items')"
          using 1(3) more False Some by (subst (asm) form_headers_loop.simps) auto
        then show ?thesis
          using 1(1) [OF refl more False Some] 1(2) by (simp add: form_counted_def erase_buf_def)
      qed
    qed
  qed
qed

lemma form_turn_counted:
  assumes "form_counted (p, items)" "form_turn p items = (r, p', items')"
  shows "form_bounded items' \<and> (r = None \<longrightarrow> form_counted (p', items'))"
proof -
  have b: "form_bounded items" using assms(1) by (rule form_counted_bounded)
  consider "fp_state p = 0" | "fp_state p = 1" | "fp_state p = 2" | "fp_state p = 3" | "fp_state p > 3"
    by linarith
  then show ?thesis
  proof cases
    case 3
    with assms b show ?thesis
      by (auto simp: form_turn_def Let_def split: if_splits dest: form_headers_loop_counted)
  next
    case 4
    with assms b show ?thesis
      by (auto simp: form_turn_def Let_def split: if_splits prod.splits
          dest!: content_callback_counted [OF assms(1) 4] intro: form_counted_bounded)
  qed (use assms b in \<open>auto simp: form_turn_def form_counted_def erase_buf_def clear_file_info_def Let_def
      split: if_splits\<close>)
qed

lemma form_parse_loop_bounded:
  "form_counted (p, items) \<Longrightarrow> form_parse_loop p items = (r, p', items') \<Longrightarrow> form_bounded items'"
proof (induction p items rule: form_parse_loop.induct)
  case (1 p items)
  obtain r1 p1 items1 where t: "form_turn p items = (r1, p1, items1)" by (cases "form_turn p items") auto
  from form_turn_counted [OF 1(2) t] 1(3) show ?case
    using 1(1) [of r1 "(p1, items1)" p1 items1] t form_counted_bounded [OF 1(2)]
    by (subst (asm) form_parse_loop.simps) (auto split: if_splits option.splits)
qed

definition no_items :: form_items where
  "no_items = \<lparr>fi_fields = [], fi_files = [], fi_is_text = False, fi_count = 0\<rparr>"

lemma form_parse_bounded:
  "form_bounded (snd (snd (form_parse d (set_boundary b FormDataParser) no_items)))"
proof -
  have "form_counted ((set_boundary b FormDataParser)\<lparr>fp_buf := buf_append d (fp_buf (set_boundary b FormDataParser))\<rparr>, no_items)"
    by (simp add: form_counted_def no_items_def set_boundary_def FormDataParser_def)
  then show ?thesis unfolding form_parse_def by (metis form_parse_loop_bounded prod.collapse)
qed

end
