(* ===== verification/Http_Body.thy ===== *)
theory Http_Body
  imports Http_Multipart
begin

text \<open>
  How \<^verbatim>\<open>external/httplib.h\<close> reads the body of a request: the buffer of \<^verbatim>\<open>SocketStream\<close> and
  its equivalence with reading the bytes in order, bodies with a length, without one, and in
  chunks (with their trailers), and the limits on what is kept. A receiver is a function of a
  piece and of the state it collects in; its flag asks for more.
\<close>

section \<open>The socket stream\<close>

text \<open>
  The socket delivers what the peer sends in pieces; a read gives at most one of them. The
  stream keeps what a small read left over. The number is the value of the call.
\<close>

record socket_stream =
  ss_buff :: string
  ss_pieces :: "string list"
  ss_end :: stream_end

definition read_buff_size :: nat where
  "read_buff_size = 1024 * 4"

definition end_code :: "stream_end \<Rightarrow> int" where
  "end_code e = (case e of Peer_Closed \<Rightarrow> 0 | Read_Failed \<Rightarrow> -1)"

text \<open>\<^verbatim>\<open>recv\<close> with a buffer of \<open>n\<close> bytes; pieces are not empty.\<close>

definition read_socket :: "nat \<Rightarrow> socket_stream \<Rightarrow> int \<times> string \<times> socket_stream" where
  "read_socket n s =
     (case ss_pieces s of
        [] \<Rightarrow> (end_code (ss_end s), [], s)
      | p # ps \<Rightarrow>
          if length p \<le> n then (int (length p), p, s\<lparr>ss_pieces := ps\<rparr>)
          else (int n, take n p, s\<lparr>ss_pieces := drop n p # ps\<rparr>))"

definition socket_read :: "nat \<Rightarrow> socket_stream \<Rightarrow> int \<times> string \<times> socket_stream" where
  "socket_read sz s =
     (if ss_buff s \<noteq> []
      then if sz \<le> length (ss_buff s)
           then (int sz, take sz (ss_buff s), s\<lparr>ss_buff := drop sz (ss_buff s)\<rparr>)
           else (int (length (ss_buff s)), ss_buff s, s\<lparr>ss_buff := []\<rparr>)
      else if sz < read_buff_size
      then case read_socket read_buff_size s of
             (n, d, s) \<Rightarrow>
               if n \<le> 0 then (n, [], s)
               else if n \<le> int sz then (n, d, s)
               else (int sz, take sz d, s\<lparr>ss_buff := drop sz d\<rparr>)
      else read_socket sz s)"

definition ss_bytes :: "socket_stream \<Rightarrow> string" where
  "ss_bytes s = ss_buff s @ concat (ss_pieces s)"

definition ss_ok :: "socket_stream \<Rightarrow> bool" where
  "ss_ok s \<longleftrightarrow> [] \<notin> set (ss_pieces s)"

lemma read_socket_bytes:
  assumes "ss_ok s" "read_socket n s = (k, d, s')" "0 < n"
  shows "d @ concat (ss_pieces s') = concat (ss_pieces s)" "length d \<le> n" "ss_ok s'" "ss_buff s' = ss_buff s"
    "ss_pieces s = [] \<Longrightarrow> k = end_code (ss_end s) \<and> d = []" "ss_pieces s \<noteq> [] \<Longrightarrow> k = int (length d) \<and> 0 < k"
  using assms by (auto simp: read_socket_def ss_ok_def split: list.splits if_splits)

text \<open>
  A read through the buffer of \<^verbatim>\<open>SocketStream\<close> gives the bytes of the socket in order, however the
  system cuts them: no byte is lost, doubled or moved: what a read gives and what is left is what was there. At
  least one byte comes while there is one, and the end is reported only after the last byte.
\<close>

theorem socket_read_in_order:
  assumes "ss_ok s" "0 < sz" "socket_read sz s = (k, d, s')"
  shows "d @ ss_bytes s' = ss_bytes s \<and> length d \<le> sz \<and> ss_ok s' \<and>
    (if ss_bytes s = [] then k = end_code (ss_end s) else k = int (length d) \<and> 0 < k)"
proof -
  have nz: "0 < read_buff_size" by (simp add: read_buff_size_def)
  have e: "concat (ss_pieces s) = [] \<longleftrightarrow> ss_pieces s = []"
    using assms(1) by (cases "ss_pieces s") (auto simp: ss_ok_def)
  show ?thesis
  proof (cases "ss_buff s = []")
    case False
    with assms show ?thesis
      by (auto simp: socket_read_def ss_bytes_def ss_ok_def split: if_splits)
  next
    case True
    show ?thesis
    proof (cases "sz < read_buff_size")
      case small: True
      obtain n d1 s1 where r: "read_socket read_buff_size s = (n, d1, s1)" by (cases "read_socket read_buff_size s") auto
      note rs = read_socket_bytes [OF assms(1) r nz]
      have end0: "end_code (ss_end s) \<le> 0" by (simp add: end_code_def split: stream_end.splits)
      show ?thesis
      proof (cases "ss_pieces s = []")
        case t: True
        with rs end0 have "n \<le> 0" "d1 = []" "n = end_code (ss_end s)" by auto
        then have "k = end_code (ss_end s)" "d = []" "s' = s1"
          using assms(3) True small r by (auto simp: socket_read_def)
        with rs(1,3,4) True t e show ?thesis by (simp add: ss_bytes_def)
      next
        case f: False
        with rs have n: "n = int (length d1)" "0 < n" by auto
        have nb: "ss_bytes s \<noteq> []" using f e by (simp only: ss_bytes_def True append_Nil not_False_eq_True)
        show ?thesis
        proof (cases "n \<le> int sz")
          case t: True
          then have "k = n" "d = d1" "s' = s1" using assms(3) True small r n by (auto simp: socket_read_def)
          with rs(1,3,4) n t True nb show ?thesis by (simp only: if_False) (simp add: ss_bytes_def)
        next
          case g: False
          then have "k = int sz" "d = take sz d1" "s' = s1\<lparr>ss_buff := drop sz d1\<rparr>"
            using assms(3) True small r n by (auto simp: socket_read_def)
          moreover have "take sz d1 @ drop sz d1 @ concat (ss_pieces s1) = concat (ss_pieces s)"
            using rs(1) by (metis append.assoc append_take_drop_id)
          ultimately show ?thesis
            using rs(1,3,4) n g True nb assms(2) by (simp only: if_False) (simp add: ss_bytes_def ss_ok_def)
        qed
      qed
    next
      case False
      then have r: "read_socket sz s = (k, d, s')" using assms(3) True by (simp add: socket_read_def)
      from read_socket_bytes [OF assms(1) r assms(2)] True e show ?thesis
        by (cases "ss_pieces s = []") (auto simp: ss_bytes_def)
    qed
  qed
qed

lemma socket_read_in_order_witness:
  "socket_read 2 \<lparr>ss_buff = [], ss_pieces = [''abc'', ''d''], ss_end = Peer_Closed\<rparr>
     = (2, ''ab'', \<lparr>ss_buff = ''c'', ss_pieces = [''d''], ss_end = Peer_Closed\<rparr>) \<and>
   ''ab'' @ ss_bytes \<lparr>ss_buff = ''c'', ss_pieces = [''d''], ss_end = Peer_Closed\<rparr>
     = ss_bytes \<lparr>ss_buff = [], ss_pieces = [''abc'', ''d''], ss_end = Peer_Closed\<rparr>"
proof -
  let ?s = "\<lparr>ss_buff = [], ss_pieces = [''abc'', ''d''], ss_end = Peer_Closed\<rparr>"
  have "socket_read 2 ?s = (2, ''ab'', \<lparr>ss_buff = ''c'', ss_pieces = [''d''], ss_end = Peer_Closed\<rparr>)"
    by (simp add: socket_read_def read_socket_def read_buff_size_def)
  with socket_read_in_order [of ?s 2, OF _ _ this] show ?thesis by (simp add: ss_ok_def)
qed

section \<open>Reading pieces\<close>

text \<open>
  From here on a read gives as many of the bytes in order as it asks for and there are. The
  receivers below collect what they get, so that the borders of the pieces do not show in the
  result.
\<close>

definition stream_read :: "nat \<Rightarrow> stream \<Rightarrow> int \<times> string \<times> stream" where
  "stream_read n strm =
     (if st_in strm = [] then (end_code (st_end strm), [], strm)
      else let d = take n (st_in strm) in (int (length d), d, strm\<lparr>st_in := drop n (st_in strm)\<rparr>))"

definition CPPHTTPLIB_RECV_BUFSIZ :: nat where
  "CPPHTTPLIB_RECV_BUFSIZ = 16384"

definition CPPHTTPLIB_PAYLOAD_MAX_LENGTH :: nat where
  "CPPHTTPLIB_PAYLOAD_MAX_LENGTH = 100 * 1024 * 1024"

datatype read_content_result = Content_Success | Payload_Too_Large | Content_Error

type_synonym 's receiver = "string \<Rightarrow> 's \<Rightarrow> bool \<times> 's"

lemma stream_read_progress:
  "stream_read n strm = (k, d, strm') \<Longrightarrow> 0 < k \<Longrightarrow>
     k = int (length d) \<and> length (st_in strm') + nat k = length (st_in strm)"
  by (auto simp: stream_read_def end_code_def Let_def split: if_splits stream_end.splits)

lemma stream_read_less:
  "stream_read n strm = (k, d, strm') \<Longrightarrow> k \<noteq> 0 \<Longrightarrow> \<not> k < 0 \<Longrightarrow> length (st_in strm') < length (st_in strm)"
  using stream_read_progress [of n strm k d strm'] by linarith

section \<open>A body with a length\<close>

text \<open>
  \<^verbatim>\<open>BodyReader\<close> as the server sets it up, not chunked and with a length. The error is the limit
  or a failed read.
\<close>

datatype body_error = Exceed_Max_Payload | Read_Error

record body_reader =
  br_content_length :: nat
  br_payload_max_length :: nat
  br_bytes_read :: nat
  br_eof :: bool
  br_last_error :: "body_error option"

definition body_read :: "body_reader \<Rightarrow> nat \<Rightarrow> stream \<Rightarrow> int \<times> string \<times> body_reader \<times> stream" where
  "body_read br n strm =
     (if br_eof br then (0, [], br, strm)
      else if br_bytes_read br \<ge> br_content_length br then (0, [], br\<lparr>br_eof := True\<rparr>, strm)
      else let to_read = min n (br_content_length br - br_bytes_read br);
               (k, d, strm) = stream_read to_read strm
           in if k < 0 then (k, [], br\<lparr>br_last_error := Some Read_Error, br_eof := True\<rparr>, strm)
              else if k = 0 then (0, [], br\<lparr>br_last_error := Some Read_Error, br_eof := True\<rparr>, strm)
              else let br = br\<lparr>br_bytes_read := br_bytes_read br + nat k\<rparr>;
                       br = (if br_bytes_read br \<ge> br_content_length br then br\<lparr>br_eof := True\<rparr> else br)
                   in if br_payload_max_length br > 0 \<and> br_bytes_read br > br_payload_max_length br
                      then (-1, [], br\<lparr>br_last_error := Some Exceed_Max_Payload, br_eof := True\<rparr>, strm)
                      else (k, d, br, strm))"

function with_length_loop ::
  "'s receiver \<Rightarrow> nat \<Rightarrow> nat \<Rightarrow> body_reader \<Rightarrow> stream \<Rightarrow> 's \<Rightarrow> read_content_result \<times> stream \<times> 's" where
  "with_length_loop out len r br strm st =
     (if r < len
      then case body_read br (min (len - r) CPPHTTPLIB_RECV_BUFSIZ) strm of
             (n, d, br', strm') \<Rightarrow>
               if n \<le> 0
               then (if br_last_error br' = Some Exceed_Max_Payload then Payload_Too_Large else Content_Error, strm', st)
               else (case out d st of
                       (ok, st') \<Rightarrow>
                         if \<not> ok then (Content_Error, strm', st')
                         else with_length_loop out len (r + nat n) br' strm' st')
      else (Content_Success, strm, st))"
  by pat_completeness auto
termination
  by (relation "measure (\<lambda>(_, len, r, _). len - r)") auto

declare with_length_loop.simps [simp del]

definition read_content_with_length ::
  "stream \<Rightarrow> nat \<Rightarrow> 's receiver \<Rightarrow> 's \<Rightarrow> nat \<Rightarrow> read_content_result \<times> stream \<times> 's" where
  "read_content_with_length strm len out st payload_max =
     with_length_loop out len 0
       \<lparr>br_content_length = len, br_payload_max_length = payload_max, br_bytes_read = 0, br_eof = False,
        br_last_error = None\<rparr> strm st"

section \<open>A body without a length\<close>

function without_length_loop ::
  "'s receiver \<Rightarrow> nat \<Rightarrow> nat \<Rightarrow> stream \<Rightarrow> 's \<Rightarrow> read_content_result \<times> stream \<times> 's" where
  "without_length_loop out payload_max r strm st =
     (case stream_read CPPHTTPLIB_RECV_BUFSIZ strm of
        (n, d, strm') \<Rightarrow>
          if n = 0 then (Content_Success, strm', st)
          else if n < 0 then (Content_Error, strm', st)
          else if r > payload_max \<or> payload_max - r < nat n then (Payload_Too_Large, strm', st)
          else (case out d st of
                  (ok, st') \<Rightarrow>
                    if \<not> ok then (Content_Error, strm', st')
                    else without_length_loop out payload_max (r + nat n) strm' st'))"
  by pat_completeness auto
termination
  by (relation "measure (\<lambda>(_, _, _, strm, _). length (st_in strm))") (auto dest!: stream_read_less [OF sym])

declare without_length_loop.simps [simp del]

definition read_content_without_length ::
  "stream \<Rightarrow> nat \<Rightarrow> 's receiver \<Rightarrow> 's \<Rightarrow> read_content_result \<times> stream \<times> 's" where
  "read_content_without_length strm payload_max out st = without_length_loop out payload_max 0 strm st"

section \<open>Chunks\<close>

text \<open>
  \<^verbatim>\<open>strtoul\<close> in base 16: white space, a sign, a prefix \<^verbatim>\<open>0x\<close> that digits follow, digits. An
  overflow gives \<^verbatim>\<open>ULONG_MAX\<close>, a minus sign the negation modulo \<open>2 ^ 64\<close>. \<open>None\<close> is that nothing
  was read.
\<close>

definition hex_value :: "string \<Rightarrow> nat" where
  "hex_value ds = foldl (\<lambda>n c. 16 * n + nat (case is_hex c of None \<Rightarrow> 0 | Some v \<Rightarrow> v)) 0 ds"

definition hex_digits :: "string \<Rightarrow> string" where
  "hex_digits s = takeWhile (\<lambda>c. is_hex c \<noteq> None) s"

definition strtoul16 :: "string \<Rightarrow> nat option" where
  "strtoul16 s =
     (let s = dropWhile is_space s;
          neg = (s \<noteq> [] \<and> hd s = CHR ''-'');
          s = (if s \<noteq> [] \<and> (hd s = CHR ''-'' \<or> hd s = CHR ''+'') then tl s else s);
          s = (if (take 2 s = ''0x'' \<or> take 2 s = ''0X'') \<and> hex_digits (drop 2 s) \<noteq> [] then drop 2 s else s);
          ds = hex_digits s; n = hex_value ds
      in if ds = [] then None
         else if n \<ge> 2 ^ 64 then Some (2 ^ 64 - 1)
         else Some (if neg then (2 ^ 64 - n) mod 2 ^ 64 else n))"

text \<open>
  The decoder; the offsets inside a chunk, which the receivers of a server do not use, are left
  out. The value -1 is a malformed chunk or a failed read, 0 the last chunk.
\<close>

record chunk_decoder =
  cd_remaining :: nat
  cd_finished :: bool

definition ChunkedDecoder :: chunk_decoder where
  "ChunkedDecoder = \<lparr>cd_remaining = 0, cd_finished = False\<rparr>"

definition chunk_data :: "nat \<Rightarrow> chunk_decoder \<Rightarrow> stream \<Rightarrow> int \<times> string \<times> chunk_decoder \<times> stream" where
  "chunk_data len cd strm =
     (case stream_read (min (cd_remaining cd) len) strm of
        (n, d, strm) \<Rightarrow>
          if n \<le> 0 then (-1, [], cd, strm)
          else let cd = cd\<lparr>cd_remaining := cd_remaining cd - nat n\<rparr>
               in if cd_remaining cd = 0
                  then case getline strm (stream_line_reader 64) of
                         (ok, strm, lr) \<Rightarrow>
                           if \<not> ok then (-1, [], cd, strm)
                           else if c_str (line_text lr) \<noteq> crlf then (-1, [], cd, strm)
                           else (n, d, cd, strm)
                  else (n, d, cd, strm))"

definition read_payload :: "nat \<Rightarrow> chunk_decoder \<Rightarrow> stream \<Rightarrow> int \<times> string \<times> chunk_decoder \<times> stream" where
  "read_payload len cd strm =
     (if cd_finished cd then (0, [], cd, strm)
      else if cd_remaining cd = 0
      then case getline strm (stream_line_reader 64) of
             (ok, strm, lr) \<Rightarrow>
               if \<not> ok then (-1, [], cd, strm)
               else case strtoul16 (c_str (line_text lr)) of
                      None \<Rightarrow> (-1, [], cd, strm)
                    | Some chunk_len \<Rightarrow>
                        if chunk_len = 2 ^ 64 - 1 then (-1, [], cd, strm)
                        else if chunk_len = 0 then (0, [], cd\<lparr>cd_remaining := 0, cd_finished := True\<rparr>, strm)
                        else chunk_data len (cd\<lparr>cd_remaining := chunk_len\<rparr>) strm
      else chunk_data len cd strm)"

text \<open>
  Trailers: of those that the \<^verbatim>\<open>Trailer\<close> header declares and that are not on the list of
  forbidden names, the fields are kept. Only these count towards the limit.
\<close>

definition prohibited_trailers :: "string list" where
  "prohibited_trailers =
     [''transfer-encoding'', ''content-length'', ''host'', ''authorization'', ''www-authenticate'',
      ''proxy-authenticate'', ''proxy-authorization'', ''cookie'', ''set-cookie'', ''cache-control'',
      ''expect'', ''max-forwards'', ''pragma'', ''range'', ''te'', ''age'', ''expires'', ''date'',
      ''location'', ''retry-after'', ''vary'', ''warning'', ''content-encoding'', ''content-type'',
      ''content-range'', ''trailer'']"

definition ci_member :: "string \<Rightarrow> string list \<Rightarrow> bool" where
  "ci_member k ks \<longleftrightarrow> list_ex (\<lambda>x. ci_equal x k) ks"

definition declared_trailers :: "headers \<Rightarrow> string list" where
  "declared_trailers src =
     filter (\<lambda>key. key \<noteq> [] \<and> \<not> ci_member key prohibited_trailers) (split (header_value src ''Trailer'') (CHR '',''))"

function trailers_loop :: "string list \<Rightarrow> nat \<Rightarrow> line_reader \<Rightarrow> stream \<Rightarrow> headers \<Rightarrow> bool \<times> stream \<times> headers" where
  "trailers_loop declared count lr strm dest =
     (if c_str (line_text lr) \<noteq> crlf
      then if line_size lr > CPPHTTPLIB_HEADER_MAX_LENGTH then (False, strm, dest)
           else if count \<ge> CPPHTTPLIB_HEADER_MAX_COUNT then (False, strm, dest)
           else case parse_header (take (line_size lr - 2) (line_text lr)) of
                  None \<Rightarrow> (False, strm, dest)
                | Some (key, val) \<Rightarrow>
                    let known = ci_member key declared;
                        dest' = (if known then header_emplace key val dest else dest);
                        count' = (if known then count + 1 else count)
                    in (case getline strm lr of
                          (ok, strm', lr') \<Rightarrow>
                            if \<not> ok then (False, strm', dest')
                            else trailers_loop declared count' lr' strm' dest')
      else (True, strm, dest))"
  by pat_completeness auto
termination
  by (relation "measure (\<lambda>(_, _, _, strm, _). length (st_in strm))") (auto dest!: getline_consumes [OF sym])

declare trailers_loop.simps [simp del]

definition parse_trailers_into :: "stream \<Rightarrow> headers \<Rightarrow> headers \<Rightarrow> bool \<times> stream \<times> headers" where
  "parse_trailers_into strm dest src =
     (case getline strm (stream_line_reader 64) of
        (ok, strm, lr) \<Rightarrow>
          if \<not> ok then (False, strm, dest)
          else trailers_loop (declared_trailers src) 0 lr strm dest)"

lemma getline_shorter: "getline strm lr = (ok, strm', lr') \<Longrightarrow> length (st_in strm') \<le> length (st_in strm)"
proof -
  have "getline_loop fin i p inp lr = (ok, rest, lr') \<Longrightarrow> length rest \<le> length inp" for fin i p inp lr rest
  proof (induction fin i p inp lr rule: getline_loop.induct)
    case (2 fin i p b bs lr)
    then show ?case by (fastforce simp: Let_def split: if_splits)
  qed (auto split: if_splits)
  then show "getline strm lr = (ok, strm', lr') \<Longrightarrow> ?thesis" by (auto simp: getline_def split: prod.splits)
qed

lemma chunk_data_consumes:
  "chunk_data len cd strm = (n, d, cd', strm') \<Longrightarrow> 0 < n \<Longrightarrow> length (st_in strm') < length (st_in strm)"
  by (auto simp: chunk_data_def Let_def split: prod.splits if_splits dest!: stream_read_less getline_shorter)

lemma read_payload_consumes:
  "read_payload len cd strm = (n, d, cd', strm') \<Longrightarrow> 0 < n \<Longrightarrow> length (st_in strm') < length (st_in strm)"
  by (auto simp: read_payload_def split: prod.splits if_splits option.splits dest!: chunk_data_consumes getline_shorter)

function chunked_loop ::
  "'s receiver \<Rightarrow> nat \<Rightarrow> nat \<Rightarrow> chunk_decoder \<Rightarrow> headers \<Rightarrow> headers \<Rightarrow> stream \<Rightarrow> 's
     \<Rightarrow> read_content_result \<times> headers \<times> stream \<times> 's" where
  "chunked_loop out payload_max total_len cd trailers hs strm st =
     (case read_payload CPPHTTPLIB_RECV_BUFSIZ cd strm of
        (n, d, cd', strm') \<Rightarrow>
          if n < 0 then (Content_Error, trailers, strm', st)
          else if n = 0
          then (case parse_trailers_into strm' trailers hs of
                  (ok, strm'', trailers') \<Rightarrow>
                    (if ok then Content_Success else Content_Error, trailers', strm'', st))
          else if total_len > payload_max \<or> payload_max - total_len < nat n then (Payload_Too_Large, trailers, strm', st)
          else (case out d st of
                  (ok, st') \<Rightarrow>
                    if \<not> ok then (Content_Error, trailers, strm', st')
                    else chunked_loop out payload_max (total_len + nat n) cd' trailers hs strm' st'))"
  by pat_completeness auto
termination
  by (relation "measure (\<lambda>(_, _, _, _, _, _, strm, _). length (st_in strm))")
    (auto dest!: read_payload_consumes [OF sym])

declare chunked_loop.simps [simp del]

definition read_content_chunked ::
  "stream \<Rightarrow> headers \<Rightarrow> headers \<Rightarrow> nat \<Rightarrow> 's receiver \<Rightarrow> 's \<Rightarrow> read_content_result \<times> headers \<times> stream \<times> 's" where
  "read_content_chunked strm trailers hs payload_max out st =
     chunked_loop out payload_max 0 ChunkedDecoder trailers hs strm st"

section \<open>Choosing how to read\<close>

definition is_chunked_transfer_encoding :: "headers \<Rightarrow> bool" where
  "is_chunked_transfer_encoding hs \<longleftrightarrow> ci_equal (header_value hs ''Transfer-Encoding'') ''chunked''"

text \<open>
  The program is built without any compression library: no content coding has a decompressor,
  and a request that names one is answered 415.
\<close>

definition unsupported_encoding :: "headers \<Rightarrow> bool" where
  "unsupported_encoding hs \<longleftrightarrow> header_value hs ''Content-Encoding'' \<noteq> []"

text \<open>The status after a failed read, and whether there was one.\<close>

definition content_status :: "read_content_result \<Rightarrow> int \<Rightarrow> bool \<times> int" where
  "content_status res status =
     (case res of Content_Success \<Rightarrow> (True, status) | Payload_Too_Large \<Rightarrow> (False, 413) | Content_Error \<Rightarrow> (False, 400))"

definition detail_read_content ::
  "stream \<Rightarrow> http_request \<Rightarrow> nat \<Rightarrow> int \<Rightarrow> 's receiver \<Rightarrow> 's \<Rightarrow> (bool \<times> int) \<times> http_request \<times> stream \<times> 's" where
  "detail_read_content strm req payload_max status out st =
     (let hs = hr_headers req
      in if unsupported_encoding hs then ((False, 415), req, strm, st)
         else if is_chunked_transfer_encoding hs
         then case read_content_chunked strm (hr_trailers req) hs payload_max out st of
                (res, trailers, strm, st) \<Rightarrow> (content_status res status, req\<lparr>hr_trailers := trailers\<rparr>, strm, st)
         else if \<not> has_header hs ''Content-Length''
         then case read_content_without_length strm payload_max out st of
                (res, strm, st) \<Rightarrow> (content_status res status, req, strm, st)
         else let (len, invalid) = get_header_value_u64 hs ''Content-Length'' SIZE_MAX 0
              in if invalid then ((False, 400), req, strm, st)
                 else if len > 0
                 then case read_content_with_length strm len out st payload_max of
                        (res, strm, st) \<Rightarrow> (content_status res status, req, strm, st)
                 else ((True, status), req, strm, st))"

section \<open>What the server keeps\<close>

record body_state =
  bs_body :: string
  bs_parser :: form_parser
  bs_items :: form_items

text \<open>
  The receivers of \<^verbatim>\<open>Server::read_content\<close>. The limit of \<^verbatim>\<open>std::string\<close> is far beyond that of the
  payload and never the one that is met.
\<close>

definition body_receiver :: "nat \<Rightarrow> body_state receiver" where
  "body_receiver payload_max d st =
     (if payload_max > 0 \<and> (length (bs_body st) \<ge> payload_max \<or> length d > payload_max - length (bs_body st))
      then (False, st)
      else (True, st\<lparr>bs_body := bs_body st @ d\<rparr>))"

definition multipart_receiver :: "body_state receiver" where
  "multipart_receiver d st =
     (case form_parse d (bs_parser st) (bs_items st) of
        (ok, p, items) \<Rightarrow> (ok, st\<lparr>bs_parser := p, bs_items := items\<rparr>))"

definition no_body :: body_state where
  "no_body = \<lparr>bs_body = [], bs_parser = FormDataParser, bs_items = no_items\<rparr>"

definition read_content_core ::
  "nat \<Rightarrow> stream \<Rightarrow> http_request \<Rightarrow> int \<Rightarrow> body_state \<Rightarrow> (bool \<times> int) \<times> http_request \<times> stream \<times> body_state" where
  "read_content_core payload_max strm req status st =
     (let hs = hr_headers req;
          multipart = is_multipart_form_data hs;
          boundary = parse_multipart_boundary (header_value hs ''Content-Type'')
      in if multipart \<and> boundary = None then ((False, 400), req, strm, st)
         else let st = (case boundary of
                          Some b \<Rightarrow> if multipart then st\<lparr>bs_parser := set_boundary b (bs_parser st)\<rparr> else st
                        | None \<Rightarrow> st);
                  out = (if multipart then multipart_receiver else body_receiver payload_max)
              in if \<not> has_header hs ''Content-Length'' \<and> \<not> is_chunked_transfer_encoding hs
                 then if payload_max > 0 \<and> payload_max < SIZE_MAX \<and> st_pending strm
                      then case read_content_without_length strm payload_max out st of
                             (res, strm, st) \<Rightarrow>
                               ((res = Content_Success, if res = Payload_Too_Large then 413 else status), req, strm, st)
                      else ((True, status), req, strm, st)
                 else case detail_read_content strm req payload_max status out st of
                        ((ok, status), req, strm, st) \<Rightarrow>
                          if \<not> ok then ((False, status), req, strm, st)
                          else if multipart \<and> \<not> fp_is_valid (bs_parser st) then ((False, 400), req, strm, st)
                          else ((True, status), req, strm, st))"

definition CPPHTTPLIB_FORM_URL_ENCODED_PAYLOAD_MAX_LENGTH :: nat where
  "CPPHTTPLIB_FORM_URL_ENCODED_PAYLOAD_MAX_LENGTH = 8192"

text \<open>
  \<open>Server::read_content\<close>. The entries of a form, which the program does not look at, are the
  last component.
\<close>

definition read_content ::
  "nat \<Rightarrow> stream \<Rightarrow> http_request \<Rightarrow> int \<Rightarrow> (bool \<times> int) \<times> http_request \<times> stream \<times> form_items" where
  "read_content payload_max strm req status =
     (case read_content_core payload_max strm req status (no_body\<lparr>bs_body := hr_body req\<rparr>) of
        ((ok, status), req, strm, st) \<Rightarrow>
          let req = req\<lparr>hr_body := bs_body st\<rparr>
          in if \<not> ok then ((False, status), req, strm, bs_items st)
             else if fst (extract_media_type (header_value (hr_headers req) ''Content-Type''))
                     = ''application/x-www-form-urlencoded''
             then if length (hr_body req) > CPPHTTPLIB_FORM_URL_ENCODED_PAYLOAD_MAX_LENGTH
                  then ((False, 413), req, strm, bs_items st)
                  else ((True, status), req\<lparr>hr_params := parse_query_text (hr_body req) (hr_params req)\<rparr>, strm,
                        bs_items st)
             else ((True, status), req, strm, bs_items st))"

section \<open>Receivers keep their invariants\<close>

lemma with_length_keeps:
  "(\<And>d st ok st'. out d st = (ok, st') \<Longrightarrow> P st \<Longrightarrow> P st') \<Longrightarrow> with_length_loop out len r br strm st = (res, strm', st') \<Longrightarrow> P st \<Longrightarrow> P st'"
proof (induction out len r br strm st rule: with_length_loop.induct)
  case (1 out len r br strm st)
  obtain n d br1 strm1 where b: "body_read br (min (len - r) CPPHTTPLIB_RECV_BUFSIZ) strm = (n, d, br1, strm1)"
    by (cases "body_read br (min (len - r) CPPHTTPLIB_RECV_BUFSIZ) strm") auto
  obtain ok st1 where o: "out d st = (ok, st1)" by fastforce
  show ?case
  proof (cases "r < len \<and> \<not> n \<le> 0 \<and> ok")
    case True
    with 1(3) b o have "with_length_loop out len (r + nat n) br1 strm1 st1 = (res, strm', st')"
      by (subst (asm) with_length_loop.simps) simp
    then show ?thesis
      using 1(1) [OF _ b [symmetric] refl refl _ o [symmetric] _] True 1(2) [OF o] 1(4) 1(2) by simp
  next
    case False
    with 1(3,4) b o 1(2) [OF o] show ?thesis
      by (subst (asm) with_length_loop.simps) (auto split: if_splits)
  qed
qed

lemma without_length_keeps:
  "(\<And>d st ok st'. out d st = (ok, st') \<Longrightarrow> P st \<Longrightarrow> P st') \<Longrightarrow> without_length_loop out m r strm st = (res, strm', st') \<Longrightarrow> P st \<Longrightarrow> P st'"
proof (induction out m r strm st rule: without_length_loop.induct)
  case (1 out m r strm st)
  obtain n d strm1 where b: "stream_read CPPHTTPLIB_RECV_BUFSIZ strm = (n, d, strm1)"
    by (cases "stream_read CPPHTTPLIB_RECV_BUFSIZ strm") auto
  obtain ok st1 where o: "out d st = (ok, st1)" by fastforce
  show ?case
  proof (cases "n = 0 \<or> n < 0 \<or> (r > m \<or> m - r < nat n) \<or> \<not> ok")
    case False
    with 1(3) b o have "without_length_loop out m (r + nat n) strm1 st1 = (res, strm', st')"
      by (subst (asm) without_length_loop.simps) simp
    then show ?thesis
      using 1(1) [OF b [symmetric] refl _ _ _ o [symmetric] _] False 1(2) [OF o] 1(4) 1(2) by simp
  next
    case True
    with 1(3,4) b o 1(2) [OF o] show ?thesis
      by (subst (asm) without_length_loop.simps) (auto split: if_splits)
  qed
qed

lemma chunked_keeps:
  "(\<And>d st ok st'. out d st = (ok, st') \<Longrightarrow> P st \<Longrightarrow> P st') \<Longrightarrow> chunked_loop out m t cd tr hs strm st = (res, tr', strm', st') \<Longrightarrow> P st \<Longrightarrow> P st'"
proof (induction out m t cd tr hs strm st rule: chunked_loop.induct)
  case (1 out m t cd tr hs strm st)
  obtain n d cd1 strm1 where b: "read_payload CPPHTTPLIB_RECV_BUFSIZ cd strm = (n, d, cd1, strm1)"
    by (cases "read_payload CPPHTTPLIB_RECV_BUFSIZ cd strm") auto
  obtain ok st1 where o: "out d st = (ok, st1)" by fastforce
  show ?case
  proof (cases "n < 0 \<or> n = 0 \<or> (t > m \<or> m - t < nat n) \<or> \<not> ok")
    case False
    with 1(3) b o have "chunked_loop out m (t + nat n) cd1 tr hs strm1 st1 = (res, tr', strm', st')"
      by (subst (asm) chunked_loop.simps) simp
    then show ?thesis
      using 1(1) [OF b [symmetric] refl refl _ _ _ o [symmetric] _] False 1(2) [OF o] 1(4) 1(2) by simp
  next
    case True
    with 1(3,4) b o 1(2) [OF o] show ?thesis
      by (subst (asm) chunked_loop.simps) (auto split: if_splits prod.splits)
  qed
qed

text \<open>
  What every call of a receiver keeps, a whole body keeps, however it is sent and wherever the
  reading ends.
\<close>

locale receiver_invariant =
  fixes out :: "'s receiver" and P :: "'s \<Rightarrow> bool"
  assumes keeps: "out d st = (ok, st') \<Longrightarrow> P st \<Longrightarrow> P st'"
begin

lemma with_length: "with_length_loop out len r br strm st = (res, strm', st') \<Longrightarrow> P st \<Longrightarrow> P st'"
  by (rule with_length_keeps [of out P]) (rule keeps)

lemma without_length: "without_length_loop out m r strm st = (res, strm', st') \<Longrightarrow> P st \<Longrightarrow> P st'"
  by (rule without_length_keeps [of out P]) (rule keeps)

lemma chunked: "chunked_loop out m t cd tr hs strm st = (res, tr', strm', st') \<Longrightarrow> P st \<Longrightarrow> P st'"
  by (rule chunked_keeps [of out P]) (rule keeps)

lemma detail_content:
  "detail_read_content strm req m status out st = (r, req', strm', st') \<Longrightarrow> P st \<Longrightarrow> P st'"
  by (auto simp: detail_read_content_def read_content_chunked_def read_content_without_length_def
      read_content_with_length_def Let_def split: if_splits prod.splits
      dest: chunked without_length with_length)

end

text \<open>The body that the server keeps is at most as long as the limit; the entries of a form are bounded.\<close>

interpretation body_limit: receiver_invariant "body_receiver m" "\<lambda>st. length (bs_body st) \<le> m \<or> m = 0" for m
  by unfold_locales (auto simp: body_receiver_def split: if_splits)

interpretation multipart_body: receiver_invariant multipart_receiver "\<lambda>st. bs_body st = b" for b
  by unfold_locales (auto simp: multipart_receiver_def split: prod.splits)

lemma core_body_limit:
  assumes "read_content_core m strm req status st = (r, req', strm', st')" "length (bs_body st) \<le> m" "0 < m"
  shows "length (bs_body st') \<le> m"
proof -
  have a: "detail_read_content strm req m status (body_receiver m) s = (r, req', strm', st') \<Longrightarrow>
      length (bs_body s) \<le> m \<Longrightarrow> length (bs_body st') \<le> m" for s r req' st'
    using body_limit.detail_content [of strm req m status m s] assms(3) by blast
  have b: "detail_read_content strm req m status multipart_receiver s = (r, req', strm', st') \<Longrightarrow>
      bs_body st' = bs_body s" for s r req' st'
    using multipart_body.detail_content [of strm req m status s] by blast
  have c: "read_content_without_length strm m (body_receiver m) s = (res, strm', st') \<Longrightarrow>
      length (bs_body s) \<le> m \<Longrightarrow> length (bs_body st') \<le> m" for s res st'
    using body_limit.without_length [of m _ 0 strm s] assms(3) unfolding read_content_without_length_def by blast
  have d: "read_content_without_length strm m multipart_receiver s = (res, strm', st') \<Longrightarrow>
      bs_body st' = bs_body s" for s res st'
    using multipart_body.without_length [of m 0 strm s] unfolding read_content_without_length_def by blast
  show ?thesis
    using assms(1,2)
    by (auto simp: read_content_core_def Let_def split: if_splits prod.splits option.splits dest!: a b c d)
qed

lemma read_content_limit:
  assumes "read_content m strm req status = (r, req', strm', items)" "length (hr_body req) \<le> m" "0 < m"
  shows "length (hr_body req') \<le> m"
  using assms core_body_limit [of m strm req status "no_body\<lparr>bs_body := hr_body req\<rparr>"]
  by (auto simp: read_content_def Let_def split: if_splits prod.splits)

section \<open>A body with a length is read exactly\<close>

definition fresh_reader :: "nat \<Rightarrow> nat \<Rightarrow> nat \<Rightarrow> body_reader" where
  "fresh_reader len m r = \<lparr>br_content_length = len, br_payload_max_length = m, br_bytes_read = r,
     br_eof = (0 < r \<and> len \<le> r), br_last_error = None\<rparr>"

lemma body_read_step:
  assumes "r < len" "len \<le> m" "len - r \<le> length (st_in strm)"
  defines "k \<equiv> min (len - r) CPPHTTPLIB_RECV_BUFSIZ"
  shows "body_read (fresh_reader len m r) k strm =
    (int k, take k (st_in strm), fresh_reader len m (r + k), strm\<lparr>st_in := drop k (st_in strm)\<rparr>)"
proof -
  have k: "0 < k" "k \<le> len - r" "min k (len - r) = k" "k \<le> length (st_in strm)" "r + k \<le> m"
    using assms by (auto simp: k_def CPPHTTPLIB_RECV_BUFSIZ_def)
  then have "st_in strm \<noteq> []" by auto
  with k assms(1) show ?thesis
    by (auto simp: body_read_def fresh_reader_def stream_read_def Let_def)
qed

lemma with_length_exact:
  "r \<le> len \<Longrightarrow> len \<le> m \<Longrightarrow> len - r \<le> length (st_in strm) \<Longrightarrow> length (bs_body st) = r \<Longrightarrow>
     with_length_loop (body_receiver m) len r (fresh_reader len m r) strm st =
       (Content_Success, strm\<lparr>st_in := drop (len - r) (st_in strm)\<rparr>,
        st\<lparr>bs_body := bs_body st @ take (len - r) (st_in strm)\<rparr>)"
proof (induction "len - r" arbitrary: r strm st rule: less_induct)
  case less
  show ?case
  proof (cases "r < len")
    case False
    with less.prems show ?thesis by (subst with_length_loop.simps) simp
  next
    case True
    define k where "k = min (len - r) CPPHTTPLIB_RECV_BUFSIZ"
    have k: "0 < k" "k \<le> len - r" "\<not> int k \<le> 0" using True by (auto simp: CPPHTTPLIB_RECV_BUFSIZ_def k_def)
    note br = body_read_step [OF True less.prems(2,3), folded k_def]
    let ?st = "st\<lparr>bs_body := bs_body st @ take k (st_in strm)\<rparr>"
    have o: "body_receiver m (take k (st_in strm)) st = (True, ?st)"
      using less.prems k True by (auto simp: body_receiver_def)
    have "with_length_loop (body_receiver m) len r (fresh_reader len m r) strm st =
      with_length_loop (body_receiver m) len (r + k) (fresh_reader len m (r + k))
        (strm\<lparr>st_in := drop k (st_in strm)\<rparr>) ?st"
      using True k br o by (subst with_length_loop.simps) (simp add: k_def [symmetric] del: of_nat_le_0_iff)
    also have "\<dots> = (Content_Success, strm\<lparr>st_in := drop (len - r) (st_in strm)\<rparr>,
        st\<lparr>bs_body := bs_body st @ take (len - r) (st_in strm)\<rparr>)"
    proof -
      have n: "len - r = k + (len - (r + k))" using k by linarith
      have t: "take (len - r) (st_in strm) = take k (st_in strm) @ take (len - (r + k)) (drop k (st_in strm))"
        by (subst n) (rule take_add)
      have dr: "drop (len - r) (st_in strm) = drop (len - (r + k)) (drop k (st_in strm))"
        by (subst n) (simp add: add.commute)
      have "with_length_loop (body_receiver m) len (r + k) (fresh_reader len m (r + k))
          (strm\<lparr>st_in := drop k (st_in strm)\<rparr>) ?st =
        (Content_Success, (strm\<lparr>st_in := drop k (st_in strm)\<rparr>)\<lparr>st_in := drop (len - (r + k)) (drop k (st_in strm))\<rparr>,
         ?st\<lparr>bs_body := bs_body ?st @ take (len - (r + k)) (drop k (st_in strm))\<rparr>)"
        using less.hyps [of "r + k" "strm\<lparr>st_in := drop k (st_in strm)\<rparr>" ?st] less.prems k True by auto
      then show ?thesis by (simp add: t dr)
    qed
    finally show ?thesis .
  qed
qed

lemma with_length_reads_all:
  assumes "st_in strm = body @ rest" "length body \<le> m"
  shows "read_content_with_length strm (length body) (body_receiver m) no_body m =
    (Content_Success, strm\<lparr>st_in := rest\<rparr>, no_body\<lparr>bs_body := body\<rparr>)"
proof -
  have "fresh_reader (length body) m 0 = \<lparr>br_content_length = length body, br_payload_max_length = m, br_bytes_read = 0,
     br_eof = False, br_last_error = None\<rparr>" by (simp add: fresh_reader_def)
  with with_length_exact [of 0 "length body" m strm no_body] assms show ?thesis
    by (simp add: read_content_with_length_def no_body_def)
qed

section \<open>Chunks are read back\<close>

text \<open>The text of a body that is sent in the pieces \<open>ps\<close>.\<close>

definition chunk_text :: "string \<Rightarrow> string" where
  "chunk_text p = (if p \<noteq> [] then from_i_to_hex (length p) @ crlf @ p @ crlf else [])"

definition chunked_body :: "string list \<Rightarrow> string" where
  "chunked_body ps = concat (map chunk_text ps) @ ''0'' @ crlf @ crlf"

lemma hex_value_snoc:
  "is_hex c = Some (int k) \<Longrightarrow> hex_value (ds @ [c]) = 16 * hex_value ds + k"
  by (simp add: hex_value_def)

lemma hex_text:
  "hex_value (from_i_to_hex n) = n \<and> (\<forall>c \<in> set (from_i_to_hex n). is_hex c \<noteq> None) \<and> from_i_to_hex n \<noteq> []"
proof (induction n rule: from_i_to_hex.induct)
  case (1 n)
  let ?d = "''0123456789abcdef'' ! (n mod 16)"
  have d: "is_hex ?d = Some (int (n mod 16))" by (rule is_hex_lower) simp
  show ?case
  proof (cases "n div 16 = 0")
    case True
    then have "from_i_to_hex n = [?d]" by (subst from_i_to_hex.simps) simp
    moreover have "n mod 16 = n" using True by (simp add: div_eq_0_iff)
    ultimately have "from_i_to_hex n = [?d]" "n mod 16 = n" .
    with d show ?thesis by (simp add: hex_value_def)
  next
    case False
    then have e: "from_i_to_hex n = from_i_to_hex (n div 16) @ [?d]" by (subst from_i_to_hex.simps) simp
    with 1 [OF refl False] d show ?thesis by (simp only: e hex_value_snoc [OF d]) auto
  qed
qed

lemma hex_char_plain:
  "is_hex c \<noteq> None \<Longrightarrow> \<not> is_space c \<and> code c \<noteq> 45 \<and> code c \<noteq> 43 \<and> code c \<noteq> 120 \<and> code c \<noteq> 88 \<and> code c \<noteq> 10 \<and> code c \<noteq> 0"
  by (auto simp: is_hex_def is_digit_def is_space_def Let_def split: if_splits)

lemma hex_text_length: "n < 16 ^ k \<Longrightarrow> 0 < k \<Longrightarrow> length (from_i_to_hex n) \<le> k"
proof (induction k arbitrary: n)
  case (Suc k)
  show ?case
  proof (cases "n div 16 = 0")
    case True
    then show ?thesis by (subst from_i_to_hex.simps) simp
  next
    case False
    then have "16 \<le> n" by (simp add: div_eq_0_iff)
    with Suc.prems have "0 < k" by (cases k) auto
    moreover have "n div 16 < 16 ^ k" using Suc.prems by (simp add: less_mult_imp_div_less mult.commute)
    ultimately have "length (from_i_to_hex (n div 16)) \<le> k" by (intro Suc.IH)
    with False show ?thesis by (subst from_i_to_hex.simps) simp
  qed
qed simp

lemma code_literals [http_simps]:
  "code (CHR ''-'') = 45" "code (CHR ''+'') = 43" "code (CHR ''x'') = 120" "code (CHR ''X'') = 88"
  "code (CHR 0x0D) = 13" "code (CHR 0x0A) = 10"
  by (simp_all add: code_def)

lemma strtoul16_hex:
  assumes "n < 2 ^ 64 - 1"
  shows "strtoul16 (from_i_to_hex n @ crlf) = Some n"
proof -
  let ?h = "from_i_to_hex n"
  have h: "hex_value ?h = n" "\<forall>c \<in> set ?h. is_hex c \<noteq> None" using hex_text [of n] by auto
  obtain a t where at: "?h = a # t" using hex_text [of n] by (cases ?h) auto
  have a: "\<not> is_space a" "a \<noteq> CHR ''-''" "a \<noteq> CHR ''+''"
    using hex_char_plain [of a] h(2) at by (auto simp: code_literals)
  have nx: "is_hex (CHR 0x0D) = None" by (simp add: is_hex_def is_digit_def code_literals)
  have "hex_digits (?h @ crlf) = ?h"
    using h(2) nx by (simp add: hex_digits_def takeWhile_append)
  moreover have "take 2 (?h @ crlf) \<noteq> ''0x''" "take 2 (?h @ crlf) \<noteq> ''0X''"
  proof -
    have x: "c \<noteq> CHR ''x'' \<and> c \<noteq> CHR ''X''" if "c \<in> set ?h" for c
      using hex_char_plain [of c] h(2) that by (auto simp: code_literals)
    have "(?h @ crlf) ! 1 \<noteq> CHR ''x'' \<and> (?h @ crlf) ! 1 \<noteq> CHR ''X''"
      using x at by (cases t) auto
    then show "take 2 (?h @ crlf) \<noteq> ''0x''" "take 2 (?h @ crlf) \<noteq> ''0X''"
      using at by (cases t; simp add: numeral_2_eq_2)+
  qed
  moreover have "dropWhile is_space (?h @ crlf) = ?h @ crlf" using at a by simp
  moreover have "hd (?h @ crlf) = a" using at by simp
  moreover have "?h \<noteq> []" "\<not> 2 ^ 64 \<le> n" using at assms by auto
  ultimately show ?thesis
    unfolding strtoul16_def Let_def by (simp only: a h(1) simp_thms if_False)
qed

lemma getline_text:
  assumes "\<forall>c \<in> set t. code c \<noteq> 10 \<and> code c \<noteq> 0" "length t + 1 < CPPHTTPLIB_MAX_LINE_LENGTH"
    and "st_in strm = t @ crlf @ rest"
  obtains lr' where "getline strm lr = (True, strm\<lparr>st_in := rest\<rparr>, lr')" "c_str (line_text lr') = t @ crlf"
    "line_text lr' = t @ crlf"
proof -
  obtain lr' where g: "getline strm lr = (True, strm\<lparr>st_in := rest\<rparr>, lr')" "line_text lr' = t @ crlf"
    using getline_line [of t strm rest lr] assms by blast
  have "list_all (\<lambda>c. code c \<noteq> 0) (t @ crlf)" using assms(1) by (auto simp: list_all_iff code_literals)
  then have "c_str (t @ crlf) = t @ crlf" unfolding c_str_def by (rule takeWhile_whole)
  with g that show ?thesis by simp
qed

lemma max_line: "CPPHTTPLIB_MAX_LINE_LENGTH = 32768"
  by (simp add: CPPHTTPLIB_MAX_LINE_LENGTH_def)

lemma read_payload_head:
  assumes "st_in strm = from_i_to_hex n @ crlf @ rest" "0 < n" "n < 2 ^ 64 - 1" "cd_remaining cd = 0" "\<not> cd_finished cd"
  shows "read_payload len cd strm = chunk_data len (cd\<lparr>cd_remaining := n\<rparr>) (strm\<lparr>st_in := rest\<rparr>)"
proof -
  have "length (from_i_to_hex n) \<le> 16" using assms(3) by (intro hex_text_length) auto
  then have "length (from_i_to_hex n) + 1 < CPPHTTPLIB_MAX_LINE_LENGTH" by (simp add: max_line)
  moreover have "\<forall>c \<in> set (from_i_to_hex n). code c \<noteq> 10 \<and> code c \<noteq> 0"
    using hex_text [of n] hex_char_plain by blast
  ultimately obtain lr' where "getline strm (stream_line_reader 64) = (True, strm\<lparr>st_in := rest\<rparr>, lr')"
      "c_str (line_text lr') = from_i_to_hex n @ crlf"
    using getline_text [of "from_i_to_hex n" strm rest "stream_line_reader 64"] assms(1) by blast
  with assms strtoul16_hex [OF assms(3)] show ?thesis by (simp add: read_payload_def)
qed

lemma getline_blank:
  assumes "st_in strm = crlf @ rest"
  obtains lr' where "getline strm lr = (True, strm\<lparr>st_in := rest\<rparr>, lr')" "c_str (line_text lr') = crlf"
proof (rule getline_text [of "[]" strm rest lr])
  show "st_in strm = [] @ crlf @ rest" using assms by simp
next
  fix lr' assume "getline strm lr = (True, strm\<lparr>st_in := rest\<rparr>, lr')" "c_str (line_text lr') = [] @ crlf"
  then show ?thesis by (intro that [of lr']) simp_all
qed (simp_all add: max_line)

lemma chunk_data_part:
  assumes "st_in strm = p @ crlf @ rest" "cd_remaining cd = length p" "L < length p" "0 < L"
  shows "chunk_data L cd strm =
    (int L, take L p, cd\<lparr>cd_remaining := length p - L\<rparr>, strm\<lparr>st_in := drop L p @ crlf @ rest\<rparr>)"
proof -
  have "st_in strm \<noteq> []" using assms by auto
  with assms show ?thesis by (simp add: chunk_data_def stream_read_def Let_def min_def)
qed

lemma chunk_data_all:
  assumes "st_in strm = p @ crlf @ rest" "cd_remaining cd = length p" "length p \<le> L" "p \<noteq> []"
  shows "chunk_data L cd strm = (int (length p), p, cd\<lparr>cd_remaining := 0\<rparr>, strm\<lparr>st_in := rest\<rparr>)"
proof -
  have "st_in strm \<noteq> []" using assms by auto
  then have r: "stream_read (min (length p) L) strm = (int (length p), p, strm\<lparr>st_in := crlf @ rest\<rparr>)"
    using assms by (simp add: stream_read_def Let_def min_def)
  obtain lr' where g: "getline (strm\<lparr>st_in := crlf @ rest\<rparr>) (stream_line_reader 64) =
      (True, strm\<lparr>st_in := rest\<rparr>, lr')" "c_str (line_text lr') = crlf"
    by (rule getline_blank [of "strm\<lparr>st_in := crlf @ rest\<rparr>" rest "stream_line_reader 64"]) simp_all
  show ?thesis using assms(2,4) by (simp add: chunk_data_def r g [simplified])
qed

lemma chunked_loop_piece:
  assumes "read_payload CPPHTTPLIB_RECV_BUFSIZ cd strm = (int (length d), d, cd', strm')" "d \<noteq> []"
    and "total_len + length d \<le> m" "length (bs_body st) = total_len"
  shows "chunked_loop (body_receiver m) m total_len cd tr hs strm st =
    chunked_loop (body_receiver m) m (total_len + length d) cd' tr hs strm' (st\<lparr>bs_body := bs_body st @ d\<rparr>)"
proof -
  have "0 < length d" using assms(2) by simp
  moreover have "body_receiver m d st = (True, st\<lparr>bs_body := bs_body st @ d\<rparr>)"
    using assms by (cases d) (auto simp: body_receiver_def)
  moreover have "\<not> m - total_len < length d" "\<not> total_len > m" using assms(3) by linarith+
  ultimately show ?thesis
    using assms by (subst chunked_loop.simps) simp
qed

lemma chunked_loop_chunk:
  "st_in strm = p @ crlf @ rest \<Longrightarrow> p \<noteq> [] \<Longrightarrow> cd_remaining cd = length p \<Longrightarrow> \<not> cd_finished cd \<Longrightarrow>
   total_len + length p \<le> m \<Longrightarrow> length (bs_body st) = total_len \<Longrightarrow>
     chunked_loop (body_receiver m) m total_len cd tr hs strm st =
     chunked_loop (body_receiver m) m (total_len + length p) (cd\<lparr>cd_remaining := 0\<rparr>) tr hs (strm\<lparr>st_in := rest\<rparr>)
       (st\<lparr>bs_body := bs_body st @ p\<rparr>)"
proof (induction "length p" arbitrary: p cd total_len strm st rule: less_induct)
  case less
  let ?L = CPPHTTPLIB_RECV_BUFSIZ
  have L: "0 < ?L" by (simp add: CPPHTTPLIB_RECV_BUFSIZ_def)
  have rp: "read_payload ?L cd strm = chunk_data ?L cd strm" using less.prems by (simp add: read_payload_def)
  show ?case
  proof (cases "length p \<le> ?L")
    case True
    with chunk_data_all [of strm p rest cd ?L] less.prems rp show ?thesis
      by (intro chunked_loop_piece) auto
  next
    case False
    then have lt: "?L < length p" by simp
    let ?cd = "cd\<lparr>cd_remaining := length p - ?L\<rparr>"
    let ?s = "strm\<lparr>st_in := drop ?L p @ crlf @ rest\<rparr>"
    let ?st = "st\<lparr>bs_body := bs_body st @ take ?L p\<rparr>"
    have tk: "length (take ?L p) = ?L" using lt by simp
    have "read_payload ?L cd strm = (int (length (take ?L p)), take ?L p, ?cd, ?s)"
      using chunk_data_part [OF less.prems(1,3) lt L] rp tk by simp
    then have "chunked_loop (body_receiver m) m total_len cd tr hs strm st =
        chunked_loop (body_receiver m) m (total_len + length (take ?L p)) ?cd tr hs ?s ?st"
      using less.prems lt L tk by (intro chunked_loop_piece) auto
    also have "\<dots> = chunked_loop (body_receiver m) m (total_len + length (take ?L p) + length (drop ?L p))
        (?cd\<lparr>cd_remaining := 0\<rparr>) tr hs (?s\<lparr>st_in := rest\<rparr>) (?st\<lparr>bs_body := bs_body ?st @ drop ?L p\<rparr>)"
      using less.prems lt L tk by (intro less.hyps) auto
    finally show ?thesis using lt by simp
  qed
qed

lemma chunked_loop_text:
  assumes "st_in strm = chunk_text p @ rest" "cd_remaining cd = 0" "\<not> cd_finished cd"
    and "total_len + length p \<le> m" "length (bs_body st) = total_len" "m < 2 ^ 64 - 1"
  shows "chunked_loop (body_receiver m) m total_len cd tr hs strm st =
    chunked_loop (body_receiver m) m (total_len + length p) cd tr hs (strm\<lparr>st_in := rest\<rparr>)
      (st\<lparr>bs_body := bs_body st @ p\<rparr>)"
proof (cases "p = []")
  case True
  with assms(1) have "strm\<lparr>st_in := rest\<rparr> = strm" by (simp add: chunk_text_def)
  with True show ?thesis by simp
next
  case False
  let ?cd = "cd\<lparr>cd_remaining := length p\<rparr>"
  let ?s = "strm\<lparr>st_in := p @ crlf @ rest\<rparr>"
  have "read_payload CPPHTTPLIB_RECV_BUFSIZ cd strm = chunk_data CPPHTTPLIB_RECV_BUFSIZ ?cd ?s"
    using assms False by (intro read_payload_head) (auto simp: chunk_text_def)
  moreover have "read_payload CPPHTTPLIB_RECV_BUFSIZ ?cd ?s = chunk_data CPPHTTPLIB_RECV_BUFSIZ ?cd ?s"
    using assms(3) False by (simp add: read_payload_def)
  ultimately have "chunked_loop (body_receiver m) m total_len cd tr hs strm st =
      chunked_loop (body_receiver m) m total_len ?cd tr hs ?s st"
    by (subst (1 2) chunked_loop.simps) simp
  also have "\<dots> = chunked_loop (body_receiver m) m (total_len + length p) (?cd\<lparr>cd_remaining := 0\<rparr>) tr hs
      (?s\<lparr>st_in := rest\<rparr>) (st\<lparr>bs_body := bs_body st @ p\<rparr>)"
    using assms False by (intro chunked_loop_chunk) auto
  also have "?cd\<lparr>cd_remaining := 0\<rparr> = cd" using assms(2) by (cases cd) simp
  finally show ?thesis by simp
qed

lemma chunked_loop_end:
  assumes "st_in strm = ''0'' @ crlf @ crlf @ rest" "cd_remaining cd = 0" "\<not> cd_finished cd"
  shows "chunked_loop out m total_len cd tr hs strm st = (Content_Success, tr, strm\<lparr>st_in := rest\<rparr>, st)"
proof -
  have z: "from_i_to_hex 0 = ''0''" by (subst from_i_to_hex.simps) simp
  obtain lr' where g: "getline strm (stream_line_reader 64) = (True, strm\<lparr>st_in := crlf @ rest\<rparr>, lr')"
      "c_str (line_text lr') = ''0'' @ crlf"
  proof (rule getline_text [of "''0''" strm "crlf @ rest" "stream_line_reader 64"])
    show "st_in strm = ''0'' @ crlf @ crlf @ rest" by (rule assms(1))
    show "\<forall>c \<in> set ''0''. code c \<noteq> 10 \<and> code c \<noteq> 0" by (simp add: code_def)
  qed (simp_all add: max_line)
  have "strtoul16 (''0'' @ crlf) = Some 0" using strtoul16_hex [of 0] by (simp only: z) simp
  then have rp: "read_payload CPPHTTPLIB_RECV_BUFSIZ cd strm =
      (0, [], cd\<lparr>cd_remaining := 0, cd_finished := True\<rparr>, strm\<lparr>st_in := crlf @ rest\<rparr>)"
    using assms(2,3) by (simp add: read_payload_def g)
  obtain lr2 where g2: "getline (strm\<lparr>st_in := crlf @ rest\<rparr>) (stream_line_reader 64) =
      (True, strm\<lparr>st_in := rest\<rparr>, lr2)" "c_str (line_text lr2) = crlf"
    by (rule getline_blank [of "strm\<lparr>st_in := crlf @ rest\<rparr>" rest "stream_line_reader 64"]) simp_all
  have "parse_trailers_into (strm\<lparr>st_in := crlf @ rest\<rparr>) tr hs = (True, strm\<lparr>st_in := rest\<rparr>, tr)"
    by (simp add: parse_trailers_into_def g2 [simplified] trailers_loop.simps)
  then show ?thesis by (subst chunked_loop.simps) (simp add: rp)
qed

lemma chunks_read_back:
  assumes "st_in strm = chunked_body ps @ rest" "length (concat ps) \<le> m" "m < 2 ^ 64 - 1"
  shows "read_content_chunked strm tr hs m (body_receiver m) no_body =
    (Content_Success, tr, strm\<lparr>st_in := rest\<rparr>, no_body\<lparr>bs_body := concat ps\<rparr>)"
proof -
  have "chunked_loop (body_receiver m) m n ChunkedDecoder tr hs s st =
      (Content_Success, tr, s\<lparr>st_in := rest\<rparr>, st\<lparr>bs_body := bs_body st @ concat ps\<rparr>)"
    if "st_in s = chunked_body ps @ rest" "n + length (concat ps) \<le> m" "length (bs_body st) = n" for n s st
    using that
  proof (induction ps arbitrary: n s st)
    case Nil
    then show ?case by (subst chunked_loop_end) (auto simp: chunked_body_def ChunkedDecoder_def)
  next
    case (Cons p ps)
    have "chunked_loop (body_receiver m) m n ChunkedDecoder tr hs s st =
        chunked_loop (body_receiver m) m (n + length p) ChunkedDecoder tr hs
          (s\<lparr>st_in := chunked_body ps @ rest\<rparr>) (st\<lparr>bs_body := bs_body st @ p\<rparr>)"
      using Cons.prems assms(3)
      by (intro chunked_loop_text) (auto simp: chunked_body_def ChunkedDecoder_def)
    with Cons.prems show ?case by (subst (asm) Cons.IH) (auto simp: chunked_body_def)
  qed
  from this [of strm 0 no_body] assms(1,2) show ?thesis
    by (simp add: read_content_chunked_def no_body_def)
qed

section \<open>Writing chunks\<close>

text \<open>
  \<open>write_content_chunked\<close>, with a peer that takes all that is written and without compression. What
  the provider does with its sink in each of its calls, and whether the call succeeds, is a
  script; after the last call the server shuts down. The result is that of the function and the
  text that it wrote.
\<close>

datatype sink_op = Sink_Write string | Sink_Done "headers option"

fun sink_step :: "sink_op \<Rightarrow> bool \<times> string \<Rightarrow> bool \<times> string" where
  "sink_step (Sink_Write d) (data_available, text) = (d \<noteq> [], text @ chunk_text d)"
| "sink_step (Sink_Done trailer) (data_available, text) =
     (False, text @ ''0'' @ crlf
             @ (case trailer of None \<Rightarrow> [] | Some kvs \<Rightarrow> concat (map (\<lambda>kv. fst kv @ '': '' @ snd kv @ crlf) kvs))
             @ crlf)"

fun chunked_write_loop :: "(sink_op list \<times> bool) list \<Rightarrow> bool \<times> string \<Rightarrow> bool \<times> string" where
  "chunked_write_loop [] (data_available, text) = (\<not> data_available, text)"
| "chunked_write_loop ((ops, ok) # calls) (data_available, text) =
     (if data_available
      then let s = fold sink_step ops (data_available, text)
           in if \<not> ok then (False, snd s) else chunked_write_loop calls s
      else (True, text))"

definition write_content_chunked :: "(sink_op list \<times> bool) list \<Rightarrow> bool \<times> string" where
  "write_content_chunked calls = chunked_write_loop calls (True, [])"

text \<open>The provider that writes one piece in each call and then says that it is done.\<close>

definition piecewise :: "string list \<Rightarrow> (sink_op list \<times> bool) list" where
  "piecewise ps = map (\<lambda>p. ([Sink_Write p], True)) ps @ [([Sink_Done None], True)]"

lemma write_piecewise:
  "[] \<notin> set ps \<Longrightarrow> write_content_chunked (piecewise ps) = (True, chunked_body ps)"
proof -
  have "[] \<notin> set ps \<Longrightarrow> chunked_write_loop (piecewise ps) (True, out) = (True, out @ chunked_body ps)" for out
    by (induction ps arbitrary: out) (auto simp: piecewise_def chunked_body_def)
  then show "[] \<notin> set ps \<Longrightarrow> ?thesis" by (simp add: write_content_chunked_def)
qed

text \<open>
  A piece without bytes in a call of its own ends the writing with success, but without the last
  chunk: what comes after it is not sent, and a reader waits for more.
\<close>

lemma empty_piece_ends_body:
  "[] \<notin> set ps \<Longrightarrow> write_content_chunked (map (\<lambda>p. ([Sink_Write p], True)) (ps @ [] # qs)) =
     (True, concat (map chunk_text ps))"
proof -
  have stop: "chunked_write_loop calls (False, out) = (True, out)" for calls out
    by (cases calls) auto
  have empty: "chunk_text [] = []" by (simp add: chunk_text_def)
  have "[] \<notin> set ps \<Longrightarrow> chunked_write_loop (map (\<lambda>p. ([Sink_Write p], True)) (ps @ [] # qs)) (True, out) =
      (True, out @ concat (map chunk_text ps))" for out
    by (induction ps arbitrary: out) (auto simp: stop empty)
  then show "[] \<notin> set ps \<Longrightarrow> ?thesis" by (simp add: write_content_chunked_def)
qed

text \<open>
  C33: a body that \<open>write_content_chunked\<close> sends, cut into pieces in any way, is read back in one
  piece, byte for byte, up to the end of the last chunk and not a byte further.
\<close>

theorem chunks_roundtrip:
  assumes "[] \<notin> set ps" "st_in strm = snd (write_content_chunked (piecewise ps)) @ rest"
    and "length (concat ps) \<le> m" "m < 2 ^ 64 - 1"
  shows "fst (write_content_chunked (piecewise ps)) \<and>
    read_content_chunked strm tr hs m (body_receiver m) no_body =
      (Content_Success, tr, strm\<lparr>st_in := rest\<rparr>, no_body\<lparr>bs_body := concat ps\<rparr>)"
  using chunks_read_back [of strm ps rest m tr hs] assms by (simp add: write_piecewise)

lemma chunks_roundtrip_witness:
  "read_content_chunked
     \<lparr>st_in = snd (write_content_chunked (piecewise [''ab'', ''c''])) @ ''next'', st_end = Peer_Closed, st_out = [],
       st_pending = False\<rparr> [] [] 10 (body_receiver 10) no_body =
   (Content_Success, [], \<lparr>st_in = ''next'', st_end = Peer_Closed, st_out = [], st_pending = False\<rparr>,
    no_body\<lparr>bs_body := ''abc''\<rparr>)"
proof -
  let ?s = "\<lparr>st_in = snd (write_content_chunked (piecewise [''ab'', ''c''])) @ ''next'', st_end = Peer_Closed, st_out = [],
       st_pending = False\<rparr>"
  have "[] \<notin> set [''ab'', ''c'']" "length (concat [''ab'', ''c'']) \<le> 10" "(10 :: nat) < 2 ^ 64 - 1" by simp_all
  from chunks_roundtrip [OF this(1) _ this(2,3), of ?s "''next''" "[]" "[]"] show ?thesis by simp
qed

end
