(* ===== verification/Http_Server.thy ===== *)
theory Http_Server
  imports Http_Ranges Http_Body Api_Windows
begin

text \<open>
  The HTTP server under the REST program: \<^verbatim>\<open>httplib::Server\<close> of \<^verbatim>\<open>external/httplib.h\<close> as
  \<^verbatim>\<open>src/main_api.cpp\<close> sets it up (routes, error handler, no exception handler, no file mounts,
  no web sockets, no proxies, default limits), from the bytes of a connection to the handlers of
  \<^verbatim>\<open>Api_Server\<close> and back to the bytes of the answers.
\<close>

section \<open>Routes\<close>

text \<open>
  A pattern without \<^verbatim>\<open>/:\<close> is a regular expression that the whole path has to match. Of the
  patterns of the program, \<^verbatim>\<open>.*\<close> matches what has no line terminator, the others only themselves.
\<close>

definition regex_match :: "string \<Rightarrow> string \<Rightarrow> bool" where
  "regex_match pattern path =
     (if pattern = ''.*'' then list_all (\<lambda>c. code c \<noteq> 10 \<and> code c \<noteq> 13) path else path = pattern)"

definition get_handlers :: "string list" where
  "get_handlers = [''/'', ''/api/health'', ''/api/status'', ''/api/logs'']"

definition post_handlers :: "string list" where
  "post_handlers = [''/api/system/arm'', ''/api/system/disarm'', ''/api/system/lock'', ''/api/system/unlock'',
     ''/api/access/authorize'', ''/api/door/open'', ''/api/door/close'', ''/api/alarm/trigger'',
     ''/api/alarm/clear'', ''/api/devices/update'', ''/api/email/test'']"

definition options_handlers :: "string list" where
  "options_handlers = [''.*'']"

text \<open>What the handlers read of a request; the method is that of the table they are in.\<close>

definition api_request :: "string \<Rightarrow> http_request \<Rightarrow> request" where
  "api_request m req =
     \<lparr>rq_method = m, rq_path = hr_path req, rq_body = hr_body req,
      rq_limit = (if has_param req ''limit'' then Some (get_param_value req ''limit'' 0) else None)\<rparr>"

text \<open>How the handlers write their answer: \<^verbatim>\<open>setJsonResponse\<close>, and the headers of \<^verbatim>\<open>OPTIONS\<close>.\<close>

definition http_setJsonResponse :: "string \<Rightarrow> int \<Rightarrow> http_response \<Rightarrow> http_response" where
  "http_setJsonResponse body status res =
     (let res = res\<lparr>hs_status := status\<rparr>;
          res = set_header ''Content-Type'' ''application/json'' res;
          res = set_header ''Access-Control-Allow-Origin'' ''*'' res;
          res = set_header ''Access-Control-Allow-Headers'' ''Content-Type'' res;
          res = set_header ''Access-Control-Allow-Methods'' ''GET, POST, OPTIONS'' res
      in set_content body ''application/json'' res)"

definition http_options :: "http_response \<Rightarrow> http_response" where
  "http_options res =
     (let res = res\<lparr>hs_status := 200\<rparr>;
          res = set_header ''Access-Control-Allow-Origin'' ''*'' res;
          res = set_header ''Access-Control-Allow-Headers'' ''Content-Type'' res
      in set_header ''Access-Control-Allow-Methods'' ''GET, POST, OPTIONS'' res)"

definition fill_response :: "response \<Rightarrow> http_response \<Rightarrow> http_response" where
  "fill_response r res =
     (if r = handle_options then http_options res else http_setJsonResponse (rs_body r) (rs_status r) res)"

text \<open>
  Whether a handler ran, whether it threw, and what it left. The only handler that throws is that
  of \<^verbatim>\<open>/api/logs\<close>, before it touches the response.
\<close>

datatype routed = Routed | Not_Routed | Thrown

definition run_handler ::
  "time_point \<Rightarrow> string \<Rightarrow> http_request \<Rightarrow> http_response \<Rightarrow> api \<Rightarrow> routed \<times> http_response \<times> api" where
  "run_handler t m req res a =
     (case handle_request t (api_request m req) a of
        (a, Inr r) \<Rightarrow> (Routed, fill_response r res, a)
      | (a, Inl e) \<Rightarrow> (Thrown, res, a))"

definition dispatch_request ::
  "time_point \<Rightarrow> string \<Rightarrow> string list \<Rightarrow> http_request \<Rightarrow> http_response \<Rightarrow> api \<Rightarrow> routed \<times> http_response \<times> api" where
  "dispatch_request t m handlers req res a =
     (if list_ex (\<lambda>pattern. regex_match pattern (hr_path req)) handlers
      then run_handler t m req res a else (Not_Routed, res, a))"

section \<open>Routing\<close>

definition expect_content :: "http_request \<Rightarrow> bool" where
  "expect_content req \<longleftrightarrow>
     hr_method req \<in> {''POST'', ''PUT'', ''PATCH'', ''DELETE''} \<or>
     (has_header (hr_headers req) ''Content-Length'' \<and>
      fst (get_header_value_u64 (hr_headers req) ''Content-Length'' 0 0) > 0) \<or>
     is_chunked_transfer_encoding (hr_headers req)"

definition regular_routing ::
  "time_point \<Rightarrow> http_request \<Rightarrow> http_response \<Rightarrow> api \<Rightarrow> routed \<times> http_response \<times> api" where
  "regular_routing t req res a =
     (if hr_method req = ''GET'' \<or> hr_method req = ''HEAD'' then dispatch_request t ''GET'' get_handlers req res a
      else if hr_method req = ''POST'' then dispatch_request t ''POST'' post_handlers req res a
      else if hr_method req = ''PUT'' then dispatch_request t ''PUT'' [] req res a
      else if hr_method req = ''DELETE'' then dispatch_request t ''DELETE'' [] req res a
      else if hr_method req = ''OPTIONS'' then dispatch_request t ''OPTIONS'' options_handlers req res a
      else if hr_method req = ''PATCH'' then dispatch_request t ''PATCH'' [] req res a
      else (Not_Routed, res\<lparr>hs_status := 400\<rparr>, a))"

definition routing ::
  "time_point \<Rightarrow> http_request \<Rightarrow> http_response \<Rightarrow> stream \<Rightarrow> api
     \<Rightarrow> routed \<times> http_request \<times> http_response \<times> stream \<times> api" where
  "routing t req res strm a =
     (if expect_content req
      then case read_content CPPHTTPLIB_PAYLOAD_MAX_LENGTH strm req (hs_status res) of
             ((ok, status), req, strm, items) \<Rightarrow>
               let res = res\<lparr>hs_status := status\<rparr>
               in if \<not> ok then (Not_Routed, req, res, strm, a)
                  else (case regular_routing t req res a of (r, res, a) \<Rightarrow> (r, req, res, strm, a))
      else (case regular_routing t req res a of (r, res, a) \<Rightarrow> (r, req, res, strm, a)))"

section \<open>The answer\<close>

text \<open>
  No content coding is compiled in, so that \<open>encoding_type\<close> is always \<^verbatim>\<open>None\<close>; bodies are strings.
  \<open>boundary\<close> is the random boundary of a multipart answer.
\<close>

definition erase_first :: "string \<Rightarrow> headers \<Rightarrow> headers" where
  "erase_first key hs =
     takeWhile (\<lambda>h. \<not> ci_equal (fst h) key) hs @ tl (dropWhile (\<lambda>h. \<not> ci_equal (fst h) key) hs)"

definition apply_ranges :: "string \<Rightarrow> range list \<Rightarrow> http_response \<Rightarrow> http_response" where
  "apply_ranges boundary ranges res =
     (let several = (length ranges > 1 \<and> hs_status res = 206);
          content_type = (if several \<and> equal_range (hs_headers res) ''Content-Type'' \<noteq> []
                          then snd (hd (equal_range (hs_headers res) ''Content-Type'')) else []);
          res = (if several
                 then set_header ''Content-Type'' (''multipart/byteranges; boundary='' @ boundary)
                        (res\<lparr>hs_headers := erase_first ''Content-Type'' (hs_headers res)\<rparr>)
                 else res)
      in if hs_body res = [] then res
         else let res = (if ranges = [] \<or> hs_status res \<noteq> 206 then res
                         else if length ranges = 1
                         then let (off, n) = get_range_offset_and_length (hd ranges);
                                  res = set_header ''Content-Range''
                                    (make_content_range_header_field (off, n) (length (hs_body res))) res
                              in res\<lparr>hs_body := substr off n (hs_body res)\<rparr>
                         else res\<lparr>hs_body := make_multipart_ranges_data ranges (hs_body res) boundary content_type\<rparr>)
              in set_header ''Content-Length'' (show_nat (length (hs_body res))) res)"

text \<open>The error handler of \<^verbatim>\<open>main\<close>. Its wrapper reports every error as handled.\<close>

definition error_handler :: "http_response \<Rightarrow> http_response" where
  "error_handler res =
     (if hs_status res = 404
      then http_setJsonResponse ''{\"ok\":false,\"message\":\"Route not found\"}'' 404 res else res)"

text \<open>
  \<open>arrange\<close> is the order in which the table of headers is walked through. The result is the
  response as it stands when it is written, and its text.
\<close>

definition finish_headers :: "bool \<Rightarrow> http_request \<Rightarrow> http_response \<Rightarrow> http_response" where
  "finish_headers close_connection req res =
     (let res = (if close_connection \<or> header_value (hr_headers req) ''Connection'' = ''close'' \<or> 400 \<le> hs_status res
                 then set_header ''Connection'' ''close'' res
                 else set_header ''Keep-Alive'' (''timeout='' @ show_nat 5 @ '', max='' @ show_nat 100) res);
          res = (if hs_body res \<noteq> [] \<and> \<not> res_has_header res ''Content-Type''
                 then set_header ''Content-Type'' ''text/plain'' res else res);
          res = (if hs_body res = [] \<and> \<not> res_has_header res ''Content-Length''
                 then set_header ''Content-Length'' ''0'' res else res)
      in if hr_method req = ''HEAD'' \<and> \<not> res_has_header res ''Accept-Ranges''
         then set_header ''Accept-Ranges'' ''bytes'' res else res)"

definition response_text :: "(headers \<Rightarrow> headers) \<Rightarrow> string \<Rightarrow> http_response \<Rightarrow> string" where
  "response_text arrange m res =
     write_response_line (hs_status res) @ write_headers (arrange (hs_headers res))
     @ (if m \<noteq> ''HEAD'' \<and> hs_body res \<noteq> [] then hs_body res else [])"

definition final_response :: "string \<Rightarrow> bool \<Rightarrow> http_request \<Rightarrow> http_response \<Rightarrow> bool \<Rightarrow> http_response" where
  "final_response boundary close_connection req res need_apply_ranges =
     (let handled = (400 \<le> hs_status res);
          res = (if handled then error_handler res else res);
          res = (if need_apply_ranges \<or> handled then apply_ranges boundary (hr_ranges req) res else res)
      in finish_headers close_connection req res)"

definition write_response_core ::
  "(headers \<Rightarrow> headers) \<Rightarrow> string \<Rightarrow> stream \<Rightarrow> bool \<Rightarrow> http_request \<Rightarrow> http_response \<Rightarrow> bool \<Rightarrow> stream" where
  "write_response_core arrange boundary strm close_connection req res need_apply_ranges =
     write_stream (response_text arrange (hr_method req)
       (final_response boundary close_connection req res need_apply_ranges)) strm"

definition write_response ::
  "(headers \<Rightarrow> headers) \<Rightarrow> string \<Rightarrow> stream \<Rightarrow> bool \<Rightarrow> http_request \<Rightarrow> http_response \<Rightarrow> stream" where
  "write_response arrange boundary strm close_connection req res =
     write_response_core arrange boundary strm close_connection (req\<lparr>hr_ranges := []\<rparr>) res False"

definition write_response_with_content ::
  "(headers \<Rightarrow> headers) \<Rightarrow> string \<Rightarrow> stream \<Rightarrow> bool \<Rightarrow> http_request \<Rightarrow> http_response \<Rightarrow> stream" where
  "write_response_with_content arrange boundary strm close_connection req res =
     write_response_core arrange boundary strm close_connection req res True"

section \<open>One request\<close>

text \<open>
  The check of an \<^verbatim>\<open>Accept\<close> header; the program does not look at the order of the media types.
  \<open>quality_ok\<close> says whether \<^verbatim>\<open>strtod\<close> takes the text of a quality without error, for a number
  that is neither below 0 nor above 1.
\<close>

definition accept_entry_ok :: "(string \<Rightarrow> bool) \<Rightarrow> string \<Rightarrow> bool" where
  "accept_entry_ok quality_ok entry =
     (let entry = trim_copy entry;
          q_pos = (case find_string '';q='' 0 entry of Some p \<Rightarrow> Some p | None \<Rightarrow> find_string ''; q='' 0 entry);
          valid = (case q_pos of
                     None \<Rightarrow> True
                   | Some p \<Rightarrow>
                       let q_start = the (find_char (CHR ''='') p entry) + 1;
                           q_end = (case find_char (CHR '';'') q_start entry of None \<Rightarrow> length entry | Some e \<Rightarrow> e);
                           quality = trim_copy (substr q_start (q_end - q_start) entry)
                       in quality \<noteq> [] \<and> quality_ok quality);
          media_type = (case q_pos of None \<Rightarrow> entry | Some p \<Rightarrow> trim_copy (take p entry));
          media_type = fst (extract_media_type media_type)
      in entry \<noteq> [] \<and> valid \<and> media_type \<noteq> [] \<and> (media_type = ''*'' \<or> CHR ''/'' \<in> set media_type))"

definition parse_accept_header :: "(string \<Rightarrow> bool) \<Rightarrow> string \<Rightarrow> bool" where
  "parse_accept_header quality_ok s =
     (if s = [] then True
      else if hd s = CHR '','' \<or> s ! (length s - 1) = CHR '','' \<or> find_string '',,'' 0 s \<noteq> None then False
      else list_all (accept_entry_ok quality_ok) (split s (CHR '','')))"

text \<open>
  What the surroundings decide during a request: the clock, what other connections and threads
  do to the program's state before the handler runs, whether bytes wait at the poll, the order
  of the header table, the random boundary, and the reading of qualities.
\<close>

record turn_env =
  te_time :: time_point
  te_others :: "api_input list"
  te_pending :: bool
  te_arrange :: "headers \<Rightarrow> headers"
  te_boundary :: string
  te_quality_ok :: "string \<Rightarrow> bool"
  te_dropped :: nat

definition CPPHTTPLIB_REQUEST_URI_MAX_LENGTH :: nat where
  "CPPHTTPLIB_REQUEST_URI_MAX_LENGTH = 8192"

text \<open>
  The checks between the head of a request and its routing: \<open>Inl\<close> is the status of a refusal,
  \<open>Inr\<close> the request with its ranges.
\<close>

definition check_request :: "turn_env \<Rightarrow> http_request \<Rightarrow> int + http_request" where
  "check_request env req =
     (let hs = hr_headers req
      in if length (hr_target req) > CPPHTTPLIB_REQUEST_URI_MAX_LENGTH then Inl 414
         else if has_header hs ''Accept'' \<and> \<not> parse_accept_header (te_quality_ok env) (header_value hs ''Accept'')
         then Inl 400
         else if has_header hs ''Range''
         then let (ok, ranges) = parse_range_header (header_value hs ''Range'') (hr_ranges req)
              in if ok then Inr (req\<lparr>hr_ranges := ranges\<rparr>) else Inl 416
         else Inr req)"

definition wants_close :: "http_request \<Rightarrow> bool" where
  "wants_close req \<longleftrightarrow>
     header_value (hr_headers req) ''Connection'' = ''close'' \<or>
     hr_version req = ''HTTP/1.0'' \<and> header_value (hr_headers req) ''Connection'' \<noteq> ''Keep-Alive''"

text \<open>After the routing: fill in the status, check the ranges, write.\<close>

definition answer_request ::
  "turn_env \<Rightarrow> bool \<Rightarrow> routed \<Rightarrow> http_request \<Rightarrow> http_response \<Rightarrow> stream \<Rightarrow> stream" where
  "answer_request env close_connection r req res strm =
     (let write = write_response (te_arrange env) (te_boundary env)
      in case r of
           Routed \<Rightarrow>
             let res = (if hs_status res = -1
                        then res\<lparr>hs_status := if hr_ranges req = [] then 200 else 206\<rparr> else res);
                 (bad, ranges) = range_error (hr_ranges req) (hs_status res) (length (hs_body res))
             in if bad then write strm close_connection req (res\<lparr>hs_body := [], hs_status := 416\<rparr>)
                else write_response_with_content (te_arrange env) (te_boundary env) strm close_connection
                       (req\<lparr>hr_ranges := ranges\<rparr>) res
         | Not_Routed \<Rightarrow>
             write strm close_connection req (if hs_status res = -1 then res\<lparr>hs_status := 404\<rparr> else res)
         | Thrown \<Rightarrow> write strm close_connection req (res\<lparr>hs_status := 500\<rparr>))"

text \<open>
  The components of the result: whether the connection goes on, whether the request asked to
  close it, the stream, and the program's state.
\<close>

definition process_request ::
  "turn_env \<Rightarrow> bool \<Rightarrow> stream \<Rightarrow> api \<Rightarrow> bool \<times> bool \<times> stream \<times> api" where
  "process_request env close_connection strm a =
     (case getline strm (stream_line_reader 2048) of
        (ok, strm, lr) \<Rightarrow>
          if \<not> ok then (False, False, strm, a)
          else let refuse = (\<lambda>req strm closed status.
                 (True, closed, write_response (te_arrange env) (te_boundary env) strm close_connection req
                                  (Http_Response\<lparr>hs_status := status\<rparr>), a))
               in case parse_request_line (line_text lr) Http_Request of
                    (ok, req) \<Rightarrow>
                      if \<not> ok then refuse req strm False 400
                      else case read_headers strm (hr_headers req) of
                             (ok, strm, hs) \<Rightarrow>
                               let req = req\<lparr>hr_headers := hs\<rparr>
                               in if \<not> ok then refuse req strm False 400
                                  else case check_request env req of
                                         Inl status \<Rightarrow>
                                           refuse req strm (status \<noteq> 414 \<and> wants_close req) status
                                       | Inr req \<Rightarrow>
                                           let closed = wants_close req;
                                               strm = (if header_value hs ''Expect'' = ''100-continue''
                                                       then write_stream (write_response_line 100 @ crlf) strm else strm);
                                               a = api_run (te_others env) a;
                                               strm = strm\<lparr>st_pending := te_pending env\<rparr>
                                           in case routing (te_time env) req Http_Response strm a of
                                                (r, req, res, strm, a) \<Rightarrow>
                                                  (True, closed, answer_request env close_connection r req res strm, a))"

section \<open>A connection\<close>

text \<open>
  A connection is answered while bytes come (or its end is there to be seen) and for at most 100
  requests. Every request gets a stream of its own over the same socket: \<open>te_dropped\<close> is the
  number of bytes that the stream had read ahead, which go with it.
\<close>

definition keep_alive :: "stream \<Rightarrow> bool" where
  "keep_alive strm \<longleftrightarrow> st_in strm \<noteq> [] \<or> st_end strm = Peer_Closed"

fun serve_loop :: "bool \<Rightarrow> nat \<Rightarrow> (nat \<Rightarrow> turn_env) \<Rightarrow> stream \<Rightarrow> api \<Rightarrow> bool \<times> stream \<times> api" where
  "serve_loop ret 0 env strm a = (ret, strm, a)"
| "serve_loop ret (Suc count) env strm a =
     (if \<not> keep_alive strm then (ret, strm, a)
      else case process_request (env (Suc count)) (count = 0) strm a of
             (ret, connection_closed, strm, a) \<Rightarrow>
               let strm = strm\<lparr>st_in := drop (te_dropped (env (Suc count))) (st_in strm)\<rparr>
               in if \<not> ret \<or> connection_closed then (ret, strm, a)
                  else serve_loop ret count env strm a)"

definition CPPHTTPLIB_KEEPALIVE_MAX_COUNT :: nat where
  "CPPHTTPLIB_KEEPALIVE_MAX_COUNT = 100"

definition process_and_close_socket :: "(nat \<Rightarrow> turn_env) \<Rightarrow> stream \<Rightarrow> api \<Rightarrow> bool \<times> stream \<times> api" where
  "process_and_close_socket env strm a = serve_loop False CPPHTTPLIB_KEEPALIVE_MAX_COUNT env strm a"

section \<open>A connection only runs handlers\<close>

lemma run_handler_act:
  "run_handler t m req res a = (r, res', a') \<Longrightarrow> a' = api_act (Request t (api_request m req)) a"
  by (auto simp: run_handler_def split: prod.splits sum.splits)

lemma dispatch_act:
  "dispatch_request t m hs req res a = (r, res', a') \<Longrightarrow> a' = a \<or> (\<exists>rq. a' = api_act (Request t rq) a)"
  by (auto simp: dispatch_request_def simp del: api_act.simps dest: run_handler_act split: if_splits)

lemma regular_act:
  "regular_routing t req res a = (r, res', a') \<Longrightarrow> a' = a \<or> (\<exists>rq. a' = api_act (Request t rq) a)"
  by (auto simp: regular_routing_def simp del: api_act.simps dest: dispatch_act split: if_splits)

lemma routing_act:
  "routing t req res strm a = (r, req', res', strm', a') \<Longrightarrow> a' = a \<or> (\<exists>rq. a' = api_act (Request t rq) a)"
  by (auto simp: routing_def Let_def simp del: api_act.simps dest: regular_act split: if_splits prod.splits)

lemma api_run_append: "api_run (xs @ ys) a = api_run ys (api_run xs a)"
  by (simp add: api_run_def)

lemma api_run_Nil [simp]: "api_run [] a = a"
  by (simp add: api_run_def)

lemma process_request_act:
  assumes "process_request env cl strm a = (ok, closed, strm', a')"
  obtains "a' = a" | "a' = api_run (te_others env) a"
    | rq where "a' = api_run (te_others env @ [Request (te_time env) rq]) a"
proof -
  have r: "api_run (te_others env @ [Request (te_time env) rq]) a =
      api_act (Request (te_time env) rq) (api_run (te_others env) a)" for rq
    by (simp add: api_run_def)
  have "a' = a \<or> a' = api_run (te_others env) a \<or>
      (\<exists>rq. a' = api_run (te_others env @ [Request (te_time env) rq]) a)"
    using assms unfolding r
    by (auto simp: process_request_def Let_def simp del: api_act.simps split: if_splits prod.splits sum.splits dest!: routing_act)
  with that show ?thesis by blast
qed

text \<open>
  What one request does to the API: nothing, or the acts of others before its handler, or those
  and then one handler with one request.
\<close>

definition own_turn :: "turn_env \<Rightarrow> api_input list \<Rightarrow> bool" where
  "own_turn env as \<longleftrightarrow> as = [] \<or> as = te_others env \<or> (\<exists>rq. as = te_others env @ [Request (te_time env) rq])"

lemma process_request_turn:
  assumes "process_request env cl strm a = (ok, closed, strm', a')"
  obtains as where "own_turn env as" "a' = api_run as a"
  using process_request_act [OF assms] by (metis own_turn_def api_run_Nil)

lemma no_turn: "\<forall>n. own_turn (env n) []"
  by (simp add: own_turn_def)

lemma serve_loop_acts:
  "serve_loop ret count env strm a = (ok, strm', a') \<Longrightarrow>
     \<exists>k acts. k \<le> count \<and> a' = api_run (concat (map acts (rev [Suc k..<Suc count]))) a \<and>
       (\<forall>n. own_turn (env n) (acts n))"
proof (induction count arbitrary: ret strm a)
  case 0
  then show ?case by (intro exI [of _ 0] exI [of _ "\<lambda>n. []"]) (simp add: own_turn_def)
next
  case (Suc count)
  let ?n = "Suc count"
  let ?none = "\<lambda>n. [] :: api_input list"
  show ?case
  proof (cases "keep_alive strm")
    case False
    with Suc.prems show ?thesis by (intro exI [of _ ?n] exI [of _ ?none]) (auto simp: no_turn)
  next
    case True
    obtain ok1 closed strm1 a1 where p: "process_request (env ?n) (count = 0) strm a = (ok1, closed, strm1, a1)"
      by (metis prod_cases4)
    then obtain as where t: "own_turn (env ?n) as" "a1 = api_run as a" by (rule process_request_turn)
    show ?thesis
    proof (cases "\<not> ok1 \<or> closed")
      case True
      with \<open>keep_alive strm\<close> Suc.prems p have "a' = a1" by (auto simp: Let_def)
      with t show ?thesis by (intro exI [of _ count] exI [of _ "?none(?n := as)"]) (auto simp: no_turn [rule_format])
    next
      case False
      with \<open>keep_alive strm\<close> Suc.prems p obtain s2 where "serve_loop ok1 count env s2 a1 = (ok, strm', a')"
        by (auto simp: Let_def)
      from Suc.IH [OF this] obtain k acts where ts: "k \<le> count" "\<And>n. own_turn (env n) (acts n)"
          "a' = api_run (concat (map acts (rev [Suc k..<?n]))) a1"
        by blast
      have "rev [Suc k..<Suc ?n] = ?n # rev [Suc k..<?n]" using ts(1) by simp
      then have "map (acts(?n := as)) (rev [Suc k..<Suc ?n]) = as # map acts (rev [Suc k..<?n])"
        by (simp only: list.map fun_upd_same) simp
      then have "a' = api_run (concat (map (acts(?n := as)) (rev [Suc k..<Suc ?n]))) a"
        using t(2) ts(3) by (simp only: concat.simps api_run_append)
      moreover have "k \<le> ?n" "\<forall>n. own_turn (env n) ((acts(?n := as)) n)" using t(1) ts(1,2) by simp_all
      ultimately show ?thesis by blast
    qed
  qed
qed

lemma connection_acts:
  "\<exists>k acts. snd (snd (process_and_close_socket env strm a)) = api_run (concat (map acts (rev [Suc k..<101]))) a \<and>
     (\<forall>n. own_turn (env n) (acts n))"
proof -
  obtain ok strm' a' where "process_and_close_socket env strm a = (ok, strm', a')" by (metis prod_cases3)
  with serve_loop_acts [of False CPPHTTPLIB_KEEPALIVE_MAX_COUNT env strm a ok strm' a'] show ?thesis
    by (auto simp: process_and_close_socket_def CPPHTTPLIB_KEEPALIVE_MAX_COUNT_def)
qed

text \<open>Whatever bytes a client sends, the state that the program reports stays consistent.\<close>

lemma api_run_ok: "api_ok a \<Longrightarrow> api_ok (api_run ins a)"
  using api_inv.run_inv [of a ins] by (simp add: api_run_def)

lemma connection_keeps_state:
  "api_ok (snd (snd (process_and_close_socket env strm (api_run ins (boot t0 t configured)))))"
proof -
  obtain acts where "snd (snd (process_and_close_socket env strm (api_run ins (boot t0 t configured)))) =
      api_run acts (api_run ins (boot t0 t configured))"
    using connection_acts by blast
  then show ?thesis by (simp add: api_run_ok boot_ok)
qed

section \<open>Only valid headers are written\<close>

lemma fill_response_fields [http_simps]: "response_fields_ok res \<Longrightarrow> response_fields_ok (fill_response r res)"
proof -
  have u: "response_fields_ok (res\<lparr>hs_status := s\<rparr>) = response_fields_ok res" for s res
    by (simp add: response_fields_ok_def)
  show "response_fields_ok res \<Longrightarrow> ?thesis"
    by (simp add: fill_response_def http_options_def http_setJsonResponse_def Let_def http_simps u)
qed

lemma status_body_fields [http_simps]:
  "response_fields_ok (res\<lparr>hs_status := s\<rparr>) = response_fields_ok res"
  "response_fields_ok (res\<lparr>hs_body := b\<rparr>) = response_fields_ok res"
  by (simp_all add: response_fields_ok_def)

lemma error_handler_fields [http_simps]: "response_fields_ok res \<Longrightarrow> response_fields_ok (error_handler res)"
  by (simp add: error_handler_def http_setJsonResponse_def Let_def http_simps)

lemma erase_first_subset: "set (erase_first k hs) \<subseteq> set hs"
  unfolding erase_first_def by (auto dest: set_takeWhileD) (metis list.set_sel(2) list.sel(2) set_dropWhileD)

lemma apply_ranges_fields [http_simps]: "response_fields_ok res \<Longrightarrow> response_fields_ok (apply_ranges b rs res)"
proof -
  assume ok: "response_fields_ok res"
  then have "response_fields_ok (res\<lparr>hs_headers := erase_first k (hs_headers res)\<rparr>)" for k
    using erase_first_subset [of k "hs_headers res"] by (auto simp: response_fields_ok_def list_all_iff)
  with ok show ?thesis by (auto simp: apply_ranges_def Let_def http_simps split: prod.splits)
qed

lemma finish_headers_fields [http_simps]: "response_fields_ok res \<Longrightarrow> response_fields_ok (finish_headers c req res)"
  by (simp add: finish_headers_def Let_def http_simps)

lemma final_response_fields: "response_fields_ok res \<Longrightarrow> response_fields_ok (final_response b c req res n)"
  by (simp add: final_response_def Let_def http_simps)

end
