(* ===== verification/Http_Serving.thy ===== *)
theory Http_Serving
  imports Http_Server
begin

text \<open>
  What the server of \<^verbatim>\<open>Http_Server\<close> answers: well-formed requests from their bytes to the bytes
  of the answer, malformed ones, and the requests whose effect and answer differ.
\<close>

section \<open>A JSON request\<close>

text \<open>The fields that a client sends with a JSON body, and the bytes of its request.\<close>

definition json_fields :: "string \<Rightarrow> nat \<Rightarrow> headers" where
  "json_fields host n =
     [(''Host'', host), (''Content-Type'', ''application/json''), (''Content-Length'', show_nat n)]"

definition request_text :: "string \<Rightarrow> string \<Rightarrow> string \<Rightarrow> string \<Rightarrow> string" where
  "request_text m path host body =
     m @ '' '' @ path @ '' HTTP/1.1'' @ crlf @ write_headers (json_fields host (length body)) @ body"

definition host_ok :: "string \<Rightarrow> bool" where
  "host_ok host \<longleftrightarrow> is_field_value host \<and> CHR ''%'' \<notin> set host \<and> length host \<le> 255"

lemma not_prohibited:
  "\<not> is_prohibited_header_name ''Content-Length''" "\<not> is_prohibited_header_name ''Content-Type''"
  "\<not> is_prohibited_header_name ''Connection''" "\<not> is_prohibited_header_name ''Expect''"
  "\<not> is_prohibited_header_name ''Accept''" "\<not> is_prohibited_header_name ''Range''"
  by code_simp+

lemma fields_differ:
  "\<not> ci_equal ''Host'' k \<Longrightarrow> \<not> ci_equal ''Content-Type'' k \<Longrightarrow> \<not> ci_equal ''Content-Length'' k \<Longrightarrow>
     equal_range (rev (json_fields host n)) k = []"
  by (simp add: equal_range_def json_fields_def)

lemma header_value_none: "equal_range hs k = [] \<Longrightarrow> header_value hs k = []"
  by (simp add: header_value_def get_header_value_def)

lemma has_header_none: "equal_range hs k = [] \<Longrightarrow> \<not> has_header hs k"
  by (simp add: has_header_def)

lemma names_differ:
  "\<not> ci_equal ''Host'' ''Connection''" "\<not> ci_equal ''Content-Type'' ''Connection''" "\<not> ci_equal ''Content-Length'' ''Connection''"
  "\<not> ci_equal ''Host'' ''Accept''" "\<not> ci_equal ''Content-Type'' ''Accept''" "\<not> ci_equal ''Content-Length'' ''Accept''"
  "\<not> ci_equal ''Host'' ''Range''" "\<not> ci_equal ''Content-Type'' ''Range''" "\<not> ci_equal ''Content-Length'' ''Range''"
  "\<not> ci_equal ''Host'' ''Expect''" "\<not> ci_equal ''Content-Type'' ''Expect''" "\<not> ci_equal ''Content-Length'' ''Expect''"
  "\<not> ci_equal ''Host'' ''Content-Encoding''" "\<not> ci_equal ''Content-Type'' ''Content-Encoding''"
  "\<not> ci_equal ''Content-Length'' ''Content-Encoding''"
  "\<not> ci_equal ''Host'' ''Transfer-Encoding''" "\<not> ci_equal ''Content-Type'' ''Transfer-Encoding''"
  "\<not> ci_equal ''Content-Length'' ''Transfer-Encoding''"
  "\<not> ci_equal ''Host'' ''Content-Type''" "\<not> ci_equal ''Content-Length'' ''Content-Type''"
  "\<not> ci_equal ''Host'' ''Content-Length''" "\<not> ci_equal ''Content-Type'' ''Content-Length''"
  by code_simp+

lemma json_fields_none:
  assumes "k \<in> {''Connection'', ''Accept'', ''Range'', ''Expect'', ''Content-Encoding'', ''Transfer-Encoding''}"
  shows "header_value (rev (json_fields host n)) k = []" "\<not> has_header (rev (json_fields host n)) k"
proof -
  have "equal_range (rev (json_fields host n)) k = []"
    using assms by (intro fields_differ) (auto simp: names_differ)
  then show "header_value (rev (json_fields host n)) k = []" "\<not> has_header (rev (json_fields host n)) k"
    by (simp_all add: header_value_none has_header_none)
qed

lemma json_fields_type: "header_value (rev (json_fields host n)) ''Content-Type'' = ''application/json''"
proof -
  have "c_str ''application/json'' = ''application/json''" by code_simp
  then show ?thesis
    by (simp add: header_value_def get_header_value_def not_prohibited equal_range_def json_fields_def names_differ)
qed

lemma json_fields_length:
  "has_header (rev (json_fields host n)) ''Content-Length''"
  "n \<le> SIZE_MAX \<Longrightarrow> get_header_value_u64 (rev (json_fields host n)) ''Content-Length'' d 0 = (n, False)"
proof -
  have e: "equal_range (rev (json_fields host n)) ''Content-Length'' = [(''Content-Length'', show_nat n)]"
    by (simp add: equal_range_def json_fields_def names_differ)
  then show "has_header (rev (json_fields host n)) ''Content-Length''"
    by (simp add: has_header_def not_prohibited)
  have "is_numeric (show_nat n)"
    by (auto simp: is_numeric_def list_all_iff show_nat_nonempty show_nat_digits)
  then show "n \<le> SIZE_MAX \<Longrightarrow> get_header_value_u64 (rev (json_fields host n)) ''Content-Length'' d 0 = (n, False)"
    by (simp add: get_header_value_u64_def e digits_value_show)
qed

lemma show_nat_length: "n < 10 ^ k \<Longrightarrow> 0 < k \<Longrightarrow> length (show_nat n) \<le> k"
proof (induction k arbitrary: n)
  case (Suc k)
  show ?case
  proof (cases "n < 10")
    case True
    then show ?thesis by (subst show_nat.simps) simp
  next
    case False
    with Suc.prems have "0 < k" by (cases k) auto
    moreover have "n div 10 < 10 ^ k" using Suc.prems by (simp add: less_mult_imp_div_less mult.commute)
    ultimately have "length (show_nat (n div 10)) \<le> k" by (intro Suc.IH)
    with False show ?thesis by (subst show_nat.simps) simp
  qed
qed simp

lemma digits_field_value: "s \<noteq> [] \<Longrightarrow> list_all is_digit s \<Longrightarrow> is_field_value s \<and> CHR ''%'' \<notin> set s"
proof -
  assume s: "s \<noteq> []" "list_all is_digit s"
  have v: "is_digit c \<Longrightarrow> is_field_vchar c" for c by (simp add: is_digit_def is_field_vchar_def is_vchar_def)
  consider a where "s = [a]" | a b where "s = [a, b]" | a m z where "s = a # m @ [z]" "m \<noteq> []"
    using s(1) by (cases s; cases "tl s" rule: rev_cases) auto
  then have "is_field_content s"
  proof cases
    case (3 a m z)
    have "list_all (\<lambda>c. c = CHR '' '' \<or> code c = 9 \<or> is_field_vchar c) m" using s(2) v by (auto simp: 3 list_all_iff)
    with s(2) v show ?thesis by (simp add: 3(1) field_content_long [OF 3(2)])
  qed (use s(2) v in \<open>auto simp: is_field_content_def\<close>)
  moreover have "\<not> is_digit (CHR ''%'')" by code_simp
  ultimately show ?thesis using s(2) by (auto simp: is_field_value_def list_all_iff)
qed

lemma json_fields_sendable:
  assumes "host_ok host" "n < 10 ^ 20"
  shows "fields_sendable (json_fields host n)"
proof -
  have "is_field_name ''Host''" "is_field_name ''Content-Type''" "is_field_name ''Content-Length''"
    "is_field_value ''application/json''" by code_simp+
  moreover have "is_field_value (show_nat n) \<and> CHR ''%'' \<notin> set (show_nat n)"
    by (rule digits_field_value) (auto simp: show_nat_nonempty list_all_iff show_nat_digits)
  moreover have "length (show_nat n) \<le> 20" using assms(2) by (intro show_nat_length) simp_all
  ultimately show ?thesis
    using assms(1)
    by (simp add: fields_sendable_def json_fields_def field_ok_def host_ok_def CPPHTTPLIB_HEADER_MAX_COUNT_def
      CPPHTTPLIB_HEADER_MAX_LENGTH_def)
qed

text \<open>The head of a request is read to its end.\<close>

lemma written_request_head:
  assumes "m \<in> set http_methods" "target_ok path" "length path \<le> CPPHTTPLIB_REQUEST_URI_MAX_LENGTH"
    and "fields_sendable hs" "st_in strm = m @ '' '' @ path @ '' HTTP/1.1'' @ crlf @ write_headers hs @ rest"
  obtains lr strm1 where "getline strm (stream_line_reader 2048) = (True, strm1, lr)"
    "parse_request_line (line_text lr) Http_Request =
       (True, Http_Request\<lparr>hr_method := m, hr_target := path, hr_version := ''HTTP/1.1'',
               hr_path := decode_path_component (fst (divide path (CHR ''?''))),
               hr_params := parse_query_text (snd (divide path (CHR ''?''))) []\<rparr>)"
    "read_headers strm1 [] = (True, strm\<lparr>st_in := rest\<rparr>, rev hs)"
proof -
  let ?l = "m @ '' '' @ path @ '' HTTP/1.1''"
  let ?r = "write_headers hs @ rest"
  have m: "list_all is_vchar m" "length m \<le> 7"
    using http_methods_dense [OF assms(1)] assms(1) by (auto simp: http_methods_def)
  have p: "list_all is_vchar path" using assms(2) by (auto simp: target_ok_def list_all_iff)
  have v: "list_all is_vchar ''HTTP/1.1''" by code_simp
  have nl: "code c \<noteq> 10" if "is_vchar c" for c using that by (auto simp: is_vchar_def)
  have sp: "code (CHR '' '') \<noteq> 10" by code_simp
  have "\<forall>c \<in> set ?l. code c \<noteq> 10"
    using m(1) p v nl sp by (simp only: set_append list_all_iff) auto
  moreover have "length ?l + 1 < CPPHTTPLIB_MAX_LINE_LENGTH"
    using m(2) assms(3) by (simp add: CPPHTTPLIB_MAX_LINE_LENGTH_def CPPHTTPLIB_REQUEST_URI_MAX_LENGTH_def)
  moreover have "st_in strm = ?l @ crlf @ ?r" by (simp add: assms(5))
  ultimately obtain lr where g: "getline strm (stream_line_reader 2048) = (True, strm\<lparr>st_in := ?r\<rparr>, lr)"
      "line_text lr = ?l @ crlf"
    by (rule getline_line)
  have h: "read_headers (strm\<lparr>st_in := ?r\<rparr>) [] = (True, (strm\<lparr>st_in := ?r\<rparr>)\<lparr>st_in := rest\<rparr>, rev hs)"
    by (rule headers_read_back [OF assms(4)]) simp
  have "line_text lr = m @ '' '' @ path @ '' HTTP/1.1'' @ crlf" by (simp add: g(2))
  then have "parse_request_line (line_text lr) Http_Request =
      (True, Http_Request\<lparr>hr_method := m, hr_target := path, hr_version := ''HTTP/1.1'',
               hr_path := decode_path_component (fst (divide path (CHR ''?''))),
               hr_params := parse_query_text (snd (divide path (CHR ''?''))) []\<rparr>)"
    using parse_request_line_written [OF assms(1,2), of Http_Request] by (simp add: Http_Request_def)
  with g(1) h show ?thesis by (intro that [of "strm\<lparr>st_in := ?r\<rparr>" lr]) simp_all
qed

lemma request_head:
  assumes "m \<in> set http_methods" "target_ok path" "length path \<le> CPPHTTPLIB_REQUEST_URI_MAX_LENGTH"
    and "host_ok host" "length body < 10 ^ 20" "st_in strm = request_text m path host body @ rest"
  obtains lr strm1 where "getline strm (stream_line_reader 2048) = (True, strm1, lr)"
    "parse_request_line (line_text lr) Http_Request =
       (True, Http_Request\<lparr>hr_method := m, hr_target := path, hr_version := ''HTTP/1.1'',
               hr_path := decode_path_component (fst (divide path (CHR ''?''))),
               hr_params := parse_query_text (snd (divide path (CHR ''?''))) []\<rparr>)"
    "read_headers strm1 [] = (True, strm\<lparr>st_in := body @ rest\<rparr>, rev (json_fields host (length body)))"
proof -
  have "st_in strm = m @ '' '' @ path @ '' HTTP/1.1'' @ crlf @ write_headers (json_fields host (length body)) @ body @ rest"
    by (simp add: assms(6) request_text_def)
  from written_request_head [OF assms(1-3) json_fields_sendable [OF assms(4,5)] this] that show ?thesis by blast
qed

text \<open>Reading the JSON body.\<close>

lemma json_not_form:
  "extract_media_type ''application/json'' = (''application/json'', Map.empty)"
proof -
  have "find_char (CHR '';'') 0 ''application/json'' = None" "trim_copy ''application/json'' = ''application/json''"
    by code_simp+
  then show ?thesis by (simp add: extract_media_type_def)
qed

text \<open>What the server looks up in the table of a JSON request.\<close>

definition json_table :: "headers \<Rightarrow> nat \<Rightarrow> bool" where
  "json_table hs n \<longleftrightarrow>
     header_value hs ''Content-Type'' = ''application/json'' \<and> has_header hs ''Content-Length'' \<and>
     get_header_value_u64 hs ''Content-Length'' SIZE_MAX 0 = (n, False) \<and>
     header_value hs ''Transfer-Encoding'' = [] \<and> header_value hs ''Content-Encoding'' = [] \<and>
     header_value hs ''Expect'' = [] \<and> \<not> has_header hs ''Range''"

lemma json_fields_table: "n \<le> SIZE_MAX \<Longrightarrow> json_table (rev (json_fields host n)) n"
  by (simp add: json_table_def json_fields_type json_fields_length json_fields_none)

lemma read_json_body:
  assumes "json_table (hr_headers req) (length body)" "hr_body req = []"
    and "length body \<le> m" "m < SIZE_MAX" "st_in strm = body @ rest"
  shows "read_content m strm req status = ((True, status), req\<lparr>hr_body := body\<rparr>, strm\<lparr>st_in := rest\<rparr>, no_items)"
proof -
  note tbl = assms(1) [unfolded json_table_def]
  have nm: "\<not> is_multipart_form_data (hr_headers req)"
    by (simp add: is_multipart_form_data_def tbl json_not_form)
  have nb: "parse_multipart_boundary (header_value (hr_headers req) ''Content-Type'') = None"
    by (simp add: parse_multipart_boundary_def tbl json_not_form)
  have nc: "\<not> is_chunked_transfer_encoding (hr_headers req)"
    by (simp add: is_chunked_transfer_encoding_def tbl ci_equal_def)
  have nu: "\<not> unsupported_encoding (hr_headers req)" by (simp add: unsupported_encoding_def tbl)
  have l: "get_header_value_u64 (hr_headers req) ''Content-Length'' SIZE_MAX 0 = (length body, False)"
    by (simp add: tbl)
  have h: "has_header (hr_headers req) ''Content-Length''" by (simp add: tbl)
  have z: "no_body\<lparr>bs_body := hr_body req\<rparr> = no_body" by (simp add: assms(2) no_body_def)
  have d: "detail_read_content strm req m status (body_receiver m) no_body =
      ((True, status), req, strm\<lparr>st_in := rest\<rparr>, no_body\<lparr>bs_body := body\<rparr>)"
  proof (cases "body = []")
    case True
    with assms(5) have "strm\<lparr>st_in := rest\<rparr> = strm" by simp
    with True show ?thesis
      by (simp add: detail_read_content_def Let_def nu nc l h no_body_def)
  next
    case False
    then show ?thesis
      using with_length_reads_all [OF assms(5,3)]
      by (simp add: detail_read_content_def Let_def nu nc l h content_status_def)
  qed
  have "read_content_core m strm req status no_body =
      ((True, status), req, strm\<lparr>st_in := rest\<rparr>, no_body\<lparr>bs_body := body\<rparr>)"
    by (simp add: read_content_core_def Let_def nm nb nc d h)
  then show ?thesis
    by (simp add: read_content_def z Let_def tbl json_not_form) (simp add: no_body_def)
qed

section \<open>The answer of a handler\<close>

lemma setJson_parts [simp]:
  "rs_status (setJsonResponse b s) = s" "rs_body (setJsonResponse b s) = b" "setJsonResponse b s \<noteq> handle_options"
  by (simp_all add: setJsonResponse_def handle_options_def cors_headers_def)

definition post_answer :: "response \<Rightarrow> bool" where
  "post_answer r \<longleftrightarrow> (\<exists>b s. r = setJsonResponse b s \<and> b \<noteq> [] \<and> (s = 200 \<or> s = 400))"

lemma post_answer_json: "b \<noteq> [] \<Longrightarrow> s = 200 \<or> s = 400 \<Longrightarrow> post_answer (setJsonResponse b s)"
  by (auto simp: post_answer_def)

lemma post_answer_reply: "post_answer (reply t msg a)"
  unfolding reply_def by (rule post_answer_json) simp_all

lemma handlers_answer:
  "post_answer (snd (handle_arm t a))" "post_answer (snd (handle_disarm t a))"
  "post_answer (snd (handle_lock t a))" "post_answer (snd (handle_unlock t a))"
  "post_answer (snd (handle_authorize t body a))" "post_answer (snd (handle_door_open t a))"
  "post_answer (snd (handle_door_close t a))" "post_answer (snd (handle_trigger t body a))"
  "post_answer (snd (handle_clear t a))" "post_answer (snd (handle_devices t body a))"
  "post_answer (snd (handle_email_test a))"
  by (simp_all add: handle_arm_def handle_disarm_def handle_lock_def handle_unlock_def handle_authorize_def
    handle_door_open_def handle_door_close_def handle_trigger_def handle_clear_def handle_devices_def
    handle_email_test_def Let_def case_prod_beta post_answer_reply post_answer_json)

text \<open>Every \<^verbatim>\<open>POST\<close> handler answers, with a body and with status 200 or 400.\<close>

lemma post_handlers_answer:
  assumes "rq_method rq = ''POST''" "rq_path rq \<in> set post_handlers"
  obtains b s where "handle_request t rq a = (fst (handle_request t rq a), Inr (setJsonResponse b s))"
    "b \<noteq> []" "s = 200 \<or> s = 400"
proof -
  have "\<exists>r. snd (handle_request t rq a) = Inr r \<and> post_answer r"
    using assms unfolding post_handlers_def set_simps insert_iff empty_iff
    by (elim disjE) (simp_all add: handle_request_def Let_def case_prod_beta handlers_answer)
  then show ?thesis using that by (metis post_answer_def prod.collapse)
qed

definition json_headers :: headers where
  "json_headers =
     [(''Content-Type'', ''application/json''), (''Access-Control-Allow-Methods'', ''GET, POST, OPTIONS''),
      (''Access-Control-Allow-Headers'', ''Content-Type''), (''Access-Control-Allow-Origin'', ''*'')]"

lemma json_response:
  "http_setJsonResponse b s Http_Response = \<lparr>hs_status = s, hs_headers = json_headers, hs_body = b\<rparr>"
proof -
  have "is_field_name ''Content-Type''" "is_field_name ''Access-Control-Allow-Methods''"
    "is_field_name ''Access-Control-Allow-Headers''" "is_field_name ''Access-Control-Allow-Origin''"
    "is_field_value ''application/json''" "is_field_value ''GET, POST, OPTIONS''" "is_field_value ''Content-Type''"
    "is_field_value ''*''"
    "\<not> ci_equal ''Access-Control-Allow-Methods'' ''Content-Type''"
    "\<not> ci_equal ''Access-Control-Allow-Headers'' ''Content-Type''"
    "\<not> ci_equal ''Access-Control-Allow-Origin'' ''Content-Type''"
    by code_simp+
  then show ?thesis
    by (simp add: http_setJsonResponse_def set_header_def set_content_def header_emplace_def Http_Response_def
      json_headers_def Let_def)
qed

definition connection_header :: "bool \<Rightarrow> string \<times> string" where
  "connection_header close = (if close then (''Connection'', ''close'') else (''Keep-Alive'', ''timeout=5, max=100''))"

definition json_answer :: "bool \<Rightarrow> int \<Rightarrow> string \<Rightarrow> http_response" where
  "json_answer close s b =
     \<lparr>hs_status = s,
      hs_headers = connection_header (close \<or> 400 \<le> s) # (''Content-Length'', show_nat (length b)) # json_headers,
      hs_body = b\<rparr>"

lemma show_nat_field: "is_field_value (show_nat n)"
  by (rule digits_field_value [THEN conjunct1]) (auto simp: show_nat_nonempty list_all_iff show_nat_digits)

lemma answer_names:
  "is_field_name ''Content-Length''" "is_field_name ''Connection''" "is_field_name ''Keep-Alive''"
  "is_field_value ''close''" "is_field_value ''timeout=5, max=100''"
  by code_simp+

lemma keep_alive_text: "''timeout='' @ show_nat 5 @ '', max='' @ show_nat 100 = ''timeout=5, max=100''"
  by (simp add: show_nat.simps digit_def)

lemma set_header_valid:
  "is_field_name k \<Longrightarrow> is_field_value v \<Longrightarrow> set_header k v res = res\<lparr>hs_headers := (k, v) # hs_headers res\<rparr>"
  by (simp add: set_header_def header_emplace_def)

lemma has_header_member: "(k, v) \<in> set (hs_headers res) \<Longrightarrow> res_has_header res k"
  by (force simp: res_has_header_def equal_range_def filter_empty_conv)

lemma json_final:
  assumes "hr_ranges req = []" "b \<noteq> []" "s \<noteq> 404" "hr_method req \<noteq> ''HEAD''"
  shows "final_response bd cl req (http_setJsonResponse b s Http_Response) True =
    json_answer (cl \<or> header_value (hr_headers req) ''Connection'' = ''close'') s b"
proof -
  have e: "error_handler (http_setJsonResponse b s Http_Response) = http_setJsonResponse b s Http_Response"
    using assms(3) by (simp add: error_handler_def json_response)
  have a: "apply_ranges bd (hr_ranges req) (http_setJsonResponse b s Http_Response) =
      \<lparr>hs_status = s, hs_headers = (''Content-Length'', show_nat (length b)) # json_headers, hs_body = b\<rparr>"
    using assms(1,2)
    by (simp add: apply_ranges_def json_response Let_def set_header_def header_emplace_def answer_names show_nat_field)
  let ?r = "\<lparr>hs_status = s, hs_headers = (''Content-Length'', show_nat (length b)) # json_headers, hs_body = b\<rparr>"
  have ct: "res_has_header (?r\<lparr>hs_headers := h # hs_headers ?r\<rparr>) ''Content-Type''" for h
    by (rule has_header_member [of _ "''application/json''"]) (simp add: json_headers_def)
  have "finish_headers cl req ?r = json_answer (cl \<or> header_value (hr_headers req) ''Connection'' = ''close'') s b"
    unfolding finish_headers_def Let_def keep_alive_text
    using assms(2,4) ct [of "(''Connection'', ''close'')"] ct [of "(''Keep-Alive'', ''timeout=5, max=100'')"]
    by (simp add: set_header_valid answer_names json_answer_def connection_header_def)
  then show ?thesis unfolding final_response_def Let_def e by (simp add: a)
qed

section \<open>From bytes to bytes\<close>

lemma post_path_ok:
  assumes "path \<in> set post_handlers"
  shows "target_ok path" "length path \<le> CPPHTTPLIB_REQUEST_URI_MAX_LENGTH" "CHR ''?'' \<notin> set path" "CHR ''%'' \<notin> set path"
    "list_ex (\<lambda>pattern. regex_match pattern path) post_handlers"
proof -
  have "list_all (\<lambda>p. target_ok p \<and> length p \<le> 100 \<and> CHR ''?'' \<notin> set p \<and> CHR ''%'' \<notin> set p \<and>
      list_ex (\<lambda>pattern. regex_match pattern p) post_handlers) post_handlers"
    by code_simp
  with assms show "target_ok path" "length path \<le> CPPHTTPLIB_REQUEST_URI_MAX_LENGTH" "CHR ''?'' \<notin> set path"
    "CHR ''%'' \<notin> set path" "list_ex (\<lambda>pattern. regex_match pattern path) post_handlers"
    by (auto simp: list_all_iff CPPHTTPLIB_REQUEST_URI_MAX_LENGTH_def)
qed

text \<open>
  The request that the handler sees: the path, and the body that the client sent.
\<close>

definition post_request :: "string \<Rightarrow> string \<Rightarrow> request" where
  "post_request path body = \<lparr>rq_method = ''POST'', rq_path = path, rq_body = body, rq_limit = None\<rparr>"

lemma post_routing:
  assumes "path \<in> set post_handlers" "length body \<le> CPPHTTPLIB_PAYLOAD_MAX_LENGTH"
    and "hr_method req = ''POST''" "hr_path req = path" "hr_params req = []" "hr_body req = []"
    and "json_table (hr_headers req) (length body)" "st_in strm = body @ rest"
    and "handle_request t (post_request path body) a = (a', Inr (setJsonResponse b s))"
  shows "routing t req Http_Response strm a =
    (Routed, req\<lparr>hr_body := body\<rparr>, http_setJsonResponse b s Http_Response, strm\<lparr>st_in := rest\<rparr>, a')"
proof -
  have rd: "read_content CPPHTTPLIB_PAYLOAD_MAX_LENGTH strm req (-1) =
      ((True, -1), req\<lparr>hr_body := body\<rparr>, strm\<lparr>st_in := rest\<rparr>, no_items)"
    by (rule read_json_body [OF assms(7,6,2) _ assms(8)]) (simp add: CPPHTTPLIB_PAYLOAD_MAX_LENGTH_def SIZE_MAX_def)
  have ap: "api_request ''POST'' (req\<lparr>hr_body := body\<rparr>) = post_request path body"
    by (simp add: api_request_def post_request_def assms has_param_def)
  have st: "Http_Response\<lparr>hs_status := -1\<rparr> = Http_Response" "hs_status Http_Response = -1"
    by (simp_all add: Http_Response_def)
  have rg: "regular_routing t (req\<lparr>hr_body := body\<rparr>) Http_Response a =
      (Routed, http_setJsonResponse b s Http_Response, a')"
    using post_path_ok(5) [OF assms(1)]
    by (simp add: regular_routing_def assms(3,4) dispatch_request_def run_handler_def ap assms(9) fill_response_def)
  have "expect_content req" by (simp add: expect_content_def assms(3))
  then show ?thesis unfolding routing_def by (simp add: rd st rg Let_def)
qed

text \<open>A request whose head has been read, whatever the order and the number of its fields.\<close>

lemma post_served_table:
  assumes "path \<in> set post_handlers" "length body \<le> CPPHTTPLIB_PAYLOAD_MAX_LENGTH"
    and "getline strm (stream_line_reader 2048) = (True, strm1, lr)"
    and "parse_request_line (line_text lr) Http_Request =
       (True, Http_Request\<lparr>hr_method := ''POST'', hr_target := path, hr_version := ''HTTP/1.1'',
               hr_path := decode_path_component (fst (divide path (CHR ''?''))),
               hr_params := parse_query_text (snd (divide path (CHR ''?''))) []\<rparr>)"
    and "read_headers strm1 [] = (True, strm\<lparr>st_in := body @ rest\<rparr>, hs)"
    and "json_table hs (length body)"
    and "\<not> has_header hs ''Accept'' \<or> parse_accept_header (te_quality_ok env) (header_value hs ''Accept'')"
    and "closes = (header_value hs ''Connection'' = ''close'')"
  shows "\<exists>b s. let a1 = api_run (te_others env) a; rq = post_request path body in
    b \<noteq> [] \<and> (s = 200 \<or> s = 400) \<and>
    snd (handle_request (te_time env) rq a1) = Inr (setJsonResponse b s) \<and>
    process_request env close strm a =
      (True, closes,
       strm\<lparr>st_in := rest, st_pending := te_pending env,
            st_out := st_out strm @ response_text (te_arrange env) ''POST'' (json_answer (close \<or> closes) s b)\<rparr>,
       fst (handle_request (te_time env) rq a1))"
proof -
  let ?a1 = "api_run (te_others env) a"
  let ?rq = "post_request path body"
  note p = post_path_ok [OF assms(1)]
  note tbl = assms(6) [unfolded json_table_def]
  obtain b s where h: "handle_request (te_time env) ?rq ?a1 = (fst (handle_request (te_time env) ?rq ?a1), Inr (setJsonResponse b s))"
      "b \<noteq> []" "s = 200 \<or> s = 400"
    using post_handlers_answer [of ?rq "te_time env" ?a1] assms(1) by (auto simp: post_request_def)
  have q: "parse_query_text [] [] = []" by (simp add: parse_query_text_def split_def split_part_def trim_def)
  let ?req = "Http_Request\<lparr>hr_method := ''POST'', hr_target := path, hr_version := ''HTTP/1.1'', hr_path := path,
     hr_params := [], hr_headers := hs\<rparr>"
  have pr: "parse_request_line (line_text lr) Http_Request =
       (True, Http_Request\<lparr>hr_method := ''POST'', hr_target := path, hr_version := ''HTTP/1.1'', hr_path := path,
               hr_params := []\<rparr>)"
    by (simp add: assms(4) divide_none [OF p(3)] decode_path_plain [OF p(4)] q)
  have ck: "check_request env ?req = Inr ?req"
    using p(2) assms(7) by (auto simp: check_request_def Let_def tbl)
  have wc: "wants_close ?req = closes" by (simp add: wants_close_def assms(8))
  let ?strm = "strm\<lparr>st_in := body @ rest, st_pending := te_pending env\<rparr>"
  have rt: "routing (te_time env) ?req Http_Response ?strm ?a1 =
      (Routed, ?req\<lparr>hr_body := body\<rparr>, http_setJsonResponse b s Http_Response, ?strm\<lparr>st_in := rest\<rparr>,
       fst (handle_request (te_time env) ?rq ?a1))"
    by (rule post_routing [OF assms(1,2)]) (simp_all add: Http_Request_def h(1) [symmetric] assms(6))
  have fin: "final_response (te_boundary env) close (?req\<lparr>hr_body := body\<rparr>) (http_setJsonResponse b s Http_Response) True
      = json_answer (close \<or> closes) s b"
    using h(2,3) json_final [of "?req\<lparr>hr_body := body\<rparr>" b s "te_boundary env" close]
    by (auto simp: Http_Request_def assms(8))
  have an: "answer_request env close Routed (?req\<lparr>hr_body := body\<rparr>) (http_setJsonResponse b s Http_Response) (?strm\<lparr>st_in := rest\<rparr>)
      = strm\<lparr>st_in := rest, st_pending := te_pending env,
            st_out := st_out strm @ response_text (te_arrange env) ''POST'' (json_answer (close \<or> closes) s b)\<rparr>"
  proof -
    have "hs_status (http_setJsonResponse b s Http_Response) \<noteq> -1" using h(3) by (auto simp: json_response)
    moreover have "range_error (hr_ranges (?req\<lparr>hr_body := body\<rparr>)) x y = (False, [])" for x y
      by (simp add: range_error_def Http_Request_def)
    moreover have "?req\<lparr>hr_body := body, hr_ranges := []\<rparr> = ?req\<lparr>hr_body := body\<rparr>" by (simp add: Http_Request_def)
    ultimately show ?thesis
      by (simp add: answer_request_def Let_def write_response_with_content_def write_response_core_def write_stream_def fin)
  qed
  have "process_request env close strm a =
      (True, closes, answer_request env close Routed (?req\<lparr>hr_body := body\<rparr>) (http_setJsonResponse b s Http_Response)
         (?strm\<lparr>st_in := rest\<rparr>), fst (handle_request (te_time env) ?rq ?a1))"
    using wc by (simp add: process_request_def assms(3,5) pr ck rt tbl Let_def Http_Request_def [THEN arg_cong, of hr_headers])
  with an h show ?thesis by (metis snd_conv)
qed

lemma post_served:
  assumes "path \<in> set post_handlers" "host_ok host" "length body \<le> CPPHTTPLIB_PAYLOAD_MAX_LENGTH"
    and "st_in strm = request_text ''POST'' path host body @ rest"
  shows "\<exists>b s. let a1 = api_run (te_others env) a; rq = post_request path body in
    snd (handle_request (te_time env) rq a1) = Inr (setJsonResponse b s) \<and>
    process_request env close strm a =
      (True, False,
       strm\<lparr>st_in := rest, st_pending := te_pending env,
            st_out := st_out strm @ response_text (te_arrange env) ''POST'' (json_answer close s b)\<rparr>,
       fst (handle_request (te_time env) rq a1))"
proof -
  note p = post_path_ok [OF assms(1)]
  note none = json_fields_none [of _ host "length body"]
  have bl: "length body < 10 ^ 20" "length body \<le> SIZE_MAX"
    using assms(3) by (simp_all add: CPPHTTPLIB_PAYLOAD_MAX_LENGTH_def SIZE_MAX_def)
  have "''POST'' \<in> set http_methods" by (simp add: http_methods_def)
  from request_head [OF this p(1,2) assms(2) bl(1) assms(4)] obtain lr strm1 where
    "getline strm (stream_line_reader 2048) = (True, strm1, lr)"
    "parse_request_line (line_text lr) Http_Request =
       (True, Http_Request\<lparr>hr_method := ''POST'', hr_target := path, hr_version := ''HTTP/1.1'',
               hr_path := decode_path_component (fst (divide path (CHR ''?''))),
               hr_params := parse_query_text (snd (divide path (CHR ''?''))) []\<rparr>)"
    "read_headers strm1 [] = (True, strm\<lparr>st_in := body @ rest\<rparr>, rev (json_fields host (length body)))" .
  from post_served_table [OF assms(1,3) this json_fields_table [OF bl(2)] _ refl, where env = env and a = a and close = close] show ?thesis
    by (simp add: none Let_def) blast
qed

section \<open>Requests that are refused\<close>

definition refusal :: "turn_env \<Rightarrow> bool \<Rightarrow> http_request \<Rightarrow> int \<Rightarrow> http_response" where
  "refusal env close req status =
     final_response (te_boundary env) close (req\<lparr>hr_ranges := []\<rparr>) (Http_Response\<lparr>hs_status := status\<rparr>) False"

lemma refusal_status:
  assumes "400 \<le> status" "status \<noteq> 404"
  shows "hs_status (refusal env close req status) = status" "hs_body (refusal env close req status) = []"
    "(''Connection'', ''close'') \<in> set (hs_headers (refusal env close req status))"
proof -
  have s: "hs_status (set_header k v res) = hs_status res" "hs_body (set_header k v res) = hs_body res"
    "h \<in> set (hs_headers res) \<Longrightarrow> h \<in> set (hs_headers (set_header k v res))" for k v res h
    by (auto simp: set_header_def header_emplace_def)
  let ?r = "Http_Response\<lparr>hs_status := status\<rparr>"
  let ?c = "set_header ''Connection'' ''close'' ?r"
  have e: "error_handler ?r = ?r" "apply_ranges b [] ?r = ?r" for b
    using assms(2) by (simp_all add: error_handler_def apply_ranges_def Http_Response_def)
  have f: "refusal env close req status = finish_headers close (req\<lparr>hr_ranges := []\<rparr>) ?r"
    using assms(1) by (simp add: refusal_def final_response_def Let_def e)
  have b: "hs_body ?c = []" "hs_status ?c = status" by (simp_all add: s) (simp add: Http_Response_def)
  have m: "(''Connection'', ''close'') \<in> set (hs_headers ?c)" by (simp add: set_header_valid answer_names)
  show "hs_status (refusal env close req status) = status" "hs_body (refusal env close req status) = []"
    "(''Connection'', ''close'') \<in> set (hs_headers (refusal env close req status))"
    unfolding f finish_headers_def Let_def using assms(1) b m by (auto simp: s(1,2) intro: s(3))
qed

text \<open>
  A request line or a header that does not parse is answered 400, and nothing else happens. The
  answer says that the connection is closed, but the caller is told to go on.
\<close>

lemma bad_line_refused:
  assumes "getline strm (stream_line_reader 2048) = (True, strm1, lr)"
    and "parse_request_line (line_text lr) Http_Request = (False, req)"
  shows "process_request env close strm a =
    (True, False, write_stream (response_text (te_arrange env) (hr_method req) (refusal env close req 400)) strm1, a)"
  using assms by (simp add: process_request_def write_response_def write_response_core_def refusal_def)

lemma bad_headers_refused:
  assumes "getline strm (stream_line_reader 2048) = (True, strm1, lr)"
    and "parse_request_line (line_text lr) Http_Request = (True, req)" "read_headers strm1 (hr_headers req) = (False, strm2, hs)"
  shows "process_request env close strm a =
    (True, False, write_stream (response_text (te_arrange env) (hr_method req)
       (refusal env close (req\<lparr>hr_headers := hs\<rparr>) 400)) strm2, a)"
  using assms by (simp add: process_request_def write_response_def write_response_core_def refusal_def Let_def)

text \<open>
  The bytes behind a line that was refused are taken as the next request: a \<^verbatim>\<open>POST\<close> among
  them runs, although the refusal announced the end of the connection.
\<close>

lemma request_after_refusal:
  assumes "\<forall>c \<in> set g. code c \<noteq> 10" "length g + 1 < CPPHTTPLIB_MAX_LINE_LENGTH"
    and "\<not> fst (parse_request_line (g @ crlf) Http_Request)"
    and "st_in strm = g @ crlf @ request_text ''POST'' path host body"
    and "path \<in> set post_handlers" "host_ok host" "length body \<le> CPPHTTPLIB_PAYLOAD_MAX_LENGTH"
    and "te_dropped (env 2) = 0" "te_others (env 1) = []"
  shows "snd (snd (serve_loop False 2 env strm a)) = fst (handle_request (te_time (env 1)) (post_request path body) a)"
proof -
  obtain lr where g: "getline strm (stream_line_reader 2048) =
      (True, strm\<lparr>st_in := request_text ''POST'' path host body\<rparr>, lr)" "line_text lr = g @ crlf"
    using getline_line [OF assms(1,2,4)] by blast
  obtain req where "parse_request_line (line_text lr) Http_Request = (False, req)"
    using assms(3) by (cases "parse_request_line (line_text lr) Http_Request") (simp add: g(2))
  note bad = bad_line_refused [OF g(1) this, where env = "env 2" and close = False and a = a]
  have ne: "st_in strm \<noteq> []" using assms(4) by simp
  let ?s = "write_stream (response_text (te_arrange (env 2)) (hr_method req) (refusal (env 2) False req 400))
     (strm\<lparr>st_in := request_text ''POST'' path host body\<rparr>)"
  have s: "st_in ?s = request_text ''POST'' path host body @ []" by (simp add: write_stream_def)
  obtain st' where p: "process_request (env 1) True ?s a =
      (True, False, st', fst (handle_request (te_time (env 1)) (post_request path body) a))"
    using post_served [OF assms(5-7) s, where env = "env 1" and close = True and a = a] by (auto simp: Let_def assms(9) [simplified])
  have "serve_loop False 2 env strm a = serve_loop True 1 env ?s a"
    using bad ne assms(8) by (simp add: numeral_2_eq_2 keep_alive_def write_stream_def)
  also have "\<dots> = (True, st'\<lparr>st_in := drop (te_dropped (env 1)) (st_in st')\<rparr>,
      fst (handle_request (te_time (env 1)) (post_request path body) a))"
    using p s by (simp add: keep_alive_def request_text_def)
  finally show ?thesis by simp
qed

section \<open>A query that the handler rejects\<close>

text \<open>
  A \<^verbatim>\<open>limit\<close> that \<^verbatim>\<open>std::stoul\<close> does not take is an exception of the handler, which the server
  answers with status 500; the program's state is as it was.
\<close>

lemma limit_target:
  "target_ok (''/api/logs'' @ ''?'' @ params_to_query_str ps)"
  "divide (''/api/logs'' @ ''?'' @ params_to_query_str ps) (CHR ''?'') = (''/api/logs'', params_to_query_str ps)"
  "parse_query_text (params_to_query_str [(''limit'', v)]) [] = [(''limit'', v)]"
proof -
  have "target_ok ''/api/logs''" by code_simp
  then show "target_ok (''/api/logs'' @ ''?'' @ params_to_query_str ps)" by (rule query_target_ok)
  have "CHR ''?'' \<notin> set ''/api/logs''" by code_simp
  from divide_cut [OF this]
  show "divide (''/api/logs'' @ ''?'' @ params_to_query_str ps) (CHR ''?'') = (''/api/logs'', params_to_query_str ps)"
    by simp
  show "parse_query_text (params_to_query_str [(''limit'', v)]) [] = [(''limit'', v)]"
    by (rule query_string_read_back) (simp_all add: params_sorted_def)
qed

lemma logs_path:
  "decode_path_component ''/api/logs'' = ''/api/logs''"
  "list_ex (\<lambda>pattern. regex_match pattern ''/api/logs'') get_handlers"
  by code_simp+

lemma limit_routing:
  assumes "stoul v = Inl e" "hr_method req = ''GET''" "hr_path req = ''/api/logs''" "hr_params req = [(''limit'', v)]"
    and "hr_headers req = rev (json_fields host 0)"
  shows "routing t req Http_Response strm a = (Thrown, req, Http_Response, strm, a)"
proof -
  note none = json_fields_none [of _ host 0]
  have "get_header_value_u64 (hr_headers req) ''Content-Length'' 0 0 = (0, False)"
    by (simp add: assms(5) json_fields_length)
  then have "\<not> expect_content req"
    by (simp add: expect_content_def assms(2) is_chunked_transfer_encoding_def assms(5) none ci_equal_def)
  moreover have "handle_request t (api_request ''GET'' req) a = (a, Inl e)"
    by (simp add: handle_request_def api_request_def assms has_param_def get_param_value_def handle_logs_def)
  ultimately show ?thesis
    by (simp add: routing_def regular_routing_def assms(2,3) dispatch_request_def logs_path run_handler_def)
qed

lemma limit_exception:
  assumes "stoul v = Inl e" "length (params_to_query_str [(''limit'', v)]) \<le> 8000" "host_ok host"
    and "st_in strm = request_text ''GET'' (''/api/logs'' @ ''?'' @ params_to_query_str [(''limit'', v)]) host [] @ rest"
  shows "\<exists>req. process_request env close strm a =
    (True, False,
     strm\<lparr>st_in := rest, st_pending := te_pending env,
          st_out := st_out strm @ response_text (te_arrange env) ''GET'' (refusal env close req 500)\<rparr>,
     api_run (te_others env) a)"
proof -
  let ?q = "params_to_query_str [(''limit'', v)]"
  define path where "path = ''/api/logs'' @ ''?'' @ ?q"
  have len: "length path \<le> CPPHTTPLIB_REQUEST_URI_MAX_LENGTH"
    using assms(2) by (simp add: path_def CPPHTTPLIB_REQUEST_URI_MAX_LENGTH_def)
  have dv: "divide path (CHR ''?'') = (''/api/logs'', ?q)" unfolding path_def by (rule limit_target(2))
  have tg: "target_ok path" unfolding path_def by (rule limit_target(1))
  have st: "st_in strm = request_text ''GET'' path host [] @ rest" unfolding path_def by (rule assms(4))
  have me: "''GET'' \<in> set http_methods" by (simp add: http_methods_def)
  have ln: "length ([] :: string) < 10 ^ 20" by simp
  from request_head [OF me tg len assms(3) ln st] obtain lr strm1 where
    g0: "getline strm (stream_line_reader 2048) = (True, strm1, lr)"
    "parse_request_line (line_text lr) Http_Request =
       (True, Http_Request\<lparr>hr_method := ''GET'', hr_target := path, hr_version := ''HTTP/1.1'',
               hr_path := decode_path_component (fst (divide path (CHR ''?''))),
               hr_params := parse_query_text (snd (divide path (CHR ''?''))) []\<rparr>)"
    "read_headers strm1 [] = (True, strm\<lparr>st_in := [] @ rest\<rparr>, rev (json_fields host (length ([] :: string))))"
    by blast
  note g = g0(1) g0(2) [unfolded dv fst_conv snd_conv logs_path(1) limit_target(3)]
    g0(3) [unfolded append_Nil list.size(3)]
  define req where "req = Http_Request\<lparr>hr_method := ''GET'', hr_target := path, hr_version := ''HTTP/1.1'', hr_path := ''/api/logs'',
     hr_params := [(''limit'', v)], hr_headers := rev (json_fields host 0)\<rparr>"
  note none = json_fields_none [of _ host 0]
  have sel: "hr_method req = ''GET''" "hr_path req = ''/api/logs''" "hr_params req = [(''limit'', v)]"
    "hr_headers req = rev (json_fields host 0)" "hr_target req = path" "hr_version req = ''HTTP/1.1''"
    by (simp_all only: req_def) simp_all
  have pr: "parse_request_line (line_text lr) Http_Request = (True, req\<lparr>hr_headers := []\<rparr>)"
    unfolding g(2) req_def by (simp add: Http_Request_def)
  have ck: "check_request env req = Inr req"
    unfolding check_request_def sel Let_def using len by (simp add: none)
  have wc: "\<not> wants_close req" unfolding wants_close_def sel by (simp add: none)
  have rq: "req\<lparr>hr_headers := rev (json_fields host 0)\<rparr> = req" by (simp add: req_def)
  note rt = limit_routing [OF assms(1) sel(1-4)]
  have "process_request env close strm a = (True, False,
      answer_request env close Thrown req Http_Response (strm\<lparr>st_in := rest, st_pending := te_pending env\<rparr>),
      api_run (te_others env) a)"
    by (simp add: process_request_def g(1,3) pr rq ck rt wc none Let_def)
  then show ?thesis
    by (auto simp: answer_request_def write_response_def write_response_core_def refusal_def write_stream_def sel(1))
qed

section \<open>Answers that say less than what happened\<close>

text \<open>
  The ranges are checked once the handler has run: a range that its answer cannot satisfy turns
  the answer into an empty 416, although the state may have changed.
\<close>

lemma unsatisfiable_range_hides_answer:
  assumes "range_error (hr_ranges req) (hs_status res) (length (hs_body res)) = (True, rs)" "hs_status res \<noteq> -1"
  shows "answer_request env close Routed req res strm =
    write_response (te_arrange env) (te_boundary env) strm close req (res\<lparr>hs_body := [], hs_status := 416\<rparr>)"
  using assms by (simp add: answer_request_def Let_def)

text \<open>
  A body that comes without a length on a connection that stays open is read until the read times
  out. That is a failure without a status of its own: the request is answered 404.
\<close>

lemma without_length_open_end:
  "st_end strm = Read_Failed \<Longrightarrow> fst (without_length_loop out m r strm st) \<noteq> Content_Success"
proof (induction out m r strm st rule: without_length_loop.induct)
  case (1 out m r strm st)
  obtain n d strm1 where b: "stream_read CPPHTTPLIB_RECV_BUFSIZ strm = (n, d, strm1)"
    by (cases "stream_read CPPHTTPLIB_RECV_BUFSIZ strm") auto
  obtain ok st1 where o: "out d st = (ok, st1)" by fastforce
  from b 1(2) have s: "n \<noteq> 0" "st_end strm1 = Read_Failed"
    by (auto simp: stream_read_def end_code_def CPPHTTPLIB_RECV_BUFSIZ_def Let_def min_def split: if_splits)
  show ?case
  proof (cases "n < 0 \<or> (r > m \<or> m - r < nat n) \<or> \<not> ok")
    case False
    then have "without_length_loop out m r strm st = without_length_loop out m (r + nat n) strm1 st1"
      using b o s(1) by (subst without_length_loop.simps) simp
    then show ?thesis
      using 1(1) [OF b [symmetric] refl s(1) _ _ o [symmetric] _ s(2)] False by simp
  next
    case True
    with b o s(1) show ?thesis by (subst without_length_loop.simps) auto
  qed
qed

lemma missing_length_is_404:
  assumes "hr_method req = ''POST''" "\<not> has_header (hr_headers req) ''Content-Length''"
    and "\<not> is_chunked_transfer_encoding (hr_headers req)" "\<not> is_multipart_form_data (hr_headers req)"
    and "st_pending strm" "st_end strm = Read_Failed"
    and "routing t req Http_Response strm a = (r, req', res, strm', a')"
  shows "r = Not_Routed \<and> a' = a \<and> hs_status res \<in> {-1, 413}"
proof -
  have m: "0 < CPPHTTPLIB_PAYLOAD_MAX_LENGTH" "CPPHTTPLIB_PAYLOAD_MAX_LENGTH < SIZE_MAX"
    by (simp_all add: CPPHTTPLIB_PAYLOAD_MAX_LENGTH_def SIZE_MAX_def)
  let ?st = "no_body\<lparr>bs_body := hr_body req\<rparr>"
  obtain x s1 st1 where l: "without_length_loop (body_receiver CPPHTTPLIB_PAYLOAD_MAX_LENGTH) CPPHTTPLIB_PAYLOAD_MAX_LENGTH 0
      strm ?st = (x, s1, st1)"
    by (metis prod_cases3)
  have "x \<noteq> Content_Success" using without_length_open_end [OF assms(6)] l by (metis fst_conv)
  then have "\<not> fst (fst (read_content CPPHTTPLIB_PAYLOAD_MAX_LENGTH strm req (-1))) \<and>
      snd (fst (read_content CPPHTTPLIB_PAYLOAD_MAX_LENGTH strm req (-1))) \<in> {-1, 413}"
    using m assms(2-5)
    by (cases "parse_multipart_boundary (header_value (hr_headers req) ''Content-Type'')")
      (simp_all add: read_content_def read_content_core_def read_content_without_length_def Let_def l)
  moreover have "expect_content req" by (simp add: expect_content_def assms(1))
  ultimately show ?thesis
    using assms(7) by (auto simp: routing_def Http_Response_def Let_def split: prod.splits)
qed

end
