(* ===== verification/Http_Written.thy ===== *)
theory Http_Written
  imports Http_Serving
begin

text \<open>
  What goes out on a connection: reading writes nothing, and every request is answered by at most
  one response, whose header fields are all valid.
\<close>

section \<open>Reading writes nothing\<close>

lemma getline_out: "getline strm lr = (ok, strm', lr') \<Longrightarrow> st_out strm' = st_out strm"
  by (auto simp: getline_def split: prod.splits)

lemma stream_read_out: "stream_read n strm = (k, d, strm') \<Longrightarrow> st_out strm' = st_out strm"
  by (auto simp: stream_read_def Let_def split: if_splits)

lemma body_read_out: "body_read br n strm = (k, d, br', strm') \<Longrightarrow> st_out strm' = st_out strm"
  by (auto simp: body_read_def Let_def split: if_splits prod.splits dest: stream_read_out)

lemma read_headers_loop_out: "read_headers_loop n strm lr hs = (ok, strm', hs') \<Longrightarrow> st_out strm' = st_out strm"
proof (induction n strm lr hs rule: read_headers_loop.induct)
  case (1 n strm lr hs)
  obtain ok1 strm1 lr1 where g: "getline strm lr = (ok1, strm1, lr1)" by (cases "getline strm lr") auto
  have out: "st_out strm1 = st_out strm" by (rule getline_out [OF g])
  note go = 1(1) [OF g [symmetric] refl, simplified]  1(2) [OF g [symmetric] refl, simplified]
  from 1(3) out show ?case
    by (subst (asm) read_headers_loop.simps) (auto simp: g go split: if_splits option.splits)
qed

lemma read_headers_out: "read_headers strm hs = (ok, strm', hs') \<Longrightarrow> st_out strm' = st_out strm"
  unfolding read_headers_def by (rule read_headers_loop_out)

lemma with_length_out:
  "with_length_loop out len r br strm st = (res, strm', st') \<Longrightarrow> st_out strm' = st_out strm"
proof (induction out len r br strm st rule: with_length_loop.induct)
  case (1 out len r br strm st)
  obtain n d br1 strm1 where b: "body_read br (min (len - r) CPPHTTPLIB_RECV_BUFSIZ) strm = (n, d, br1, strm1)"
    by (cases "body_read br (min (len - r) CPPHTTPLIB_RECV_BUFSIZ) strm") auto
  obtain ok st1 where o: "out d st = (ok, st1)" by fastforce
  show ?case
  proof (cases "r < len \<and> \<not> n \<le> 0 \<and> ok")
    case True
    with 1(2) b o have "with_length_loop out len (r + nat n) br1 strm1 st1 = (res, strm', st')"
      by (subst (asm) with_length_loop.simps) simp
    then show ?thesis
      using 1(1) [OF _ b [symmetric] refl refl _ o [symmetric] _] True body_read_out [OF b] by simp
  next
    case False
    with 1(2) b o body_read_out [OF b] show ?thesis
      by (subst (asm) with_length_loop.simps) (auto split: if_splits)
  qed
qed

lemma without_length_out:
  "without_length_loop out m r strm st = (res, strm', st') \<Longrightarrow> st_out strm' = st_out strm"
proof (induction out m r strm st rule: without_length_loop.induct)
  case (1 out m r strm st)
  obtain n d strm1 where b: "stream_read CPPHTTPLIB_RECV_BUFSIZ strm = (n, d, strm1)"
    by (cases "stream_read CPPHTTPLIB_RECV_BUFSIZ strm") auto
  obtain ok st1 where o: "out d st = (ok, st1)" by fastforce
  show ?case
  proof (cases "n = 0 \<or> n < 0 \<or> (r > m \<or> m - r < nat n) \<or> \<not> ok")
    case False
    with 1(2) b o have "without_length_loop out m (r + nat n) strm1 st1 = (res, strm', st')"
      by (subst (asm) without_length_loop.simps) simp
    then show ?thesis
      using 1(1) [OF b [symmetric] refl _ _ _ o [symmetric] _] False stream_read_out [OF b] by simp
  next
    case True
    with 1(2) b o stream_read_out [OF b] show ?thesis
      by (subst (asm) without_length_loop.simps) (auto split: if_splits)
  qed
qed

lemma chunk_data_out: "chunk_data len cd strm = (n, d, cd', strm') \<Longrightarrow> st_out strm' = st_out strm"
  by (auto simp: chunk_data_def Let_def split: prod.splits if_splits dest!: stream_read_out getline_out)

lemma read_payload_out: "read_payload len cd strm = (n, d, cd', strm') \<Longrightarrow> st_out strm' = st_out strm"
  by (auto simp: read_payload_def split: prod.splits if_splits option.splits dest!: chunk_data_out getline_out)

lemma trailers_out: "trailers_loop declared n lr strm dest = (ok, strm', dest') \<Longrightarrow> st_out strm' = st_out strm"
proof (induction declared n lr strm dest rule: trailers_loop.induct)
  case (1 declared n lr strm dest)
  obtain ok1 strm1 lr1 where g: "getline strm lr = (ok1, strm1, lr1)" by (cases "getline strm lr") auto
  show ?case
    using 1(2) getline_out [OF g] 1(1) [OF _ _ _ _ _ refl refl refl g [symmetric] refl]
    by (subst (asm) trailers_loop.simps) (auto simp: g Let_def split: if_splits option.splits prod.splits)
qed

lemma parse_trailers_out: "parse_trailers_into strm dest src = (ok, strm', dest') \<Longrightarrow> st_out strm' = st_out strm"
  by (auto simp: parse_trailers_into_def split: prod.splits if_splits dest!: trailers_out getline_out)

lemma chunked_out:
  "chunked_loop out m t cd tr hs strm st = (res, tr', strm', st') \<Longrightarrow> st_out strm' = st_out strm"
proof (induction out m t cd tr hs strm st rule: chunked_loop.induct)
  case (1 out m t cd tr hs strm st)
  obtain n d cd1 strm1 where b: "read_payload CPPHTTPLIB_RECV_BUFSIZ cd strm = (n, d, cd1, strm1)"
    by (cases "read_payload CPPHTTPLIB_RECV_BUFSIZ cd strm") auto
  obtain ok st1 where o: "out d st = (ok, st1)" by fastforce
  show ?case
  proof (cases "n < 0 \<or> n = 0 \<or> (t > m \<or> m - t < nat n) \<or> \<not> ok")
    case False
    with 1(2) b o have "chunked_loop out m (t + nat n) cd1 tr hs strm1 st1 = (res, tr', strm', st')"
      by (subst (asm) chunked_loop.simps) simp
    then show ?thesis
      using 1(1) [OF b [symmetric] refl refl _ _ _ o [symmetric] _] False read_payload_out [OF b] by simp
  next
    case True
    with 1(2) b o read_payload_out [OF b] show ?thesis
      by (subst (asm) chunked_loop.simps) (auto split: if_splits prod.splits dest: parse_trailers_out)
  qed
qed

lemma detail_out:
  "detail_read_content strm req m status out st = (r, req', strm', st') \<Longrightarrow> st_out strm' = st_out strm"
  by (auto simp: detail_read_content_def read_content_chunked_def read_content_without_length_def
      read_content_with_length_def Let_def split: if_splits prod.splits
      dest: chunked_out without_length_out with_length_out)

lemma read_core_out:
  "read_content_core m strm req status st = (r, req', strm', st') \<Longrightarrow> st_out strm' = st_out strm"
  unfolding read_content_core_def read_content_without_length_def Let_def
  by (auto split: if_splits prod.splits option.splits dest: detail_out without_length_out)

lemma read_content_out:
  "read_content m strm req status = (r, req', strm', items) \<Longrightarrow> st_out strm' = st_out strm"
  by (auto simp: read_content_def Let_def split: if_splits prod.splits dest: read_core_out)

lemma routing_out:
  "routing t req res strm a = (r, req', res', strm', a') \<Longrightarrow> st_out strm' = st_out strm"
  by (auto simp: routing_def Let_def split: if_splits prod.splits dest: read_content_out)

section \<open>Responses\<close>

lemma regular_fields:
  "regular_routing t req res a = (r, res', a') \<Longrightarrow> response_fields_ok res \<Longrightarrow> response_fields_ok res'"
  by (auto simp: regular_routing_def dispatch_request_def run_handler_def http_simps
      split: if_splits prod.splits sum.splits)

lemma routing_fields:
  "routing t req res strm a = (r, req', res', strm', a') \<Longrightarrow> response_fields_ok res \<Longrightarrow> response_fields_ok res'"
  by (auto simp: routing_def Let_def http_simps split: if_splits prod.splits dest: regular_fields)

text \<open>One answer: perhaps the interim line of a request that waits to send its body, then a response.\<close>

definition answer_text :: "turn_env \<Rightarrow> string \<Rightarrow> bool" where
  "answer_text env s \<longleftrightarrow>
     (\<exists>pre m res. s = pre @ response_text (te_arrange env) m res \<and> response_fields_ok res \<and>
        (pre = [] \<or> pre = write_response_line 100 @ crlf))"

lemma answer_textI:
  "response_fields_ok res \<Longrightarrow> pre = [] \<or> pre = write_response_line 100 @ crlf \<Longrightarrow>
     answer_text env (pre @ response_text (te_arrange env) m res)"
  by (auto simp: answer_text_def)

lemma write_response_out:
  assumes "response_fields_ok res"
  shows "\<exists>m R. response_fields_ok R \<and>
      st_out (write_response arrange b strm c req res) = st_out strm @ response_text arrange m R"
    "\<exists>m R. response_fields_ok R \<and>
      st_out (write_response_with_content arrange b strm c req res) = st_out strm @ response_text arrange m R"
  using final_response_fields [OF assms]
  by (fastforce simp: write_response_def write_response_with_content_def write_response_core_def write_stream_def)+

lemma answer_request_out:
  assumes "response_fields_ok res"
  shows "\<exists>m R. response_fields_ok R \<and>
    st_out (answer_request env c r req res strm) = st_out strm @ response_text (te_arrange env) m R"
  using assms
  by (auto simp: answer_request_def Let_def http_simps intro!: write_response_out split: routed.split prod.split)

lemma empty_response_fields: "response_fields_ok (Http_Response\<lparr>hs_status := s\<rparr>)"
  by (simp add: Http_Response_def response_fields_ok_def)

lemma refused_out:
  "\<exists>t. st_out (write_response (te_arrange env) b strm c req (Http_Response\<lparr>hs_status := s\<rparr>)) = st_out strm @ t \<and>
     answer_text env t"
proof -
  obtain m R where "response_fields_ok R"
    "st_out (write_response (te_arrange env) b strm c req (Http_Response\<lparr>hs_status := s\<rparr>))
       = st_out strm @ response_text (te_arrange env) m R"
    using write_response_out(1) [OF empty_response_fields] by blast
  with answer_textI [of R "[]" env m] show ?thesis by auto
qed

lemma served_out:
  assumes "routing t req Http_Response strm a = (r, req', res, strm', a')" "st_out strm = out @ pre"
    and "pre = [] \<or> pre = write_response_line 100 @ crlf"
  shows "\<exists>t. st_out (answer_request env c r req' res strm') = out @ t \<and> answer_text env t"
proof -
  have "Http_Response = Http_Response\<lparr>hs_status := -1\<rparr>" by (simp add: Http_Response_def)
  then have "response_fields_ok Http_Response" using empty_response_fields [of "-1"] by simp
  with routing_fields [OF assms(1)] obtain m R where a: "response_fields_ok R"
    "st_out (answer_request env c r req' res strm') = st_out strm' @ response_text (te_arrange env) m R"
    using answer_request_out by blast
  with routing_out [OF assms(1)] assms(2)
  have "st_out (answer_request env c r req' res strm') = out @ (pre @ response_text (te_arrange env) m R)" by simp
  with answer_textI [OF a(1) assms(3)] show ?thesis by blast
qed

lemma process_request_out:
  assumes "process_request env c strm a = (ok, closed, strm', a')"
  shows "\<exists>t. st_out strm' = st_out strm @ t \<and> (t = [] \<or> answer_text env t)"
proof -
  obtain ok1 strm1 lr where g: "getline strm (stream_line_reader 2048) = (ok1, strm1, lr)"
    by (cases "getline strm (stream_line_reader 2048)") auto
  note g1 = getline_out [OF g]
  obtain ok2 req where p: "parse_request_line (line_text lr) Http_Request = (ok2, req)" by fastforce
  obtain ok3 strm2 hs where h: "read_headers strm1 (hr_headers req) = (ok3, strm2, hs)"
    by (cases "read_headers strm1 (hr_headers req)") auto
  note h1 = read_headers_out [OF h]
  show ?thesis
  proof (cases "ok1 \<and> ok2 \<and> ok3")
    case False
    with assms g1 h1 refused_out show ?thesis
      by (auto simp: process_request_def g p h Let_def split: if_splits) (metis)+
  next
    case True
    show ?thesis
    proof (cases "check_request env (req\<lparr>hr_headers := hs\<rparr>)")
      case (Inl status)
      with True assms have "strm' = write_response (te_arrange env) (te_boundary env) strm2 c (req\<lparr>hr_headers := hs\<rparr>)
          (Http_Response\<lparr>hs_status := status\<rparr>)"
        by (simp add: process_request_def g p h Let_def)
      then show ?thesis
        using refused_out [of env "te_boundary env" strm2 c "req\<lparr>hr_headers := hs\<rparr>" status] g1 h1 by auto
    next
      case (Inr req1)
      let ?pre = "if header_value hs ''Expect'' = ''100-continue'' then write_response_line 100 @ crlf else []"
      let ?strm = "(if header_value hs ''Expect'' = ''100-continue''
                 then write_stream (write_response_line 100 @ crlf) strm2 else strm2)\<lparr>st_pending := te_pending env\<rparr>"
      obtain r req2 res strm3 a2 where rt: "routing (te_time env) req1 Http_Response ?strm (api_run (te_others env) a) =
          (r, req2, res, strm3, a2)"
        by (metis prod_cases5)
      have o: "st_out ?strm = st_out strm @ ?pre" using g1 h1 by (simp add: write_stream_def)
      from True assms Inr rt have "strm' = answer_request env c r req2 res strm3"
        by (simp add: process_request_def g p h Let_def)
      moreover have "?pre = [] \<or> ?pre = write_response_line 100 @ crlf" by simp
      ultimately show ?thesis using served_out [OF rt o, of env c] by blast
    qed
  qed
qed

text \<open>All that a connection writes is answers, one for each request and at most 100.\<close>

lemma serve_loop_out:
  "serve_loop ret count env strm a = (ok, strm', a') \<Longrightarrow>
     \<exists>ts. st_out strm' = st_out strm @ concat ts \<and> length ts \<le> count \<and> list_all (\<lambda>t. \<exists>n. answer_text (env n) t) ts"
proof (induction count arbitrary: ret strm a)
  case 0
  then show ?case by (intro exI [of _ "[]"]) simp
next
  case (Suc count)
  show ?case
  proof (cases "keep_alive strm")
    case False
    with Suc.prems show ?thesis by (intro exI [of _ "[]"]) simp
  next
    case True
    obtain ok1 closed strm1 a1 where p: "process_request (env (Suc count)) (count = 0) strm a = (ok1, closed, strm1, a1)"
      by (metis prod_cases4)
    from process_request_out [OF p] obtain ts1 where t: "st_out strm1 = st_out strm @ concat ts1" "length ts1 \<le> 1"
      "list_all (\<lambda>t. \<exists>n. answer_text (env n) t) ts1"
    proof (elim exE conjE disjE)
      fix t assume "st_out strm1 = st_out strm @ t" "t = []"
      with that [of "[]"] show ?thesis by simp
    next
      fix t assume "st_out strm1 = st_out strm @ t" "answer_text (env (Suc count)) t"
      with that [of "[t]"] show ?thesis by auto
    qed
    show ?thesis
    proof (cases "\<not> ok1 \<or> closed")
      case True
      with \<open>keep_alive strm\<close> Suc.prems p have "st_out strm' = st_out strm1" by (auto simp: Let_def)
      with t show ?thesis by (intro exI [of _ ts1]) simp
    next
      case False
      with \<open>keep_alive strm\<close> Suc.prems p obtain s2 where l: "serve_loop ok1 count env s2 a1 = (ok, strm', a')"
          "st_out s2 = st_out strm1"
        by (auto simp: Let_def)
      from Suc.IH [OF l(1)] obtain ts where "st_out strm' = st_out s2 @ concat ts" "length ts \<le> count"
          "list_all (\<lambda>t. \<exists>n. answer_text (env n) t) ts"
        by blast
      with t l(2) show ?thesis by (intro exI [of _ "ts1 @ ts"]) simp
    qed
  qed
qed

end
