(* ===== verification/Http_Props.thy ===== *)
theory Http_Props
  imports Http_Written
begin

text \<open>
  The properties of the HTTP server as a whole: what a connection does to the program, what it
  writes, which requests are served and what the refused ones leave behind.
\<close>

section \<open>Connections\<close>

text \<open>
  C23: a connection does to the program's state what a sequence of handler runs does, with whatever
  other connections and the timers do in between: each of its at most 100 requests runs one
  handler of the API after the acts of the others, or none.
\<close>

theorem connection_refines_handlers:
  "\<exists>k acts. snd (snd (process_and_close_socket env strm a)) = api_run (concat (map acts (rev [Suc k..<101]))) a \<and>
     (\<forall>n. own_turn (env n) (acts n))"
  by (rule connection_acts)



section \<open>Requests\<close>

text \<open>
  A JSON request to one of the \<^verbatim>\<open>POST\<close> routes, written as a client writes it, is taken from
  the stream to its last byte, runs the handler of that route with exactly the body that was
  sent, and is answered with the handler's status and JSON text and the headers of
  \<^verbatim>\<open>setJsonResponse\<close>; what follows on the stream is left for the next request.
\<close>

theorem post_is_served:
  assumes "path \<in> set post_handlers" "host_ok host" "length body \<le> CPPHTTPLIB_PAYLOAD_MAX_LENGTH"
    and "st_in strm = request_text ''POST'' path host body @ rest"
  shows "\<exists>b s. let a1 = api_run (te_others env) a; rq = post_request path body in
    snd (handle_request (te_time env) rq a1) = Inr (setJsonResponse b s) \<and>
    process_request env close strm a =
      (True, False,
       strm\<lparr>st_in := rest, st_pending := te_pending env,
            st_out := st_out strm @ response_text (te_arrange env) ''POST'' (json_answer close s b)\<rparr>,
       fst (handle_request (te_time env) rq a1))"
  using assms by (rule post_served)

definition calm_env :: turn_env where
  "calm_env = \<lparr>te_time = 7, te_others = [], te_pending = False, te_arrange = (\<lambda>h. h), te_boundary = [],
     te_quality_ok = (\<lambda>q. True), te_dropped = 0\<rparr>"

lemma calm_env_simps [simp]:
  "te_time calm_env = 7" "te_others calm_env = []" "te_dropped calm_env = 0"
  by (simp_all add: calm_env_def)

definition opened_stream :: "string \<Rightarrow> stream" where
  "opened_stream d = \<lparr>st_in = d, st_end = Peer_Closed, st_out = [], st_pending = False\<rparr>"

lemma st_in_opened [simp]: "st_in (opened_stream d) = d"
  by (simp add: opened_stream_def)

lemma door_host: "host_ok ''door''"
proof -
  have "is_field_value ''door'' \<and> CHR ''%'' \<notin> set ''door''" by code_simp
  then show ?thesis by (simp add: host_ok_def)
qed

lemma door_open_route: "''/api/door/open'' \<in> set post_handlers"
  by (simp add: post_handlers_def)

lemma post_is_served_witness:
  "\<exists>b s. snd (handle_request 7 (post_request ''/api/door/open'' []) (boot 0 0 False)) = Inr (setJsonResponse b s)"
  using post_is_served [where path = "''/api/door/open''" and host = "''door''" and body = "[]" and rest = "[]"
      and strm = "opened_stream (request_text ''POST'' ''/api/door/open'' ''door'' [] @ [])"
      and env = calm_env and close = False and a = "boot 0 0 False", OF door_open_route door_host]
  by (auto simp: Let_def)

text \<open>
  The bytes behind a request line that was refused are taken as the next request. The 400
  answer announces the end of the connection (\<open>refusal_status\<close>), but a \<^verbatim>\<open>POST\<close> among the bytes
  that follow still runs its handler. (The bytes must not have been read ahead with the line: those
  go with the stream of the refused request, \<open>te_dropped\<close>.)
\<close>

theorem refused_connection_goes_on:
  assumes "\<forall>c \<in> set g. code c \<noteq> 10" "length g + 1 < CPPHTTPLIB_MAX_LINE_LENGTH"
    and "\<not> fst (parse_request_line (g @ crlf) Http_Request)"
    and "st_in strm = g @ crlf @ request_text ''POST'' path host body"
    and "path \<in> set post_handlers" "host_ok host" "length body \<le> CPPHTTPLIB_PAYLOAD_MAX_LENGTH"
    and "te_dropped (env 2) = 0" "te_others (env 1) = []"
  shows "snd (snd (serve_loop False 2 env strm a)) = fst (handle_request (te_time (env 1)) (post_request path body) a)"
  using assms by (rule request_after_refusal)

lemma refused_connection_goes_on_witness:
  "snd (snd (serve_loop False 2 (\<lambda>n. calm_env)
       (opened_stream (''HELO'' @ crlf @ request_text ''POST'' ''/api/door/open'' ''door'' [])) (boot 0 0 False)))
     = fst (handle_request 7 (post_request ''/api/door/open'' []) (boot 0 0 False))"
proof -
  have "\<not> fst (parse_request_line (''HELO'' @ crlf) Http_Request)" "\<forall>c \<in> set ''HELO''. code c \<noteq> 10" by code_simp+
  from refused_connection_goes_on [where g = "''HELO''" and host = "''door''" and body = "[]" and env = "\<lambda>n. calm_env"
      and strm = "opened_stream (''HELO'' @ crlf @ request_text ''POST'' ''/api/door/open'' ''door'' [])"
      and a = "boot 0 0 False", OF this(2) _ this(1) _ door_open_route door_host]
  show ?thesis by (simp add: CPPHTTPLIB_MAX_LINE_LENGTH_def)
qed

text \<open>
  A \<^verbatim>\<open>GET /api/logs\<close> whose \<^verbatim>\<open>limit\<close> \<^verbatim>\<open>std::stoul\<close> rejects (no number, or beyond its range) throws
  out of the handler; the server answers 500, nothing of the program's state changes, and the
  connection goes on.
\<close>

theorem bad_limit_is_500:
  assumes "stoul v = Inl e" "length (params_to_query_str [(''limit'', v)]) \<le> 8000" "host_ok host"
    and "st_in strm = request_text ''GET'' (''/api/logs'' @ ''?'' @ params_to_query_str [(''limit'', v)]) host [] @ rest"
  shows "\<exists>req. hs_status (refusal env close req 500) = 500 \<and> process_request env close strm a =
    (True, False,
     strm\<lparr>st_in := rest, st_pending := te_pending env,
          st_out := st_out strm @ response_text (te_arrange env) ''GET'' (refusal env close req 500)\<rparr>,
     api_run (te_others env) a)"
  using limit_exception [OF assms] refusal_status(1) [of 500] by simp

lemma bad_limit_is_500_witness:
  "snd (snd (snd (process_request calm_env False
      (opened_stream (request_text ''GET'' (''/api/logs'' @ ''?'' @ params_to_query_str [(''limit'', ''all'')]) ''door'' [] @ []))
      (boot 0 0 False)))) = boot 0 0 False"
proof -
  have "stoul ''all'' = Inl Invalid_Argument" by code_simp
  moreover have "length (params_to_query_str [(''limit'', ''all'')]) \<le> 8000"
  proof -
    have "length (params_to_query_str [(''limit'', ''all'')]) = 9" by code_simp
    then show ?thesis by simp
  qed
  ultimately show ?thesis
    using bad_limit_is_500 [where v = "''all''" and host = "''door''" and rest = "[]" and env = calm_env and close = False
       and a = "boot 0 0 False", OF _ _ door_host st_in_opened]
    by auto
qed

section \<open>Messages\<close>




end
