(* ===== verification/Thread_Pool.thy ===== *)
theory Thread_Pool
  imports Prelude "HOL-Library.Multiset"
begin

text \<open>
  The thread pool that runs the connections of the REST server (\<^verbatim>\<open>ThreadPool\<close> of
  \<^verbatim>\<open>external/httplib.h\<close>): its members, \<^verbatim>\<open>enqueue\<close>, \<^verbatim>\<open>shutdown\<close> and the loop of its workers, and
  the step relation in which they interleave. A critical section of the pool's one mutex is one
  step; sleeping on the condition variable, being woken, timing out and waking up for no reason
  are steps of their own. The pool has one client thread, the one in \<^verbatim>\<open>listen_internal\<close>.
\<close>

section \<open>Lists that change at one place\<close>

lemma sum_list_update_nat:
  "i < length xs \<Longrightarrow> sum_list (map g (xs[i := y])) + g (xs ! i) = sum_list (map g xs) + (g y :: nat)"
  by (induction xs arbitrary: i) (auto split: nat.splits)

lemma mset_concat_update:
  "i < length xs \<Longrightarrow>
   mset (concat (map f (xs[i := y]))) + mset (f (xs ! i)) = mset (concat (map f xs)) + mset (f y)"
  by (induction xs arbitrary: i) (auto split: nat.splits)

lemma sum_list_member_le: "i < length xs \<Longrightarrow> g (xs ! i) \<le> (sum_list (map g xs) :: nat)"
  by (simp add: member_le_sum_list)

section \<open>State\<close>

text \<open>
  Where a worker is: before the lock at the head of its loop, asleep on the condition variable,
  woken or timed out and about to take the lock again, in a job, behind it (a dynamic thread
  looks at the queue once more), or at its end.
\<close>

datatype 'j pool_pc =
  Entering | Asleep | Awake | Timed_Out | Running 'j | Finishing | Finished

text \<open>
  Threads are numbered in the order in which they are created: the first \<open>tp_base_thread_count\<close>
  are \<^verbatim>\<open>threads_\<close>, run as \<^verbatim>\<open>worker(false)\<close>, all others dynamic ones. \<open>tp_accepted\<close>,
  \<open>tp_started\<close> and \<open>tp_done\<close> only record the jobs taken in, begun and ended.
\<close>

record 'j thread_pool =
  tp_base_thread_count :: nat
  tp_max_thread_count :: nat
  tp_max_queued_requests :: nat
  tp_idle_thread_count :: nat
  tp_shutdown :: bool
  tp_jobs :: "'j list"
  tp_workers :: "'j pool_pc list"
  tp_dynamic_threads :: "nat list"
  tp_finished_threads :: "nat list"
  tp_accepted :: "'j list"
  tp_started :: "'j list"
  tp_done :: "'j list"

definition is_dynamic :: "'j thread_pool \<Rightarrow> nat \<Rightarrow> bool" where
  "is_dynamic p i \<longleftrightarrow> tp_base_thread_count p \<le> i"

text \<open>The constructor; \<^term>\<open>None\<close> is \<^verbatim>\<open>std::invalid_argument\<close>.\<close>

definition ThreadPool :: "nat \<Rightarrow> nat \<Rightarrow> nat \<Rightarrow> 'j thread_pool option" where
  "ThreadPool n max_n mqr =
     (if max_n \<noteq> 0 \<and> max_n < n then None
      else Some \<lparr>tp_base_thread_count = n, tp_max_thread_count = (if max_n = 0 then n else max_n),
                 tp_max_queued_requests = mqr, tp_idle_thread_count = 0, tp_shutdown = False,
                 tp_jobs = [], tp_workers = replicate n Entering, tp_dynamic_threads = [],
                 tp_finished_threads = [], tp_accepted = [], tp_started = [], tp_done = []\<rparr>)"

text \<open>\<open>cores\<close> is \<^verbatim>\<open>std::thread::hardware_concurrency()\<close>.\<close>

definition CPPHTTPLIB_THREAD_POOL_COUNT :: "nat \<Rightarrow> nat" where
  "CPPHTTPLIB_THREAD_POOL_COUNT cores = max 8 (if cores > 0 then cores - 1 else 0)"

definition CPPHTTPLIB_THREAD_POOL_MAX_COUNT :: "nat \<Rightarrow> nat" where
  "CPPHTTPLIB_THREAD_POOL_MAX_COUNT cores = CPPHTTPLIB_THREAD_POOL_COUNT cores * 4"

definition new_task_queue :: "nat \<Rightarrow> 'j thread_pool option" where
  "new_task_queue cores =
     ThreadPool (CPPHTTPLIB_THREAD_POOL_COUNT cores) (CPPHTTPLIB_THREAD_POOL_MAX_COUNT cores) 0"

section \<open>Operations\<close>

text \<open>A thread that has been moved to \<^verbatim>\<open>finished_threads_\<close> needs the mutex no more, so joining it ends.\<close>

definition cleanup_finished_threads :: "'j thread_pool \<Rightarrow> 'j thread_pool" where
  "cleanup_finished_threads p = p\<lparr>tp_finished_threads := []\<rparr>"

definition move_to_finished :: "nat \<Rightarrow> 'j thread_pool \<Rightarrow> 'j thread_pool" where
  "move_to_finished i p =
     (if i \<in> set (tp_dynamic_threads p)
      then p\<lparr>tp_finished_threads := tp_finished_threads p @ [i],
             tp_dynamic_threads := remove1 i (tp_dynamic_threads p)\<rparr>
      else p)"

text \<open>The locked part of \<^verbatim>\<open>enqueue\<close>; the notification after it is a step of its own.\<close>

definition enqueue :: "'j \<Rightarrow> 'j thread_pool \<Rightarrow> bool \<times> 'j thread_pool" where
  "enqueue fn p =
     (if tp_shutdown p then (False, p)
      else if tp_max_queued_requests p > 0 \<and> length (tp_jobs p) \<ge> tp_max_queued_requests p
      then (False, p)
      else let p = p\<lparr>tp_jobs := tp_jobs p @ [fn], tp_accepted := tp_accepted p @ [fn]\<rparr>
           in (True,
               if tp_idle_thread_count p = 0
                  \<and> tp_base_thread_count p + length (tp_dynamic_threads p) < tp_max_thread_count p
               then let p = cleanup_finished_threads p
                    in p\<lparr>tp_dynamic_threads := tp_dynamic_threads p @ [length (tp_workers p)],
                         tp_workers := tp_workers p @ [Entering]\<rparr>
               else p))"

definition set_worker :: "nat \<Rightarrow> 'j pool_pc \<Rightarrow> 'j thread_pool \<Rightarrow> 'j thread_pool" where
  "set_worker i pc p = p\<lparr>tp_workers := (tp_workers p)[i := pc]\<rparr>"

definition has_work :: "'j thread_pool \<Rightarrow> bool" where
  "has_work p \<longleftrightarrow> tp_jobs p \<noteq> [] \<or> tp_shutdown p"

text \<open>The rest of the critical section, once the wait has found something to do.\<close>

definition take_job :: "nat \<Rightarrow> 'j thread_pool \<Rightarrow> 'j thread_pool" where
  "take_job i p =
     (let p = p\<lparr>tp_idle_thread_count := tp_idle_thread_count p - 1\<rparr>
      in case tp_jobs p of
           [] \<Rightarrow> set_worker i Finished p
         | fn # rest \<Rightarrow>
             set_worker i (Running fn) (p\<lparr>tp_jobs := rest, tp_started := tp_started p @ [fn]\<rparr>))"

text \<open>One step of worker \<open>i\<close>; \<^term>\<open>None\<close> while it sleeps and after its end.\<close>

definition pool_worker :: "nat \<Rightarrow> 'j thread_pool \<Rightarrow> 'j thread_pool option" where
  "pool_worker i p =
     (case tp_workers p ! i of
        Entering \<Rightarrow>
          (let p = p\<lparr>tp_idle_thread_count := tp_idle_thread_count p + 1\<rparr>
           in Some (if has_work p then take_job i p else set_worker i Asleep p))
      | Awake \<Rightarrow> Some (if has_work p then take_job i p else set_worker i Asleep p)
      | Timed_Out \<Rightarrow>
          Some (if has_work p then take_job i p
                else set_worker i Finished
                       (move_to_finished i
                         (p\<lparr>tp_idle_thread_count := tp_idle_thread_count p - 1\<rparr>)))
      | Running fn \<Rightarrow>
          Some (set_worker i (if is_dynamic p i then Finishing else Entering)
                 (p\<lparr>tp_done := tp_done p @ [fn]\<rparr>))
      | Finishing \<Rightarrow>
          Some (if tp_jobs p = [] then set_worker i Finished (move_to_finished i p)
                else set_worker i Entering p)
      | _ \<Rightarrow> None)"

text \<open>What a notification does to the workers that sleep.\<close>

definition awaken :: "nat \<Rightarrow> 'j thread_pool \<Rightarrow> 'j thread_pool" where
  "awaken i p = set_worker i Awake p"

definition notify_all :: "'j thread_pool \<Rightarrow> 'j thread_pool" where
  "notify_all p =
     p\<lparr>tp_workers := map (\<lambda>pc. case pc of Asleep \<Rightarrow> Awake | _ \<Rightarrow> pc) (tp_workers p)\<rparr>"

section \<open>The client and the interleavings\<close>

text \<open>
  Where the client is: free for the next connection, before the notification of an
  \<^verbatim>\<open>enqueue\<close>, or at a statement of \<^verbatim>\<open>shutdown\<close> (with \<^verbatim>\<open>remaining_dynamic\<close> during the second
  joins).
\<close>

datatype client_pc =
    Serving | Notifying | Notifying_All | Base_Join | Dynamic_Take
  | Dynamic_Join "nat list" | Last_Cleanup | Shut

record 'j pool_run =
  pr_pool :: "'j thread_pool"
  pr_client :: client_pc

text \<open>The statements of \<^verbatim>\<open>shutdown()\<close>; \<^term>\<open>None\<close>: a join still blocks, or nothing is left to do.\<close>

definition pool_shutdown :: "'j pool_run \<Rightarrow> 'j pool_run option" where
  "pool_shutdown r =
     (let p = pr_pool r
      in case pr_client r of
           Serving \<Rightarrow> Some \<lparr>pr_pool = p\<lparr>tp_shutdown := True\<rparr>, pr_client = Notifying_All\<rparr>
         | Notifying_All \<Rightarrow> Some \<lparr>pr_pool = notify_all p, pr_client = Base_Join\<rparr>
         | Base_Join \<Rightarrow>
             if \<forall>i < tp_base_thread_count p. tp_workers p ! i = Finished
             then Some (r\<lparr>pr_client := Dynamic_Take\<rparr>) else None
         | Dynamic_Take \<Rightarrow>
             Some \<lparr>pr_pool = p\<lparr>tp_dynamic_threads := []\<rparr>,
                   pr_client = Dynamic_Join (tp_dynamic_threads p)\<rparr>
         | Dynamic_Join ids \<Rightarrow>
             if \<forall>i \<in> set ids. tp_workers p ! i = Finished
             then Some (r\<lparr>pr_client := Last_Cleanup\<rparr>) else None
         | Last_Cleanup \<Rightarrow> Some \<lparr>pr_pool = cleanup_finished_threads p, pr_client = Shut\<rparr>
         | _ \<Rightarrow> None)"

text \<open>What the threads do on their own.\<close>

inductive pool_thread :: "'j thread_pool \<Rightarrow> 'j thread_pool \<Rightarrow> bool" where
  spurious: "i < length (tp_workers p) \<Longrightarrow> tp_workers p ! i = Asleep \<Longrightarrow> pool_thread p (awaken i p)"
| timeout: "i < length (tp_workers p) \<Longrightarrow> tp_workers p ! i = Asleep \<Longrightarrow> is_dynamic p i \<Longrightarrow>
    pool_thread p (set_worker i Timed_Out p)"
| worker: "i < length (tp_workers p) \<Longrightarrow> pool_worker i p = Some p' \<Longrightarrow> pool_thread p p'"

text \<open>The \<^verbatim>\<open>notify_one\<close> behind the locked part of \<^verbatim>\<open>enqueue\<close>.\<close>

inductive notify_step :: "'j pool_run \<Rightarrow> 'j pool_run \<Rightarrow> bool" where
  notify_nobody: "pr_client r = Notifying \<Longrightarrow> Asleep \<notin> set (tp_workers (pr_pool r)) \<Longrightarrow>
    notify_step r (r\<lparr>pr_client := Serving\<rparr>)"
| notify_one: "pr_client r = Notifying \<Longrightarrow> i < length (tp_workers (pr_pool r)) \<Longrightarrow>
    tp_workers (pr_pool r) ! i = Asleep \<Longrightarrow>
    notify_step r \<lparr>pr_pool = awaken i (pr_pool r), pr_client = Serving\<rparr>"

inductive pool_step :: "'j pool_run \<Rightarrow> 'j pool_run \<Rightarrow> bool" where
  enqueue: "pr_client r = Serving \<Longrightarrow> enqueue fn (pr_pool r) = (ok, p) \<Longrightarrow>
    pool_step r \<lparr>pr_pool = p, pr_client = (if ok then Notifying else Serving)\<rparr>"
| notify: "notify_step r r' \<Longrightarrow> pool_step r r'"
| shutdown: "pool_shutdown r = Some r' \<Longrightarrow> pool_step r r'"
| threads: "pool_thread (pr_pool r) p \<Longrightarrow> pool_step r (r\<lparr>pr_pool := p\<rparr>)"

inductive_cases pool_step_cases: "pool_step r r'"

section \<open>The invariant\<close>

definition idle_of :: "'j pool_pc \<Rightarrow> nat" where
  "idle_of pc = (if pc = Asleep \<or> pc = Awake \<or> pc = Timed_Out then 1 else 0)"

definition job_of :: "'j pool_pc \<Rightarrow> 'j list" where
  "job_of pc = (case pc of Running fn \<Rightarrow> [fn] | _ \<Rightarrow> [])"

definition at_work :: "'j pool_pc \<Rightarrow> bool" where
  "at_work pc \<longleftrightarrow> pc \<noteq> Asleep \<and> pc \<noteq> Finished"

text \<open>
  The counters and lists of the pool agree with its threads: the idle counter counts those in
  the wait; a job that was taken in is queued or was begun, in order; one that was begun is
  ended or in exactly one thread; the dynamic threads are within the bound; a base thread ends
  only when the pool is shut down and drained, and never times out.
\<close>

definition pool_ok :: "'j thread_pool \<Rightarrow> bool" where
  "pool_ok p \<longleftrightarrow>
     (0 < tp_base_thread_count p \<and> tp_base_thread_count p \<le> length (tp_workers p)) \<and>
     tp_idle_thread_count p = sum_list (map idle_of (tp_workers p)) \<and>
     tp_accepted p = tp_started p @ tp_jobs p \<and>
     mset (tp_started p) = mset (tp_done p) + mset (concat (map job_of (tp_workers p))) \<and>
     distinct (tp_dynamic_threads p) \<and>
     set (tp_dynamic_threads p) \<subseteq> {tp_base_thread_count p ..< length (tp_workers p)} \<and>
     tp_base_thread_count p + length (tp_dynamic_threads p) \<le> tp_max_thread_count p \<and>
     (\<forall>i < tp_base_thread_count p. tp_workers p ! i = Finished \<longrightarrow> tp_shutdown p \<and> tp_jobs p = []) \<and>
     (\<forall>i < tp_base_thread_count p. tp_workers p ! i \<noteq> Timed_Out \<and> tp_workers p ! i \<noteq> Finishing)"

text \<open>Dynamic threads that \<^verbatim>\<open>shutdown\<close> has already taken out of the list.\<close>

definition taken_over :: "client_pc \<Rightarrow> nat set" where
  "taken_over c = (case c of Dynamic_Join ids \<Rightarrow> set ids | _ \<Rightarrow> {})"

definition dynamic_taken :: "client_pc \<Rightarrow> bool" where
  "dynamic_taken c \<longleftrightarrow> (case c of Dynamic_Join ids \<Rightarrow> True | Last_Cleanup \<Rightarrow> True | Shut \<Rightarrow> True | _ \<Rightarrow> False)"

definition closing_ok :: "'j thread_pool \<Rightarrow> client_pc \<Rightarrow> bool" where
  "closing_ok p c \<longleftrightarrow>
     (tp_shutdown p \<longleftrightarrow> c \<noteq> Serving \<and> c \<noteq> Notifying) \<and>
     (tp_shutdown p \<and> c \<noteq> Notifying_All \<longrightarrow> Asleep \<notin> set (tp_workers p)) \<and>
     (dynamic_taken c \<longrightarrow> tp_dynamic_threads p = []) \<and>
     (\<forall>i \<in> taken_over c. i < length (tp_workers p))"

text \<open>A queued job has a notification on its way or a thread that will look at the queue.\<close>

definition unstranded :: "'j thread_pool \<Rightarrow> client_pc \<Rightarrow> bool" where
  "unstranded p c \<longleftrightarrow>
     (tp_jobs p \<noteq> [] \<longrightarrow> c = Notifying \<or> c = Notifying_All \<or> (\<exists>pc \<in> set (tp_workers p). at_work pc))"

text \<open>Every thread that has not ended is one that \<^verbatim>\<open>shutdown\<close> will join.\<close>

definition tracked :: "'j thread_pool \<Rightarrow> client_pc \<Rightarrow> bool" where
  "tracked p c \<longleftrightarrow>
     (\<forall>i. i < length (tp_workers p) \<longrightarrow> tp_base_thread_count p \<le> i \<longrightarrow> tp_workers p ! i \<noteq> Finished \<longrightarrow>
        (i \<in> set (tp_dynamic_threads p) \<or> i \<in> taken_over c) \<and> c \<noteq> Last_Cleanup \<and> c \<noteq> Shut)"

definition bases_ok :: "'j thread_pool \<Rightarrow> client_pc \<Rightarrow> bool" where
  "bases_ok p c \<longleftrightarrow>
     (\<forall>i < tp_base_thread_count p. tp_workers p ! i \<noteq> Finished \<longrightarrow>
        c = Serving \<or> c = Notifying \<or> c = Notifying_All \<or> c = Base_Join)"

definition client_ok :: "'j thread_pool \<Rightarrow> client_pc \<Rightarrow> bool" where
  "client_ok p c \<longleftrightarrow> closing_ok p c \<and> unstranded p c \<and> tracked p c \<and> bases_ok p c"

lemmas client_defs = client_ok_def closing_ok_def unstranded_def tracked_def bases_ok_def dynamic_taken_def

definition run_ok :: "'j pool_run \<Rightarrow> bool" where
  "run_ok r \<longleftrightarrow> pool_ok (pr_pool r) \<and> client_ok (pr_pool r) (pr_client r)"

subsection \<open>Each operation keeps it\<close>

lemma set_worker_sel [simp]:
  "tp_workers (set_worker i pc p) = (tp_workers p)[i := pc]"
  "tp_base_thread_count (set_worker i pc p) = tp_base_thread_count p"
  "tp_max_thread_count (set_worker i pc p) = tp_max_thread_count p"
  "tp_idle_thread_count (set_worker i pc p) = tp_idle_thread_count p"
  "tp_shutdown (set_worker i pc p) = tp_shutdown p" "tp_jobs (set_worker i pc p) = tp_jobs p"
  "tp_dynamic_threads (set_worker i pc p) = tp_dynamic_threads p"
  "tp_accepted (set_worker i pc p) = tp_accepted p" "tp_started (set_worker i pc p) = tp_started p"
  "tp_done (set_worker i pc p) = tp_done p"
  by (simp_all add: set_worker_def)

lemma move_to_finished_sel [simp]:
  "tp_workers (move_to_finished i p) = tp_workers p"
  "tp_base_thread_count (move_to_finished i p) = tp_base_thread_count p"
  "tp_max_thread_count (move_to_finished i p) = tp_max_thread_count p"
  "tp_idle_thread_count (move_to_finished i p) = tp_idle_thread_count p"
  "tp_shutdown (move_to_finished i p) = tp_shutdown p" "tp_jobs (move_to_finished i p) = tp_jobs p"
  "tp_accepted (move_to_finished i p) = tp_accepted p" "tp_started (move_to_finished i p) = tp_started p"
  "tp_done (move_to_finished i p) = tp_done p"
  "tp_dynamic_threads (move_to_finished i p) = remove1 i (tp_dynamic_threads p)"
  by (simp_all add: move_to_finished_def remove1_idem)

text \<open>How the sums over the threads change when one of them moves.\<close>

lemma idle_update:
  assumes "i < length ws" and "idle_of (ws ! i) = b" and "idle_of pc = c"
  shows "sum_list (map idle_of (ws[i := pc])) = sum_list (map idle_of ws) - b + c"
    and "b \<le> sum_list (map idle_of ws)"
  using sum_list_update_nat [OF assms(1), of idle_of pc] sum_list_member_le [OF assms(1), of idle_of]
    assms(2,3) by simp_all

lemma jobs_update:
  assumes "i < length ws" and "job_of (ws ! i) = []"
  shows "mset (concat (map job_of (ws[i := pc]))) = mset (concat (map job_of ws)) + mset (job_of pc)"
  using mset_concat_update [OF assms(1), of job_of pc] assms(2) by simp

lemma jobs_update_end:
  assumes "i < length ws" and "ws ! i = Running fn" and "job_of pc = []"
  shows "mset (concat (map job_of ws)) = add_mset fn (mset (concat (map job_of (ws[i := pc]))))"
  using mset_concat_update [OF assms(1), of job_of pc] assms(2,3) by (simp add: job_of_def)

lemma take_job_ok:
  assumes ok: "pool_ok (p\<lparr>tp_idle_thread_count := k\<rparr>)" and i: "i < length (tp_workers p)"
    and work: "has_work p" and pc: "job_of (tp_workers p ! i) = []" "tp_workers p ! i \<noteq> Finished"
    and idle: "tp_idle_thread_count p = Suc (k - idle_of (tp_workers p ! i))"
  shows "pool_ok (take_job i p)"
proof (cases "tp_jobs p")
  case Nil
  with work have "tp_shutdown p" by (simp add: has_work_def)
  with ok i pc idle Nil show ?thesis
    using idle_update [OF i refl, of Finished 0] jobs_update [OF i pc(1), of Finished]
    by (auto simp: take_job_def pool_ok_def nth_list_update idle_of_def job_of_def)
next
  case (Cons fn rest)
  with ok i pc idle show ?thesis
    using idle_update [OF i refl, of "Running fn" 0] jobs_update [OF i pc(1), of "Running fn"]
    by (auto simp: take_job_def pool_ok_def nth_list_update idle_of_def job_of_def)
qed

lemma pool_ok_waiting:
  assumes "pool_ok p" and "i < length (tp_workers p)" and "idle_of (tp_workers p ! i) = 1"
  shows "0 < tp_idle_thread_count p"
  using assms sum_list_member_le [OF assms(2), of idle_of] by (auto simp: pool_ok_def)

lemma ended_ok:
  assumes ok: "pool_ok p" and i: "i < length (tp_workers p)"
    and pc: "job_of (tp_workers p ! i) = []" and "tp_jobs p = []" and dyn: "is_dynamic p i"
  shows "pool_ok (set_worker i Finished (move_to_finished i
      (p\<lparr>tp_idle_thread_count := tp_idle_thread_count p - idle_of (tp_workers p ! i)\<rparr>)))"
proof -
  have "length (remove1 i (tp_dynamic_threads p)) \<le> length (tp_dynamic_threads p)"
    "set (remove1 i (tp_dynamic_threads p)) \<subseteq> set (tp_dynamic_threads p)"
    by (auto simp: length_remove1 set_remove1_subset)
  with assms show ?thesis
    using idle_update [OF i refl, of Finished 0] jobs_update [OF i pc, of Finished]
    by (auto simp: pool_ok_def nth_list_update idle_of_def job_of_def is_dynamic_def)
qed

lemma moved_ok:
  assumes "pool_ok p" and "i < length (tp_workers p)" and "tp_workers p ! i \<noteq> Finished"
    and "idle_of pc = idle_of (tp_workers p ! i)" and "job_of (tp_workers p ! i) = []"
    and "job_of pc = []" and "pc \<noteq> Finished" and "pc = Timed_Out \<or> pc = Finishing \<longrightarrow> is_dynamic p i"
  shows "pool_ok (set_worker i pc p)"
  using assms idle_update [OF assms(2) refl, of pc "idle_of pc"] jobs_update [OF assms(2,5), of pc]
  by (auto simp: pool_ok_def nth_list_update is_dynamic_def)

lemma timed_dynamic:
  assumes "pool_ok p" and "tp_workers p ! i = Timed_Out \<or> tp_workers p ! i = Finishing"
  shows "is_dynamic p i"
  using assms by (auto simp: pool_ok_def is_dynamic_def not_less [symmetric])

lemma worker_pool_ok:
  assumes ok: "pool_ok p" and i: "i < length (tp_workers p)" and "pool_worker i p = Some p'"
  shows "pool_ok p'"
proof (cases "tp_workers p ! i")
  case Entering
  show ?thesis
  proof (cases "has_work p")
    case True
    with Entering assms(3) have "p' = take_job i (p\<lparr>tp_idle_thread_count := tp_idle_thread_count p + 1\<rparr>)"
      by (simp add: pool_worker_def has_work_def)
    then show ?thesis
      using take_job_ok [where p = "p\<lparr>tp_idle_thread_count := tp_idle_thread_count p + 1\<rparr>"
          and k = "tp_idle_thread_count p" and i = i] ok i Entering True
      by (simp add: has_work_def job_of_def idle_of_def)
  next
    case False
    with Entering assms(3) ok i show ?thesis
      using idle_update [OF i refl, of Asleep 1] jobs_update [OF i, of Asleep]
      by (auto simp: pool_worker_def has_work_def pool_ok_def nth_list_update idle_of_def job_of_def
          split: if_splits)
  qed
next
  case Awake
  then have wait: "idle_of (tp_workers p ! i) = 1" "job_of (tp_workers p ! i) = []"
    by (simp_all add: idle_of_def job_of_def)
  note pos = pool_ok_waiting [OF ok i wait(1)]
  show ?thesis
  proof (cases "has_work p")
    case True
    then show ?thesis
      using take_job_ok [where p = p and k = "tp_idle_thread_count p" and i = i] ok i assms(3) Awake wait pos
      by (simp add: pool_worker_def)
  next
    case False
    then show ?thesis
      using moved_ok [OF ok i, of Asleep] assms(3) Awake
      by (auto simp: pool_worker_def idle_of_def job_of_def)
  qed
next
  case Timed_Out
  then have wait: "idle_of (tp_workers p ! i) = 1" "job_of (tp_workers p ! i) = []"
    by (simp_all add: idle_of_def job_of_def)
  note pos = pool_ok_waiting [OF ok i wait(1)]
  show ?thesis
  proof (cases "has_work p")
    case True
    then show ?thesis
      using take_job_ok [where p = p and k = "tp_idle_thread_count p" and i = i] ok i assms(3) Timed_Out wait pos
      by (simp add: pool_worker_def)
  next
    case False
    then show ?thesis
      using ended_ok [OF ok i wait(2)] assms(3) Timed_Out timed_dynamic [OF ok] wait(1)
      by (auto simp: pool_worker_def has_work_def)
  qed
next
  case (Running fn)
  define pc where "pc = (if is_dynamic p i then Finishing else (Entering :: 'a pool_pc))"
  have "job_of pc = []" "idle_of pc = 0" "pc \<noteq> Finished" by (auto simp: pc_def job_of_def idle_of_def)
  moreover have "p' = set_worker i pc (p\<lparr>tp_done := tp_done p @ [fn]\<rparr>)"
    using Running assms(3) by (simp add: pool_worker_def pc_def)
  ultimately show ?thesis
    using ok idle_update [OF i refl, of pc 0] jobs_update_end [OF i Running, of pc] Running
    by (auto simp: pool_ok_def nth_list_update idle_of_def pc_def is_dynamic_def)
next
  case Finishing
  then have f: "idle_of (tp_workers p ! i) = 0" "job_of (tp_workers p ! i) = []"
    by (simp_all add: idle_of_def job_of_def)
  show ?thesis
  proof (cases "tp_jobs p = []")
    case True
    then show ?thesis
      using ended_ok [OF ok i f(2)] assms(3) Finishing timed_dynamic [OF ok] f(1)
      by (auto simp: pool_worker_def)
  next
    case False
    then show ?thesis
      using moved_ok [OF ok i, of Entering] assms(3) Finishing
      by (auto simp: pool_worker_def idle_of_def job_of_def)
  qed
qed (use assms(3) in \<open>simp_all add: pool_worker_def\<close>)

lemma push_pool_ok:
  "pool_ok p \<Longrightarrow> \<not> tp_shutdown p \<Longrightarrow>
   pool_ok (p\<lparr>tp_jobs := tp_jobs p @ [fn], tp_accepted := tp_accepted p @ [fn]\<rparr>)"
  by (simp add: pool_ok_def)

lemma spawn_pool_ok:
  assumes "pool_ok p" and "tp_base_thread_count p + length (tp_dynamic_threads p) < tp_max_thread_count p"
  shows "pool_ok (p\<lparr>tp_dynamic_threads := tp_dynamic_threads p @ [length (tp_workers p)],
    tp_workers := tp_workers p @ [Entering]\<rparr>)"
proof -
  have "idle_of (Entering :: 'a pool_pc) = 0" "job_of (Entering :: 'a pool_pc) = []"
    by (simp_all add: idle_of_def job_of_def)
  moreover have "length (tp_workers p) \<notin> set (tp_dynamic_threads p)"
    "set (tp_dynamic_threads p) \<subseteq> {tp_base_thread_count p ..< Suc (length (tp_workers p))}"
    using assms(1) by (fastforce simp: pool_ok_def)+
  ultimately show ?thesis
    using assms by (simp add: pool_ok_def nth_append)
qed

lemma enqueue_pool_ok:
  assumes "pool_ok p" and "enqueue fn p = (ok, p')"
  shows "pool_ok p'"
proof -
  define q where "q = p\<lparr>tp_jobs := tp_jobs p @ [fn], tp_accepted := tp_accepted p @ [fn]\<rparr>"
  have "\<not> tp_shutdown p \<Longrightarrow> pool_ok (cleanup_finished_threads q)" "\<not> tp_shutdown p \<Longrightarrow> pool_ok q"
    using push_pool_ok [OF assms(1), of fn] by (simp_all add: q_def pool_ok_def cleanup_finished_threads_def)
  with assms spawn_pool_ok [of "cleanup_finished_threads q"] show ?thesis
    by (auto simp: enqueue_def q_def [symmetric] cleanup_finished_threads_def Let_def split: if_splits)
qed

lemma awaken_pool_ok:
  assumes "pool_ok p" and "i < length (tp_workers p)" and "tp_workers p ! i = Asleep"
  shows "pool_ok (awaken i p)"
  unfolding awaken_def using assms by (intro moved_ok) (simp_all add: idle_of_def job_of_def)

lemma timeout_pool_ok:
  assumes "pool_ok p" and "i < length (tp_workers p)" and "tp_workers p ! i = Asleep" and "is_dynamic p i"
  shows "pool_ok (set_worker i Timed_Out p)"
  using assms by (intro moved_ok) (simp_all add: idle_of_def job_of_def)

lemma notify_all_pool_ok: "pool_ok p \<Longrightarrow> pool_ok (notify_all p)"
proof -
  let ?wake = "\<lambda>pc :: 'a pool_pc. case pc of Asleep \<Rightarrow> Awake | _ \<Rightarrow> pc"
  have "idle_of (?wake pc) = idle_of pc" "job_of (?wake pc) = job_of pc"
    "?wake pc = Finished \<longleftrightarrow> pc = Finished" "?wake pc = Timed_Out \<longleftrightarrow> pc = Timed_Out"
    "?wake pc = Finishing \<longleftrightarrow> pc = Finishing" for pc
    by (cases pc; simp add: idle_of_def job_of_def)+
  then have "map idle_of (map ?wake ws) = map idle_of ws" "map job_of (map ?wake ws) = map job_of ws"
    "i < length ws \<Longrightarrow> map ?wake ws ! i = Finished \<longleftrightarrow> ws ! i = Finished"
    "i < length ws \<Longrightarrow> map ?wake ws ! i = Timed_Out \<longleftrightarrow> ws ! i = Timed_Out"
    "i < length ws \<Longrightarrow> map ?wake ws ! i = Finishing \<longleftrightarrow> ws ! i = Finishing" for ws i
    by simp_all
  then show "pool_ok p \<Longrightarrow> pool_ok (notify_all p)"
    unfolding pool_ok_def notify_all_def by (simp del: map_map)
qed

lemma closing_pool_ok:
  assumes "pool_ok p"
  shows "pool_ok (p\<lparr>tp_shutdown := True\<rparr>)" "pool_ok (p\<lparr>tp_dynamic_threads := []\<rparr>)"
    "pool_ok (cleanup_finished_threads p)"
  using assms by (simp_all add: pool_ok_def cleanup_finished_threads_def)

lemma shutdown_pool_ok: "pool_ok (pr_pool r) \<Longrightarrow> pool_shutdown r = Some r' \<Longrightarrow> pool_ok (pr_pool r')"
  by (cases "pr_client r")
    (auto simp: pool_shutdown_def Let_def notify_all_pool_ok closing_pool_ok split: if_splits)

text \<open>What a worker's step does, as far as the client can see.\<close>

lemma take_job_effect:
  assumes "has_work p"
  obtains pc where "tp_workers (take_job i p) = (tp_workers p)[i := pc]"
    and "tp_base_thread_count (take_job i p) = tp_base_thread_count p"
    and "tp_shutdown (take_job i p) = tp_shutdown p" and "pc \<noteq> Asleep"
    and "tp_jobs (take_job i p) \<noteq> [] \<longrightarrow> at_work pc"
    and "tp_dynamic_threads (take_job i p) = tp_dynamic_threads p"
proof (cases "tp_jobs p")
  case Nil
  show ?thesis by (rule that [of Finished]) (simp_all add: take_job_def Nil)
next
  case (Cons fn rest)
  show ?thesis by (rule that [of "Running fn"]) (simp_all add: take_job_def Cons at_work_def)
qed

definition counted :: "'j thread_pool \<Rightarrow> 'j thread_pool" where
  "counted p = p\<lparr>tp_idle_thread_count := Suc (tp_idle_thread_count p)\<rparr>"

lemma counted_sel [simp]:
  "tp_workers (counted p) = tp_workers p" "tp_base_thread_count (counted p) = tp_base_thread_count p"
  "tp_shutdown (counted p) = tp_shutdown p" "tp_jobs (counted p) = tp_jobs p"
  "tp_dynamic_threads (counted p) = tp_dynamic_threads p" "has_work (counted p) = has_work p"
  by (simp_all add: counted_def has_work_def)

lemma worker_effect:
  assumes "pool_worker i p = Some p'"
  obtains pc where "tp_workers p' = (tp_workers p)[i := pc]"
    and "tp_base_thread_count p' = tp_base_thread_count p" and "tp_shutdown p' = tp_shutdown p"
    and "pc = Asleep \<longrightarrow> \<not> has_work p"
    and "tp_jobs p' \<noteq> [] \<longrightarrow> at_work pc" and "tp_workers p ! i \<noteq> Finished"
    and "tp_dynamic_threads p' = tp_dynamic_threads p
         \<or> pc = Finished \<and> tp_dynamic_threads p' = remove1 i (tp_dynamic_threads p)"
proof (cases "has_work p \<and> (tp_workers p ! i = Entering \<or> tp_workers p ! i = Awake \<or> tp_workers p ! i = Timed_Out)")
  case True
  define q where "q = (if tp_workers p ! i = Entering then counted p else p)"
  from True have "has_work q" and q: "tp_workers q = tp_workers p" "tp_shutdown q = tp_shutdown p"
      "tp_base_thread_count q = tp_base_thread_count p" "tp_dynamic_threads q = tp_dynamic_threads p"
    by (simp_all add: q_def)
  moreover from True assms have "p' = take_job i q" "tp_workers p ! i \<noteq> Finished"
    by (auto simp: pool_worker_def q_def Let_def counted_def [symmetric])
  ultimately show ?thesis
    using that by (metis take_job_effect)
next
  case False
  show ?thesis
  proof (cases "tp_workers p ! i")
    case Entering
    with False assms show ?thesis
      by (intro that [of Asleep]) (auto simp: pool_worker_def Let_def counted_def [symmetric] has_work_def)
  next
    case Awake
    with False assms show ?thesis by (intro that [of Asleep]) (auto simp: pool_worker_def has_work_def)
  next
    case Timed_Out
    with False assms show ?thesis by (intro that [of Finished]) (auto simp: pool_worker_def has_work_def)
  next
    case (Running fn)
    with assms show ?thesis
      by (intro that [of "if is_dynamic p i then Finishing else Entering"]) (auto simp: pool_worker_def at_work_def)
  next
    case Finishing
    with assms show ?thesis
      by (intro that [of "if tp_jobs p = [] then Finished else Entering"])
        (cases "tp_jobs p = []"; auto simp: pool_worker_def at_work_def)+
  qed (use assms in \<open>simp_all add: pool_worker_def\<close>)
qed

lemma worker_client_ok:
  assumes ok: "client_ok p c" and i: "i < length (tp_workers p)" and "pool_worker i p = Some p'"
  shows "client_ok p' c"
proof -
  from assms(3) obtain pc where e: "tp_workers p' = (tp_workers p)[i := pc]"
    "tp_base_thread_count p' = tp_base_thread_count p" "tp_shutdown p' = tp_shutdown p"
    "pc = Asleep \<longrightarrow> \<not> has_work p" "tp_jobs p' \<noteq> [] \<longrightarrow> at_work pc" "tp_workers p ! i \<noteq> Finished"
    "tp_dynamic_threads p' = tp_dynamic_threads p
     \<or> pc = Finished \<and> tp_dynamic_threads p' = remove1 i (tp_dynamic_threads p)"
    by (rule worker_effect)
  have sub: "set ((tp_workers p)[i := pc]) \<subseteq> insert pc (set (tp_workers p))"
    by (rule set_update_subset_insert)
  have was: "tp_workers p ! j \<noteq> Finished" if "tp_workers p' ! j \<noteq> Finished" for j
    using that e(1,6) by (cases "j = i") simp_all
  have mem: "pc \<in> set ((tp_workers p)[i := pc])"
    using i by (rule set_update_memI)
  have "closing_ok p' c"
    using ok e(1,3,4,7) sub by (auto simp: client_ok_def closing_ok_def has_work_def)
  moreover have "unstranded p' c"
    using e(1,5) mem by (auto simp: unstranded_def)
  moreover have "tracked p' c"
    unfolding tracked_def
  proof (intro allI impI)
    fix j
    assume j: "j < length (tp_workers p')" "tp_base_thread_count p' \<le> j" "tp_workers p' ! j \<noteq> Finished"
    then have "tp_workers p ! j \<noteq> Finished" "j = i \<longrightarrow> pc \<noteq> Finished"
      using was e(1) i by auto
    with ok j e(1,2) have "(j \<in> set (tp_dynamic_threads p) \<or> j \<in> taken_over c) \<and> c \<noteq> Last_Cleanup \<and> c \<noteq> Shut"
      by (simp add: client_ok_def tracked_def)
    with e(7) \<open>j = i \<longrightarrow> pc \<noteq> Finished\<close>
    show "(j \<in> set (tp_dynamic_threads p') \<or> j \<in> taken_over c) \<and> c \<noteq> Last_Cleanup \<and> c \<noteq> Shut"
      by (metis in_set_remove1)
  qed
  moreover have "bases_ok p' c"
    using ok e(2) was by (simp add: client_ok_def bases_ok_def)
  ultimately show ?thesis by (simp add: client_ok_def)
qed

lemma enqueue_client_ok:
  assumes "client_ok p Serving" and "enqueue fn p = (ok, p')"
  shows "client_ok p' (if ok then Notifying else Serving)"
proof (cases ok)
  case True
  then have "tp_shutdown p' = tp_shutdown p" "tp_base_thread_count p' = tp_base_thread_count p"
    "tp_workers p' = tp_workers p \<and> tp_dynamic_threads p' = tp_dynamic_threads p
     \<or> tp_workers p' = tp_workers p @ [Entering]
       \<and> tp_dynamic_threads p' = tp_dynamic_threads p @ [length (tp_workers p)]" "\<not> tp_shutdown p"
    using assms(2) by (auto simp: enqueue_def cleanup_finished_threads_def Let_def split: if_splits)
  with assms(1) True show ?thesis
    by (auto simp: client_defs taken_over_def nth_append less_Suc_eq)
next
  case False
  with assms show ?thesis by (auto simp: enqueue_def Let_def split: if_splits)
qed

lemma woken_client_ok:
  assumes "client_ok p c" and i: "i < length (tp_workers p)" and was: "tp_workers p ! i = Asleep"
    and pc: "pc = Awake \<or> pc = Timed_Out" and c': "c' = c \<or> c = Notifying \<and> c' = Serving"
  shows "client_ok (set_worker i pc p) c'"
proof -
  have "tp_workers p ! j \<noteq> Finished" if "(tp_workers p)[i := pc] ! j \<noteq> Finished" for j
    using that was by (cases "j = i") simp_all
  moreover have "set ((tp_workers p)[i := pc]) \<subseteq> insert pc (set (tp_workers p))"
    by (rule set_update_subset_insert)
  moreover have "\<exists>pc \<in> set ((tp_workers p)[i := pc]). at_work pc"
    using set_update_memI [OF i, of pc] pc by (auto simp: at_work_def)
  ultimately show ?thesis
    using assms(1) pc c' by (auto simp: client_defs taken_over_def)
qed

text \<open>The base threads live as long as the pool is open.\<close>

lemma base_alive:
  assumes "pool_ok p" and "\<not> tp_shutdown p"
  shows "tp_workers p ! 0 \<in> set (tp_workers p)" and "tp_workers p ! 0 \<noteq> Finished"
  using assms by (auto simp: pool_ok_def intro!: nth_mem)

lemma nobody_client_ok:
  assumes "pool_ok p" and "client_ok p Notifying" and "Asleep \<notin> set (tp_workers p)"
  shows "client_ok p Serving"
proof -
  have not_shut: "\<not> tp_shutdown p" using assms(2) by (simp add: client_defs)
  have "tp_workers p ! 0 \<noteq> Asleep"
    using base_alive(1) [OF assms(1) not_shut] assms(3) by metis
  then have "\<exists>pc \<in> set (tp_workers p). at_work pc"
    using base_alive [OF assms(1) not_shut] by (metis at_work_def)
  with assms(2) show ?thesis by (simp add: client_defs taken_over_def)
qed

lemma notify_all_client_ok:
  assumes "pool_ok p" and "client_ok p Notifying_All"
  shows "client_ok (notify_all p) Base_Join"
proof -
  let ?wake = "\<lambda>pc :: 'a pool_pc. case pc of Asleep \<Rightarrow> Awake | _ \<Rightarrow> pc"
  have "?wake pc = Finished \<longleftrightarrow> pc = Finished" "?wake pc \<noteq> Asleep" for pc by (cases pc; simp)+
  then have ended: "i < length ws \<Longrightarrow> map ?wake ws ! i = Finished \<longleftrightarrow> ws ! i = Finished"
    and none: "Asleep \<notin> set (map ?wake ws)" for ws i
    by (auto simp: eq_commute [of Asleep])
  have "\<exists>pc \<in> set (tp_workers (notify_all p)). at_work pc" if "tp_jobs p \<noteq> []"
  proof -
    have n: "0 < tp_base_thread_count p" "0 < length (tp_workers p)" "tp_workers p ! 0 \<noteq> Finished"
      using assms(1) that by (auto simp: pool_ok_def)
    then have "tp_workers (notify_all p) ! 0 \<noteq> Finished"
      "tp_workers (notify_all p) ! 0 \<in> set (tp_workers (notify_all p))"
      using ended by (auto simp: notify_all_def intro: nth_mem)
    moreover have "Asleep \<notin> set (tp_workers (notify_all p))"
      using none [of "tp_workers p"] by (simp add: notify_all_def)
    ultimately show ?thesis by (metis at_work_def)
  qed
  moreover have "tp_jobs (notify_all p) = tp_jobs p" "length (tp_workers (notify_all p)) = length (tp_workers p)"
    "tp_shutdown (notify_all p) = tp_shutdown p" "tp_dynamic_threads (notify_all p) = tp_dynamic_threads p"
    "tp_base_thread_count (notify_all p) = tp_base_thread_count p"
    "Asleep \<notin> set (tp_workers (notify_all p))"
    "\<And>i. i < length (tp_workers p) \<Longrightarrow> tp_workers (notify_all p) ! i = Finished \<longleftrightarrow> tp_workers p ! i = Finished"
    using ended none by (simp_all add: notify_all_def del: set_map)
  ultimately show ?thesis
    using assms by (simp add: client_defs taken_over_def)
qed

lemma shutdown_client_ok:
  assumes ok: "pool_ok p" "client_ok p c" and step: "pool_shutdown \<lparr>pr_pool = p, pr_client = c\<rparr> = Some r"
  shows "client_ok (pr_pool r) (pr_client r)"
proof (cases c)
  case Serving
  with ok step base_alive [OF ok(1)] show ?thesis
    by (auto simp: pool_shutdown_def client_defs taken_over_def)
next
  case Notifying_All
  with ok step notify_all_client_ok [of p] show ?thesis by (auto simp: pool_shutdown_def)
next
  case Base_Join
  with ok step show ?thesis
    by (auto simp: pool_shutdown_def client_defs taken_over_def split: if_splits)
next
  case Dynamic_Take
  have "\<forall>i \<in> set (tp_dynamic_threads p). i < length (tp_workers p)"
    using ok(1) by (auto simp: pool_ok_def)
  with Dynamic_Take ok(2) step show ?thesis
    by (auto simp: pool_shutdown_def client_defs taken_over_def)
next
  case (Dynamic_Join ids)
  with step have r: "r = \<lparr>pr_pool = p, pr_client = Last_Cleanup\<rparr>" and "\<forall>i \<in> set ids. tp_workers p ! i = Finished"
    by (auto simp: pool_shutdown_def split: if_splits)
  moreover have "closing_ok p c" "tracked p c" "bases_ok p c" using ok by (simp_all add: client_ok_def)
  moreover have "tp_workers p ! 0 = Finished \<longrightarrow> tp_jobs p = []" "0 < tp_base_thread_count p"
    using ok(1) by (auto simp: pool_ok_def)
  ultimately show ?thesis
    using Dynamic_Join by (simp add: client_defs taken_over_def) blast
next
  case Last_Cleanup
  with ok step show ?thesis
    by (auto simp: pool_shutdown_def cleanup_finished_threads_def client_defs taken_over_def)
qed (use step in \<open>simp_all add: pool_shutdown_def\<close>)

interpretation pool: safe_relation pool_step run_ok
proof
  fix r r' :: "'a pool_run"
  assume "pool_step r r'" and "run_ok r"
  then have ok: "pool_ok (pr_pool r)" "client_ok (pr_pool r) (pr_client r)"
    by (simp_all add: run_ok_def)
  from \<open>pool_step r r'\<close> show "run_ok r'"
  proof (cases rule: pool_step.cases)
    case (enqueue fn ok' p)
    then show ?thesis
      using ok enqueue_pool_ok [OF ok(1)] enqueue_client_ok [of "pr_pool r" fn ok' p]
      by (simp add: run_ok_def)
  next
    case notify
    then show ?thesis
      using ok nobody_client_ok awaken_pool_ok [OF ok(1)]
        woken_client_ok [of "pr_pool r" Notifying _ Awake Serving]
      by (cases rule: notify_step.cases) (simp_all add: run_ok_def awaken_def)
  next
    case shutdown
    then show ?thesis
      using ok shutdown_pool_ok [of r r'] shutdown_client_ok [of "pr_pool r" "pr_client r" r']
      by (cases r) (simp add: run_ok_def)
  next
    case (threads p)
    from threads(2) have "pool_ok p \<and> client_ok p (pr_client r)"
    proof (cases rule: pool_thread.cases)
      case (spurious i)
      then show ?thesis
        using ok awaken_pool_ok [OF ok(1)] woken_client_ok [OF ok(2), of i Awake]
        by (simp add: awaken_def)
    next
      case (timeout i)
      then show ?thesis
        using ok timeout_pool_ok [OF ok(1)] woken_client_ok [OF ok(2), of i Timed_Out] by simp
    next
      case (worker i)
      then show ?thesis using ok worker_pool_ok [OF ok(1)] worker_client_ok [OF ok(2)] by simp
    qed
    with threads(1) show ?thesis by (simp add: run_ok_def)
  qed
qed

definition pool_start :: "'j thread_pool \<Rightarrow> 'j pool_run" where
  "pool_start p = \<lparr>pr_pool = p, pr_client = Serving\<rparr>"

lemma new_pool_ok:
  assumes "ThreadPool n max_n mqr = Some p" and "0 < n"
  shows "run_ok (pool_start p)"
proof -
  have "sum_list (map idle_of (replicate n (Entering :: 'a pool_pc))) = 0"
    "concat (map job_of (replicate n (Entering :: 'a pool_pc))) = []"
    by (induction n) (simp_all add: idle_of_def job_of_def)
  with assms show ?thesis
    by (auto simp: ThreadPool_def run_ok_def pool_start_def pool_ok_def client_defs taken_over_def
        split: if_splits)
qed

lemma new_task_queue_ok:
  obtains p :: "'j thread_pool" where "new_task_queue cores = Some p" and "run_ok (pool_start p)"
proof -
  have "0 < CPPHTTPLIB_THREAD_POOL_COUNT cores"
    by (simp add: CPPHTTPLIB_THREAD_POOL_COUNT_def)
  moreover obtain p :: "'j thread_pool" where "new_task_queue cores = Some p"
    by (auto simp: new_task_queue_def ThreadPool_def CPPHTTPLIB_THREAD_POOL_MAX_COUNT_def)
  ultimately show ?thesis
    using that new_pool_ok by (auto simp: new_task_queue_def)
qed

section \<open>Shutting down\<close>

definition worker_left :: "'j pool_pc \<Rightarrow> nat" where
  "worker_left pc =
     (case pc of Finished \<Rightarrow> 0 | Awake \<Rightarrow> 2 | Timed_Out \<Rightarrow> 2 | Entering \<Rightarrow> 3 | Asleep \<Rightarrow> 3
      | Finishing \<Rightarrow> 5 | Running fn \<Rightarrow> 6)"

definition client_left :: "client_pc \<Rightarrow> nat" where
  "client_left c =
     (case c of Shut \<Rightarrow> 0 | Last_Cleanup \<Rightarrow> 1 | Dynamic_Join ids \<Rightarrow> 2 | Dynamic_Take \<Rightarrow> 3
      | Base_Join \<Rightarrow> 4 | Notifying_All \<Rightarrow> 5 | _ \<Rightarrow> 6)"

text \<open>What is left to do: by the client, by each thread, and for each queued job.\<close>

definition pool_left :: "'j pool_run \<Rightarrow> nat" where
  "pool_left r =
     client_left (pr_client r) + sum_list (map worker_left (tp_workers (pr_pool r)))
     + 5 * length (tp_jobs (pr_pool r))"

lemma worker_left_update:
  "i < length ws \<Longrightarrow> sum_list (map worker_left (ws[i := pc])) + worker_left (ws ! i)
     = sum_list (map worker_left ws) + worker_left pc"
  by (rule sum_list_update_nat)

lemma take_job_left:
  assumes "i < length (tp_workers p)" and "worker_left (tp_workers p ! i) \<in> {2, 3}"
  shows "sum_list (map worker_left (tp_workers (take_job i p))) + 5 * length (tp_jobs (take_job i p))
    < sum_list (map worker_left (tp_workers p)) + 5 * length (tp_jobs p)"
proof (cases "tp_jobs p")
  case Nil
  then show ?thesis
    using worker_left_update [OF assms(1), of Finished] assms(2) by (auto simp: take_job_def worker_left_def)
next
  case (Cons fn rest)
  then show ?thesis
    using worker_left_update [OF assms(1), of "Running fn"] assms(2)
    by (auto simp: take_job_def worker_left_def)
qed

lemma worker_step_left:
  assumes "pool_worker i p = Some p'" and i: "i < length (tp_workers p)" and "tp_shutdown p"
  shows "sum_list (map worker_left (tp_workers p')) + 5 * length (tp_jobs p')
    < sum_list (map worker_left (tp_workers p)) + 5 * length (tp_jobs p)"
proof -
  have work: "has_work p" using assms(3) by (simp add: has_work_def)
  note up = worker_left_update [OF i]
  show ?thesis
  proof (cases "tp_workers p ! i")
    case Entering
    with assms work take_job_left [of i "counted p"] show ?thesis
      by (simp add: pool_worker_def Let_def counted_def [symmetric] worker_left_def)
  next
    case Awake
    with assms work take_job_left [OF i] show ?thesis by (simp add: pool_worker_def worker_left_def)
  next
    case Timed_Out
    with assms work take_job_left [OF i] show ?thesis by (simp add: pool_worker_def worker_left_def)
  next
    case (Running fn)
    with assms up [of Entering] up [of Finishing] show ?thesis
      by (auto simp: pool_worker_def worker_left_def)
  next
    case Finishing
    with assms up [of Entering] up [of Finished] show ?thesis
      by (auto simp: pool_worker_def worker_left_def split: if_splits)
  qed (use assms in \<open>simp_all add: pool_worker_def\<close>)
qed

lemma notify_all_jobs: "tp_jobs (notify_all p) = tp_jobs p"
  by (simp add: notify_all_def)

lemma notify_all_left:
  "sum_list (map worker_left (tp_workers (notify_all p))) \<le> sum_list (map worker_left (tp_workers p))"
  unfolding notify_all_def
  by simp (rule sum_list_mono, auto simp: worker_left_def split: pool_pc.splits)

text \<open>Once the flag is set, every step of every thread brings the end nearer.\<close>

lemma shut_step_left:
  assumes "pool_step r r'" and "tp_shutdown (pr_pool r)" and "client_ok (pr_pool r) (pr_client r)"
  shows "pool_left r' < pool_left r"
  using assms(1)
proof (cases rule: pool_step.cases)
  case shutdown
  then show ?thesis
    using assms(2,3) notify_all_left [of "pr_pool r"]
    by (cases "pr_client r")
      (auto simp: pool_shutdown_def Let_def client_ok_def closing_ok_def pool_left_def client_left_def
        cleanup_finished_threads_def notify_all_jobs split: if_splits)
next
  case (threads p)
  from threads(2) show ?thesis
  proof (cases rule: pool_thread.cases)
    case (spurious i)
    with threads(1) show ?thesis
      using worker_left_update [of i "tp_workers (pr_pool r)" Awake]
      by (simp add: pool_left_def awaken_def worker_left_def)
  next
    case (timeout i)
    with threads(1) show ?thesis
      using worker_left_update [of i "tp_workers (pr_pool r)" Timed_Out]
      by (simp add: pool_left_def worker_left_def)
  next
    case (worker i)
    with threads(1) show ?thesis
      using worker_step_left [of i "pr_pool r" p] assms(2) by (simp add: pool_left_def)
  qed
next
  case notify
  then show ?thesis
    using assms(2,3) by (cases rule: notify_step.cases) (auto simp: client_ok_def closing_ok_def)
qed (use assms(2,3) in \<open>auto simp: client_ok_def closing_ok_def\<close>)

lemma live_worker_steps:
  assumes "i < length (tp_workers p)" and "tp_workers p ! i \<noteq> Finished"
  shows "\<exists>p'. pool_thread p p'"
proof (cases "tp_workers p ! i = Asleep")
  case True
  with assms(1) show ?thesis by (blast intro: pool_thread.spurious)
next
  case False
  with assms(2) obtain p' where "pool_worker i p = Some p'"
    by (cases "tp_workers p ! i") (auto simp: pool_worker_def Let_def)
  with assms(1) show ?thesis by (blast intro: pool_thread.worker)
qed

text \<open>A join that blocks waits for a thread that can go on.\<close>

lemma blocked_shutdown_thread:
  assumes "run_ok r" and "tp_shutdown (pr_pool r)" and "pr_client r \<noteq> Shut"
    and None: "pool_shutdown r = None"
  shows "\<exists>p. pool_thread (pr_pool r) p"
proof -
  have "\<exists>i < length (tp_workers (pr_pool r)). tp_workers (pr_pool r) ! i \<noteq> Finished"
  proof (cases "pr_client r")
    case Base_Join
    with None assms(1) show ?thesis
      by (auto simp: pool_shutdown_def Let_def run_ok_def pool_ok_def split: if_splits)
        (meson less_le_trans)
  next
    case (Dynamic_Join ids)
    with None assms(1) show ?thesis
      by (auto simp: pool_shutdown_def Let_def run_ok_def client_ok_def closing_ok_def taken_over_def
          split: if_splits)
  qed (use assms in \<open>auto simp: pool_shutdown_def Let_def run_ok_def client_ok_def closing_ok_def\<close>)
  then show ?thesis using live_worker_steps by blast
qed

lemma shut_gets_on:
  assumes "run_ok r" and "tp_shutdown (pr_pool r)" and "pr_client r \<noteq> Shut"
  shows "\<exists>r'. pool_step r r'"
  using blocked_shutdown_thread [OF assms]
  by (cases "pool_shutdown r") (blast intro: pool_step.shutdown pool_step.threads)+

text \<open>While the pool is open, the list of dynamic threads covers those that live.\<close>

lemma open_pool_bound:
  assumes "pool_ok p" and "client_ok p c" and "\<not> tp_shutdown p"
  shows "card {i. i < length (tp_workers p) \<and> tp_workers p ! i \<noteq> Finished} \<le> tp_max_thread_count p"
proof -
  let ?live = "{i. i < length (tp_workers p) \<and> tp_workers p ! i \<noteq> Finished}"
  have "taken_over c = {}"
    using assms(2,3) by (auto simp: client_ok_def closing_ok_def taken_over_def)
  then have "?live \<subseteq> {..< tp_base_thread_count p} \<union> set (tp_dynamic_threads p)"
    using assms(2) by (auto simp: client_ok_def tracked_def not_less)
  then have "card ?live \<le> card ({..< tp_base_thread_count p} \<union> set (tp_dynamic_threads p))"
    by (rule card_mono [rotated]) simp
  also have "\<dots> \<le> tp_base_thread_count p + length (tp_dynamic_threads p)"
    by (rule order_trans [OF card_Un_le]) (simp add: card_length)
  also have "\<dots> \<le> tp_max_thread_count p" using assms(1) by (simp add: pool_ok_def)
  finally show ?thesis .
qed

lemma shut_pool_empty:
  assumes "pool_ok p" and "client_ok p Shut"
  shows "set (tp_workers p) \<subseteq> {Finished}" and "tp_jobs p = []" and "mset (tp_done p) = mset (tp_accepted p)"
proof -
  have "tp_workers p ! i = Finished" if "i < length (tp_workers p)" for i
    using assms(2) that by (cases "i < tp_base_thread_count p") (auto simp: client_defs)
  then show ended: "set (tp_workers p) \<subseteq> {Finished}" by (auto simp: in_set_conv_nth)
  then have "concat (map job_of (tp_workers p)) = []" by (auto simp: job_of_def)
  moreover have "tp_workers p ! 0 = Finished"
  proof -
    have "0 < length (tp_workers p)" using assms(1) by (auto simp: pool_ok_def)
    from nth_mem [OF this] ended show ?thesis by auto
  qed
  ultimately show "tp_jobs p = []" "mset (tp_done p) = mset (tp_accepted p)"
    using assms(1) by (auto simp: pool_ok_def)
qed

section \<open>The properties of the pool\<close>

text \<open>
  C25: the pool begins the connections in the order in which they were taken in, each once:
  those taken in are the ones begun followed by the ones queued, and the ones begun are those
  ended together with those in some thread. While the pool is open, no more threads live than
  the maximum, and a queued connection always has a notification on its way or a thread that
  is not asleep and comes back to the queue.
\<close>

theorem pool_runs_in_order:
  assumes "ThreadPool n max_n mqr = Some p0" and "0 < n" and "pool_step\<^sup>*\<^sup>* (pool_start p0) r"
  shows "tp_accepted (pr_pool r) = tp_started (pr_pool r) @ tp_jobs (pr_pool r)
    \<and> mset (tp_started (pr_pool r)) = mset (tp_done (pr_pool r))
        + mset (concat (map job_of (tp_workers (pr_pool r))))
    \<and> (tp_shutdown (pr_pool r) \<or>
        card {i. i < length (tp_workers (pr_pool r)) \<and> tp_workers (pr_pool r) ! i \<noteq> Finished}
          \<le> tp_max_thread_count (pr_pool r))
    \<and> (tp_jobs (pr_pool r) = [] \<or> pr_client r = Notifying \<or> pr_client r = Notifying_All
        \<or> (\<exists>pc \<in> set (tp_workers (pr_pool r)). at_work pc))"
proof -
  have ok: "pool_ok (pr_pool r)" "client_ok (pr_pool r) (pr_client r)"
    using pool.star_inv [OF assms(3) new_pool_ok [OF assms(1,2)]] by (simp_all add: run_ok_def)
  have "card {i. i < length (tp_workers (pr_pool r)) \<and> tp_workers (pr_pool r) ! i \<noteq> Finished}
      \<le> tp_max_thread_count (pr_pool r)" if "\<not> tp_shutdown (pr_pool r)"
    by (rule open_pool_bound [OF ok that])
  with ok show ?thesis by (auto simp: pool_ok_def client_ok_def unstranded_def)
qed

text \<open>One thread, at most two: the first connection comes before the thread has reached its wait.\<close>

definition demo_pool :: "nat thread_pool" where
  "demo_pool = the (ThreadPool 1 2 0)"

lemma demo_pool_first: "pool_step (pool_start demo_pool)
    \<lparr>pr_pool = snd (enqueue 7 demo_pool), pr_client = Notifying\<rparr>"
  using pool_step.enqueue [of "pool_start demo_pool" 7 True "snd (enqueue 7 demo_pool)"]
  by (simp add: pool_start_def demo_pool_def ThreadPool_def enqueue_def cleanup_finished_threads_def)

theorem pool_runs_in_order_witness:
  "card {i. i < length (tp_workers (snd (enqueue 7 demo_pool)))
        \<and> tp_workers (snd (enqueue 7 demo_pool)) ! i \<noteq> Finished} \<le> 2"
proof -
  have "ThreadPool 1 2 0 = Some demo_pool" by (simp add: demo_pool_def ThreadPool_def)
  from pool_runs_in_order [OF this _ r_into_rtranclp [of pool_step, OF demo_pool_first]]
  show ?thesis
    by (simp add: demo_pool_def ThreadPool_def enqueue_def cleanup_finished_threads_def)
qed

text \<open>
  C26: shutting the pool down comes to an end and loses no connection: once the flag is set,
  every step of any thread reduces a measure of the work left, as long as the shutdown is not
  over some thread has a step (a connection in a thread is taken to end), and when it is over,
  every thread has ended and exactly the connections taken in have been served.
\<close>

theorem pool_shutdown_serves_all:
  assumes "ThreadPool n max_n mqr = Some p0" and "0 < n" and "pool_step\<^sup>*\<^sup>* (pool_start p0) r"
    and "tp_shutdown (pr_pool r)"
  shows "(\<forall>r'. pool_step r r' \<longrightarrow> pool_left r' < pool_left r)
    \<and> (pr_client r \<noteq> Shut \<longrightarrow> (\<exists>r'. pool_step r r'))
    \<and> (pr_client r = Shut \<longrightarrow> set (tp_workers (pr_pool r)) \<subseteq> {Finished} \<and> tp_jobs (pr_pool r) = []
         \<and> mset (tp_done (pr_pool r)) = mset (tp_accepted (pr_pool r)))"
proof (intro conjI impI allI)
  have run: "run_ok r" by (rule pool.star_inv [OF assms(3) new_pool_ok [OF assms(1,2)]])
  then have ok: "pool_ok (pr_pool r)" "client_ok (pr_pool r) (pr_client r)"
    by (simp_all add: run_ok_def)
  show "pool_left r' < pool_left r" if "pool_step r r'" for r'
    by (rule shut_step_left [OF that assms(4) ok(2)])
  show "\<exists>r'. pool_step r r'" if "pr_client r \<noteq> Shut"
    by (rule shut_gets_on [OF run assms(4) that])
  assume shut: "pr_client r = Shut"
  then show "set (tp_workers (pr_pool r)) \<subseteq> {Finished}" "tp_jobs (pr_pool r) = []"
    "mset (tp_done (pr_pool r)) = mset (tp_accepted (pr_pool r))"
    using shut_pool_empty [OF ok(1)] ok(2) by simp_all
qed

theorem pool_shutdown_serves_all_witness:
  "\<exists>r'. pool_step \<lparr>pr_pool = demo_pool\<lparr>tp_shutdown := True\<rparr>, pr_client = Notifying_All\<rparr> r'"
proof -
  have p: "ThreadPool 1 2 0 = Some demo_pool" by (simp add: demo_pool_def ThreadPool_def)
  have "pool_step (pool_start demo_pool)
      \<lparr>pr_pool = demo_pool\<lparr>tp_shutdown := True\<rparr>, pr_client = Notifying_All\<rparr>"
    by (rule pool_step.shutdown) (simp add: pool_shutdown_def pool_start_def Let_def)
  from pool_shutdown_serves_all [OF p _ r_into_rtranclp [of pool_step, OF this]] show ?thesis by simp
qed

section \<open>A connection behind busy threads\<close>

text \<open>A pool in which every job is \<open>a\<close>, with base threads only.\<close>

definition pool_at ::
  "nat \<Rightarrow> nat \<Rightarrow> 'j pool_pc list \<Rightarrow> 'j list \<Rightarrow> nat \<Rightarrow> 'j list \<Rightarrow> client_pc \<Rightarrow> 'j pool_run" where
  "pool_at n m ws jobs idle started c =
     \<lparr>pr_pool = \<lparr>tp_base_thread_count = n, tp_max_thread_count = m, tp_max_queued_requests = 0,
        tp_idle_thread_count = idle, tp_shutdown = False, tp_jobs = jobs, tp_workers = ws,
        tp_dynamic_threads = [], tp_finished_threads = [], tp_accepted = started @ jobs,
        tp_started = started, tp_done = []\<rparr>, pr_client = c\<rparr>"

lemma pool_at_enqueue:
  "0 < idle \<Longrightarrow> pool_step (pool_at n m ws jobs idle st Serving) (pool_at n m ws (jobs @ [a]) idle st Notifying)"
  using pool_step.enqueue [of "pool_at n m ws jobs idle st Serving" a True
      "pr_pool (pool_at n m ws (jobs @ [a]) idle st Notifying)"]
  by (simp add: enqueue_def pool_at_def)

lemma pool_at_wake:
  "i < length ws \<Longrightarrow> ws ! i = Asleep \<Longrightarrow>
   pool_step (pool_at n m ws jobs idle st Notifying) (pool_at n m (ws[i := Awake]) jobs idle st Serving)"
  using pool_step.notify [OF notify_step.notify_one [of "pool_at n m ws jobs idle st Notifying" i]]
  by (simp add: awaken_def set_worker_def pool_at_def)

lemma pool_at_nobody:
  "Asleep \<notin> set ws \<Longrightarrow>
   pool_step (pool_at n m ws jobs idle st Notifying) (pool_at n m ws jobs idle st Serving)"
  using pool_step.notify [OF notify_step.notify_nobody [of "pool_at n m ws jobs idle st Notifying"]] by (simp add: pool_at_def)

lemma pool_at_take:
  "i < length ws \<Longrightarrow> ws ! i = Awake \<Longrightarrow>
   pool_step (pool_at n m ws (a # jobs) idle st Serving)
     (pool_at n m (ws[i := Running a]) jobs (idle - 1) (st @ [a]) Serving)"
  using pool_step.threads [OF pool_thread.worker [of i "pr_pool (pool_at n m ws (a # jobs) idle st Serving)"
      "pr_pool (pool_at n m (ws[i := Running a]) jobs (idle - 1) (st @ [a]) Serving)"]]
  by (simp add: pool_worker_def take_job_def set_worker_def has_work_def pool_at_def)

lemma pool_at_sleep:
  "i < length ws \<Longrightarrow> ws ! i = Entering \<Longrightarrow>
   pool_step (pool_at n m ws [] idle st Serving) (pool_at n m (ws[i := Asleep]) [] (Suc idle) st Serving)"
  using pool_step.threads [OF pool_thread.worker [of i "pr_pool (pool_at n m ws [] idle st Serving)"
      "pr_pool (pool_at n m (ws[i := Asleep]) [] (Suc idle) st Serving)"]]
  by (simp add: pool_worker_def set_worker_def has_work_def pool_at_def Let_def)

text \<open>The threads go to sleep one after the other.\<close>

lemma replicate_next:
  "k < n \<Longrightarrow> (replicate k x @ replicate (n - k) y)[k := x] = replicate (Suc k) x @ replicate (n - Suc k) y"
proof -
  assume "k < n"
  then have "n - k = Suc (n - Suc k)" by simp
  then show ?thesis by (simp add: list_update_append replicate_append_same)
qed

lemma all_asleep:
  "k \<le> n \<Longrightarrow> pool_step\<^sup>*\<^sup>* (pool_at n m (replicate n Entering) [] 0 [] Serving)
     (pool_at n m (replicate k Asleep @ replicate (n - k) Entering) [] k [] Serving)"
proof (induction k)
  case (Suc k)
  then have lt: "k < n" by simp
  have "pool_step (pool_at n m (replicate k Asleep @ replicate (n - k) Entering) [] k [] Serving)
      (pool_at n m ((replicate k Asleep @ replicate (n - k) Entering)[k := Asleep]) [] (Suc k) [] Serving)"
    using pool_at_sleep [of k "replicate k Asleep @ replicate (n - k) Entering" n m k "[]"] lt
    by (simp add: nth_append)
  then have "pool_step (pool_at n m (replicate k Asleep @ replicate (n - k) Entering) [] k [] Serving)
      (pool_at n m (replicate (Suc k) Asleep @ replicate (n - Suc k) Entering) [] (Suc k) [] Serving)"
    unfolding replicate_next [OF lt] .
  with Suc.IH [OF less_imp_le [OF lt]] show ?case by (rule rtranclp.rtrancl_into_rtrancl)
qed simp

text \<open>One job after the other finds a thread, until only the last thread is asleep.\<close>

lemma all_but_one_busy:
  "k < n \<Longrightarrow> pool_step\<^sup>*\<^sup>* (pool_at n m (replicate n Asleep) [] n [] Serving)
     (pool_at n m (replicate k (Running a) @ replicate (n - k) Asleep) [] (n - k) (replicate k a) Serving)"
proof (induction k)
  case (Suc k)
  let ?ws = "replicate k (Running a) @ replicate (n - k) Asleep"
  have k: "k < length ?ws" "?ws ! k = Asleep" "?ws[k := Awake, k := Running a] = ?ws[k := Running a]"
    "0 < n - k" "n - k - 1 = n - Suc k"
    using Suc.prems by (simp_all add: nth_append)
  have "pool_step\<^sup>*\<^sup>* (pool_at n m ?ws [] (n - k) (replicate k a) Serving)
      (pool_at n m (?ws[k := Running a]) [] (n - Suc k) (replicate (Suc k) a) Serving)"
    using pool_at_enqueue [of "n - k" n m ?ws "[]" "replicate k a" a]
      pool_at_wake [of k ?ws n m "[a]" "n - k" "replicate k a"]
      pool_at_take [of k "?ws[k := Awake]" n m a "[]" "n - k" "replicate k a"] k
    by (simp add: replicate_append_same)
  with Suc replicate_next [of k n "Running a" Asleep] show ?case by simp
qed simp

text \<open>
  The pool starts a thread only when its idle counter is zero, but a thread that has
  been notified and has not run yet is still counted. So two connections in quick succession
  can end up with one thread between them: a state is reachable in which a connection is queued
  while all threads are busy and more of them could be started; only the end of another
  connection, or the next one, brings it on.
\<close>

theorem queued_behind_busy_threads:
  assumes "ThreadPool n max_n 0 = Some p" and "0 < n" and "n < max_n"
  shows "\<exists>r. pool_step\<^sup>*\<^sup>* (pool_start p) r \<and> pr_client r = Serving \<and> tp_jobs (pr_pool r) = [b]
    \<and> tp_workers (pr_pool r) = replicate n (Running a) \<and> n < tp_max_thread_count (pr_pool r)"
proof -
  obtain k where n: "n = Suc k" using assms(2) by (cases n) simp_all
  define B where "B = replicate k (Running a)"
  define st where "st = replicate k a"
  have len: "length B = k" by (simp add: B_def)
  have "pool_start p = pool_at n max_n (replicate n Entering) [] 0 [] Serving"
    using assms by (auto simp: ThreadPool_def pool_start_def pool_at_def split: if_splits)
  then have "pool_step\<^sup>*\<^sup>* (pool_start p) (pool_at n max_n (replicate n Asleep) [] n [] Serving)"
    using all_asleep [of n n max_n] by simp
  moreover have "pool_step\<^sup>*\<^sup>* (pool_at n max_n (replicate n Asleep) [] n [] Serving)
      (pool_at n max_n (B @ [Asleep]) [] 1 st Serving)"
    using all_but_one_busy [of k n max_n a] replicate_Suc [of 0 "Asleep :: 'a pool_pc"]
    unfolding B_def st_def by (simp add: n del: replicate_Suc)
  ultimately have "pool_step\<^sup>*\<^sup>* (pool_start p) (pool_at n max_n (B @ [Asleep]) [] 1 st Serving)"
    by (rule rtranclp_trans)
  also have "pool_step (pool_at n max_n (B @ [Asleep]) [] 1 st Serving)
      (pool_at n max_n (B @ [Asleep]) [a] 1 st Notifying)"
    using pool_at_enqueue [of 1 n max_n "B @ [Asleep]" "[]" st a] by simp
  also have "pool_step (pool_at n max_n (B @ [Asleep]) [a] 1 st Notifying)
      (pool_at n max_n (B @ [Awake]) [a] 1 st Serving)"
    using pool_at_wake [of k "B @ [Asleep]" n max_n "[a]" 1 st] by (simp add: len nth_append list_update_append)
  also have "pool_step (pool_at n max_n (B @ [Awake]) [a] 1 st Serving)
      (pool_at n max_n (B @ [Awake]) [a, b] 1 st Notifying)"
    using pool_at_enqueue [of 1 n max_n "B @ [Awake]" "[a]" st b] by simp
  also have "pool_step (pool_at n max_n (B @ [Awake]) [a, b] 1 st Notifying)
      (pool_at n max_n (B @ [Awake]) [a, b] 1 st Serving)"
    by (rule pool_at_nobody) (simp add: B_def)
  also have "pool_step (pool_at n max_n (B @ [Awake]) [a, b] 1 st Serving)
      (pool_at n max_n (B @ [Running a]) [b] 0 (st @ [a]) Serving)"
    using pool_at_take [of k "B @ [Awake]" n max_n a "[b]" 1 st] by (simp add: len nth_append list_update_append)
  finally have "pool_step\<^sup>*\<^sup>* (pool_start p) (pool_at n max_n (B @ [Running a]) [b] 0 (st @ [a]) Serving)" .
  moreover have "B @ [Running a] = replicate n (Running a)"
    by (simp add: B_def n replicate_append_same)
  ultimately show ?thesis
    using assms(3) by (intro exI [of _ "pool_at n max_n (B @ [Running a]) [b] 0 (st @ [a]) Serving"])
      (simp add: pool_at_def)
qed

theorem queued_behind_busy_threads_witness:
  "\<exists>r. pool_step\<^sup>*\<^sup>* (pool_start (the (new_task_queue 4))) r \<and> tp_jobs (pr_pool r) = [9 :: nat]
     \<and> tp_workers (pr_pool r) = replicate 8 (Running 7) \<and> 8 < tp_max_thread_count (pr_pool r)"
proof -
  have "ThreadPool 8 32 0 = Some (the (new_task_queue 4 :: nat thread_pool option))"
    by (simp add: new_task_queue_def ThreadPool_def CPPHTTPLIB_THREAD_POOL_COUNT_def
        CPPHTTPLIB_THREAD_POOL_MAX_COUNT_def)
  moreover have "0 < (8 :: nat)" "8 < (32 :: nat)" by simp_all
  ultimately show ?thesis
    using queued_behind_busy_threads [of 8 32 "the (new_task_queue 4)" 9 7] by blast
qed

end
