(* ===== verification/Http_Listen.thy ===== *)
theory Http_Listen
  imports Thread_Pool
begin

text \<open>
  The life of the REST server around its connections (\<^verbatim>\<open>Server\<close> of \<^verbatim>\<open>external/httplib.h\<close>):
  \<^verbatim>\<open>listen\<close> with its bind and its accept loop, run by one thread on top of the pool, against
  \<^verbatim>\<open>stop\<close>, called by another. What the operating system answers is chosen by the environment.
\<close>

section \<open>State\<close>

text \<open>
  Where the listening thread is: before the bind, between the bind and the accept loop, at the
  head of the loop, about to call \<^verbatim>\<open>accept()\<close>, inside it, handing a connection over, shutting the
  pool down (with the value it is going to return), or back from \<^verbatim>\<open>listen\<close>.
\<close>

datatype listen_pc =
    Before_Bind | Bound | Loop_Head | Calling_Accept | In_Accept | Handing_Over
  | Closing bool | Returned bool

record 'j server_life =
  sl_svr_sock :: bool  \<comment> \<open>\<^verbatim>\<open>svr_sock_\<close> is not \<^verbatim>\<open>INVALID_SOCKET\<close>\<close>
  sl_is_running :: bool
  sl_is_decommissioned :: bool
  sl_listen :: listen_pc
  sl_pool :: "'j pool_run"

text \<open>\<open>cores\<close> processors; the pool is the one that \<^verbatim>\<open>listen_internal\<close> will make.\<close>

definition new_server :: "nat \<Rightarrow> 'j server_life" where
  "new_server cores =
     \<lparr>sl_svr_sock = False, sl_is_running = False, sl_is_decommissioned = False,
      sl_listen = Before_Bind, sl_pool = pool_start (the (new_task_queue cores))\<rparr>"

section \<open>Operations\<close>

text \<open>
  For a port other than 0, as the programs use. \<open>created\<close>: whether the system gives a socket that
  is bound to the port and listens. The answer is whether the result is a port.
\<close>

definition bind_internal :: "bool \<Rightarrow> 'j server_life \<Rightarrow> bool \<times> 'j server_life" where
  "bind_internal created s =
     (if sl_is_decommissioned s then (False, s)
      else let s = s\<lparr>sl_svr_sock := created\<rparr>
           in if \<not> sl_svr_sock s then (False, s) else (True, s))"

definition bind_to_port :: "bool \<Rightarrow> 'j server_life \<Rightarrow> bool \<times> 'j server_life" where
  "bind_to_port created s =
     (let (ret, s) = bind_internal created s;
          s = (if \<not> ret then s\<lparr>sl_is_decommissioned := True\<rparr> else s)
      in (ret, s))"

definition is_running :: "'j server_life \<Rightarrow> bool" where
  "is_running s = sl_is_running s"

text \<open>The condition under which \<^verbatim>\<open>wait_until_ready\<close> returns.\<close>

definition wait_until_ready :: "'j server_life \<Rightarrow> bool" where
  "wait_until_ready s \<longleftrightarrow> \<not> (\<not> sl_is_running s \<and> \<not> sl_is_decommissioned s)"

definition stop_server :: "'j server_life \<Rightarrow> 'j server_life" where
  "stop_server s =
     (let s = (if sl_is_running s then s\<lparr>sl_svr_sock := False\<rparr> else s)
      in s\<lparr>sl_is_decommissioned := False\<rparr>)"

definition decommission :: "'j server_life \<Rightarrow> 'j server_life" where
  "decommission s = s\<lparr>sl_is_decommissioned := True\<rparr>"

text \<open>
  What \<^verbatim>\<open>accept()\<close> answers: a connection, an error after which the loop tries again (\<^verbatim>\<open>EMFILE\<close>,
  \<^verbatim>\<open>EINTR\<close>, \<^verbatim>\<open>EAGAIN\<close>), or another error.
\<close>

datatype 'j accept_answer = Connection 'j | Try_Again | Accept_Error

definition after_accept :: "'j accept_answer \<Rightarrow> 'j server_life \<Rightarrow> 'j server_life" where
  "after_accept answer s =
     (case answer of
        Connection sock \<Rightarrow>
          (let (taken, p) = enqueue sock (pr_pool (sl_pool s))
           in if taken
              then s\<lparr>sl_pool := \<lparr>pr_pool = p, pr_client = Notifying\<rparr>, sl_listen := Handing_Over\<rparr>
              else s\<lparr>sl_pool := \<lparr>pr_pool = p, pr_client = Serving\<rparr>, sl_listen := Loop_Head\<rparr>)
      | Try_Again \<Rightarrow> s\<lparr>sl_listen := Loop_Head\<rparr>
      | Accept_Error \<Rightarrow> s\<lparr>sl_listen := Closing (\<not> sl_svr_sock s)\<rparr>)"

text \<open>
  The statements of \<^verbatim>\<open>listen\<close> and \<^verbatim>\<open>listen_internal\<close>, without those that are steps of the pool;
  \<^term>\<open>None\<close>: the thread is inside \<^verbatim>\<open>accept()\<close>, in the pool, or back. \<^verbatim>\<open>accept()\<close> on a socket number that
  \<^verbatim>\<open>stop\<close> has taken away is an error at once.
\<close>

definition listen_turn :: "bool \<Rightarrow> 'j server_life \<Rightarrow> 'j server_life option" where
  "listen_turn created s =
     (case sl_listen s of
        Before_Bind \<Rightarrow>
          (let (ok, s) = bind_to_port created s
           in Some (s\<lparr>sl_listen := if ok then Bound else Returned False\<rparr>))
      | Bound \<Rightarrow>
          Some (if sl_is_decommissioned s then s\<lparr>sl_listen := Returned False\<rparr>
                else s\<lparr>sl_is_running := True, sl_listen := Loop_Head\<rparr>)
      | Loop_Head \<Rightarrow>
          Some (s\<lparr>sl_listen := if sl_svr_sock s then Calling_Accept else Closing True\<rparr>)
      | Calling_Accept \<Rightarrow>
          Some (if sl_svr_sock s then s\<lparr>sl_listen := In_Accept\<rparr> else after_accept Accept_Error s)
      | Handing_Over \<Rightarrow>
          if pr_client (sl_pool s) = Serving then Some (s\<lparr>sl_listen := Loop_Head\<rparr>) else None
      | Closing ret \<Rightarrow>
          if pr_client (sl_pool s) = Shut
          then Some (s\<lparr>sl_is_decommissioned := \<not> ret, sl_is_running := False,
                       sl_listen := Returned ret\<rparr>)
          else None
      | _ \<Rightarrow> None)"

section \<open>Interleavings\<close>

text \<open>
  \<open>created\<close>: the bind works. \<open>fails\<close>: whether \<^verbatim>\<open>accept()\<close> may fail on a socket that is open; \<open>wakes\<close>:
  whether shutting the socket down makes a call that is blocked on it return, as it does on
  Linux. A connection comes only from an open socket.
\<close>

inductive life_step ::
  "bool \<Rightarrow> bool \<Rightarrow> bool \<Rightarrow> 'j server_life \<Rightarrow> 'j server_life \<Rightarrow> bool" for created fails wakes where
  listen: "listen_turn created s = Some s' \<Longrightarrow> life_step created fails wakes s s'"
| accept: "sl_listen s = In_Accept \<Longrightarrow> sl_svr_sock s \<Longrightarrow>
    life_step created fails wakes s (after_accept (Connection sock) s)"
| again: "sl_listen s = In_Accept \<Longrightarrow> life_step created fails wakes s (after_accept Try_Again s)"
| error: "sl_listen s = In_Accept \<Longrightarrow> (if sl_svr_sock s then fails else wakes) \<Longrightarrow>
    life_step created fails wakes s (after_accept Accept_Error s)"
| notify: "sl_listen s = Handing_Over \<Longrightarrow> notify_step (sl_pool s) r \<Longrightarrow>
    life_step created fails wakes s (s\<lparr>sl_pool := r\<rparr>)"
| closing: "sl_listen s = Closing ret \<Longrightarrow> pool_shutdown (sl_pool s) = Some r \<Longrightarrow>
    life_step created fails wakes s (s\<lparr>sl_pool := r\<rparr>)"
| threads: "sl_is_running s \<Longrightarrow> pool_thread (pr_pool (sl_pool s)) p \<Longrightarrow>
    life_step created fails wakes s (s\<lparr>sl_pool := (sl_pool s)\<lparr>pr_pool := p\<rparr>\<rparr>)"

inductive server_step ::
  "bool \<Rightarrow> bool \<Rightarrow> bool \<Rightarrow> 'j server_life \<Rightarrow> 'j server_life \<Rightarrow> bool" for created fails wakes where
  live: "life_step created fails wakes s s' \<Longrightarrow> server_step created fails wakes s s'"
| stop: "server_step created fails wakes s (stop_server s)"

section \<open>The invariant\<close>

definition client_at :: "listen_pc \<Rightarrow> client_pc \<Rightarrow> bool" where
  "client_at pc c \<longleftrightarrow>
     (case pc of
        Handing_Over \<Rightarrow> c = Notifying \<or> c = Serving
      | Closing ret \<Rightarrow> c \<noteq> Notifying
      | Returned ret \<Rightarrow> c = Shut \<or> c = Serving
      | _ \<Rightarrow> c = Serving)"

definition running_at :: "listen_pc \<Rightarrow> bool" where
  "running_at pc \<longleftrightarrow>
     (case pc of Before_Bind \<Rightarrow> False | Bound \<Rightarrow> False | Returned ret \<Rightarrow> False | _ \<Rightarrow> True)"

text \<open>The flag follows the thread; a server that has run is back only with its pool shut down.\<close>

definition life_ok :: "'j server_life \<Rightarrow> bool" where
  "life_ok s \<longleftrightarrow>
     run_ok (sl_pool s) \<and> client_at (sl_listen s) (pr_client (sl_pool s)) \<and>
     (sl_is_running s \<longleftrightarrow> running_at (sl_listen s))"

lemma new_server_ok: "life_ok (new_server cores)"
proof -
  obtain p where "new_task_queue cores = Some (p :: 'a thread_pool)" "run_ok (pool_start p)"
    by (rule new_task_queue_ok)
  then show ?thesis
    by (simp add: life_ok_def new_server_def client_at_def running_at_def)
      (simp add: pool_start_def)
qed

lemma stop_server_ok: "life_ok (stop_server s) = life_ok s"
  by (simp add: life_ok_def stop_server_def Let_def)

lemma stop_server_sel [simp]:
  "sl_listen (stop_server s) = sl_listen s" "sl_pool (stop_server s) = sl_pool s"
  "sl_is_running (stop_server s) = sl_is_running s"
  "sl_is_decommissioned (stop_server s) = False"
  "sl_svr_sock (stop_server s) = (sl_svr_sock s \<and> \<not> sl_is_running s)"
  by (simp_all add: stop_server_def Let_def)

lemma listen_turn_ok:
  assumes "listen_turn created s = Some s'" and "life_ok s"
  shows "life_ok s'"
  using assms
  by (cases "sl_listen s")
    (auto simp: listen_turn_def life_ok_def client_at_def running_at_def bind_to_port_def
      bind_internal_def after_accept_def Let_def split_beta split: if_splits)

lemma after_accept_ok:
  assumes "life_ok s" and "sl_listen s = In_Accept"
  shows "life_ok (after_accept answer s)"
proof (cases answer)
  case (Connection sock)
  obtain taken p where e: "enqueue sock (pr_pool (sl_pool s)) = (taken, p)" by (cases "enqueue sock (pr_pool (sl_pool s))")
  from assms have serving: "pr_client (sl_pool s) = Serving" and ok: "run_ok (sl_pool s)"
    by (simp_all add: life_ok_def client_at_def)
  have "run_ok \<lparr>pr_pool = p, pr_client = (if taken then Notifying else Serving)\<rparr>"
    by (rule pool.step_inv [OF pool_step.enqueue [OF serving e] ok])
  with assms Connection e show ?thesis
    by (auto simp: after_accept_def life_ok_def client_at_def running_at_def split: if_splits)
qed (use assms in \<open>simp_all add: after_accept_def life_ok_def client_at_def running_at_def\<close>)

lemma notify_step_client: "notify_step r r' \<Longrightarrow> pr_client r' = Serving"
  by (cases rule: notify_step.cases) auto

lemma pool_shutdown_client: "pool_shutdown r = Some r' \<Longrightarrow> pr_client r' \<noteq> Notifying \<and> pr_client r' \<noteq> Serving"
  by (cases "pr_client r") (auto simp: pool_shutdown_def Let_def split: if_splits)

interpretation life: safe_relation "life_step created fails wakes" life_ok
proof
  fix s s' :: "'a server_life"
  assume "life_step created fails wakes s s'" and ok: "life_ok s"
  then show "life_ok s'"
  proof (cases rule: life_step.cases)
    case listen
    then show ?thesis using ok by (rule listen_turn_ok)
  next
    case (notify r)
    moreover from notify(3) ok have "run_ok r"
      using pool.step_inv [OF pool_step.notify] by (auto simp: life_ok_def)
    ultimately show ?thesis
      using ok notify_step_client by (auto simp: life_ok_def client_at_def running_at_def)
  next
    case (closing ret r)
    moreover from closing(3) ok have "run_ok r"
      using pool.step_inv [OF pool_step.shutdown] by (auto simp: life_ok_def)
    ultimately show ?thesis
      using ok pool_shutdown_client by (auto simp: life_ok_def client_at_def running_at_def)
  next
    case (threads p)
    moreover from threads(3) ok have "run_ok ((sl_pool s)\<lparr>pr_pool := p\<rparr>)"
      using pool.step_inv [OF pool_step.threads] by (auto simp: life_ok_def)
    ultimately show ?thesis using ok by (auto simp: life_ok_def)
  qed (use ok after_accept_ok in auto)
qed

interpretation server: safe_relation "server_step created fails wakes" life_ok
  by unfold_locales (auto elim!: server_step.cases simp: stop_server_ok intro: life.step_inv)

section \<open>Stopping\<close>

definition listen_left :: "listen_pc \<Rightarrow> client_pc \<Rightarrow> nat" where
  "listen_left pc c =
     (case pc of
        Returned ret \<Rightarrow> 0
      | Closing ret \<Rightarrow> if c = Serving then 2 else 1
      | Loop_Head \<Rightarrow> 3
      | Handing_Over \<Rightarrow> if c = Notifying then 5 else 4
      | _ \<Rightarrow> 6)"

text \<open>What is left of \<^verbatim>\<open>listen\<close> once its socket is gone, and then of the shutdown of the pool.\<close>

definition life_left :: "'j server_life \<Rightarrow> nat \<times> nat" where
  "life_left s =
     (listen_left (sl_listen s) (pr_client (sl_pool s)),
      if tp_shutdown (pr_pool (sl_pool s)) then pool_left (sl_pool s) else 0)"

definition sooner :: "(nat \<times> nat) \<Rightarrow> (nat \<times> nat) \<Rightarrow> bool" where
  "sooner a b \<longleftrightarrow> (a, b) \<in> less_than <*lex*> less_than"

lemma sooner_iff: "sooner a b \<longleftrightarrow> fst a < fst b \<or> fst a = fst b \<and> snd a < snd b"
  by (cases a; cases b) (simp add: sooner_def)

lemma wf_sooner: "wfp sooner"
  by (simp add: wfp_def sooner_def [abs_def] wf_lex_prod)

text \<open>The listening thread of a stopped server.\<close>

definition stopping :: "'j server_life \<Rightarrow> bool" where
  "stopping s \<longleftrightarrow> life_ok s \<and> \<not> sl_svr_sock s \<and>
     sl_listen s \<noteq> Before_Bind \<and> sl_listen s \<noteq> Bound"

lemma listen_turn_stopping:
  assumes "listen_turn created s = Some s'" and "stopping s"
  shows "\<not> sl_svr_sock s' \<and> sl_listen s' \<noteq> Before_Bind \<and> sl_listen s' \<noteq> Bound
    \<and> sooner (life_left s') (life_left s)"
proof -
  have "client_at (sl_listen s) (pr_client (sl_pool s))" using assms(2) by (simp add: stopping_def life_ok_def)
  with assms show ?thesis
    by (cases "sl_listen s")
      (auto simp: listen_turn_def stopping_def client_at_def after_accept_def life_left_def
        listen_left_def sooner_iff split: if_splits)
qed

lemma notify_step_left:
  assumes "notify_step r r'"
  shows "pr_client r = Notifying" and "pr_client r' = Serving"
    and "tp_shutdown (pr_pool r') = tp_shutdown (pr_pool r)"
  using assms by (auto elim!: notify_step.cases simp: awaken_def)

lemma pool_shutdown_flag: "pool_shutdown r = Some r' \<Longrightarrow> tp_shutdown (pr_pool r') \<longleftrightarrow> tp_shutdown (pr_pool r) \<or> pr_client r = Serving"
  by (cases "pr_client r")
    (auto simp: pool_shutdown_def Let_def notify_all_def cleanup_finished_threads_def split: if_splits)

lemma pool_thread_flag: "pool_thread p p' \<Longrightarrow> tp_shutdown p' = tp_shutdown p"
  by (auto elim!: pool_thread.cases worker_effect simp: awaken_def)

lemma open_client: "life_ok s \<Longrightarrow> tp_shutdown (pr_pool (sl_pool s)) \<longleftrightarrow>
    pr_client (sl_pool s) \<noteq> Serving \<and> pr_client (sl_pool s) \<noteq> Notifying"
  by (simp add: life_ok_def run_ok_def client_ok_def closing_ok_def)

lemma closing_left:
  assumes ok: "life_ok s" and closing: "sl_listen s = Closing ret" and "pool_shutdown (sl_pool s) = Some r"
  shows "sooner (life_left (s\<lparr>sl_pool := r\<rparr>)) (life_left s)"
proof (cases "pr_client (sl_pool s) = Serving")
  case True
  with closing pool_shutdown_client [OF assms(3)] show ?thesis
    by (simp add: life_left_def listen_left_def sooner_iff)
next
  case False
  then have flag: "tp_shutdown (pr_pool (sl_pool s))"
    and shut: "client_ok (pr_pool (sl_pool s)) (pr_client (sl_pool s))"
    using open_client [OF ok] closing ok by (simp_all add: life_ok_def client_at_def run_ok_def)
  from shut_step_left [OF pool_step.shutdown [OF assms(3)] flag shut] flag closing False
    pool_shutdown_client [OF assms(3)] pool_shutdown_flag [OF assms(3)]
  show ?thesis by (simp add: life_left_def listen_left_def sooner_iff)
qed

lemma life_step_stopping:
  assumes "life_step created fails wakes s s'" and stop: "stopping s"
  shows "stopping s' \<and> (sooner (life_left s') (life_left s) \<or> life_left s' = life_left s)"
proof -
  have ok: "life_ok s" and ok': "life_ok s'"
    using life.step_inv [OF assms(1)] stop by (simp_all add: stopping_def)
  have shut: "client_ok (pr_pool (sl_pool s)) (pr_client (sl_pool s))"
    using ok by (simp add: life_ok_def run_ok_def)
  from assms(1) have "\<not> sl_svr_sock s' \<and> sl_listen s' \<noteq> Before_Bind \<and> sl_listen s' \<noteq> Bound
      \<and> (sooner (life_left s') (life_left s) \<or> life_left s' = life_left s)"
  proof (cases rule: life_step.cases)
    case listen
    with stop show ?thesis using listen_turn_stopping by blast
  next
    case (notify r)
    with stop notify_step_left [OF notify(3)] open_client [OF ok] show ?thesis
      by (simp add: stopping_def life_left_def listen_left_def sooner_iff)
  next
    case (closing ret r)
    with stop closing_left [OF ok closing(2,3)] show ?thesis by (simp add: stopping_def)
  next
    case (threads p)
    note same = pool_thread_flag [OF threads(3)]
    show ?thesis
    proof (cases "tp_shutdown (pr_pool (sl_pool s))")
      case True
      with shut_step_left [OF pool_step.threads [OF threads(3)] _ shut] stop threads same
      show ?thesis by (simp add: stopping_def life_left_def sooner_iff)
    next
      case False
      with stop threads same show ?thesis by (simp add: stopping_def life_left_def)
    qed
  qed (use stop in \<open>auto simp: stopping_def after_accept_def life_left_def listen_left_def sooner_iff\<close>)
  with ok' show ?thesis by (simp add: stopping_def)
qed

text \<open>As long as \<^verbatim>\<open>listen\<close> is not over, some step brings its end nearer.\<close>

lemma stopping_gets_on:
  assumes stop: "stopping s" and "\<forall>ret. sl_listen s \<noteq> Returned ret" and "wakes"
  shows "\<exists>s'. life_step created fails wakes s s' \<and> sooner (life_left s') (life_left s)"
proof (cases "listen_turn created s")
  case (Some s')
  then show ?thesis using listen_turn_stopping [OF Some stop] by (blast intro: life_step.listen)
next
  case None
  have ok: "life_ok s" using stop by (simp add: stopping_def)
  show ?thesis
  proof (cases "sl_listen s")
    case In_Accept
    with stop \<open>wakes\<close> have "life_step created fails wakes s (after_accept Accept_Error s)"
      by (intro life_step.error) (simp_all add: stopping_def)
    moreover have "sooner (life_left (after_accept Accept_Error s)) (life_left s)"
      using In_Accept by (simp add: after_accept_def life_left_def listen_left_def sooner_iff)
    ultimately show ?thesis by blast
  next
    case Handing_Over
    with None ok have notifying: "pr_client (sl_pool s) = Notifying"
      by (auto simp: listen_turn_def life_ok_def client_at_def split: if_splits)
    then obtain r where "notify_step (sl_pool s) r"
      by (metis in_set_conv_nth notify_step.intros)
    with notify_step_left [OF this] Handing_Over notifying show ?thesis
      using life_step.notify [OF Handing_Over] open_client [OF ok]
      by (intro exI [of _ "s\<lparr>sl_pool := r\<rparr>"]) (simp add: life_left_def listen_left_def sooner_iff)
  next
    case (Closing ret)
    with None have open_yet: "pr_client (sl_pool s) \<noteq> Shut" by (auto simp: listen_turn_def)
    show ?thesis
    proof (cases "pool_shutdown (sl_pool s)")
      case (Some r)
      have step: "life_step created fails wakes s (s\<lparr>sl_pool := r\<rparr>)"
        using Closing Some by (rule life_step.closing)
      with closing_left [OF ok Closing Some] show ?thesis by blast
    next
      case None
      then have flag: "tp_shutdown (pr_pool (sl_pool s))" and run: "run_ok (sl_pool s)"
        using ok Closing open_client [OF ok]
        by (auto simp: pool_shutdown_def Let_def life_ok_def client_at_def)
      obtain p where "pool_thread (pr_pool (sl_pool s)) p"
        using blocked_shutdown_thread [OF run flag open_yet None] by blast
      moreover have "sl_is_running s" using ok Closing by (simp add: life_ok_def running_at_def)
      ultimately have step: "life_step created fails wakes s (s\<lparr>sl_pool := (sl_pool s)\<lparr>pr_pool := p\<rparr>\<rparr>)"
        by (intro life_step.threads)
      have "pool_left ((sl_pool s)\<lparr>pr_pool := p\<rparr>) < pool_left (sl_pool s)"
        using shut_step_left [OF pool_step.threads flag] run \<open>pool_thread _ p\<close> by (simp add: run_ok_def)
      with step pool_thread_flag [OF \<open>pool_thread _ p\<close>] flag show ?thesis
        by (intro exI [of _ "s\<lparr>sl_pool := (sl_pool s)\<lparr>pr_pool := p\<rparr>\<rparr>"])
          (simp add: life_left_def sooner_iff)
    qed
  qed (use None assms(2) stop in \<open>auto simp: listen_turn_def stopping_def Let_def split_beta\<close>)
qed

interpretation stopped: safe_relation "life_step created fails wakes" stopping
  by unfold_locales (use life_step_stopping in blast)

text \<open>A server that runs comes back only over the end of its pool.\<close>

interpretation came_back: safe_relation "life_step created fails wakes"
  "\<lambda>s. running_at (sl_listen s) \<or> pr_client (sl_pool s) = Shut \<and> (\<exists>ret. sl_listen s = Returned ret)"
proof
  fix s s' :: "'a server_life"
  assume "life_step created fails wakes s s'"
    and "running_at (sl_listen s) \<or> pr_client (sl_pool s) = Shut \<and> (\<exists>ret. sl_listen s = Returned ret)"
  then show "running_at (sl_listen s') \<or> pr_client (sl_pool s') = Shut \<and> (\<exists>ret. sl_listen s' = Returned ret)"
  proof (cases rule: life_step.cases)
    case listen
    then show ?thesis
      using \<open>running_at (sl_listen s) \<or> _\<close>
      by (cases "sl_listen s") (auto simp: listen_turn_def running_at_def after_accept_def split: if_splits)
  qed (auto simp: running_at_def after_accept_def split: accept_answer.splits prod.splits)
qed

section \<open>A stop that comes too early\<close>

text \<open>Before the server runs, nothing takes its socket away.\<close>

definition bound_ok :: "'j server_life \<Rightarrow> bool" where
  "bound_ok s \<longleftrightarrow> (sl_listen s = Bound \<longrightarrow> sl_svr_sock s \<and> \<not> sl_is_running s)
     \<and> (sl_listen s = Before_Bind \<longrightarrow> \<not> sl_is_running s)"

definition listening :: "'j server_life \<Rightarrow> bool" where
  "listening s \<longleftrightarrow> life_ok s \<and> \<not> sl_is_decommissioned s \<and> (sl_listen s = Before_Bind \<or> sl_svr_sock s)
     \<and> (\<forall>ret. sl_listen s \<noteq> Returned ret \<and> sl_listen s \<noteq> Closing ret)"

interpretation bound: safe_relation "server_step created fails wakes" bound_ok
proof
  fix s s' :: "'a server_life"
  assume "server_step created fails wakes s s'" and ok: "bound_ok s"
  then show "bound_ok s'"
  proof (cases rule: server_step.cases)
    case live
    from live show ?thesis
    proof (cases rule: life_step.cases)
      case listen
      then show ?thesis
        using ok by (cases "sl_listen s")
          (auto simp: listen_turn_def bound_ok_def bind_to_port_def bind_internal_def after_accept_def Let_def
            split: if_splits)
    qed (use ok in \<open>auto simp: bound_ok_def after_accept_def split: accept_answer.splits prod.splits\<close>)
  next
    case stop
    with ok show ?thesis by (auto simp: bound_ok_def)
  qed
qed

lemma listening_turn:
  assumes "listen_turn True s = Some s'" and "listening s"
  shows "listening s'"
proof -
  have "life_ok s'" by (rule listen_turn_ok [OF assms(1)]) (use assms(2) in \<open>simp add: listening_def\<close>)
  with assms show ?thesis
    by (cases "sl_listen s")
      (auto simp: listen_turn_def listening_def bind_to_port_def bind_internal_def after_accept_def Let_def
        split: if_splits)
qed

interpretation lost: safe_relation "life_step True False wakes" listening
proof
  fix s s' :: "'a server_life"
  assume step: "life_step True False wakes s s'" and l: "listening s"
  have "life_ok s'" using life.step_inv [OF step] l by (simp add: listening_def)
  from step show "listening s'"
  proof (cases rule: life_step.cases)
    case listen
    then show ?thesis using l by (rule listening_turn)
  qed (use l \<open>life_ok s'\<close> in \<open>auto simp: listening_def after_accept_def split: if_splits prod.splits\<close>)
qed

text \<open>How far the listening thread is from \<^verbatim>\<open>accept()\<close>.\<close>

definition nearer :: "'j server_life \<Rightarrow> nat" where
  "nearer s =
     (case sl_listen s of
        Before_Bind \<Rightarrow> 4 | Bound \<Rightarrow> 3 | Loop_Head \<Rightarrow> 2 | Calling_Accept \<Rightarrow> 1 | In_Accept \<Rightarrow> 0
      | _ \<Rightarrow> if pr_client (sl_pool s) = Notifying then 4 else 3)"

lemma listening_gets_on:
  assumes l: "listening s" and "sl_listen s \<noteq> In_Accept"
  shows "\<exists>s'. life_step True False wakes s s' \<and> nearer s' < nearer s"
proof (cases "listen_turn True s")
  case (Some s')
  then have "nearer s' < nearer s"
    using l assms(2) by (cases "sl_listen s")
      (auto simp: listen_turn_def nearer_def listening_def bind_to_port_def bind_internal_def Let_def
        split: if_splits)
  with Some show ?thesis by (blast intro: life_step.listen)
next
  case None
  with assms have at: "sl_listen s = Handing_Over" "pr_client (sl_pool s) = Notifying"
    by (cases "sl_listen s";
        auto simp: listen_turn_def listening_def life_ok_def client_at_def Let_def split_beta split: if_splits)+
  then obtain r where r: "notify_step (sl_pool s) r"
    by (metis in_set_conv_nth notify_step.intros)
  with at notify_step_client [OF r] show ?thesis
    by (intro exI [of _ "s\<lparr>sl_pool := r\<rparr>"] conjI) (auto simp: nearer_def intro: life_step.notify)
qed

text \<open>However far it has come, it gets to wait for a client.\<close>

lemma listening_accepts:
  assumes "listening s"
  shows "\<exists>s'. (life_step True False wakes)\<^sup>*\<^sup>* s s' \<and> sl_listen s' = In_Accept \<and> sl_svr_sock s'"
proof -
  have go: "sl_listen s \<noteq> In_Accept \<Longrightarrow> listening s \<Longrightarrow>
      \<exists>s'. life_step True False wakes s s' \<and> nearer s' < nearer s" for s :: "'a server_life"
    using listening_gets_on by blast
  show ?thesis
    using assms
  proof (induction "nearer s" arbitrary: s rule: less_induct)
    case less
    show ?case
    proof (cases "sl_listen s = In_Accept")
      case True
      with less.prems show ?thesis by (auto simp: listening_def)
    next
      case False
      from go [OF this less.prems] obtain t where t: "life_step True False wakes s t" "nearer t < nearer s"
        by blast
      from less.hyps [OF t(2) lost.step_inv [OF t(1) less.prems]] t(1) show ?thesis
        by (meson converse_rtranclp_into_rtranclp)
    qed
  qed
qed


text \<open>A server that has just begun to run.\<close>

definition demo_server :: "nat server_life" where
  "demo_server = (new_server 4)\<lparr>sl_svr_sock := True, sl_is_running := True, sl_listen := Loop_Head\<rparr>"

lemma demo_server_reachable: "(server_step True fails wakes)\<^sup>*\<^sup>* (new_server 4) demo_server"
proof -
  have "life_step True fails wakes (new_server 4 :: nat server_life) ((new_server 4)\<lparr>sl_svr_sock := True, sl_listen := Bound\<rparr>)"
    by (rule life_step.listen) (simp add: listen_turn_def new_server_def bind_to_port_def bind_internal_def Let_def)
  moreover have "life_step True fails wakes ((new_server 4)\<lparr>sl_svr_sock := True, sl_listen := Bound\<rparr>) demo_server"
    by (rule life_step.listen) (simp add: listen_turn_def new_server_def demo_server_def)
  ultimately show ?thesis
    by (meson converse_rtranclp_into_rtranclp r_into_rtranclp server_step.live)
qed


text \<open>
  A stop that comes before the server runs is lost: \<^verbatim>\<open>stop()\<close> looks at the running flag,
  which the listening thread sets only after the bind. If that thread is still before it, it
  binds, listens and accepts as if nothing had happened, and \<^verbatim>\<open>listen\<close> does not return (unless
  \<^verbatim>\<open>accept()\<close> fails by itself), so a join of the thread waits for ever.
\<close>

theorem early_stop_is_lost:
  assumes "(server_step True False wakes)\<^sup>*\<^sup>* (new_server cores) s" and "\<not> is_running s"
    and "sl_listen s = Before_Bind \<or> sl_listen s = Bound"
    and "(life_step True False wakes)\<^sup>*\<^sup>* (stop_server s) s'"
  shows "sl_listen s' \<noteq> Returned ret
    \<and> (\<exists>s''. (life_step True False wakes)\<^sup>*\<^sup>* s' s'' \<and> sl_listen s'' = In_Accept \<and> sl_svr_sock s'')"
proof -
  have "bound_ok s" by (rule bound.star_inv [OF assms(1)]) (simp add: bound_ok_def new_server_def)
  then have "listening (stop_server s)"
    using server.star_inv [OF assms(1) new_server_ok] assms(2,3)
    by (auto simp: listening_def stop_server_ok is_running_def bound_ok_def)
  then have l: "listening s'" by (rule lost.star_inv [OF assms(4)])
  then show ?thesis
    using listening_accepts [OF l] by (auto simp: listening_def)
qed

theorem early_stop_is_lost_witness:
  "\<exists>s''. (life_step True False True)\<^sup>*\<^sup>* (stop_server (new_server 4 :: nat server_life)) s''
     \<and> sl_listen s'' = In_Accept \<and> sl_svr_sock s''"
  using early_stop_is_lost [of True 4 "new_server 4" "stop_server (new_server 4 :: nat server_life)"]
  by (simp add: is_running_def new_server_def)

end
