(* ===== verification/Integrated.thy ===== *)
theory Integrated
  imports Door_Scenarios Camera_Program Main_Program Http_Listen
begin

text \<open>
  The multi-factor program as a whole (\<^verbatim>\<open>src/main.cpp\<close>): the alarm system with its threads and its
  HTTP server, the camera and the recognition thread around the frame queue, and the main thread
  that starts them, waits for the interrupt and tears them down. Its parts are those of
  \<^verbatim>\<open>Door_System\<close>, \<^verbatim>\<open>Http_Listen\<close>, \<^verbatim>\<open>Camera_Program\<close> and \<^verbatim>\<open>Main_Program\<close>.
\<close>

section \<open>State\<close>

text \<open>
  The main thread: the three starts, the wait, the statements of the three \<^verbatim>\<open>stop()\<close> calls, the
  end of \<^verbatim>\<open>main\<close>, and the place where a signal handler that runs on this thread blocks.
\<close>

datatype int_pc =
    Start_Door | Start_Camera | Start_Recognition | Awaiting
  | Tell_Recognition | Close_For_Recognition | Join_Recognition
  | Tell_Camera | Close_For_Camera | Join_Camera
  | Stop_Door | Join_Door | Finish_Door | Main_Over | In_Handler

text \<open>
  \<open>it_api\<close> is the HTTP server once its thread has been started; connections are known by the
  number of their socket. \<open>it_nfc\<close> and \<open>it_timer\<close> say whether those threads are alive. Nothing in
  this program uses the override switch, and nobody subscribes to the event bus.
\<close>

record ('f, 'r, 'e) integrated =
  it_wait :: "bool monitor"
  it_main :: int_pc
  it_door :: system
  it_api :: "nat server_life option"
  it_nfc :: bool
  it_timer :: bool
  it_queue :: "'f ts_queue"
  it_recognizer :: "('r, 'e) recognizer"
  it_override :: bool
  it_rec_running :: bool
  it_rec :: thread_pc
  it_cam_running :: bool
  it_cam :: thread_pc

text \<open>What \<^verbatim>\<open>main\<close> constructs: \<open>l\<close> is the logger of the alarm system, \<open>fr\<close> what the recogniser loaded.\<close>

definition main_integrated ::
  "async_logger \<Rightarrow> ('r, 'e) recognizer \<Rightarrow> ('f, 'r, 'e) integrated" where
  "main_integrated l fr =
     \<lparr>it_wait = monitor_start False, it_main = Start_Door, it_door = DoorAlarmSystem l,
      it_api = None, it_nfc = False, it_timer = False, it_queue = ThreadSafeQueue,
      it_recognizer = fr, it_override = False, it_rec_running = False, it_rec = Over,
      it_cam_running = False, it_cam = Over\<rparr>"

section \<open>The threads\<close>

text \<open>
  The threads and callbacks of the alarm system: the steps of \<^term>\<open>sys_step\<close> other than its
  start and its stop, which are calls of the main thread here.
\<close>

inductive door_thread :: "system \<Rightarrow> system \<Rightarrow> bool" where
  reed: "gp_running (sy_reed s) \<Longrightarrow> door_thread s (onReedSwitchChange w (edge_value r) s)"
| button: "gp_running (sy_button s) \<Longrightarrow> t0 \<le> now \<Longrightarrow>
    door_thread s (onButtonPress w t0 now (edge_value r) s)"
| trigger: "gp_running (sy_trigger s) \<Longrightarrow> door_thread s (onCameraSignal (edge_value r) s)"
| nfc: "sy_running s \<Longrightarrow> door_thread s (nfcLoop_turn w n buf s)"
| timer: "sy_running s \<Longrightarrow> t1 \<le> t2 \<Longrightarrow> t2 \<le> t3 \<Longrightarrow> door_thread s (timerLoop_turn w t1 t2 t3 s)"
| control: "sy_control s \<Longrightarrow> controlLoop_turn w t s = Goes s' \<Longrightarrow> door_thread s s'"
| control_exit: "sy_control s \<Longrightarrow> controlLoop_turn w t s = Exits s' \<Longrightarrow>
    door_thread s (s'\<lparr>sy_control := False\<rparr>)"
| flash: "door_thread s (on_outs (thread_step i) s)"
| logger: "processLogs_turn ts (pe_log (fs_ports (sy_fsm s))) = Goes l \<Longrightarrow>
    door_thread s (on_periph (on_log (\<lambda>_. l)) s)"

text \<open>A turn of the recognition loop; its events are published to a bus without subscribers.\<close>

definition unheard_turn ::
  "time_point \<Rightarrow> int \<Rightarrow> ('e \<Rightarrow> 'e \<Rightarrow> score) \<Rightarrow> ('f \<Rightarrow> 'r list) \<Rightarrow> ('f \<Rightarrow> 'r \<Rightarrow> 'e) \<Rightarrow>
   ('f, 'r, 'e) integrated \<Rightarrow> ('f, 'r, 'e) integrated turn" where
  "unheard_turn t key sim detect emb_of s =
     (case ts_pop (it_queue s) of
        None \<Rightarrow> Waits
      | Some (None, q) \<Rightarrow> Exits (s\<lparr>it_queue := q\<rparr>)
      | Some (Some frame, q) \<Rightarrow>
          (let s = s\<lparr>it_queue := q\<rparr>;
               (events, fr) = process t sim (detect frame) (emb_of frame) (it_override s)
                                (it_recognizer s);
               s = s\<lparr>it_recognizer := fr\<rparr>;
               s = fold (publish []) events s
           in if key = 27 then Exits (s\<lparr>it_queue := ts_close (it_queue s)\<rparr>) else Goes s))"

definition int_rec_turn ::
  "time_point \<Rightarrow> int \<Rightarrow> ('e \<Rightarrow> 'e \<Rightarrow> score) \<Rightarrow> ('f \<Rightarrow> 'r list) \<Rightarrow> ('f \<Rightarrow> 'r \<Rightarrow> 'e) \<Rightarrow>
   ('f, 'r, 'e) integrated \<Rightarrow> ('f, 'r, 'e) integrated option" where
  "int_rec_turn t key sim detect emb_of s =
     (case it_rec s of
        At_Head \<Rightarrow> Some (s\<lparr>it_rec := if it_rec_running s then In_Call else Over\<rparr>)
      | In_Call \<Rightarrow>
          (case unheard_turn t key sim detect emb_of s of
             Waits \<Rightarrow> None
           | Exits s' \<Rightarrow> Some (s'\<lparr>it_rec := Over\<rparr>)
           | Goes s' \<Rightarrow> Some (s'\<lparr>it_rec := At_Head\<rparr>))
      | Over \<Rightarrow> None)"

definition int_cam_turn ::
  "bool \<Rightarrow> 'f option \<Rightarrow> ('f, 'r, 'e) integrated \<Rightarrow> ('f, 'r, 'e) integrated option" where
  "int_cam_turn read_ok frame s =
     (case it_cam s of
        At_Head \<Rightarrow> Some (s\<lparr>it_cam := if it_cam_running s then In_Call else Over\<rparr>)
      | In_Call \<Rightarrow>
          Some (s\<lparr>it_queue := camera_turn read_ok frame (it_queue s), it_cam := At_Head\<rparr>)
      | Over \<Rightarrow> None)"

definition api_over :: "('f, 'r, 'e) integrated \<Rightarrow> bool" where
  "api_over s \<longleftrightarrow>
     (case it_api s of
        None \<Rightarrow> True
      | Some a \<Rightarrow> (case sl_listen a of Returned ret \<Rightarrow> True | _ \<Rightarrow> False))"

text \<open>
  The main thread. The mutex of the wait stays locked until \<^verbatim>\<open>main\<close> leaves the block of its
  \<^verbatim>\<open>std::unique_lock\<close>, at the very end. \<open>env\<close>, \<open>t\<close>, \<open>opened\<close> and \<open>cores\<close> are what the devices, the clock
  and the system answer during the starts, \<open>w\<close> the time of the shutdown event.
\<close>

definition main_step_of ::
  "start_env \<Rightarrow> time_point \<Rightarrow> bool \<Rightarrow> nat \<Rightarrow> time_point \<Rightarrow>
   ('f, 'r, 'e) integrated \<Rightarrow> ('f, 'r, 'e) integrated option" where
  "main_step_of env t opened cores w s =
     (case it_main s of
        Start_Door \<Rightarrow>
          (let s = s\<lparr>it_door := start env t (it_door s)\<rparr>;
               up = sy_running (it_door s)
           in Some (s\<lparr>it_nfc := up, it_timer := up,
                      it_api := (if up then Some (new_server cores) else None),
                      it_main := Start_Camera\<rparr>))
      | Start_Camera \<Rightarrow>
          Some (s\<lparr>it_cam_running := True, it_cam := if opened then At_Head else Over,
                  it_main := Start_Recognition\<rparr>)
      | Start_Recognition \<Rightarrow>
          Some (s\<lparr>it_rec_running := True, it_rec := At_Head, it_main := Awaiting\<rparr>)
      | Awaiting \<Rightarrow>
          if mo_waiter (it_wait s) = Holding then Some (s\<lparr>it_main := Tell_Recognition\<rparr>) else None
      | Tell_Recognition \<Rightarrow> Some (s\<lparr>it_rec_running := False, it_main := Close_For_Recognition\<rparr>)
      | Close_For_Recognition \<Rightarrow>
          Some (s\<lparr>it_queue := ts_close (it_queue s), it_main := Join_Recognition\<rparr>)
      | Join_Recognition \<Rightarrow> if it_rec s = Over then Some (s\<lparr>it_main := Tell_Camera\<rparr>) else None
      | Tell_Camera \<Rightarrow> Some (s\<lparr>it_cam_running := False, it_main := Close_For_Camera\<rparr>)
      | Close_For_Camera \<Rightarrow>
          Some (s\<lparr>it_queue := ts_close (it_queue s), it_main := Join_Camera\<rparr>)
      | Join_Camera \<Rightarrow> if it_cam s = Over then Some (s\<lparr>it_main := Stop_Door\<rparr>) else None
      | Stop_Door \<Rightarrow>
          Some (if \<not> sy_running (it_door s) then s\<lparr>it_main := Main_Over\<rparr>
                else s\<lparr>it_door := stop_begin w (it_door s),
                       it_api := map_option stop_server (it_api s), it_main := Join_Door\<rparr>)
      | Join_Door \<Rightarrow>
          if \<not> it_nfc s \<and> \<not> sy_control (it_door s) \<and> \<not> it_timer s \<and> api_over s
          then Some (s\<lparr>it_main := Finish_Door\<rparr>) else None
      | Finish_Door \<Rightarrow> Some (s\<lparr>it_door := stop_end (it_door s), it_main := Main_Over\<rparr>)
      | _ \<Rightarrow> None)"

text \<open>The interrupt, when the system runs the handler on the main thread.\<close>

definition interrupt_on_main :: "('f, 'r, 'e) integrated \<Rightarrow> ('f, 'r, 'e) integrated" where
  "interrupt_on_main s =
     (case handler_on_main (it_wait s) of
        None \<Rightarrow> s\<lparr>it_main := In_Handler\<rparr>
      | Some m \<Rightarrow> s\<lparr>it_wait := m\<rparr>)"

section \<open>Interleavings\<close>

text \<open>
  \<open>spurious\<close>: whether the condition variable may wake the main thread for no reason; \<open>created\<close>,
  \<open>fails\<close>, \<open>wakes\<close> are those of the HTTP server. The steps of the wait are those of its protocol:
  the waiter's own steps happen only while the main thread is in the wait, and handlers on
  other threads may set the flag whenever the mutex is free.
\<close>

definition own_wait_step :: "bool \<Rightarrow> bool monitor \<Rightarrow> bool monitor \<Rightarrow> bool" where
  "own_wait_step spurious m m' \<longleftrightarrow>
     cv_step should_exit signalHandler (\<lambda>flag flag'. False) after_wait m m' \<and>
     mo_pending m' = mo_pending m \<and> mo_waiter m \<noteq> Holding \<and> (spurious \<or> mo_waiter m \<noteq> Parked)"

definition handler_step :: "bool monitor \<Rightarrow> bool monitor \<Rightarrow> bool" where
  "handler_step m m' \<longleftrightarrow>
     cv_step should_exit signalHandler (\<lambda>flag flag'. False) after_wait m m' \<and>
     mo_pending m' \<noteq> mo_pending m"

inductive int_step ::
  "bool \<Rightarrow> bool \<Rightarrow> bool \<Rightarrow> bool \<Rightarrow> ('e \<Rightarrow> 'e \<Rightarrow> score) \<Rightarrow> ('f \<Rightarrow> 'r list) \<Rightarrow> ('f \<Rightarrow> 'r \<Rightarrow> 'e) \<Rightarrow>
   ('f, 'r, 'e) integrated \<Rightarrow> ('f, 'r, 'e) integrated \<Rightarrow> bool"
  for spurious created fails wakes sim detect emb_of where
  main: "main_step_of env t opened cores w s = Some s' \<Longrightarrow>
    int_step spurious created fails wakes sim detect emb_of s s'"
| waiting: "it_main s = Awaiting \<Longrightarrow> own_wait_step spurious (it_wait s) m \<Longrightarrow>
    int_step spurious created fails wakes sim detect emb_of s (s\<lparr>it_wait := m\<rparr>)"
| interrupt: "handler_step (it_wait s) m \<Longrightarrow>
    int_step spurious created fails wakes sim detect emb_of s (s\<lparr>it_wait := m\<rparr>)"
| door: "door_thread (it_door s) d \<Longrightarrow>
    int_step spurious created fails wakes sim detect emb_of s (s\<lparr>it_door := d\<rparr>)"
| nfc_end: "it_nfc s \<Longrightarrow> \<not> sy_running (it_door s) \<Longrightarrow>
    int_step spurious created fails wakes sim detect emb_of s (s\<lparr>it_nfc := False\<rparr>)"
| timer_end: "it_timer s \<Longrightarrow> \<not> sy_running (it_door s) \<Longrightarrow>
    int_step spurious created fails wakes sim detect emb_of s (s\<lparr>it_timer := False\<rparr>)"
| api: "it_api s = Some a \<Longrightarrow> life_step created fails wakes a a' \<Longrightarrow>
    int_step spurious created fails wakes sim detect emb_of s (s\<lparr>it_api := Some a'\<rparr>)"
| recognition: "int_rec_turn t key sim detect emb_of s = Some s' \<Longrightarrow>
    int_step spurious created fails wakes sim detect emb_of s s'"
| camera: "int_cam_turn read_ok frame s = Some s' \<Longrightarrow>
    int_step spurious created fails wakes sim detect emb_of s s'"

section \<open>The alarm system does not notice the cameras\<close>

lemma door_thread_is_step: "door_thread s s' \<Longrightarrow> sys_step s s'"
  by (induction rule: door_thread.induct) (auto intro: sys_step.intros)

text \<open>Events that nobody has subscribed to change nothing.\<close>

lemma publish_nobody [simp]: "fold (publish []) events s = s"
  by (induction events) (simp_all add: publish_def)

lemma unheard_turn_cases:
  assumes "unheard_turn t key sim detect emb_of s \<in> {Goes s', Exits s'}"
  obtains q fr where "s' = s\<lparr>it_queue := q, it_recognizer := fr\<rparr>"
    and "ts_shutdown (it_queue s) \<longrightarrow> ts_shutdown q"
proof -
  consider "ts_pop (it_queue s) = None" | q where "ts_pop (it_queue s) = Some (None, q)"
    | frame q where "ts_pop (it_queue s) = Some (Some frame, q)"
    by (cases "ts_pop (it_queue s)") (auto, metis option.exhaust)
  then show ?thesis
  proof cases
    case 1
    with assms show ?thesis by (simp add: unheard_turn_def)
  next
    case (2 q)
    with assms show ?thesis
      by (intro that [where q = q and fr = "it_recognizer s"])
        (auto simp: unheard_turn_def ts_pop_def split: list.splits if_splits)
  next
    case (3 frame q)
    obtain events fr where p: "process t sim (detect frame) (emb_of frame) (it_override s) (it_recognizer s)
        = (events, fr)" by (cases "process t sim (detect frame) (emb_of frame) (it_override s) (it_recognizer s)")
    from 3 have "ts_shutdown q = ts_shutdown (it_queue s)"
      by (auto simp: ts_pop_def split: list.splits if_splits)
    with assms 3 p show ?thesis
      by (intro that [where q = "if key = 27 then ts_close q else q" and fr = fr])
        (auto simp: unheard_turn_def ts_close_def split: if_splits)
  qed
qed

lemma int_rec_turn_cases:
  assumes "int_rec_turn t key sim detect emb_of s = Some s'"
  obtains (head) "it_rec s = At_Head" "s' = s\<lparr>it_rec := if it_rec_running s then In_Call else Over\<rparr>"
  | (turn) q fr pc where "it_rec s = In_Call" "pc = Over \<or> pc = At_Head"
      "s' = s\<lparr>it_queue := q, it_recognizer := fr, it_rec := pc\<rparr>"
      "ts_shutdown (it_queue s) \<longrightarrow> ts_shutdown q"
proof (cases "it_rec s")
  case At_Head
  with assms head show ?thesis by (simp add: int_rec_turn_def)
next
  case In_Call
  show ?thesis
  proof (cases "unheard_turn t key sim detect emb_of s")
    case (Exits v)
    then have "unheard_turn t key sim detect emb_of s \<in> {Goes v, Exits v}" by simp
    then obtain q fr where "v = s\<lparr>it_queue := q, it_recognizer := fr\<rparr>"
        "ts_shutdown (it_queue s) \<longrightarrow> ts_shutdown q"
      by (rule unheard_turn_cases)
    with In_Call Exits assms show ?thesis
      by (intro turn [where pc = Over and q = q and fr = fr]) (simp_all add: int_rec_turn_def)
  next
    case (Goes v)
    then have "unheard_turn t key sim detect emb_of s \<in> {Goes v, Exits v}" by simp
    then obtain q fr where "v = s\<lparr>it_queue := q, it_recognizer := fr\<rparr>"
        "ts_shutdown (it_queue s) \<longrightarrow> ts_shutdown q"
      by (rule unheard_turn_cases)
    with In_Call Goes assms show ?thesis
      by (intro turn [where pc = At_Head and q = q and fr = fr]) (simp_all add: int_rec_turn_def)
  qed (use In_Call assms in \<open>simp add: int_rec_turn_def\<close>)
qed (use assms in \<open>simp add: int_rec_turn_def\<close>)

lemma int_cam_turn_cases:
  assumes "int_cam_turn read_ok frame s = Some s'"
  obtains (head) "it_cam s = At_Head" "s' = s\<lparr>it_cam := if it_cam_running s then In_Call else Over\<rparr>"
  | (turn) "it_cam s = In_Call" "s' = s\<lparr>it_queue := camera_turn read_ok frame (it_queue s), it_cam := At_Head\<rparr>"
  using assms by (cases "it_cam s") (simp_all add: int_cam_turn_def)

text \<open>Of all steps only the alarm system's own and the main thread's act on the alarm system.\<close>

lemma int_step_door:
  assumes "int_step spurious created fails wakes sim detect emb_of s s'"
  shows "it_door s' = it_door s \<or> sys_step (it_door s) (it_door s')
    \<or> it_main s = Finish_Door \<and> it_door s' = stop_end (it_door s)"
  using assms
proof (cases rule: int_step.cases)
  case (main env t opened cores w)
  then show ?thesis
    by (cases "it_main s")
      (auto simp: main_step_of_def Let_def split: if_splits intro: sys_step.start sys_step.stop_request)
next
  case (door d)
  then show ?thesis by (simp add: door_thread_is_step)
next
  case (recognition t key)
  from recognition show ?thesis by (cases rule: int_rec_turn_cases) simp_all
next
  case (camera read_ok frame)
  from camera show ?thesis by (cases rule: int_cam_turn_cases) simp_all
qed simp_all

section \<open>What the main thread has reached\<close>

fun stage :: "int_pc \<Rightarrow> nat" where
  "stage Start_Door = 0" | "stage Start_Camera = 1" | "stage Start_Recognition = 2"
| "stage Awaiting = 3" | "stage Tell_Recognition = 4" | "stage Close_For_Recognition = 5"
| "stage Join_Recognition = 6" | "stage Tell_Camera = 7" | "stage Close_For_Camera = 8"
| "stage Join_Camera = 9" | "stage Stop_Door = 10" | "stage Join_Door = 11"
| "stage Finish_Door = 12" | "stage Main_Over = 13" | "stage In_Handler = 14"

text \<open>
  The wait is entered after the starts and left with the flag set and the mutex held; every
  statement of the teardown has had its effect.
\<close>

definition wait_at :: "int_pc \<Rightarrow> bool monitor \<Rightarrow> bool" where
  "wait_at pc m \<longleftrightarrow>
     wait_ok should_exit m \<and> pc \<noteq> In_Handler \<and>
     (stage pc < 3 \<longrightarrow> mo_waiter m = Locking) \<and> mo_waiter m \<noteq> Gone \<and>
     (3 < stage pc \<longrightarrow> mo_waiter m = Holding) \<and>
     (mo_waiter m = Holding \<longrightarrow> mo_data m)"

definition int_ok :: "('f, 'r, 'e) integrated \<Rightarrow> bool" where
  "int_ok s \<longleftrightarrow>
     wait_at (it_main s) (it_wait s) \<and>
     (5 \<le> stage (it_main s) \<longrightarrow> \<not> it_rec_running s) \<and>
     (6 \<le> stage (it_main s) \<longrightarrow> ts_shutdown (it_queue s)) \<and>
     (8 \<le> stage (it_main s) \<longrightarrow> \<not> it_cam_running s) \<and>
     (11 \<le> stage (it_main s) \<longrightarrow> \<not> sy_running (it_door s)) \<and>
     (it_main s = Join_Door \<or> it_main s = Finish_Door \<longrightarrow> eq_shutdown (sy_queue (it_door s))) \<and>
     (it_main s = Finish_Door \<longrightarrow> \<not> sy_control (it_door s)) \<and>
     (\<forall>a. it_api s = Some a \<longrightarrow> life_ok a \<and> bound_ok a)"

lemma int_ok_init: "int_ok (main_integrated l fr)"
  by (simp add: int_ok_def wait_at_def main_integrated_def wait_ok_start)
    (simp add: monitor_start_def)

text \<open>
  A callback or loop turn leaves the run flag and the control thread alone, and a queue that has
  been shut down takes nothing in.
\<close>

definition keeps_closed :: "system \<Rightarrow> system \<Rightarrow> bool" where
  "keeps_closed d d' \<longleftrightarrow>
     sy_running d' = sy_running d \<and> sy_control d' = sy_control d \<and>
     (eq_shutdown (sy_queue d) \<longrightarrow> sy_queue d' = sy_queue d)"

lemma push_shut [simp]: "eq_shutdown q \<Longrightarrow> push e q = q"
  by (simp add: push_def)

lemma callbacks_keep_closed:
  "keeps_closed d (onReedSwitchChange w v d)" "keeps_closed d (onButtonPress w t0 now v d)"
  "keeps_closed d (onCameraSignal v d)" "keeps_closed d (nfcLoop_turn w n buf d)"
  "keeps_closed d (timerLoop_turn w t1 t2 t3 d)"
  by (simp_all add: keeps_closed_def onReedSwitchChange_def onButtonPress_def onCameraSignal_def
      nfcLoop_turn_def timerLoop_turn_def Let_def sys_simps)

lemma controlLoop_turn_keeps:
  assumes "controlLoop_turn w t d = Goes d' \<or> controlLoop_turn w t d = Exits d'"
  shows "sy_running d' = sy_running d" and "sy_control d' = sy_control d"
    and "eq_shutdown (sy_queue d') = eq_shutdown (sy_queue d)"
    and "length (eq_queue (sy_queue d')) \<le> length (eq_queue (sy_queue d))"
    and "controlLoop_turn w t d = Goes d' \<Longrightarrow>
         length (eq_queue (sy_queue d')) < length (eq_queue (sy_queue d))"
  using assms
  by (cases rule: controlLoop_turn_cases [of w t d]; auto simp: controlLoop_turn_event sys_simps)+

lemma door_thread_running:
  assumes "door_thread d d'"
  shows "sy_running d' = sy_running d"
  using assms
proof (cases rule: door_thread.cases)
  case (control w t)
  then show ?thesis using controlLoop_turn_keeps(1) [of w t d d'] by simp
next
  case (control_exit w t e)
  then show ?thesis using controlLoop_turn_keeps(1) [of w t d e] by simp
qed (use callbacks_keep_closed in \<open>auto simp: keeps_closed_def\<close>)

definition control_left :: "system \<Rightarrow> nat" where
  "control_left d = (if sy_control d then Suc (length (eq_queue (sy_queue d))) else 0)"

lemma door_thread_quiet:
  assumes "door_thread d d'" and "eq_shutdown (sy_queue d)"
  shows "eq_shutdown (sy_queue d') \<and> control_left d' \<le> control_left d"
  using assms(1)
proof (cases rule: door_thread.cases)
  case (control w t)
  then show ?thesis using controlLoop_turn_keeps [of w t d d'] assms(2) by (simp add: control_left_def)
next
  case (control_exit w t e)
  then show ?thesis using controlLoop_turn_keeps [of w t d e] assms(2) by (simp add: control_left_def)
qed (use callbacks_keep_closed assms(2) in \<open>auto simp: keeps_closed_def control_left_def\<close>)

lemma own_wait_step_at:
  assumes "own_wait_step spurious m m'" and "wait_at Awaiting m"
  shows "wait_at Awaiting m'"
proof -
  have step: "cv_step should_exit signalHandler (\<lambda>flag flag'. False) after_wait m m'"
    and side: "mo_pending m' = mo_pending m" "mo_waiter m \<noteq> Holding"
    using assms(1) by (simp_all add: own_wait_step_def)
  have "wait_ok should_exit m'"
    using main_wait.cv_step_wait_ok [OF step] assms(2) by (simp add: wait_at_def)
  with step side assms(2) show ?thesis
    by (cases rule: cv_step.cases) (auto simp: wait_at_def should_exit_def)
qed

lemma handler_step_at:
  assumes "handler_step m m'" and "wait_at pc m"
  shows "wait_at pc m'" and "mo_waiter m' = mo_waiter m \<or> mo_waiter m = Parked \<and> mo_waiter m' = Locking"
    and "mo_data m \<longrightarrow> mo_data m'"
proof -
  have step: "cv_step should_exit signalHandler (\<lambda>flag flag'. False) after_wait m m'"
    and side: "mo_pending m' \<noteq> mo_pending m"
    using assms(1) by (simp_all add: handler_step_def)
  have ok: "wait_ok should_exit m'"
    using main_wait.cv_step_wait_ok [OF step] assms(2) by (simp add: wait_at_def)
  from step side show w: "mo_waiter m' = mo_waiter m \<or> mo_waiter m = Parked \<and> mo_waiter m' = Locking"
    and d: "mo_data m \<longrightarrow> mo_data m'"
    by (cases rule: cv_step.cases; auto simp: signalHandler_def)+
  from ok w d assms(2) show "wait_at pc m'"
    by (auto simp: wait_at_def)
qed

lemma start_sel: "eq_shutdown (sy_queue (start env t d)) = eq_shutdown (sy_queue d)"
  by (simp add: start_def Let_def sys_simps split_beta)

lemma stop_begin_closed:
  "sy_running d \<Longrightarrow> \<not> sy_running (stop_begin w d) \<and> eq_shutdown (sy_queue (stop_begin w d))"
  by (simp add: stop_begin_def Let_def sys_simps shutdown_def)

lemma stop_end_sel: "sy_running (stop_end d) = sy_running d"
  by (simp add: stop_end_def Let_def)

lemma bound_ok_simps: "bound_ok (new_server cores)" "bound_ok a \<Longrightarrow> bound_ok (stop_server a)"
  by (auto simp: bound_ok_def new_server_def)

lemma main_step_ok:
  assumes "main_step_of env t opened cores w s = Some s'" and "int_ok s"
  shows "int_ok s'"
proof (cases "it_main s")
  case Stop_Door
  with assms stop_begin_closed [of "it_door s" w] show ?thesis
    by (auto simp: main_step_of_def int_ok_def wait_at_def stop_server_ok bound_ok_simps split: if_splits)
qed (use assms in \<open>auto simp: main_step_of_def int_ok_def wait_at_def Let_def ts_close_def
      stop_end_sel new_server_ok bound_ok_simps split: if_splits\<close>)

lemma door_ok:
  assumes "door_thread (it_door s) d" and "int_ok s"
  shows "int_ok (s\<lparr>it_door := d\<rparr>)"
proof -
  have "sy_control d \<longrightarrow> sy_control (it_door s)" if "eq_shutdown (sy_queue (it_door s))"
    using door_thread_quiet [OF assms(1) that] by (auto simp: control_left_def split: if_splits)
  with door_thread_running [OF assms(1)] door_thread_quiet [OF assms(1)] assms(2) show ?thesis
    by (auto simp: int_ok_def)
qed

interpretation integrated: safe_relation "int_step spurious created fails wakes sim detect emb_of" int_ok
proof
  fix s s'
  assume "int_step spurious created fails wakes sim detect emb_of s s'" and ok: "int_ok s"
  then show "int_ok s'"
  proof (cases rule: int_step.cases)
    case main
    then show ?thesis using ok by (rule main_step_ok)
  next
    case (waiting m)
    with ok own_wait_step_at [of spurious "it_wait s" m] show ?thesis by (simp add: int_ok_def)
  next
    case (interrupt m)
    with ok handler_step_at(1) [of "it_wait s" m "it_main s"] show ?thesis by (simp add: int_ok_def)
  next
    case (door d)
    with ok door_ok show ?thesis by blast
  next
    case (api a a')
    with ok life.step_inv [OF api(3)] bound.step_inv [OF server_step.live [OF api(3)]]
    show ?thesis by (simp add: int_ok_def)
  next
    case (recognition t key)
    from recognition ok show ?thesis
      by (cases rule: int_rec_turn_cases) (auto simp: int_ok_def)
  next
    case (camera read_ok frame)
    from camera ok show ?thesis
      by (cases rule: int_cam_turn_cases) (auto simp: int_ok_def camera_keeps_closed)
  qed (use ok in \<open>auto simp: int_ok_def\<close>)
qed

section \<open>The teardown\<close>

definition waiter_left :: "waiter \<Rightarrow> nat" where
  "waiter_left w =
     (case w of Parking \<Rightarrow> 5 | Parked \<Rightarrow> 4 | Locking \<Rightarrow> 3 | Testing \<Rightarrow> 2 | Holding \<Rightarrow> 1 | Gone \<Rightarrow> 0)"

definition main_left :: "('f, 'r, 'e) integrated \<Rightarrow> nat" where
  "main_left s =
     20 * (13 - stage (it_main s)) + (if it_main s = Awaiting then waiter_left (mo_waiter (it_wait s)) else 0)"

definition vision_left :: "('f, 'r, 'e) integrated \<Rightarrow> nat" where
  "vision_left s = thread_left (it_rec_running s) (it_rec s) + thread_left (it_cam_running s) (it_cam s)"

definition door_left :: "('f, 'r, 'e) integrated \<Rightarrow> nat" where
  "door_left s =
     (if it_main s = Join_Door
      then of_bool (it_nfc s) + of_bool (it_timer s) + control_left (it_door s) else 0)"

definition api_left :: "('f, 'r, 'e) integrated \<Rightarrow> nat \<times> nat" where
  "api_left s =
     (case it_api s of
        Some a \<Rightarrow> if it_main s = Join_Door \<and> stopping a then life_left a else (0, 0)
      | None \<Rightarrow> (0, 0))"

text \<open>What is left to do, the most significant part first.\<close>

definition int_left :: "('f, 'r, 'e) integrated \<Rightarrow> nat \<times> nat \<times> nat \<times> nat \<times> nat" where
  "int_left s = (main_left s, vision_left s, door_left s, api_left s)"

definition int_sooner ::
  "(nat \<times> nat \<times> nat \<times> nat \<times> nat) \<Rightarrow> (nat \<times> nat \<times> nat \<times> nat \<times> nat) \<Rightarrow> bool" where
  "int_sooner a b \<longleftrightarrow>
     (a, b) \<in> less_than <*lex*> less_than <*lex*> less_than <*lex*> less_than <*lex*> less_than"

lemma wf_int_sooner: "wfp int_sooner"
  by (simp add: wfp_def int_sooner_def [abs_def] wf_lex_prod)

lemma int_sooner_left:
  "int_sooner (int_left s') (int_left s) \<longleftrightarrow>
     main_left s' < main_left s \<or> main_left s' = main_left s \<and>
       (vision_left s' < vision_left s \<or> vision_left s' = vision_left s \<and>
         (door_left s' < door_left s \<or> door_left s' = door_left s \<and> sooner (api_left s') (api_left s)))"
  by (cases "api_left s"; cases "api_left s'") (simp add: int_sooner_def int_left_def sooner_def)

definition no_later :: "('f, 'r, 'e) integrated \<Rightarrow> ('f, 'r, 'e) integrated \<Rightarrow> bool" where
  "no_later s' s \<longleftrightarrow> int_sooner (int_left s') (int_left s) \<or> int_left s' = int_left s"

lemma waiter_left_le: "waiter_left w \<le> 5"
  by (simp add: waiter_left_def split: waiter.splits)

lemma main_step_left:
  assumes "main_step_of env t opened cores w s = Some s'"
  shows "main_left s' < main_left s"
  using assms waiter_left_le [of "mo_waiter (it_wait s)"]
  by (cases "it_main s") (auto simp: main_step_of_def main_left_def Let_def split: if_splits)

lemma own_wait_step_left:
  assumes "own_wait_step spurious m m'" and "wait_at Awaiting m" and "mo_data m"
  shows "waiter_left (mo_waiter m') < waiter_left (mo_waiter m)"
proof -
  have step: "cv_step should_exit signalHandler (\<lambda>flag flag'. False) after_wait m m'"
    and side: "mo_pending m' = mo_pending m" "mo_waiter m \<noteq> Holding"
    using assms(1) by (simp_all add: own_wait_step_def)
  from step side assms(2,3) show ?thesis
    by (cases rule: cv_step.cases)
      (auto simp: wait_at_def wait_ok_def should_exit_def waiter_left_def)
qed

text \<open>A server whose stop was lost counts nothing, and goes on counting nothing.\<close>

lemma unstopped_left:
  assumes "life_step created fails wakes a a'" and ok: "life_ok a" "bound_ok a" and "\<not> stopping a"
  shows "\<not> stopping a' \<or> life_left a' = (0, 0)"
proof (cases "sl_listen a = Before_Bind")
  case True
  then have at: "pr_client (sl_pool a) = Serving" "\<not> sl_is_running a"
    using ok by (simp_all add: life_ok_def client_at_def running_at_def)
  then have "\<not> tp_shutdown (pr_pool (sl_pool a))" using open_client [OF ok(1)] by simp
  with assms(1) True at show ?thesis
    by (cases rule: life_step.cases)
      (auto simp: listen_turn_def bind_to_port_def bind_internal_def Let_def stopping_def life_left_def
        listen_left_def split: if_splits)
next
  case False
  with assms(4) ok have sock: "sl_svr_sock a" by (auto simp: stopping_def bound_ok_def)
  from assms(1) have "sl_svr_sock a'"
  proof (cases rule: life_step.cases)
    case listen
    with sock False show ?thesis
      by (cases "sl_listen a") (auto simp: listen_turn_def after_accept_def split: if_splits)
  qed (use sock in \<open>auto simp: after_accept_def split: prod.splits\<close>)
  then show ?thesis by (simp add: stopping_def)
qed

lemma no_laterI:
  assumes "main_left s' < main_left s \<or> main_left s' = main_left s \<and>
       (vision_left s' < vision_left s \<or> vision_left s' = vision_left s \<and>
         (door_left s' < door_left s \<or> door_left s' = door_left s \<and>
            (sooner (api_left s') (api_left s) \<or> api_left s' = api_left s)))"
  shows "no_later s' s"
  using assms unfolding no_later_def int_sooner_left by (auto simp: int_left_def)

lemma vision_no_later:
  assumes "it_main s' = it_main s" and "it_wait s' = it_wait s" and "it_door s' = it_door s"
    and "it_api s' = it_api s" and "it_nfc s' = it_nfc s" and "it_timer s' = it_timer s"
    and "vision_left s' \<le> vision_left s"
  shows "no_later s' s"
proof -
  have "main_left s' = main_left s" "door_left s' = door_left s" "api_left s' = api_left s"
    using assms by (simp_all add: main_left_def door_left_def api_left_def split: option.split)
  with assms(7) show ?thesis by (intro no_laterI) linarith
qed

lemma int_step_left:
  assumes "int_step spurious created fails wakes sim detect emb_of s s'" and ok: "int_ok s"
    and told: "mo_data (it_wait s)"
  shows "no_later s' s"
  using assms(1)
proof (cases rule: int_step.cases)
  case (main env t opened cores w)
  then show ?thesis using main_step_left by (intro no_laterI) blast
next
  case (waiting m)
  with ok own_wait_step_left [of spurious "it_wait s" m] told show ?thesis
    by (intro no_laterI) (simp add: int_ok_def main_left_def)
next
  case (interrupt m)
  have "mo_waiter m = mo_waiter (it_wait s) \<or> mo_waiter (it_wait s) = Parked \<and> mo_waiter m = Locking"
    using handler_step_at(2) [OF interrupt(2), of "it_main s"] ok by (simp add: int_ok_def)
  then have "main_left s' \<le> main_left s"
    using interrupt(1) by (auto simp: main_left_def waiter_left_def)
  moreover have "vision_left s' = vision_left s" "door_left s' = door_left s" "api_left s' = api_left s"
    using interrupt(1) by (simp_all add: vision_left_def door_left_def api_left_def split: option.split)
  ultimately show ?thesis by (intro no_laterI) linarith
next
  case (door d)
  then have "door_left s' \<le> door_left s"
    using door_thread_quiet [of "it_door s" d] ok by (auto simp: door_left_def int_ok_def)
  moreover have "main_left s' = main_left s" "vision_left s' = vision_left s" "api_left s' = api_left s"
    using door(1) by (simp_all add: main_left_def vision_left_def api_left_def split: option.split)
  ultimately show ?thesis by (intro no_laterI) linarith
next
  case (api a a')
  have "sooner (api_left s') (api_left s) \<or> api_left s' = api_left s"
  proof (cases "stopping a")
    case True
    with api life_step_stopping [OF api(3) True] show ?thesis by (auto simp: api_left_def)
  next
    case False
    with api unstopped_left [OF api(3)] ok show ?thesis by (auto simp: api_left_def int_ok_def)
  qed
  moreover have "main_left s' = main_left s" "vision_left s' = vision_left s" "door_left s' = door_left s"
    using api(1) by (simp_all add: main_left_def vision_left_def door_left_def)
  ultimately show ?thesis by (intro no_laterI) simp
next
  case (recognition t key)
  from recognition show ?thesis
    by (cases rule: int_rec_turn_cases; intro vision_no_later) (auto simp: vision_left_def thread_left_def)
next
  case (camera read_ok frame)
  from camera show ?thesis
    by (cases rule: int_cam_turn_cases; intro vision_no_later) (auto simp: vision_left_def thread_left_def)
qed (auto intro!: no_laterI simp: main_left_def vision_left_def door_left_def api_left_def
      split: option.split)

text \<open>The threads that a join waits for get on.\<close>

lemma recognition_gets_on:
  assumes "\<not> it_rec_running s" and "ts_shutdown (it_queue s)" and "it_rec s \<noteq> Over"
  shows "\<exists>s'. int_rec_turn t key sim detect emb_of s = Some s' \<and> int_sooner (int_left s') (int_left s)"
proof -
  have "unheard_turn t key sim detect emb_of s \<noteq> Waits"
    using assms(2) by (auto simp: unheard_turn_def ts_pop_def Let_def split_beta split: list.splits)
  with assms(3) obtain s' where s': "int_rec_turn t key sim detect emb_of s = Some s'"
    by (cases "it_rec s"; cases "unheard_turn t key sim detect emb_of s") (simp_all add: int_rec_turn_def)
  then have "main_left s' = main_left s \<and> vision_left s' < vision_left s"
    using assms(1) by (cases rule: int_rec_turn_cases)
      (auto simp: main_left_def vision_left_def thread_left_def)
  with s' show ?thesis by (auto simp: int_sooner_left)
qed

lemma camera_gets_on:
  assumes "\<not> it_cam_running s" and "it_cam s \<noteq> Over"
  shows "\<exists>s'. int_cam_turn read_ok frame s = Some s' \<and> int_sooner (int_left s') (int_left s)"
proof -
  from assms(2) obtain s' where s': "int_cam_turn read_ok frame s = Some s'"
    by (cases "it_cam s") (simp_all add: int_cam_turn_def)
  then have "main_left s' = main_left s \<and> vision_left s' < vision_left s"
    using assms(1) by (cases rule: int_cam_turn_cases)
      (auto simp: main_left_def vision_left_def thread_left_def)
  with s' show ?thesis by (auto simp: int_sooner_left)
qed

lemma control_gets_on:
  assumes "sy_control d" and "eq_shutdown (sy_queue d)"
  shows "\<exists>d'. door_thread d d' \<and> control_left d' < control_left d"
proof (cases rule: controlLoop_turn_cases [of 0 0 d])
  case (event e es)
  then have "controlLoop_turn 0 0 d = Goes (after_event 0 e es d)" by (rule controlLoop_turn_event)
  with assms(1) controlLoop_turn_keeps [of 0 0 d "after_event 0 e es d"] show ?thesis
    by (intro exI [of _ "after_event 0 e es d"]) (auto simp: control_left_def intro: door_thread.control)
next
  case ended
  with assms(1) show ?thesis
    by (intro exI [of _ "d\<lparr>sy_control := False\<rparr>"]) (auto simp: control_left_def intro: door_thread.control_exit)
next
  case (quit e es)
  from door_thread.control_exit [OF assms(1) quit(3)] assms(1) show ?thesis
    by (intro exI conjI) (auto simp: control_left_def)
qed (use assms in simp)

text \<open>The wait of the main thread gets on once the flag is set: no wake-up is lost.\<close>

lemma wait_gets_on:
  assumes "wait_at Awaiting m" and "mo_data m" and "mo_waiter m \<noteq> Holding"
  shows "\<exists>m'. (own_wait_step spurious m m' \<or> handler_step m m')
    \<and> waiter_left (mo_waiter m') < waiter_left (mo_waiter m)"
proof -
  let ?cv = "cv_step should_exit signalHandler (\<lambda>flag flag'. False) after_wait"
  have ready: "should_exit (mo_data m)" using assms(2) by (simp add: should_exit_def)
  show ?thesis
  proof (cases "mo_waiter m")
    case Locking
    then have "?cv m (m\<lparr>mo_waiter := Testing\<rparr>)" by (rule cv_step.acquire)
    with Locking show ?thesis
      by (intro exI [of _ "m\<lparr>mo_waiter := Testing\<rparr>"]) (simp add: own_wait_step_def waiter_left_def)
  next
    case Testing
    then have "?cv m (m\<lparr>mo_waiter := Holding\<rparr>)" using ready by (rule cv_step.ready)
    with Testing show ?thesis
      by (intro exI [of _ "m\<lparr>mo_waiter := Holding\<rparr>"]) (simp add: own_wait_step_def waiter_left_def)
  next
    case Parked
    with assms(1) ready obtain n where n: "mo_pending m = Suc n"
      by (auto simp: wait_at_def wait_ok_def gr0_conv_Suc)
    from cv_step.notify [of m n, OF n] Parked have "?cv m (m\<lparr>mo_pending := n, mo_waiter := Locking\<rparr>)" by simp
    with Parked n show ?thesis
      by (intro exI [of _ "m\<lparr>mo_pending := n, mo_waiter := Locking\<rparr>"]) (simp add: handler_step_def waiter_left_def)
  qed (use assms ready in \<open>auto simp: wait_at_def wait_ok_def\<close>)
qed

text \<open>The server has been told to stop at a time when it could not hear it.\<close>

definition stop_lost :: "('f, 'r, 'e) integrated \<Rightarrow> bool" where
  "stop_lost s \<longleftrightarrow>
     it_main s = Join_Door \<and>
     (\<exists>a. it_api s = Some a \<and> (\<forall>ret. sl_listen a \<noteq> Returned ret) \<and> \<not> stopping a)"

lemma door_joins_get_on:
  assumes ok: "int_ok s" and at: "it_main s = Join_Door" and "\<not> stop_lost s"
    and "main_step_of env t opened cores w s = None"
  shows "\<exists>s'. int_step spurious created fails True sim detect emb_of s s' \<and> int_sooner (int_left s') (int_left s)"
proof -
  let ?step = "int_step spurious created fails True sim detect emb_of"
  have shut: "\<not> sy_running (it_door s)" "eq_shutdown (sy_queue (it_door s))"
    using ok at by (simp_all add: int_ok_def)
  from assms(4) at consider "it_nfc s" | "it_timer s" | "sy_control (it_door s)" | "\<not> api_over s"
    by (auto simp: main_step_of_def split: if_splits)
  then show ?thesis
  proof cases
    case 1
    have "?step s (s\<lparr>it_nfc := False\<rparr>)" using 1 shut(1) by (rule int_step.nfc_end)
    moreover have "int_sooner (int_left (s\<lparr>it_nfc := False\<rparr>)) (int_left s)"
      using 1 at by (simp add: int_sooner_left main_left_def vision_left_def door_left_def)
    ultimately show ?thesis by blast
  next
    case 2
    have "?step s (s\<lparr>it_timer := False\<rparr>)" using 2 shut(1) by (rule int_step.timer_end)
    moreover have "int_sooner (int_left (s\<lparr>it_timer := False\<rparr>)) (int_left s)"
      using 2 at by (simp add: int_sooner_left main_left_def vision_left_def door_left_def)
    ultimately show ?thesis by blast
  next
    case 3
    obtain d where d: "door_thread (it_door s) d" "control_left d < control_left (it_door s)"
      using control_gets_on [OF 3 shut(2)] by blast
    have "?step s (s\<lparr>it_door := d\<rparr>)" using d(1) by (rule int_step.door)
    moreover have "int_sooner (int_left (s\<lparr>it_door := d\<rparr>)) (int_left s)"
      using d(2) at by (simp add: int_sooner_left main_left_def vision_left_def door_left_def)
    ultimately show ?thesis by blast
  next
    case 4
    then obtain a where a: "it_api s = Some a" "\<forall>ret. sl_listen a \<noteq> Returned ret"
      by (auto simp: api_over_def split: option.splits listen_pc.splits)
    with assms(3) at have stop: "stopping a" by (auto simp: stop_lost_def)
    obtain a' where a': "life_step created fails True a a'" "sooner (life_left a') (life_left a)"
      using stopping_gets_on [OF stop a(2) TrueI] by blast
    have "?step s (s\<lparr>it_api := Some a'\<rparr>)" using a(1) a'(1) by (rule int_step.api)
    moreover have "stopping a'" using life_step_stopping [OF a'(1) stop] by blast
    then have "int_sooner (int_left (s\<lparr>it_api := Some a'\<rparr>)) (int_left s)"
      using a(1) a'(2) at stop
      by (simp add: int_sooner_left main_left_def vision_left_def door_left_def api_left_def)
    ultimately show ?thesis by blast
  qed
qed

lemma int_gets_on:
  assumes ok: "int_ok s" and told: "mo_data (it_wait s)" and "it_main s \<noteq> Main_Over" and "\<not> stop_lost s"
  shows "\<exists>s'. int_step spurious created fails True sim detect emb_of s s' \<and> int_sooner (int_left s') (int_left s)"
proof -
  let ?step = "int_step spurious created fails True sim detect emb_of"
  fix env t opened cores w
  show ?thesis
  proof (cases "main_step_of env t opened cores w s")
    case (Some s')
    then have "?step s s'" by (rule int_step.main)
    moreover have "int_sooner (int_left s') (int_left s)"
      using main_step_left [OF Some] by (simp add: int_sooner_left)
    ultimately show ?thesis by blast
  next
    case None
    have wait: "wait_at (it_main s) (it_wait s)" using ok by (simp add: int_ok_def)
    from None assms(3) wait consider "it_main s = Awaiting" "mo_waiter (it_wait s) \<noteq> Holding"
      | "it_main s = Join_Recognition" "it_rec s \<noteq> Over" | "it_main s = Join_Camera" "it_cam s \<noteq> Over"
      | "it_main s = Join_Door"
      by (cases "it_main s") (auto simp: main_step_of_def Let_def wait_at_def split: if_splits)
    then show ?thesis
    proof cases
      case 1
      with wait told obtain m' where m': "own_wait_step spurious (it_wait s) m' \<or> handler_step (it_wait s) m'"
          "waiter_left (mo_waiter m') < waiter_left (mo_waiter (it_wait s))"
        using wait_gets_on [of "it_wait s" spurious] by auto
      then have "?step s (s\<lparr>it_wait := m'\<rparr>)"
        using 1(1) by (blast intro: int_step.waiting int_step.interrupt)
      moreover have "int_sooner (int_left (s\<lparr>it_wait := m'\<rparr>)) (int_left s)"
        using 1(1) m'(2) by (simp add: int_sooner_left main_left_def)
      ultimately show ?thesis by blast
    next
      case 2
      with ok recognition_gets_on [of s 0 0 sim detect emb_of] show ?thesis
        by (auto simp: int_ok_def intro: int_step.recognition)
    next
      case 3
      with ok camera_gets_on [of s False None] show ?thesis
        by (auto simp: int_ok_def intro: int_step.camera)
    next
      case 4
      with ok assms(4) None door_joins_get_on show ?thesis by blast
    qed
  qed
qed

section \<open>The properties of the multi-factor program\<close>

lemma int_step_projects:
  assumes "int_step spurious created fails wakes sim detect emb_of s s'" and "int_ok s"
  shows "sys_step\<^sup>*\<^sup>* (it_door s) (it_door s')"
  using int_step_door [OF assms(1)]
proof (elim disjE conjE)
  assume "it_main s = Finish_Door" and d: "it_door s' = stop_end (it_door s)"
  with assms(2) have "sys_step (it_door s) (stop_end (it_door s))"
    by (intro sys_step.stop_finish) (simp_all add: int_ok_def)
  with d show ?thesis by simp
qed auto

lemma integrated_projects:
  assumes "(int_step spurious created fails wakes sim detect emb_of)\<^sup>*\<^sup>* (main_integrated l fr) s"
  shows "sys_step\<^sup>*\<^sup>* (DoorAlarmSystem l) (it_door s) \<and> \<not> it_override s"
  using assms
proof (induction rule: rtranclp_induct)
  case base
  show ?case by (simp add: main_integrated_def)
next
  case (step s s')
  have "int_ok s" by (rule integrated.star_inv [OF step(1) int_ok_init])
  moreover have "it_override s' = it_override s"
    using step(2)
  proof (cases rule: int_step.cases)
    case (main env t opened cores w)
    then show ?thesis by (cases "it_main s") (auto simp: main_step_of_def Let_def split: if_splits)
  next
    case (recognition t key)
    from recognition show ?thesis by (cases rule: int_rec_turn_cases) simp_all
  next
    case (camera read_ok frame)
    from camera show ?thesis by (cases rule: int_cam_turn_cases) simp_all
  qed simp_all
  ultimately show ?case using step int_step_projects [OF step(2)] by (auto intro: rtranclp_trans)
qed

text \<open>
  C8: the factors do not meet: every run of the multi-factor program is, for the alarm system in
  it, a run of the alarm system alone. What the recogniser finds goes to an event bus without
  subscribers, a turn of the camera or the recognition thread leaves the alarm system as it
  is, and entries are authorized as before, by a whitelisted tag or by the exit button, whatever
  face is seen or not seen.
\<close>

theorem integrated_door_alone:
  assumes "(int_step spurious created fails wakes sim detect emb_of)\<^sup>*\<^sup>* (main_integrated l fr) s"
  shows "sys_step\<^sup>*\<^sup>* (DoorAlarmSystem l) (it_door s)
    \<and> (int_rec_turn t key sim detect emb_of s = Some s1 \<longrightarrow> it_door s1 = it_door s \<and> it_api s1 = it_api s)
    \<and> (int_cam_turn read_ok frame s = Some s2 \<longrightarrow> it_door s2 = it_door s \<and> it_api s2 = it_api s)
    \<and> (controlLoop_turn w t' (it_door s) = Goes d \<and> fs_state (sy_fsm (it_door s)) \<noteq> AuthorizedEntry
        \<and> fs_state (sy_fsm d) = AuthorizedEntry \<longrightarrow>
       (\<exists>e es. eq_queue (sy_queue (it_door s)) = e # es \<and>
         (ev_type e = AuthorizedByNfc \<and> check (ev_source e)
          \<or> ev_type e = AuthorizedByApp \<and> ev_source e = ''Push_Button'')))"
proof (intro conjI impI)
  show run: "sys_step\<^sup>*\<^sup>* (DoorAlarmSystem l) (it_door s)" using integrated_projects [OF assms] by simp
  show "it_door s1 = it_door s" "it_api s1 = it_api s" if "int_rec_turn t key sim detect emb_of s = Some s1"
    using that by (cases rule: int_rec_turn_cases; simp)+
  show "it_door s2 = it_door s" "it_api s2 = it_api s" if "int_cam_turn read_ok frame s = Some s2"
    using that by (cases rule: int_cam_turn_cases; simp)+
  assume "controlLoop_turn w t' (it_door s) = Goes d \<and> fs_state (sy_fsm (it_door s)) \<noteq> AuthorizedEntry
      \<and> fs_state (sy_fsm d) = AuthorizedEntry"
  then show "\<exists>e es. eq_queue (sy_queue (it_door s)) = e # es \<and>
      (ev_type e = AuthorizedByNfc \<and> check (ev_source e)
       \<or> ev_type e = AuthorizedByApp \<and> ev_source e = ''Push_Button'')"
    using entry_credential [OF sysinv.star_inv [OF run sys_ok_init], of w t' d] by blast
qed

subsection \<open>Concrete runs\<close>

definition demo_integrated :: "(nat, nat, nat) integrated" where
  "demo_integrated = main_integrated (AsyncLogger [] True True) FaceRecognizer"

text \<open>Everything works, except that the camera cannot be opened.\<close>

definition demo_env :: start_env where
  "demo_env = \<lparr>env_nfc_fd = 3, env_outputs = True, env_reed = True, env_button = True, env_trigger = True\<rparr>"

definition started_door :: system where
  "started_door = start demo_env 0 (DoorAlarmSystem (AsyncLogger [] True True))"

definition started :: "(nat, nat, nat) integrated" where
  "started = demo_integrated\<lparr>it_door := started_door, it_api := Some (new_server 4), it_nfc := True,
     it_timer := True, it_main := Start_Camera\<rparr>"

definition interrupted :: "(nat, nat, nat) integrated" where
  "interrupted = started\<lparr>it_wait := \<lparr>mo_data = True, mo_waiter = Holding, mo_pending = Suc 0\<rparr>,
     it_cam_running := True, it_rec_running := True, it_rec := At_Head, it_main := Tell_Recognition\<rparr>"

lemma started_running: "sy_running started_door"
  by (simp add: started_door_def start_def demo_env_def DoorAlarmSystem_def init_nfc_def init_outputs_def
      Let_def sys_simps split_beta)

lemma started_reachable:
  "int_step spurious created fails wakes sim detect emb_of demo_integrated started"
proof -
  have "main_step_of demo_env 0 False 4 0 demo_integrated = Some started"
    using started_running
    by (simp add: main_step_of_def demo_integrated_def main_integrated_def started_def started_door_def Let_def)
  then show ?thesis by (rule int_step.main)
qed

theorem integrated_door_alone_witness:
  "sys_step\<^sup>*\<^sup>* (DoorAlarmSystem (AsyncLogger [] True True)) (it_door started)"
proof -
  have "(int_step False True False True (\<lambda>_ _. None) (\<lambda>f. []) (\<lambda>f r. 0))\<^sup>*\<^sup>*
      (main_integrated (AsyncLogger [] True True) FaceRecognizer) started"
    using started_reachable unfolding demo_integrated_def by (rule r_into_rtranclp)
  from integrated_door_alone [OF this] show ?thesis by blast
qed

text \<open>An interrupt right after the start, before the thread of the HTTP server has run.\<close>

lemma handler_sets:
  "handler_step (monitor_start False) \<lparr>mo_data = True, mo_waiter = Locking, mo_pending = Suc 0\<rparr>"
  using cv_step.update_locked [where s = "monitor_start False" and locked = signalHandler and d = True
      and pred = should_exit and unlocked = "\<lambda>flag flag'. False" and body = after_wait]
  by (simp add: handler_step_def monitor_start_def signalHandler_def)

lemma wait_passes:
  "own_wait_step spurious \<lparr>mo_data = True, mo_waiter = Locking, mo_pending = Suc 0\<rparr>
     \<lparr>mo_data = True, mo_waiter = Testing, mo_pending = Suc 0\<rparr>"
  "own_wait_step spurious \<lparr>mo_data = True, mo_waiter = Testing, mo_pending = Suc 0\<rparr>
     \<lparr>mo_data = True, mo_waiter = Holding, mo_pending = Suc 0\<rparr>"
  using cv_step.acquire [of "\<lparr>mo_data = True, mo_waiter = Locking, mo_pending = Suc 0\<rparr>"
      should_exit signalHandler "\<lambda>flag flag'. False" after_wait]
    cv_step.ready [of "\<lparr>mo_data = True, mo_waiter = Testing, mo_pending = Suc 0\<rparr>"
      should_exit signalHandler "\<lambda>flag flag'. False" after_wait]
  by (simp_all add: own_wait_step_def should_exit_def)

lemma interrupted_reachable:
  "(int_step spurious created fails wakes sim detect emb_of)\<^sup>*\<^sup>* demo_integrated interrupted"
proof -
  let ?R = "int_step spurious created fails wakes sim detect emb_of"
  let ?told = "\<lparr>mo_data = True, mo_waiter = Locking, mo_pending = Suc 0\<rparr>"
  let ?testing = "\<lparr>mo_data = True, mo_waiter = Testing, mo_pending = Suc 0\<rparr>"
  let ?holding = "\<lparr>mo_data = True, mo_waiter = Holding, mo_pending = Suc 0\<rparr>"
  define up where "up = started\<lparr>it_cam_running := True, it_rec_running := True, it_rec := At_Head, it_main := Awaiting\<rparr>"
  have w: "it_wait started = monitor_start False" "it_main started = Start_Camera" "it_cam started = Over"
    by (simp_all add: started_def demo_integrated_def main_integrated_def)
  have "?R started (started\<lparr>it_cam_running := True, it_cam := Over, it_main := Start_Recognition\<rparr>)"
    by (rule int_step.main [where opened = False]) (simp add: main_step_of_def w)
  moreover have "?R (started\<lparr>it_cam_running := True, it_cam := Over, it_main := Start_Recognition\<rparr>) up"
    by (rule int_step.main) (simp add: main_step_of_def up_def started_def demo_integrated_def main_integrated_def)
  moreover have "?R up (up\<lparr>it_wait := ?told\<rparr>)"
    by (rule int_step.interrupt) (simp add: up_def w handler_sets)
  moreover have "?R (up\<lparr>it_wait := ?told\<rparr>) (up\<lparr>it_wait := ?told, it_wait := ?testing\<rparr>)"
    by (rule int_step.waiting) (simp_all add: up_def wait_passes)
  moreover have "?R (up\<lparr>it_wait := ?testing\<rparr>) (up\<lparr>it_wait := ?testing, it_wait := ?holding\<rparr>)"
    by (rule int_step.waiting) (simp_all add: up_def wait_passes)
  moreover have "?R (up\<lparr>it_wait := ?holding\<rparr>) interrupted"
    by (rule int_step.main) (simp add: main_step_of_def up_def interrupted_def)
  ultimately show ?thesis
    using started_reachable [of spurious created fails wakes sim detect emb_of]
    by simp
qed



section \<open>Where the program hangs\<close>

text \<open>The main thread waits for the thread of a server that has not heard its stop.\<close>

definition hanging :: "('f, 'r, 'e) integrated \<Rightarrow> bool" where
  "hanging s \<longleftrightarrow> it_main s = Join_Door \<and> (\<exists>a. it_api s = Some a \<and> listening a)"

interpretation hangs: safe_relation "int_step spurious True False wakes sim detect emb_of" hanging
proof
  fix s s'
  assume "int_step spurious True False wakes sim detect emb_of s s'" and h: "hanging s"
  then show "hanging s'"
  proof (cases rule: int_step.cases)
    case (main env t opened cores w)
    with h show ?thesis
      by (auto simp: hanging_def main_step_of_def api_over_def listening_def split: if_splits listen_pc.splits)
  next
    case (api a a')
    with h lost.step_inv [OF api(3)] show ?thesis by (auto simp: hanging_def)
  next
    case (recognition t key)
    from recognition h show ?thesis by (cases rule: int_rec_turn_cases) (simp_all add: hanging_def)
  next
    case (camera read_ok frame)
    from camera h show ?thesis by (cases rule: int_cam_turn_cases) (simp_all add: hanging_def)
  qed (auto simp: hanging_def)
qed

interpretation in_handler: safe_relation "int_step spurious created fails wakes sim detect emb_of"
  "\<lambda>s. it_main s = In_Handler"
proof
  fix s s'
  assume "int_step spurious created fails wakes sim detect emb_of s s'" and h: "it_main s = In_Handler"
  then show "it_main s' = In_Handler"
  proof (cases rule: int_step.cases)
    case (main env t opened cores w)
    with h show ?thesis by (simp add: main_step_of_def)
  next
    case (recognition t key)
    from recognition h show ?thesis by (cases rule: int_rec_turn_cases) simp_all
  next
    case (camera read_ok frame)
    from camera h show ?thesis by (cases rule: int_cam_turn_cases) simp_all
  qed simp_all
qed

text \<open>
  An interrupt right after the start can hang the program for ever: if the main thread calls
  \<^verbatim>\<open>nfcSystem.stop()\<close> while the thread of the HTTP server has not set its running flag yet, the stop
  is lost, the server goes on to listen, and the join of its thread never returns, although all
  other threads end.
\<close>

theorem early_interrupt_hangs:
  assumes "(int_step spurious True False wakes sim detect emb_of)\<^sup>*\<^sup>* (main_integrated l fr) s"
    and "it_main s = Stop_Door" and "sy_running (it_door s)" and "it_api s = Some a"
    and "sl_listen a = Before_Bind \<or> sl_listen a = Bound"
    and "main_step_of env t opened cores w s = Some s1"
    and "(int_step spurious True False wakes sim detect emb_of)\<^sup>*\<^sup>* s1 s'"
  shows "it_main s' = Join_Door"
proof -
  have "int_ok s" by (rule integrated.star_inv [OF assms(1) int_ok_init])
  then have "life_ok a" "bound_ok a" using assms(4) by (simp_all add: int_ok_def)
  with assms(5) have "listening (stop_server a)"
    by (auto simp: listening_def stop_server_ok bound_ok_def)
  with assms(2,3,4,6) have "hanging s1" by (auto simp: hanging_def main_step_of_def)
  then have "hanging s'" by (rule hangs.star_inv [OF assms(7)])
  then show ?thesis by (simp add: hanging_def)
qed

text \<open>The run that leads there: the interrupt comes before anything else has happened.\<close>

definition too_early :: "(nat, nat, nat) integrated" where
  "too_early = interrupted\<lparr>it_rec_running := False, it_rec := Over, it_cam_running := False,
     it_queue := ts_close ThreadSafeQueue, it_main := Stop_Door\<rparr>"

lemma too_early_reachable:
  "(int_step spurious created fails wakes sim detect emb_of)\<^sup>*\<^sup>* demo_integrated too_early"
proof -
  let ?R = "int_step spurious created fails wakes sim detect emb_of"
  let ?close = "ts_close (ThreadSafeQueue :: nat ts_queue)"
  define a where "a = interrupted\<lparr>it_rec_running := False, it_main := Close_For_Recognition\<rparr>"
  define b where "b = a\<lparr>it_queue := ?close, it_main := Join_Recognition\<rparr>"
  define c where "c = b\<lparr>it_rec := Over\<rparr>"
  define e where "e = c\<lparr>it_cam_running := False, it_main := Close_For_Camera\<rparr>"
  have i: "it_main interrupted = Tell_Recognition" "it_queue interrupted = ThreadSafeQueue"
    "it_rec interrupted = At_Head" "it_cam interrupted = Over"
    by (simp_all add: interrupted_def started_def demo_integrated_def main_integrated_def)
  have "?R interrupted a" by (rule int_step.main) (simp add: main_step_of_def a_def i)
  moreover have "?R a b" by (rule int_step.main) (simp add: main_step_of_def a_def b_def i)
  moreover have "?R b c" by (rule int_step.recognition) (simp add: int_rec_turn_def a_def b_def c_def i)
  moreover have "?R c (c\<lparr>it_main := Tell_Camera\<rparr>)"
    by (rule int_step.main) (simp add: main_step_of_def a_def b_def c_def)
  moreover have "?R (c\<lparr>it_main := Tell_Camera\<rparr>) e"
    by (rule int_step.main) (simp add: main_step_of_def e_def)
  moreover have "?R e (e\<lparr>it_queue := ?close, it_main := Join_Camera\<rparr>)"
    by (rule int_step.main) (simp add: main_step_of_def a_def b_def c_def e_def ts_close_def)
  moreover have "?R (e\<lparr>it_queue := ?close, it_main := Join_Camera\<rparr>) too_early"
    by (rule int_step.main) (simp add: main_step_of_def a_def b_def c_def e_def too_early_def i)
  ultimately show ?thesis
    using interrupted_reachable [of spurious created fails wakes sim detect emb_of]
    by (meson rtranclp.rtrancl_into_rtrancl)
qed

theorem early_interrupt_hangs_witness:
  "it_main (the (main_step_of demo_env 0 False 4 0 too_early)) = Join_Door"
proof -
  have run: "(int_step False True False True (\<lambda>_ _. None) (\<lambda>f. []) (\<lambda>f r. 0))\<^sup>*\<^sup>*
      (main_integrated (AsyncLogger [] True True) FaceRecognizer) too_early"
    using too_early_reachable unfolding demo_integrated_def .
  have at: "it_main too_early = Stop_Door" "sy_running (it_door too_early)"
    "it_api too_early = Some (new_server 4)" "sl_listen (new_server 4 :: nat server_life) = Before_Bind"
    by (simp_all add: too_early_def interrupted_def started_def started_running new_server_def)
  then have "main_step_of demo_env 0 False 4 0 too_early \<noteq> None" by (simp add: main_step_of_def)
  then obtain s1 where s1: "main_step_of demo_env 0 False 4 0 too_early = Some s1" by blast
  from early_interrupt_hangs [OF run at(1-3) _ s1 rtranclp.rtrancl_refl] at(4) s1 show ?thesis by simp
qed

text \<open>
  A second interrupt during the teardown hangs the program when the system delivers it to the
  main thread: \<^verbatim>\<open>main\<close> still holds the mutex of its wait then, through all three \<^verbatim>\<open>stop()\<close> calls, and
  the handler that interrupts it blocks on that mutex; nothing any other thread does lets it go on.
\<close>

theorem second_interrupt_hangs:
  assumes "(int_step spurious created fails wakes sim detect emb_of)\<^sup>*\<^sup>* (main_integrated l fr) s"
    and "4 \<le> stage (it_main s)"
    and "(int_step spurious created fails wakes sim detect emb_of)\<^sup>*\<^sup>* (interrupt_on_main s) s'"
  shows "it_main s' = In_Handler"
proof -
  have "wait_at (it_main s) (it_wait s)"
    using integrated.star_inv [OF assms(1) int_ok_init] by (simp add: int_ok_def)
  with assms(2) have "it_main (interrupt_on_main s) = In_Handler"
    by (simp add: interrupt_on_main_def handler_on_main_def wait_at_def)
  then show ?thesis by (rule in_handler.star_inv [OF assms(3)])
qed

theorem second_interrupt_hangs_witness: "it_main (interrupt_on_main interrupted) = In_Handler"
proof -
  have "(int_step False True True True (\<lambda>_ _. None) (\<lambda>f. []) (\<lambda>f r. 0))\<^sup>*\<^sup>*
      (main_integrated (AsyncLogger [] True True) FaceRecognizer) interrupted"
    using interrupted_reachable unfolding demo_integrated_def .
  from second_interrupt_hangs [OF this _ rtranclp.rtrancl_refl] show ?thesis
    by (simp add: interrupted_def)
qed

end
