(* ===== verification/Preview.thy ===== *)
theory Preview
  imports Integrated
begin

text \<open>
  What the operator sees: \<^verbatim>\<open>RecognitionThread::drawOverlay\<close> (\<^verbatim>\<open>src/RecognitionThread.cpp\<close>) as the list
  of drawing operations it issues for the events of a frame. Further the superseded capture
  loop of \<^verbatim>\<open>src/Camera.cpp\<close>, beside the one that replaced it.
\<close>

section \<open>The overlay\<close>

text \<open>
  Colours as \<^verbatim>\<open>cv::Scalar\<close> (blue, green, red); sizes of the font in tenths. \<open>corner\<close> gives \<open>x\<close> and
  \<open>y\<close> of a rectangle, \<open>percent\<close> is \<^verbatim>\<open>(int)(confidence*100)\<close> as text: the product and its
  truncation are the platform's.
\<close>

type_synonym color = "nat \<times> nat \<times> nat"

datatype 'r draw_op =
    Draw_Rectangle 'r color nat
  | Draw_Text string "int \<times> int" nat color nat

definition green :: color where "green = (0, 255, 0)"
definition red :: color where "red = (0, 0, 255)"

definition overlay_label :: "(score \<Rightarrow> string) \<Rightarrow> 'r access_event \<Rightarrow> string" where
  "overlay_label percent ev =
     (let lbl = ae_identity ev
      in if float_greater (ae_confidence ev) (Some 0)
         then lbl @ '' ('' @ percent (ae_confidence ev) @ ''%)'' else lbl)"

definition overlay_event ::
  "(score \<Rightarrow> string) \<Rightarrow> ('r \<Rightarrow> int \<times> int) \<Rightarrow> 'r access_event \<Rightarrow> 'r draw_op list" where
  "overlay_event percent corner ev =
     (case ae_faceRect ev of
        None \<Rightarrow> []
      | Some rect \<Rightarrow>
          (let col = (if ae_result ev = GRANTED then green else red);
               (x, y) = corner rect
           in [Draw_Rectangle rect col 2,
               Draw_Text (overlay_label percent ev) (x, y - 8) 6 col 2]
              @ (if ae_result ev = GRANTED then [Draw_Text ''UNLOCKED'' (20, 50) 12 green 3] else [])))"

definition drawOverlay ::
  "(score \<Rightarrow> string) \<Rightarrow> ('r \<Rightarrow> int \<times> int) \<Rightarrow> 'r access_event list \<Rightarrow> 'r draw_op list" where
  "drawOverlay percent corner evs = concat (map (overlay_event percent corner) evs)"

definition says_unlocked :: "'r draw_op list \<Rightarrow> bool" where
  "says_unlocked ops \<longleftrightarrow> Draw_Text ''UNLOCKED'' (20, 50) 12 green 3 \<in> set ops"

text \<open>What is drawn over the frame of a turn of the recognition thread.\<close>

definition turn_overlay ::
  "time_point \<Rightarrow> (score \<Rightarrow> string) \<Rightarrow> ('r \<Rightarrow> int \<times> int) \<Rightarrow> ('e \<Rightarrow> 'e \<Rightarrow> score) \<Rightarrow> ('f \<Rightarrow> 'r list) \<Rightarrow>
   ('f \<Rightarrow> 'r \<Rightarrow> 'e) \<Rightarrow> bool \<Rightarrow> ('r, 'e) recognizer \<Rightarrow> 'f \<Rightarrow> 'r draw_op list" where
  "turn_overlay t percent corner sim detect emb_of active fr frame =
     drawOverlay percent corner (fst (process t sim (detect frame) (emb_of frame) active fr))"

lemma says_unlocked_iff:
  assumes "\<forall>ev \<in> set evs. ae_faceRect ev \<noteq> None"
  shows "says_unlocked (drawOverlay percent corner evs) \<longleftrightarrow> (\<exists>ev \<in> set evs. ae_result ev = GRANTED)"
proof -
  have "Draw_Text ''UNLOCKED'' (20, 50) 12 green 3 \<in> set (overlay_event percent corner ev)
      \<longleftrightarrow> ae_result ev = GRANTED" if "ev \<in> set evs" for ev
    using assms that
    by (cases "ae_faceRect ev"; cases "corner (the (ae_faceRect ev))")
      (auto simp: overlay_event_def Let_def split: prod.splits)
  then show ?thesis by (auto simp: says_unlocked_def drawOverlay_def)
qed

lemma process_has_rects: "ev \<in> set (fst (process t sim detected emb_of active fr)) \<Longrightarrow> ae_faceRect ev \<noteq> None"
  by (auto simp: process_def Let_def face_event_def split_beta)

lemma override_events_not_granted:
  "ev \<in> set (fst (process t sim detected emb_of True fr)) \<Longrightarrow> ae_result ev = OVERRIDDEN"
  by (auto simp: process_def Let_def face_event_def override_event_def)

text \<open>
  The preview does not show what the lock does. It says \<^verbatim>\<open>UNLOCKED\<close> exactly when a face of the
  frame is granted: in the multi-factor program too, where such a turn leaves the alarm system
  and its door untouched; and in override mode, in which the camera lock opens for every face,
  it never says so and frames the faces in red.
\<close>

theorem overlay_is_not_the_lock:
  "(says_unlocked (turn_overlay t percent corner sim detect emb_of False fr frame) \<longleftrightarrow>
      (\<exists>ev \<in> set (fst (process t sim (detect frame) (emb_of frame) False fr)). ae_result ev = GRANTED))
   \<and> \<not> says_unlocked (turn_overlay t percent corner sim detect emb_of True fr frame)
   \<and> (int_rec_turn t key sim detect emb_of s = Some s' \<longrightarrow> it_door s' = it_door s)"
proof (intro conjI impI)
  show "says_unlocked (turn_overlay t percent corner sim detect emb_of False fr frame) \<longleftrightarrow>
      (\<exists>ev \<in> set (fst (process t sim (detect frame) (emb_of frame) False fr)). ae_result ev = GRANTED)"
    unfolding turn_overlay_def by (rule says_unlocked_iff) (use process_has_rects in blast)
  have "\<forall>ev \<in> set (fst (process t sim (detect frame) (emb_of frame) True fr)). ae_result ev \<noteq> GRANTED"
    using override_events_not_granted by fastforce
  then show "\<not> says_unlocked (turn_overlay t percent corner sim detect emb_of True fr frame)"
    unfolding turn_overlay_def using process_has_rects by (subst says_unlocked_iff) blast+
  show "it_door s' = it_door s" if "int_rec_turn t key sim detect emb_of s = Some s'"
    using that by (cases rule: int_rec_turn_cases) simp_all
qed

text \<open>A recogniser that knows Alice sees her.\<close>

definition demo_seer :: "(nat, nat) recognizer" where
  "demo_seer = \<lparr>fr_database = [(''Alice'', 1)], fr_frameCount = 0, fr_lastFaces = []\<rparr>"

definition seeing :: "(nat, nat, nat) integrated" where
  "seeing = demo_integrated\<lparr>it_rec := In_Call, it_queue := pushBounded 4 5 ThreadSafeQueue,
     it_recognizer := demo_seer\<rparr>"

theorem overlay_is_not_the_lock_witness:
  "says_unlocked (turn_overlay 0 (\<lambda>s. ''99'') (\<lambda>r. (0, 0)) (\<lambda>_ _. Some 1) (\<lambda>f. [7]) (\<lambda>f r. 1) False demo_seer (5 :: nat))
   \<and> it_door (the (int_rec_turn 0 0 (\<lambda>_ _. Some 1) (\<lambda>f. [7]) (\<lambda>f r. 1) seeing)) = it_door seeing"
proof -
  obtain s' where s': "int_rec_turn 0 0 (\<lambda>_ _. Some 1) (\<lambda>f. [7]) (\<lambda>f r. 1) seeing = Some s'"
    by (simp add: int_rec_turn_def seeing_def unheard_turn_def pushBounded_def ThreadSafeQueue_def
        ts_pop_def Let_def split_beta)
  have "\<exists>ev \<in> set (fst (process 0 (\<lambda>_ _. Some 1) [7] (\<lambda>r. 1) False demo_seer)). ae_result ev = GRANTED"
    by (simp add: process_def demo_seer_def next_faces_def kDetectEvery_def face_event_def best_match_def
        match_step_def float_greater_def float_at_least_def kMatchThreshold_def Let_def)
  with s' show ?thesis
    using overlay_is_not_the_lock [of 0 "\<lambda>s. ''99''" "\<lambda>r. (0, 0)" "\<lambda>_ _. Some 1" "\<lambda>f. [7]" "\<lambda>f r. 1"
        demo_seer "5 :: nat" 0 seeing s']
    by simp
qed

section \<open>Two capture loops\<close>

text \<open>
  A turn of \<^verbatim>\<open>cameraThread\<close>, which pushes without a bound; \<^term>\<open>None\<close> is an empty frame. (It throws
  before its loop if the camera cannot be opened, and never leaves the loop.)
\<close>

definition cameraThread_turn :: "'f option \<Rightarrow> 'f ts_queue \<Rightarrow> 'f ts_queue" where
  "cameraThread_turn frame q = (case frame of None \<Rightarrow> q | Some f \<Rightarrow> ts_push f q)"

lemma cameraThread_keeps_all:
  "\<not> ts_shutdown q \<Longrightarrow>
   ts_queue (fold cameraThread_turn frames q) = ts_queue q @ map the (filter (\<lambda>f. f \<noteq> None) frames)"
  by (induction frames arbitrary: q) (auto simp: cameraThread_turn_def ts_push_def)

lemma camera_turns_bounded:
  "length (ts_queue q) \<le> 4 \<Longrightarrow> length (ts_queue (fold (camera_turn True) frames q)) \<le> 4"
proof (induction frames arbitrary: q)
  case (Cons frame frames)
  have "length (ts_queue (camera_turn True frame q)) \<le> 4"
    using Cons.prems drop_oldest_length [of 4 "ts_queue q"]
    by (cases frame) (simp_all add: camera_turn_def pushBounded_def)
  then show ?case by (simp add: Cons.IH)
qed simp

text \<open>
  While nobody looks at the frames, the old loop keeps every one of them, the new one at
  most the newest four.
\<close>

theorem capture_loops_differ:
  "length (ts_queue (fold cameraThread_turn (replicate n (Some f)) ThreadSafeQueue)) = n
   \<and> length (ts_queue (fold (camera_turn True) (replicate n (Some f)) ThreadSafeQueue)) \<le> 4"
  using cameraThread_keeps_all [of ThreadSafeQueue "replicate n (Some f)"]
    camera_turns_bounded [of ThreadSafeQueue "replicate n (Some f)"]
  by (simp add: ThreadSafeQueue_def)

end
