(* ===== verification/Dataset.thy ===== *)
theory Dataset
  imports Face_Database "HOL-Library.Multiset"
begin

text \<open>
  The tools that enrol people (\<^verbatim>\<open>tools/capture_dataset.cpp\<close>, \<^verbatim>\<open>tools/build_database.cpp\<close>): the first
  saves pictures of faces to \<^verbatim>\<open>dataset/<name>/<number>.jpg\<close>, the second averages the embeddings of
  each person's pictures and writes them to the file that \<^verbatim>\<open>FaceRecognizer::loadDatabase\<close> reads.
  Detecting, drawing, cropping, JPEG and the network are OpenCV's and parameters here.
\<close>

section \<open>Building the database\<close>

text \<open>
  A directory entry of \<^verbatim>\<open>dataset\<close>; \<^term>\<open>None\<close> is a file that \<^verbatim>\<open>imread\<close> cannot read. The order of
  \<^verbatim>\<open>directory_iterator\<close> is unspecified: it is that of the lists.
\<close>

record 'img person_dir =
  pd_name :: string
  pd_is_directory :: bool
  pd_images :: "'img option list"

text \<open>
  \<open>avg[i] += e[i]\<close> for all indices of the average; \<^term>\<open>None\<close>: reading behind the end of \<open>e\<close>.
\<close>

definition add_embedding :: "'x float_ops \<Rightarrow> 'x list \<Rightarrow> 'x list \<Rightarrow> 'x list option" where
  "add_embedding F avg e =
     (if length e < length avg then None else Some (map2 (fl_add F) avg e))"

fun add_embeddings :: "'x float_ops \<Rightarrow> 'x list list \<Rightarrow> 'x list \<Rightarrow> 'x list option" where
  "add_embeddings F [] avg = Some avg"
| "add_embeddings F (e # es) avg =
     (case add_embedding F avg e of None \<Rightarrow> None | Some avg \<Rightarrow> add_embeddings F es avg)"

text \<open>\<open>of_size\<close> is the conversion of a size to \<^verbatim>\<open>float\<close>.\<close>

definition average_embedding :: "'x float_ops \<Rightarrow> (nat \<Rightarrow> 'x) \<Rightarrow> 'x list list \<Rightarrow> 'x list option" where
  "average_embedding F of_size embeddings =
     (let dim = length (hd embeddings);
          avg = replicate dim (fl_zero F)
      in map_option (map (\<lambda>v. fl_div F v (of_size (length embeddings))))
           (add_embeddings F embeddings avg))"

definition read_embeddings :: "('img \<Rightarrow> 'x list) \<Rightarrow> 'img option list \<Rightarrow> 'x list list" where
  "read_embeddings getEmbedding images =
     map getEmbedding (map the (filter (\<lambda>face. face \<noteq> None) images))"

fun build_people ::
  "'x float_ops \<Rightarrow> (nat \<Rightarrow> 'x) \<Rightarrow> ('img \<Rightarrow> 'x list) \<Rightarrow> 'img person_dir list \<Rightarrow>
   (string \<times> 'x list) list \<Rightarrow> (string \<times> 'x list) list option" where
  "build_people F of_size getEmbedding [] out = Some out"
| "build_people F of_size getEmbedding (personDir # dirs) out =
     (if \<not> pd_is_directory personDir then build_people F of_size getEmbedding dirs out
      else let embeddings = read_embeddings getEmbedding (pd_images personDir)
           in if embeddings = [] then build_people F of_size getEmbedding dirs out
              else case average_embedding F of_size embeddings of
                     None \<Rightarrow> None
                   | Some avg \<Rightarrow>
                       build_people F of_size getEmbedding dirs (out @ [(pd_name personDir, avg)]))"

text \<open>
  \<^verbatim>\<open>main\<close>: its exit code and the list it has written, if it got that far. \<^term>\<open>None\<close>: undefined
  behaviour, or an exception nobody catches (there is no directory \<^verbatim>\<open>dataset\<close>).
\<close>

definition build_database ::
  "bool \<Rightarrow> 'x float_ops \<Rightarrow> (nat \<Rightarrow> 'x) \<Rightarrow> ('img \<Rightarrow> 'x list) \<Rightarrow> 'img person_dir list option \<Rightarrow>
   (nat \<times> (string \<times> 'x list) list option) option" where
  "build_database net_ok F of_size getEmbedding dataset =
     (if \<not> net_ok then Some (1, None)
      else case dataset of
             None \<Rightarrow> None
           | Some dirs \<Rightarrow>
               (case build_people F of_size getEmbedding dirs [] of
                  None \<Rightarrow> None
                | Some people \<Rightarrow> Some (0, Some people)))"

subsection \<open>What is in the database\<close>

text \<open>The pictures that shots, person by person.\<close>

definition enrolled :: "('img \<Rightarrow> 'x list) \<Rightarrow> 'img person_dir list \<Rightarrow> (string \<times> 'x list list) list" where
  "enrolled getEmbedding dirs =
     map (\<lambda>d. (pd_name d, read_embeddings getEmbedding (pd_images d)))
       (filter (\<lambda>d. pd_is_directory d \<and> read_embeddings getEmbedding (pd_images d) \<noteq> []) dirs)"

text \<open>The mean, component by component, in the order of the pictures.\<close>

definition mean_at :: "'x float_ops \<Rightarrow> (nat \<Rightarrow> 'x) \<Rightarrow> 'x list list \<Rightarrow> nat \<Rightarrow> 'x" where
  "mean_at F of_size es i =
     fl_div F (foldl (fl_add F) (fl_zero F) (map (\<lambda>e. e ! i) es)) (of_size (length es))"

lemma add_embeddings_sums:
  assumes "\<forall>e \<in> set es. length avg \<le> length e"
  shows "add_embeddings F es avg =
    Some (map (\<lambda>i. foldl (fl_add F) (avg ! i) (map (\<lambda>e. e ! i) es)) [0 ..< length avg])"
  using assms
proof (induction es arbitrary: avg)
  case Nil
  show ?case by (simp add: map_nth)
next
  case (Cons e es)
  let ?avg = "map2 (fl_add F) avg e"
  have len: "length ?avg = length avg" using Cons.prems by simp
  then have "add_embeddings F es ?avg =
      Some (map (\<lambda>i. foldl (fl_add F) (?avg ! i) (map (\<lambda>e. e ! i) es)) [0 ..< length avg])"
    using Cons.IH [of ?avg] Cons.prems by simp
  with Cons.prems show ?case by (simp add: add_embedding_def)
qed

lemma average_embedding_mean:
  assumes "es \<noteq> []" and "\<forall>e \<in> set es. length e = d"
  shows "average_embedding F of_size es = Some (map (mean_at F of_size es) [0 ..< d])"
proof -
  have "length (hd es) = d" using assms by simp
  with assms(2) show ?thesis
    by (simp add: average_embedding_def add_embeddings_sums mean_at_def)
qed

lemma build_people_enrolled:
  assumes "\<forall>img. length (getEmbedding img) = d"
  shows "build_people F of_size getEmbedding dirs out =
    Some (out @ map (\<lambda>(n, es). (n, map (mean_at F of_size es) [0 ..< d])) (enrolled getEmbedding dirs))"
proof (induction dirs arbitrary: out)
  case (Cons dir dirs)
  have len: "\<forall>e \<in> set (read_embeddings getEmbedding (pd_images dir)). length e = d"
    using assms by (auto simp: read_embeddings_def)
  show ?case
    using Cons average_embedding_mean [OF _ len] by (simp add: Let_def enrolled_def)
qed (simp add: enrolled_def)

text \<open>
  What the recogniser knows is what was photographed: if the network's output has one
  length, the tool never reads behind the end of an embedding and writes one entry for each
  directory with at least one readable picture, in the order of the directory listing, whose
  embedding is the mean of those of the pictures; the recogniser loads exactly these entries.
  A missing network leaves no file, and without a file everybody is unknown.
\<close>

theorem database_is_the_dataset:
  assumes "\<forall>img. length (getEmbedding img) = d"
  shows "(\<exists>people. build_database True F of_size getEmbedding (Some dirs) = Some (0, Some people)
      \<and> (\<forall>(name, e) \<in> set people. length e = d)
      \<and> fr_database (RecognitionThread c n (Some people) :: ('r, 'x list) recognizer)
        = map (\<lambda>(name, es). (name, map (mean_at F of_size es) [0 ..< d])) (enrolled getEmbedding dirs))
    \<and> build_database False F of_size getEmbedding dataset = Some (1, None)"
  by (auto simp: build_database_def build_people_enrolled [OF assms] RecognitionThread_database)

text \<open>Two people, one of whom has a file that is no picture, and a stray file.\<close>

definition demo_dirs :: "int person_dir list" where
  "demo_dirs =
     [\<lparr>pd_name = ''Alice'', pd_is_directory = True, pd_images = [Some 2, None, Some 4]\<rparr>,
      \<lparr>pd_name = ''notes.txt'', pd_is_directory = False, pd_images = []\<rparr>,
      \<lparr>pd_name = ''Bob'', pd_is_directory = True, pd_images = [None]\<rparr>]"

theorem database_is_the_dataset_witness:
  "\<exists>people. build_database True int_ops int (\<lambda>img. [img, img + 10]) (Some demo_dirs) = Some (0, Some people)
     \<and> fr_database (RecognitionThread True True (Some people) :: (nat, int list) recognizer)
       = [(''Alice'', [3, 13])]"
proof -
  have "\<forall>img :: int. length [img, img + 10] = 2" by simp
  from database_is_the_dataset [where getEmbedding = "\<lambda>img. [img, img + 10]" and d = 2 and F = int_ops
      and of_size = int and dirs = demo_dirs and c = True and n = True, OF this]
  show ?thesis
    by (auto simp: demo_dirs_def enrolled_def read_embeddings_def mean_at_def int_ops_def numeral_2_eq_2)
qed

section \<open>Capturing pictures\<close>

text \<open>
  What one turn of the inner loop meets: the frame (\<^term>\<open>None\<close> for an empty one), the faces the
  cascade finds in it, and the key pressed within 30 milliseconds.
\<close>

type_synonym ('img, 'r) capture_input = "'img option \<times> 'r list \<times> int"

definition image_path :: "string \<Rightarrow> nat \<Rightarrow> string" where
  "image_path name shots = ''dataset/'' @ name @ ''/'' @ show_nat shots @ ''.jpg''"

text \<open>
  \<open>rectangle\<close>, \<open>putText\<close> and \<open>crop\<close> are OpenCV's. The picture is cut out of the frame after the frame has
  been drawn upon.
\<close>

record ('img, 'r) drawing =
  dr_rectangle :: "'r \<Rightarrow> 'img \<Rightarrow> 'img"
  dr_putText :: "string \<Rightarrow> 'img \<Rightarrow> 'img"
  dr_crop :: "'r \<Rightarrow> 'img \<Rightarrow> 'img"

definition annotate :: "('img, 'r) drawing \<Rightarrow> nat \<Rightarrow> 'r list \<Rightarrow> 'img \<Rightarrow> 'img" where
  "annotate D shots faces frame =
     dr_putText D (''Captured: '' @ show_nat shots) (fold (dr_rectangle D) faces frame)"

definition key_c :: int where "key_c = 99"
definition key_q :: int where "key_q = 113"

text \<open>
  The inner loop: the number of pictures (\<^verbatim>\<open>count\<close>), the files, and the input that is left when \<^verbatim>\<open>q\<close> ends
  it; \<^term>\<open>None\<close> while no \<^verbatim>\<open>q\<close> has come.
\<close>

fun capture_person ::
  "('img, 'r) drawing \<Rightarrow> string \<Rightarrow> ('img, 'r) capture_input list \<Rightarrow> nat \<Rightarrow> (string \<rightharpoonup> 'img) \<Rightarrow>
   (nat \<times> (string \<rightharpoonup> 'img) \<times> ('img, 'r) capture_input list) option" where
  "capture_person D name [] shots saved = None"
| "capture_person D name ((frame, faces, key) # rest) shots saved =
     (case frame of
        None \<Rightarrow> capture_person D name rest shots saved
      | Some img \<Rightarrow>
          (let img = annotate D shots faces img
           in if key = key_c \<and> faces \<noteq> []
              then capture_person D name rest (shots + 1)
                     (saved(image_path name shots \<mapsto> dr_crop D (hd faces) img))
              else if key = key_q then Some (shots, saved, rest)
              else capture_person D name rest shots saved))"

text \<open>
  \<^verbatim>\<open>main\<close>: the exit code and the files. \<open>names\<close> are the words on the standard input; when there are
  no more, \<^verbatim>\<open>std::cin >> name\<close> leaves the name empty, again and again.
\<close>

fun capture_loop ::
  "nat \<Rightarrow> ('img, 'r) drawing \<Rightarrow> string list \<Rightarrow> ('img, 'r) capture_input list \<Rightarrow> (string \<rightharpoonup> 'img) \<Rightarrow>
   (string \<rightharpoonup> 'img) option" where
  "capture_loop 0 D names inputs saved = None"
| "capture_loop (Suc fuel) D names inputs saved =
     (let name = (case names of [] \<Rightarrow> '''' | n # _ \<Rightarrow> n)
      in if name = ''exit'' then Some saved
         else case capture_person D name inputs 0 saved of
                None \<Rightarrow> None
              | Some (_, saved, inputs) \<Rightarrow> capture_loop fuel D (tl names) inputs saved)"

definition capture_dataset ::
  "bool \<Rightarrow> bool \<Rightarrow> nat \<Rightarrow> ('img, 'r) drawing \<Rightarrow> string list \<Rightarrow> ('img, 'r) capture_input list \<Rightarrow>
   (string \<rightharpoonup> 'img) \<Rightarrow> (nat \<times> (string \<rightharpoonup> 'img)) option" where
  "capture_dataset opened cascade_ok fuel D names inputs saved =
     (if \<not> opened then Some (1, saved)
      else if \<not> cascade_ok then Some (1, saved)
      else map_option (\<lambda>saved. (0, saved)) (capture_loop fuel D names inputs saved))"

subsection \<open>One session\<close>

text \<open>The turns of a session in which a picture is taken, up to the \<^verbatim>\<open>q\<close>.\<close>

fun pictures :: "('img, 'r) capture_input list \<Rightarrow> ('img \<times> 'r list) list" where
  "pictures [] = []"
| "pictures ((frame, faces, key) # rest) =
     (case frame of
        None \<Rightarrow> pictures rest
      | Some img \<Rightarrow>
          (if key = key_c \<and> faces \<noteq> [] then (img, faces) # pictures rest
           else if key = key_q then [] else pictures rest))"

definition picture :: "('img, 'r) drawing \<Rightarrow> nat \<Rightarrow> 'img \<times> 'r list \<Rightarrow> 'img" where
  "picture D shots p = dr_crop D (hd (snd p)) (annotate D shots (snd p) (fst p))"

lemma show_nat_inj: "show_nat m = show_nat n \<Longrightarrow> m = n"
  by (metis digits_value_show)

lemma image_path_inj [simp]: "image_path name i = image_path name j \<longleftrightarrow> i = j"
  by (auto simp: image_path_def dest: show_nat_inj)

lemma capture_person_files:
  assumes "capture_person D name inputs shots saved = Some (n, saved', rest)"
  shows "n = shots + length (pictures inputs)
    \<and> (\<forall>i < length (pictures inputs).
         saved' (image_path name (shots + i)) = Some (picture D (shots + i) (pictures inputs ! i)))
    \<and> (\<forall>path. (\<forall>i. shots \<le> i \<longrightarrow> i < n \<longrightarrow> path \<noteq> image_path name i) \<longrightarrow> saved' path = saved path)"
  using assms
proof (induction inputs arbitrary: shots saved)
  case (Cons input inputs)
  obtain frame faces key where input: "input = (frame, faces, key)" by (cases input)
  show ?case
  proof (cases "frame \<noteq> None \<and> key = key_c \<and> faces \<noteq> []")
    case True
    then obtain img where img: "frame = Some img" by auto
    let ?p = "picture D shots (img, faces)"
    have "capture_person D name inputs (shots + 1) (saved(image_path name shots \<mapsto> ?p)) = Some (n, saved', rest)"
      using Cons.prems True img by (simp add: input picture_def Let_def)
    note IH = Cons.IH [OF this]
    have pics: "pictures (input # inputs) = (img, faces) # pictures inputs"
      using True img by (simp add: input)
    have zero: "saved' (image_path name shots) = Some ?p"
      using IH by fastforce
    have "saved' (image_path name (shots + i)) = Some (picture D (shots + i) (pictures (input # inputs) ! i))"
      if "i < length (pictures (input # inputs))" for i
      using that IH zero by (cases i) (simp_all add: pics)
    moreover have "saved' path = saved path" if "\<forall>i. shots \<le> i \<longrightarrow> i < n \<longrightarrow> path \<noteq> image_path name i" for path
      using that IH by (simp add: pics)
    ultimately show ?thesis using IH by (simp add: pics)
  next
    case False
    then show ?thesis
      using Cons by (cases frame) (auto simp: input Let_def split: if_splits)
  qed
qed simp

text \<open>
  A session saves one picture for each press of \<^verbatim>\<open>c\<close> with a face in the frame, numbered from 0,
  and leaves all other files alone. Since it always starts at 0, a second session for the same
  person replaces the pictures of the first: afterwards the first numbers are those of the second
  session, and only what the first had beyond them is left.
\<close>

theorem capture_saves_pictures:
  assumes "capture_person D name inputs 0 saved = Some (n, saved', rest)"
    and "capture_person D name rest 0 saved' = Some (m, saved'', rest')"
  shows "n = length (pictures inputs)
    \<and> (\<forall>i < n. saved' (image_path name i) = Some (picture D i (pictures inputs ! i)))
    \<and> (\<forall>path. (\<forall>i < n. path \<noteq> image_path name i) \<longrightarrow> saved' path = saved path)
    \<and> (\<forall>i < m. saved'' (image_path name i) = Some (picture D i (pictures rest ! i)))
    \<and> (\<forall>i < n. m \<le> i \<longrightarrow> saved'' (image_path name i) = Some (picture D i (pictures inputs ! i)))"
proof -
  note one = capture_person_files [OF assms(1)] and two = capture_person_files [OF assms(2)]
  have "saved'' (image_path name i) = Some (picture D i (pictures inputs ! i))" if "i < n" "m \<le> i" for i
    using one two that by auto
  then show ?thesis using one two by auto
qed

definition demo_drawing :: "(string, nat) drawing" where
  "demo_drawing = \<lparr>dr_rectangle = (\<lambda>r img. img @ ''#''), dr_putText = (\<lambda>t img. img @ t), dr_crop = (\<lambda>r img. img)\<rparr>"

definition demo_inputs :: "(string, nat) capture_input list" where
  "demo_inputs =
     [(Some ''a'', [7], 99), (None, [], 0), (Some ''b'', [], 99), (Some ''c'', [8], 99), (Some ''d'', [], 113),
      (Some ''e'', [9], 99), (Some ''f'', [9], 113)]"

lemma demo_session:
  "capture_person demo_drawing ''Bob'' demo_inputs 0 Map.empty =
     Some (2, Map.empty(image_path ''Bob'' 0 \<mapsto> ''a#Captured: 0'', image_path ''Bob'' 1 \<mapsto> ''c#Captured: 1''),
       drop 5 demo_inputs)"
proof -
  have "show_nat 0 = ''0''" "show_nat 1 = ''1''" by code_simp+
  then show ?thesis
    by (simp add: demo_inputs_def demo_drawing_def annotate_def key_c_def key_q_def Let_def)
qed

theorem capture_saves_pictures_witness:
  "\<exists>saved''. capture_person demo_drawing ''Bob'' (drop 5 demo_inputs) 0
      (Map.empty(image_path ''Bob'' 0 \<mapsto> ''a#Captured: 0'', image_path ''Bob'' 1 \<mapsto> ''c#Captured: 1''))
        = Some (1, saved'', [])
    \<and> saved'' (image_path ''Bob'' 0) = Some ''e#Captured: 0''
    \<and> saved'' (image_path ''Bob'' 1) = Some ''c#Captured: 1''"
proof -
  let ?saved = "Map.empty(image_path ''Bob'' 0 \<mapsto> ''a#Captured: 0'', image_path ''Bob'' 1 \<mapsto> ''c#Captured: 1'')"
  have shown: "show_nat 0 = ''0''" "show_nat 1 = ''1''" by code_simp+
  note first = demo_session
  obtain saved'' where second: "capture_person demo_drawing ''Bob'' (drop 5 demo_inputs) 0 ?saved = Some (1, saved'', [])"
    by (simp add: demo_inputs_def key_c_def key_q_def Let_def)
  from capture_saves_pictures [OF first second] second shown show ?thesis
    by (simp add: demo_inputs_def picture_def annotate_def demo_drawing_def key_c_def key_q_def)
qed

text \<open>
  The tool ends only on the word \<^verbatim>\<open>exit\<close>: not when the input ends, and not on the \<^verbatim>\<open>x\<close> that
  its comment offers.
\<close>

theorem capture_ends_on_exit_only:
  "''exit'' \<notin> set names \<Longrightarrow> capture_loop fuel D names inputs saved = None"
proof (induction fuel arbitrary: names inputs saved)
  case (Suc fuel)
  then have "(case names of [] \<Rightarrow> '''' | n # _ \<Rightarrow> n) \<noteq> ''exit''" "''exit'' \<notin> set (tl names)"
    by (cases names; force)+
  with Suc.IH show ?case
    by (auto simp: Let_def split: option.splits)
qed simp

theorem capture_ends_on_exit_only_witness:
  "capture_loop 9 demo_drawing [''Bob'', ''x''] demo_inputs Map.empty = None"
  by (rule capture_ends_on_exit_only) simp

section \<open>From the camera to the database\<close>

text \<open>
  A directory listing of one person's pictures, in some order; \<open>reread\<close> is what \<^verbatim>\<open>imread\<close> makes of
  a picture that \<^verbatim>\<open>imwrite\<close> has written.
\<close>

definition lists_person :: "('img \<Rightarrow> 'img option) \<Rightarrow> (string \<rightharpoonup> 'img) \<Rightarrow> 'img person_dir \<Rightarrow> bool" where
  "lists_person reread saved d \<longleftrightarrow>
     pd_is_directory d \<and>
     (\<exists>paths. distinct paths
        \<and> set paths = {path. saved path \<noteq> None \<and> (\<exists>i. path = image_path (pd_name d) i)}
        \<and> pd_images d = map (\<lambda>path. reread (the (saved path))) paths)"

text \<open>
  C18: enrolment: after one session for a person in an empty data set, the two tools in a row give the
  recogniser exactly one entry, under that name, with the mean of the embeddings of all the
  pictures that were taken, and no entry at all if there was none.
\<close>

theorem enrolment:
  assumes "capture_person D name inputs 0 Map.empty = Some (n, saved, rest)"
    and "lists_person reread saved d" and "pd_name d = name"
    and "\<forall>img. reread img \<noteq> None" and "\<forall>img. length (getEmbedding img) = k"
  shows "\<exists>people es. build_database True F of_size getEmbedding (Some [d]) = Some (0, Some people)
    \<and> mset es = mset (map (\<lambda>i. getEmbedding (the (reread (picture D i (pictures inputs ! i))))) [0 ..< n])
    \<and> fr_database (RecognitionThread c net (Some people) :: ('r, 'x list) recognizer)
        = (if n = 0 then [] else [(name, map (mean_at F of_size es) [0 ..< k])])"
proof -
  note files = capture_person_files [OF assms(1)]
  obtain paths where paths: "distinct paths"
      "set paths = {path. saved path \<noteq> None \<and> (\<exists>i. path = image_path name i)}"
      "pd_images d = map (\<lambda>path. reread (the (saved path))) paths"
    using assms(2,3) by (auto simp: lists_person_def)
  have "saved (image_path name i) \<noteq> None \<longleftrightarrow> i < n" for i
  proof (cases "i < n")
    case False
    then have "\<forall>j < n. image_path name i \<noteq> image_path name j" by auto
    with files False show ?thesis by auto
  qed (use files in auto)
  then have there: "saved (image_path name i) \<noteq> None \<longleftrightarrow> i \<in> {0 ..< n}" for i by simp
  have "set paths = image_path name ` {i. saved (image_path name i) \<noteq> None}" using paths(2) by auto
  then have "set paths = set (map (image_path name) [0 ..< n])" unfolding there by (simp add: atLeast0LessThan lessThan_def)
  moreover have "distinct (map (image_path name) [0 ..< n])" by (simp add: distinct_map inj_on_def)
  ultimately have same: "mset paths = mset (map (image_path name) [0 ..< n])"
    using paths(1) set_eq_iff_mset_eq_distinct by blast
  define es where "es = read_embeddings getEmbedding (pd_images d)"
  have es: "es = map (\<lambda>path. getEmbedding (the (reread (the (saved path))))) paths"
    using assms(4) by (simp add: es_def read_embeddings_def paths(3) filter_map comp_def)
  have "mset es = image_mset (\<lambda>path. getEmbedding (the (reread (the (saved path))))) (mset paths)"
    by (simp add: es)
  also have "\<dots> = mset (map (\<lambda>i. getEmbedding (the (reread (the (saved (image_path name i)))))) [0 ..< n])"
    by (simp only: same mset_map [symmetric] map_map comp_def)
  also have "\<dots> = mset (map (\<lambda>i. getEmbedding (the (reread (picture D i (pictures inputs ! i))))) [0 ..< n])"
    using files by (intro arg_cong [where f = mset] map_cong) auto
  finally have pics: "mset es = mset (map (\<lambda>i. getEmbedding (the (reread (picture D i (pictures inputs ! i))))) [0 ..< n])" .
  then have "length es = n" by (metis length_map length_upt minus_nat.diff_0 mset_eq_length)
  then have "enrolled getEmbedding [d] = (if n = 0 then [] else [(name, es)])"
    using assms(2,3) by (auto simp: enrolled_def es_def [symmetric] lists_person_def)
  with pics show ?thesis
    by (intro exI [of _ "map (\<lambda>(name, es). (name, map (mean_at F of_size es) [0 ..< k])) (enrolled getEmbedding [d])"]
        exI [of _ es])
      (simp add: build_database_def build_people_enrolled [OF assms(5)] RecognitionThread_database
        del: build_people.simps)
qed

theorem enrolment_witness:
  "\<exists>people es. build_database True int_ops int (\<lambda>img. [int (length img)])
      (Some [\<lparr>pd_name = ''Bob'', pd_is_directory = True, pd_images = [Some ''c#Captured: 1'', Some ''a#Captured: 0'']\<rparr>])
        = Some (0, Some people) \<and> length es = 2
    \<and> fr_database (RecognitionThread True True (Some people) :: (nat, int list) recognizer)
        = [(''Bob'', map (mean_at int_ops int es) [0 ..< 1])]"
proof -
  let ?saved = "Map.empty(image_path ''Bob'' 0 \<mapsto> ''a#Captured: 0'', image_path ''Bob'' 1 \<mapsto> ''c#Captured: 1'')"
  let ?d = "\<lparr>pd_name = ''Bob'', pd_is_directory = True, pd_images = [Some ''c#Captured: 1'', Some ''a#Captured: 0'']\<rparr>"
  have "lists_person Some ?saved ?d"
    unfolding lists_person_def
    by (intro conjI exI [of _ "[image_path ''Bob'' 1, image_path ''Bob'' 0]"]) (auto split: if_splits)
  from enrolment [OF demo_session this, where getEmbedding = "\<lambda>img. [int (length img)]" and k = 1
      and F = int_ops and of_size = int and c = True and net = True]
  obtain people es where r: "build_database True int_ops int (\<lambda>img. [int (length img)]) (Some [?d]) = Some (0, Some people)"
      "mset es = mset (map (\<lambda>i. [int (length (the (Some (picture demo_drawing i (pictures demo_inputs ! i)))))]) [0 ..< 2])"
      "fr_database (RecognitionThread True True (Some people) :: (nat, int list) recognizer)
        = [(''Bob'', map (mean_at int_ops int es) [0 ..< 1])]"
    by auto
  from mset_eq_length [OF r(2)] have "length es = 2" by simp
  with r show ?thesis by blast
qed

end
