(* ===== verification/Web_Digest.thy ===== *)
theory Web_Digest
  imports Http_Message
begin

text \<open>
  The codings behind the handshake of web sockets (\<^verbatim>\<open>external/httplib.h\<close>): \<^verbatim>\<open>base64_encode\<close> with
  its shift register of 32 bits, and \<^verbatim>\<open>sha1\<close> on words of 32 bits.
\<close>

section \<open>Bytes\<close>

text \<open>\<^verbatim>\<open>static_cast<uint8_t>\<close> of a \<^verbatim>\<open>char\<close>, and back.\<close>

definition uint8 :: "char \<Rightarrow> 8 word" where
  "uint8 c = of_nat (code c)"

definition to_char :: "8 word \<Rightarrow> char" where
  "to_char w = char_of (unat w)"

lemma to_char_uint8 [simp]: "to_char (uint8 c) = c"
proof -
  have "unat (uint8 c) = code c"
    unfolding uint8_def by (simp add: unat_of_nat code_def)
  then show ?thesis by (simp add: to_char_def code_def)
qed

lemma uint8_to_char [simp]: "uint8 (to_char w) = w"
proof -
  have "unat w < 256" using unsigned_less [of w] by simp
  then show ?thesis by (simp add: uint8_def to_char_def code_def)
qed

text \<open>Appending a byte brings a length nearer to the remainder \<open>r\<close>.\<close>

lemma fill_decreases:
  assumes "n mod k \<noteq> r" "r < k"
  shows "(k + r - Suc n mod k) mod k < (k + r - n mod k) mod (k :: nat)"
proof -
  have less: "(k + r - m) mod k = (if m \<le> r then r - m else k + r - m)" if "m < k" for m
  proof (cases "m \<le> r")
    case True
    then have "k + r - m = (r - m) + k" by simp
    moreover have "r - m < k" using assms(2) by simp
    ultimately have "(k + r - m) mod k = r - m" by (simp only: mod_add_self2 mod_less)
    then show ?thesis using True by simp
  next
    case False
    then show ?thesis using that by simp
  qed
  define m m' where "m = n mod k" and "m' = Suc n mod k"
  have "m < k" "m' < k" "m \<noteq> r" using assms by (auto simp: m_def m'_def)
  moreover have "m' = (if Suc m = k then 0 else Suc m)" by (simp add: m_def m'_def mod_Suc)
  ultimately have "(k + r - m') mod k < (k + r - m) mod k"
    using assms(2) less [of m] less [of m'] by (auto split: if_splits)
  then show ?thesis by (simp add: m_def m'_def)
qed

section \<open>Base 64\<close>

definition b64chars :: string where
  "b64chars = ''ABCDEFGHIJKLMNOPQRSTUVWXYZabcdefghijklmnopqrstuvwxyz0123456789+/''"

text \<open>
  \<open>val\<close> is an \<^verbatim>\<open>int\<close>: its left shift wraps, its right shift keeps the sign (C++20).
  \<open>b64_digit\<close> is \<^verbatim>\<open>lookup[(val >> n) & 0x3F]\<close>.
\<close>

definition b64_digit :: "32 word \<Rightarrow> nat \<Rightarrow> char" where
  "b64_digit val n = b64chars ! unat (signed_drop_bit n val AND 0x3F)"

function b64_emit :: "32 word \<Rightarrow> int \<Rightarrow> string \<Rightarrow> int \<times> string" where
  "b64_emit val valb out =
     (if valb \<ge> 0 then b64_emit val (valb - 6) (out @ [b64_digit val (nat valb)]) else (valb, out))"
  by pat_completeness auto
termination
  by (relation "measure (\<lambda>(_, valb, _). nat (valb + 6))") auto

declare b64_emit.simps [simp del]

fun b64_loop :: "32 word \<Rightarrow> int \<Rightarrow> string \<Rightarrow> string \<Rightarrow> 32 word \<times> int \<times> string" where
  "b64_loop val valb out [] = (val, valb, out)"
| "b64_loop val valb out (c # s) =
     (let val = push_bit 8 val + ucast (uint8 c);
          (valb, out) = b64_emit val (valb + 8) out
      in b64_loop val valb out s)"

function b64_pad :: "string \<Rightarrow> string" where
  "b64_pad out = (if length out mod 4 \<noteq> 0 then b64_pad (out @ ''='') else out)"
  by pat_completeness auto
termination
  by (relation "measure (\<lambda>out. (4 + 0 - length out mod 4) mod 4)") (use fill_decreases [of _ 4 0] in auto)

declare b64_pad.simps [simp del]

definition base64_encode :: "string \<Rightarrow> string" where
  "base64_encode s =
     (let (val, valb, out) = b64_loop 0 (-6) [] s;
          out = (if valb > -6 then out @ [b64_digit (push_bit 8 val) (nat (valb + 8))] else out)
      in b64_pad out)"

section \<open>SHA-1\<close>

definition left_rotate :: "32 word \<Rightarrow> nat \<Rightarrow> 32 word" where
  "left_rotate x n = push_bit n x OR drop_bit (32 - n) x"

function sha1_fill :: "string \<Rightarrow> string" where
  "sha1_fill msg = (if length msg mod 64 \<noteq> 56 then sha1_fill (msg @ [to_char 0]) else msg)"
  by pat_completeness auto
termination
  by (relation "measure (\<lambda>msg. (64 + 56 - length msg mod 64) mod 64)")
    (auto simp: fill_decreases [of _ 64 56, simplified])

declare sha1_fill.simps [simp del]

definition sha1_padded :: "string \<Rightarrow> string" where
  "sha1_padded s =
     (let bits = (of_nat (length s) :: 64 word) * 8
      in sha1_fill (s @ [to_char 0x80])
         @ map (\<lambda>i. to_char (ucast (drop_bit i bits AND 0xFF))) [56, 48, 40, 32, 24, 16, 8, 0])"

definition sha1_word :: "string \<Rightarrow> nat \<Rightarrow> 32 word" where
  "sha1_word msg i =
     push_bit 24 (ucast (uint8 (msg ! i))) OR push_bit 16 (ucast (uint8 (msg ! (i + 1))))
     OR push_bit 8 (ucast (uint8 (msg ! (i + 2)))) OR ucast (uint8 (msg ! (i + 3)))"

definition sha1_schedule :: "string \<Rightarrow> nat \<Rightarrow> 32 word list" where
  "sha1_schedule msg offset =
     foldl (\<lambda>w i. w @ [left_rotate (w ! (i - 3) XOR w ! (i - 8) XOR w ! (i - 14) XOR w ! (i - 16)) 1])
       (map (\<lambda>i. sha1_word msg (offset + i * 4)) [0..<16]) [16..<80]"

type_synonym sha1_state = "32 word \<times> 32 word \<times> 32 word \<times> 32 word \<times> 32 word"

definition sha1_round :: "sha1_state \<Rightarrow> nat \<times> 32 word \<Rightarrow> sha1_state" where
  "sha1_round st iw =
     (case (st, iw) of ((a, b, c, d, e), (i, w)) \<Rightarrow>
        (let (f, k) =
               (if i < 20 then ((b AND c) OR (NOT b AND d), 0x5A827999)
                else if i < 40 then (b XOR c XOR d, 0x6ED9EBA1)
                else if i < 60 then ((b AND c) OR (b AND d) OR (c AND d), 0x8F1BBCDC)
                else (b XOR c XOR d, 0xCA62C1D6));
             temp = left_rotate a 5 + f + e + k + w
         in (temp, a, left_rotate b 30, c, d)))"

definition sha1_block :: "string \<Rightarrow> nat \<Rightarrow> sha1_state \<Rightarrow> sha1_state" where
  "sha1_block msg offset h =
     (case h of (h0, h1, h2, h3, h4) \<Rightarrow>
        (case foldl sha1_round h (zip [0..<80] (sha1_schedule msg offset)) of (a, b, c, d, e) \<Rightarrow>
           (h0 + a, h1 + b, h2 + c, h3 + d, h4 + e)))"

function sha1_blocks :: "string \<Rightarrow> nat \<Rightarrow> sha1_state \<Rightarrow> sha1_state" where
  "sha1_blocks msg offset h =
     (if offset < length msg then sha1_blocks msg (offset + 64) (sha1_block msg offset h) else h)"
  by pat_completeness auto
termination
  by (relation "measure (\<lambda>(msg, offset, _). length msg - offset)") auto

declare sha1_blocks.simps [simp del]

definition sha1_start :: sha1_state where
  "sha1_start = (0x67452301, 0xEFCDAB89, 0x98BADCFE, 0x10325476, 0xC3D2E1F0)"

definition word_bytes :: "32 word \<Rightarrow> string" where
  "word_bytes h = map (\<lambda>i. to_char (ucast (drop_bit (24 - i * 8) h AND 0xFF))) [0..<4]"

definition sha1 :: "string \<Rightarrow> string" where
  "sha1 s =
     (case sha1_blocks (sha1_padded s) 0 sha1_start of (h0, h1, h2, h3, h4) \<Rightarrow>
        word_bytes h0 @ word_bytes h1 @ word_bytes h2 @ word_bytes h3 @ word_bytes h4)"

definition websocket_accept_key :: "string \<Rightarrow> string" where
  "websocket_accept_key client_key =
     base64_encode (sha1 (client_key @ ''258EAFA5-E914-47DA-95CA-C5AB0DC85B11''))"

section \<open>Base 64 as it is specified\<close>

text \<open>RFC 4648: groups of three bytes, read as numbers of 24 bits, in four digits of six.\<close>

fun rfc4648 :: "nat list \<Rightarrow> string" where
  "rfc4648 [] = []"
| "rfc4648 [a] = map ((!) b64chars) [a div 4, a mod 4 * 16] @ ''==''"
| "rfc4648 [a, b] = map ((!) b64chars) [a div 4, a mod 4 * 16 + b div 16, b mod 16 * 4] @ ''=''"
| "rfc4648 (a # b # c # s) =
     map ((!) b64chars) [a div 4, a mod 4 * 16 + b div 16, b mod 16 * 4 + c div 64, c mod 64]
     @ rfc4648 s"

definition b64_shift :: "32 word \<Rightarrow> char \<Rightarrow> 32 word" where
  "b64_shift val c = push_bit 8 val + ucast (uint8 c)"

lemma code_less [simp]: "code c < 256"
  by (simp add: code_def)

lemma unat_uint8 [simp]: "unat (uint8 c) = code c"
  by (simp add: uint8_def unat_of_nat)

lemma unat_b64_shift: "unat (b64_shift val c) = (unat val * 256 + code c) mod 2 ^ 32"
proof -
  have "unat (ucast (uint8 c) :: 32 word) = code c"
    using code_less [of c] by (simp add: unsigned_ucast_eq take_bit_eq_mod mod_less order_less_trans [of _ 256])
  moreover have "unat (push_bit 8 val) = unat val * 256 mod 2 ^ 32"
    by (simp only: unsigned_push_bit_eq) (simp add: take_bit_eq_mod push_bit_eq_mult)
  ultimately show ?thesis by (simp add: b64_shift_def unat_word_ariths mod_simps)
qed

lemma b64_shift_low:
  assumes "k \<le> 8"
  shows "unat (b64_shift val c) mod 2 ^ k = code c mod 2 ^ k"
proof -
  have "(256 :: nat) = 2 ^ (8 - k) * 2 ^ k"
    using assms by (simp flip: power_add)
  then have "(unat val * 256 + code c) mod 2 ^ k = (code c + (unat val * 2 ^ (8 - k)) * 2 ^ k) mod 2 ^ k"
    by (simp only: ac_simps)
  then have "(unat val * 256 + code c) mod 2 ^ k = code c mod 2 ^ k"
    by (simp only: mod_mult_self1)
  moreover have "x mod 2 ^ 32 mod 2 ^ k = x mod 2 ^ k" for x :: nat
    using assms mod_exp_eq [of x 32 k] by (simp only: min_def) simp
  ultimately show ?thesis by (simp only: unat_b64_shift)
qed

lemma b64_digit_value:
  assumes "n \<le> 26"
  shows "b64_digit val n = b64chars ! (unat val div 2 ^ n mod 64)"
proof -
  have "signed_drop_bit n val AND 0x3F = take_bit 6 (signed_drop_bit n val)"
    using take_bit_eq_mask [of 6 "signed_drop_bit n val"] by (simp add: mask_numeral)
  also have "\<dots> = take_bit 6 (drop_bit n val)"
    using assms by (intro bit_word_eqI) (auto simp: bit_simps)
  finally have "unat (signed_drop_bit n val AND 0x3F) = take_bit 6 (drop_bit n (unat val))"
    by (simp only: unsigned_take_bit_eq unat_drop_bit_eq)
  then show ?thesis by (simp add: b64_digit_def take_bit_eq_mod drop_bit_eq_div)
qed

text \<open>The four digits of a group, wherever the register stood before.\<close>

lemma b64_shift_digit:
  assumes "n \<le> 8"
  shows "b64_digit (b64_shift v c) n = b64chars ! ((unat v * 256 + code c) div 2 ^ n mod 64)"
proof -
  have "x mod 2 ^ 32 div 2 ^ n mod 64 = x div 2 ^ n mod 64" for x :: nat
  proof -
    have "x mod 2 ^ 32 div 2 ^ n = x div 2 ^ n mod 2 ^ (32 - n)"
      using assms div_exp_mod_exp_eq [of x n "32 - n"] by simp
    moreover have "x div 2 ^ n mod 2 ^ (32 - n) mod 2 ^ 6 = x div 2 ^ n mod 2 ^ 6"
      using assms by (simp only: mod_exp_eq min_absorb2)
    ultimately show ?thesis by simp
  qed
  with assms show ?thesis by (simp only: b64_digit_value unat_b64_shift)
qed

lemma b64_sextet:
  assumes "c < 256"
  shows "(w * 256 + c) div 4 mod 64 = c div (4 :: nat)"
    and "(w * 256 + c) div 16 mod 64 = w mod 4 * 16 + c div 16"
    and "(w * 256 + c) div 64 mod 64 = w mod 16 * 4 + c div 64"
    and "(w * 256 + c) mod 64 = c mod 64"
proof -
  have "(w * 256 + c) div 4 = w * 64 + c div 4" "(w * 256 + c) div 16 = w * 16 + c div 16"
      "(w * 256 + c) div 64 = w * 4 + c div 64"
    using div_mult_self3 [of 4 "w * 64" c] div_mult_self3 [of 16 "w * 16" c] div_mult_self3 [of 64 "w * 4" c]
    by simp_all
  moreover have "c div 4 < 64" "c div 16 < 16" "c div 64 < 4" using assms by auto
  moreover have "(w * 256 + c) mod 64 = c mod 64"
    using mod_mult_self3 [of "w * 4" 64 c] by (simp add: mult.commute)
  ultimately show "(w * 256 + c) div 4 mod 64 = c div 4" "(w * 256 + c) div 16 mod 64 = w mod 4 * 16 + c div 16"
      "(w * 256 + c) div 64 mod 64 = w mod 16 * 4 + c div 64" "(w * 256 + c) mod 64 = c mod 64"
    using mod_mult2_eq [of "w * 16 + c div 16" 16 4] mod_mult2_eq [of "w * 4 + c div 64" 4 16] by simp_all
qed

lemma b64_digits:
  "b64_digit (b64_shift v a) 2 = b64chars ! (code a div 4)"
  "b64_digit (b64_shift (b64_shift v a) b) 4 = b64chars ! (code a mod 4 * 16 + code b div 16)"
  "b64_digit (b64_shift (b64_shift v b) c) 6 = b64chars ! (code b mod 16 * 4 + code c div 64)"
  "b64_digit (b64_shift v c) 0 = b64chars ! (code c mod 64)"
  using b64_shift_low [of 2 v a] b64_shift_low [of 4 v b]
  by (simp_all add: b64_shift_digit b64_sextet)

lemma b64_final_digits:
  "b64_digit (push_bit 8 (b64_shift v a)) 4 = b64chars ! (code a mod 4 * 16)"
  "b64_digit (push_bit 8 (b64_shift v b)) 6 = b64chars ! (code b mod 16 * 4)"
proof -
  have "push_bit 8 w = b64_shift w (CHR 0x00)" for w
    by (simp add: b64_shift_def uint8_def code_def)
  then show "b64_digit (push_bit 8 (b64_shift v a)) 4 = b64chars ! (code a mod 4 * 16)"
      "b64_digit (push_bit 8 (b64_shift v b)) 6 = b64chars ! (code b mod 16 * 4)"
    using b64_digits(2) [of v a "CHR 0x00"] b64_digits(3) [of v b "CHR 0x00"]
    by (simp_all add: code_def)
qed

lemma b64_loop_step:
  "b64_loop val valb out (c # s) =
     (let (valb, out) = b64_emit (b64_shift val c) (valb + 8) out in b64_loop (b64_shift val c) valb out s)"
  by (simp add: b64_shift_def Let_def)

declare b64_loop.simps(2) [simp del]

lemma b64_loop_group:
  "b64_loop v (-6) out (a # b # c # s) =
     b64_loop (b64_shift (b64_shift (b64_shift v a) b) c) (-6)
       (out @ map ((!) b64chars) [code a div 4, code a mod 4 * 16 + code b div 16,
          code b mod 16 * 4 + code c div 64, code c mod 64]) s"
  by (simp add: b64_loop_step b64_emit.simps b64_digits)

lemma b64_loop_rest:
  "b64_loop v (-6) out [a] = (b64_shift v a, -4, out @ [b64chars ! (code a div 4)])"
  "b64_loop v (-6) out [a, b] = (b64_shift (b64_shift v a) b, -2,
     out @ [b64chars ! (code a div 4), b64chars ! (code a mod 4 * 16 + code b div 16)])"
  by (simp_all add: b64_loop_step b64_emit.simps b64_digits)

definition b64_finish :: "32 word \<times> int \<times> string \<Rightarrow> string" where
  "b64_finish r =
     (case r of (val, valb, out) \<Rightarrow>
        b64_pad (if valb > -6 then out @ [b64_digit (push_bit 8 val) (nat (valb + 8))] else out))"

lemma b64_pad_full [simp]:
  "length out mod 4 = 0 \<Longrightarrow> b64_pad out = out"
  "length out mod 4 = 0 \<Longrightarrow> b64_pad (out @ [x, y]) = out @ [x, y] @ ''==''"
  "length out mod 4 = 0 \<Longrightarrow> b64_pad (out @ [x, y, z]) = out @ [x, y, z] @ ''=''"
proof -
  assume a: "length out mod 4 = 0"
  then have "Suc (length out) mod 4 = 1" "Suc (Suc (length out)) mod 4 = 2"
      "Suc (Suc (Suc (length out))) mod 4 = 3" "Suc (Suc (Suc (Suc (length out)))) mod 4 = 0"
    by presburger+
  with a show "b64_pad out = out" "b64_pad (out @ [x, y]) = out @ [x, y] @ ''==''"
      "b64_pad (out @ [x, y, z]) = out @ [x, y, z] @ ''=''"
    by (simp_all add: b64_pad.simps)
qed

lemma b64_finish_loop:
  "length out mod 4 = 0 \<Longrightarrow> b64_finish (b64_loop v (-6) out s) = out @ rfc4648 (map code s)"
proof (induction "map code s" arbitrary: s v out rule: rfc4648.induct)
  case 1
  then show ?case by (simp add: b64_finish_def)
next
  case (2 a)
  then show ?case by (auto simp: b64_finish_def b64_loop_rest b64_final_digits)
next
  case (3 a b)
  then show ?case by (auto simp: b64_finish_def b64_loop_rest b64_final_digits)
next
  case (4 a b c t)
  then obtain x y z u where "s = x # y # z # u" "a = code x" "b = code y" "c = code z" "t = map code u"
    by (auto simp: map_eq_Cons_conv)
  with 4 show ?case by (simp add: b64_loop_group)
qed

lemma base64_is_rfc4648_eq: "base64_encode s = rfc4648 (map code s)"
  using b64_finish_loop [of "[]" 0 s]
  by (simp add: base64_encode_def b64_finish_def split: prod.splits)


section \<open>Properties of the digest\<close>

lemma sha1_fill_form:
  "sha1_fill msg = msg @ replicate ((64 + 56 - length msg mod 64) mod 64) (to_char 0)"
proof (induction msg rule: sha1_fill.induct)
  case (1 msg)
  define m where "m = length msg mod 64"
  have m: "m < 64" "Suc (length msg) mod 64 = (if m = 63 then 0 else Suc m)"
    by (simp_all add: m_def mod_Suc)
  show ?case
  proof (cases "m = 56")
    case False
    then have "(64 + 56 - m) mod 64 = Suc ((64 + 56 - (if m = 63 then 0 else Suc m)) mod 64)"
      using m(1) by (auto simp: mod_if)
    with False 1 m(2) show ?thesis by (simp add: sha1_fill.simps [of msg] flip: m_def)
  qed (simp add: sha1_fill.simps flip: m_def)
qed

lemma sha1_fill_length: "length (sha1_fill msg) mod 64 = 56"
proof (induction msg rule: sha1_fill.induct)
  case (1 msg)
  then show ?case by (cases "length msg mod 64 = 56") (simp_all add: sha1_fill.simps [of msg])
qed

text \<open>The padding fills up the last block, so that no word is read behind the end of the message.\<close>

lemma sha1_padded_blocks: "length (sha1_padded s) mod 64 = 0"
proof -
  have "length (sha1_fill (s @ [to_char 0x80])) mod 64 = 56"
    by (rule sha1_fill_length)
  then have "(length (sha1_fill (s @ [to_char 0x80])) + 8) mod 64 = 0"
    by (simp add: mod_add_eq [symmetric, of _ 8])
  then show ?thesis by (simp add: sha1_padded_def Let_def add.commute)
qed

lemma length_word_bytes [simp]: "length (word_bytes h) = 4"
  by (simp add: word_bytes_def)

lemma length_sha1 [simp]: "length (sha1 s) = 20"
  by (simp add: sha1_def split: prod.splits)

lemma schedule_extends:
  "length (foldl (\<lambda>w i. w @ [f w i]) ws is) = length ws + length is"
  by (induction "is" arbitrary: ws) auto

lemma length_sha1_schedule [simp]: "length (sha1_schedule msg offset) = 80"
  unfolding sha1_schedule_def schedule_extends length_map length_upt by simp

text \<open>A key of 16 bytes, as a client makes it, has 22 digits and two signs at its end.\<close>

lemma b64chars_nth: "i < 64 \<Longrightarrow> b64chars ! i \<in> set b64chars"
  by (rule nth_mem) (simp add: b64chars_def)

lemma rfc4648_groups:
  "length xs mod 3 = 0 \<Longrightarrow> list_all (\<lambda>b. b < 256) xs \<Longrightarrow>
     rfc4648 (xs @ ys) = rfc4648 xs @ rfc4648 ys \<and> length (rfc4648 xs) = 4 * (length xs div 3)
     \<and> set (rfc4648 xs) \<subseteq> set b64chars"
proof (induction xs rule: rfc4648.induct)
  case (4 a b c s)
  then have m: "length s mod 3 = 0" by simp
  have "a div 4 < 64" "b div 16 < 16" "c div 64 < 4" "a mod 4 < 4" "b mod 16 < 16" "c mod 64 < 64"
    using 4(3) by auto
  then have "a div 4 < 64" "a mod 4 * 16 + b div 16 < 64" "b mod 16 * 4 + c div 64 < 64" "c mod 64 < 64"
    by linarith+
  moreover have "length (a # b # c # s) div 3 = Suc (length s div 3)" by simp
  ultimately show ?case using 4 m by (simp add: b64chars_nth)
qed simp_all

lemma rfc4648_key:
  assumes "length bs = 16" "list_all (\<lambda>b. b < 256) bs"
  shows "length (rfc4648 bs) = 24" and "drop 22 (rfc4648 bs) = ''==''"
    and "set (take 22 (rfc4648 bs)) \<subseteq> set b64chars"
proof -
  define xs a where "xs = take 15 bs" and "a = bs ! 15"
  have bs: "bs = xs @ [a]"
    using assms(1) take_Suc_conv_app_nth [of 15 bs] by (simp add: xs_def a_def)
  have "list_all (\<lambda>b. b < 256) xs" "a < 256" "length xs = 15"
    using assms by (auto simp: bs)
  then have g: "rfc4648 bs = rfc4648 xs @ rfc4648 [a]" "length (rfc4648 xs) = 20" "set (rfc4648 xs) \<subseteq> set b64chars"
    using rfc4648_groups [of xs "[a]"] by (simp_all add: bs)
  have "a div 4 < 64" "a mod 4 * 16 < 64" using \<open>a < 256\<close> by auto
  with g show "length (rfc4648 bs) = 24" "drop 22 (rfc4648 bs) = ''==''"
      "set (take 22 (rfc4648 bs)) \<subseteq> set b64chars"
    by (auto simp: b64chars_nth)
qed

lemma base64_key:
  assumes "length s = 16"
  shows "length (base64_encode s) = 24" and "drop 22 (base64_encode s) = ''==''"
    and "set (take 22 (base64_encode s)) \<subseteq> set b64chars"
  using rfc4648_key [of "map code s"] assms by (simp_all add: base64_is_rfc4648_eq list_all_iff)

section \<open>A test vector\<close>

text \<open>The digest of \<^verbatim>\<open>abc\<close> (RFC 3174, section 7.3), evaluated in three steps.\<close>

lemma padding_chars: "to_char 0x80 = CHR 0x80" "to_char 0 = CHR 0x00" "to_char 24 = CHR 0x18"
  by code_simp+

lemma sha1_padded_abc:
  "sha1_padded ''abc'' =
     (''abc'' @ [CHR 0x80] @ replicate 52 (CHR 0x00))
     @ [CHR 0x00, CHR 0x00, CHR 0x00, CHR 0x00, CHR 0x00, CHR 0x00, CHR 0x00, CHR 0x18]"
proof -
  have "sha1_fill (''abc'' @ [to_char 0x80]) = ''abc'' @ [CHR 0x80] @ replicate 52 (CHR 0x00)"
    by (simp add: sha1_fill_form padding_chars)
  moreover have "map (\<lambda>i. to_char (ucast (drop_bit i ((of_nat (length ''abc'') :: 64 word) * 8) AND 0xFF)))
      [56, 48, 40, 32, 24, 16, 8, 0] = [CHR 0x00, CHR 0x00, CHR 0x00, CHR 0x00, CHR 0x00, CHR 0x00, CHR 0x00, CHR 0x18]"
    by (simp add: padding_chars)
  ultimately show ?thesis
    unfolding sha1_padded_def Let_def by (rule arg_cong2 [of _ _ _ _ "(@)"])
qed

lemma upto16: "[0..<16] = [0, 1, 2, 3, 4, 5, 6, 7, 8, 9, 10, 11, 12, 13, 14, 15]"
  by (simp add: upt_rec)

lemma sha1_words_abc:
  "map (\<lambda>i. sha1_word (sha1_padded ''abc'') (0 + i * 4)) [0..<16]
     = [0x61626380, 0, 0, 0, 0, 0, 0, 0, 0, 0, 0, 0, 0, 0, 0, 24]"
  unfolding sha1_padded_abc upto16
  by (simp add: sha1_word_def nth_append uint8_def code_def)

text \<open>The step that extends the schedule, on lists of known length.\<close>

definition sha1_extend :: "32 word list \<Rightarrow> nat \<Rightarrow> 32 word list" where
  "sha1_extend w i =
     w @ [left_rotate (w ! (i - 3) XOR w ! (i - 8) XOR w ! (i - 14) XOR w ! (i - 16)) 1]"

lemma sha1_extend_abc_32:
  "foldl sha1_extend
     [1633837952, 0, 0, 0, 0, 0, 0, 0, 0, 0, 0, 0, 0, 0, 0, 24] [16..<32] =
     [1633837952, 0, 0, 0, 0, 0, 0, 0, 0, 0, 0, 0, 0, 0, 0, 24, 3267675904, 0, 48, 2240384513, 0,
      96, 185801731, 48, 2240384705, 371603462, 0, 384, 743206924, 240, 2477765895, 1486413896]"
  by (simp add: upt_rec_numeral sha1_extend_def left_rotate_def)

lemma sha1_extend_abc_48:
  "foldl sha1_extend
     [1633837952, 0, 0, 0, 0, 0, 0, 0, 0, 0, 0, 0, 0, 0, 0, 24, 3267675904, 0, 48, 2240384513, 0,
      96, 185801731, 48, 2240384705, 371603462, 0, 384, 743206924, 240, 2477765895, 1486413896] [32..<48] =
     [1633837952, 0, 0, 0, 0, 0, 0, 0, 0, 0, 0, 0, 0, 0, 0, 24, 3267675904, 0, 48, 2240384513, 0,
      96, 185801731, 48, 2240384705, 371603462, 0, 384, 743206924, 240, 2477765895, 1486413896,
      2392494594, 1536, 2972827888, 371604422, 1321128990, 1650688161, 371603462, 6336, 3537975492,
      3840, 989548665, 2307785957, 3803855915, 24768, 87701453, 1950713159]"
  by (simp add: upt_rec_numeral sha1_extend_def left_rotate_def)

lemma sha1_extend_abc_64:
  "foldl sha1_extend
     [1633837952, 0, 0, 0, 0, 0, 0, 0, 0, 0, 0, 0, 0, 0, 0, 24, 3267675904, 0, 48, 2240384513, 0,
      96, 185801731, 48, 2240384705, 371603462, 0, 384, 743206924, 240, 2477765895, 1486413896,
      2392494594, 1536, 2972827888, 371604422, 1321128990, 1650688161, 371603462, 6336, 3537975492,
      3840, 989548665, 2307785957, 3803855915, 24768, 87701453, 1950713159] [48..<64] =
     [1633837952, 0, 0, 0, 0, 0, 0, 0, 0, 0, 0, 0, 0, 0, 0, 24, 3267675904, 0, 48, 2240384513, 0,
      96, 185801731, 48, 2240384705, 371603462, 0, 384, 743206924, 240, 2477765895, 1486413896,
      2392494594, 1536, 2972827888, 371604422, 1321128990, 1650688161, 371603462, 6336, 3537975492,
      3840, 989548665, 2307785957, 3803855915, 24768, 87701453, 1950713159, 3667138029, 641206806,
      1650688929, 1321161950, 943043659, 62976, 512018339, 2564836760, 1696405152, 1650822305,
      1166361814, 1146637495, 2074109465, 1669377698, 182801001, 1652246945]"
  by (simp add: upt_rec_numeral sha1_extend_def left_rotate_def)

lemma sha1_extend_abc_80:
  "foldl sha1_extend
     [1633837952, 0, 0, 0, 0, 0, 0, 0, 0, 0, 0, 0, 0, 0, 0, 24, 3267675904, 0, 48, 2240384513, 0,
      96, 185801731, 48, 2240384705, 371603462, 0, 384, 743206924, 240, 2477765895, 1486413896,
      2392494594, 1536, 2972827888, 371604422, 1321128990, 1650688161, 371603462, 6336, 3537975492,
      3840, 989548665, 2307785957, 3803855915, 24768, 87701453, 1950713159, 3667138029, 641206806,
      1650688929, 1321161950, 943043659, 62976, 512018339, 2564836760, 1696405152, 1650822305,
      1166361814, 1146637495, 2074109465, 1669377698, 182801001, 1652246945] [64..<80] =
     [1633837952, 0, 0, 0, 0, 0, 0, 0, 0, 0, 0, 0, 0, 0, 0, 24, 3267675904, 0, 48, 2240384513, 0,
      96, 185801731, 48, 2240384705, 371603462, 0, 384, 743206924, 240, 2477765895, 1486413896,
      2392494594, 1536, 2972827888, 371604422, 1321128990, 1650688161, 371603462, 6336, 3537975492,
      3840, 989548665, 2307785957, 3803855915, 24768, 87701453, 1950713159, 3667138029, 641206806,
      1650688929, 1321161950, 943043659, 62976, 512018339, 2564836760, 1696405152, 1650822305,
      1166361814, 1146637495, 2074109465, 1669377698, 182801001, 1652246945, 2094292125, 983040,
      4216354106, 3966199272, 3124505570, 6340608, 976735493, 1166362356, 3092880854, 940186150,
      31465987, 3888919638, 3873835881, 16124416, 1469443919, 2184054905]"
  by (simp add: upt_rec_numeral sha1_extend_def left_rotate_def)

lemma sha1_schedule_abc:
  "sha1_schedule (sha1_padded ''abc'') 0 =
     [1633837952, 0, 0, 0, 0, 0, 0, 0, 0, 0, 0, 0, 0, 0, 0, 24, 3267675904, 0, 48, 2240384513, 0,
      96, 185801731, 48, 2240384705, 371603462, 0, 384, 743206924, 240, 2477765895, 1486413896,
      2392494594, 1536, 2972827888, 371604422, 1321128990, 1650688161, 371603462, 6336, 3537975492,
      3840, 989548665, 2307785957, 3803855915, 24768, 87701453, 1950713159, 3667138029, 641206806,
      1650688929, 1321161950, 943043659, 62976, 512018339, 2564836760, 1696405152, 1650822305,
      1166361814, 1146637495, 2074109465, 1669377698, 182801001, 1652246945, 2094292125, 983040,
      4216354106, 3966199272, 3124505570, 6340608, 976735493, 1166362356, 3092880854, 940186150,
      31465987, 3888919638, 3873835881, 16124416, 1469443919, 2184054905]"
proof -
  have upto: "[16..<80] = [16..<32] @ [32..<48] @ [48..<64] @ [64..<80::nat]"
    using upt_add_eq_append [of 16 32 48] upt_add_eq_append [of 32 48 32] upt_add_eq_append [of 48 64 16]
    by (simp del: upt_rec_numeral)
  show ?thesis
    unfolding sha1_schedule_def sha1_words_abc sha1_extend_def [symmetric, abs_def] upto foldl_append
      sha1_extend_abc_32 sha1_extend_abc_48 sha1_extend_abc_64 sha1_extend_abc_80 ..
qed

lemma foldl_rest: "foldl f s xs = s' \<Longrightarrow> foldl f s (xs @ rest) = foldl f s' rest"
  by simp

lemma sha1_rounds_abc_0:
  "foldl sha1_round (1732584193, 4023233417, 2562383102, 271733878, 3285377520)
     ([(0, 1633837952), (1, 0), (2, 0), (3, 0), (4, 0), (5, 0), (6, 0), (7, 0), (8, 0), (9, 0)] @
      rest)
   = foldl sha1_round (2203187497, 1265296168, 664994293, 1716489264, 267514512) rest"
  by (rule foldl_rest) (simp add: sha1_round_def left_rotate_def)

lemma sha1_rounds_abc_1:
  "foldl sha1_round (2203187497, 1265296168, 664994293, 1716489264, 267514512)
     ([(10, 0), (11, 0), (12, 0), (13, 0), (14, 0), (15, 24), (16, 3267675904), (17, 0), (18,
      48), (19, 2240384513)] @ rest)
   = foldl sha1_round (4254997885, 3697578013, 548051402, 3550778888, 3358553483) rest"
  by (rule foldl_rest) (simp add: sha1_round_def left_rotate_def)

lemma sha1_rounds_abc_2:
  "foldl sha1_round (4254997885, 3697578013, 548051402, 3550778888, 3358553483)
     ([(20, 0), (21, 96), (22, 185801731), (23, 48), (24, 2240384705), (25, 371603462), (26, 0),
      (27, 384), (28, 743206924), (29, 240)] @ rest)
   = foldl sha1_round (3321605981, 2205201710, 3534361445, 1871544053, 303058665) rest"
  by (rule foldl_rest) (simp add: sha1_round_def left_rotate_def)

lemma sha1_rounds_abc_3:
  "foldl sha1_round (3321605981, 2205201710, 3534361445, 1871544053, 303058665)
     ([(30, 2477765895), (31, 1486413896), (32, 2392494594), (33, 1536), (34, 2972827888), (35,
      371604422), (36, 1321128990), (37, 1650688161), (38, 371603462), (39, 6336)] @ rest)
   = foldl sha1_round (853417146, 1285055493, 4145604047, 64243702, 4147047474) rest"
  by (rule foldl_rest) (simp add: sha1_round_def left_rotate_def)

lemma sha1_rounds_abc_4:
  "foldl sha1_round (853417146, 1285055493, 4145604047, 64243702, 4147047474)
     ([(40, 3537975492), (41, 3840), (42, 989548665), (43, 2307785957), (44, 3803855915), (45,
      24768), (46, 87701453), (47, 1950713159), (48, 3667138029), (49, 641206806)] @ rest)
   = foldl sha1_round (302461381, 3136525111, 2947236018, 671539483, 2266265724) rest"
  by (rule foldl_rest) (simp add: sha1_round_def left_rotate_def)

lemma sha1_rounds_abc_5:
  "foldl sha1_round (302461381, 3136525111, 2947236018, 671539483, 2266265724)
     ([(50, 1650688929), (51, 1321161950), (52, 943043659), (53, 62976), (54, 512018339), (55,
      2564836760), (56, 1696405152), (57, 1650822305), (58, 1166361814), (59, 1146637495)] @ rest)
   = foldl sha1_round (1062395482, 165119485, 882425812, 4061233743, 3617133995) rest"
  by (rule foldl_rest) (simp add: sha1_round_def left_rotate_def)

lemma sha1_rounds_abc_6:
  "foldl sha1_round (1062395482, 165119485, 882425812, 4061233743, 3617133995)
     ([(60, 2074109465), (61, 1669377698), (62, 182801001), (63, 1652246945), (64, 2094292125),
      (65,       983040), (66, 4216354106), (67, 3966199272), (68, 3124505570), (69, 6340608)] @
      rest)
   = foldl sha1_round (1059424450, 1232114624, 3728167754, 51346605, 1141216638) rest"
  by (rule foldl_rest) (simp add: sha1_round_def left_rotate_def)

lemma sha1_rounds_abc_7:
  "foldl sha1_round (1059424450, 1232114624, 3728167754, 51346605, 1141216638)
     ([(70, 976735493), (71, 1166362356), (72, 3092880854), (73, 940186150), (74, 31465987), (75,
      3888919638), (76, 3873835881), (77, 16124416), (78, 1469443919), (79, 2184054905)] @ rest)
   = foldl sha1_round (1112808245, 1463342561, 562251891, 1746824694, 3640522413) rest"
  by (rule foldl_rest) (simp add: sha1_round_def left_rotate_def)

lemmas sha1_rounds_abc =
  sha1_rounds_abc_0 sha1_rounds_abc_1 sha1_rounds_abc_2 sha1_rounds_abc_3
  sha1_rounds_abc_4 sha1_rounds_abc_5 sha1_rounds_abc_6 sha1_rounds_abc_7

lemmas sha1_rounds_abc_cons = sha1_rounds_abc [unfolded append_Cons append_Nil]

lemma upto80:
  "[0..<80] = [0, 1, 2, 3, 4, 5, 6, 7, 8, 9, 10, 11, 12, 13, 14, 15, 16, 17, 18, 19, 20, 21, 22, 23, 24, 25,
      26, 27, 28, 29, 30, 31, 32, 33, 34, 35, 36, 37, 38, 39, 40, 41, 42, 43, 44, 45, 46, 47, 48,
      49, 50, 51, 52, 53, 54, 55, 56, 57, 58, 59, 60, 61, 62, 63, 64, 65, 66, 67, 68, 69, 70, 71,
      72, 73, 74, 75, 76, 77, 78, 79]"
  by (simp add: upt_rec)

lemma sha1_block_abc:
  "sha1_block (sha1_padded ''abc'') 0 sha1_start =
     (0xA9993E36, 0x4706816A, 0xBA3E2571, 0x7850C26C, 0x9CD0D89D)"
proof -
  have "foldl sha1_round sha1_start (zip [0..<80] (sha1_schedule (sha1_padded ''abc'') 0)) = (1112808245, 1463342561, 562251891, 1746824694, 3640522413)"
    unfolding sha1_schedule_abc upto80 sha1_start_def zip_Cons_Cons zip_Nil
    by (simp only: sha1_rounds_abc_cons foldl_Nil)
  then show ?thesis
    by (simp add: sha1_block_def sha1_start_def)
qed

text \<open>The digest of \<^verbatim>\<open>abc\<close> is the one that RFC 3174 gives.\<close>

lemma sha1_abc:
  "map code (sha1 ''abc'') =
     [0xA9, 0x99, 0x3E, 0x36, 0x47, 0x06, 0x81, 0x6A, 0xBA, 0x3E, 0x25, 0x71, 0x78, 0x50, 0xC2, 0x6C,
      0x9C, 0xD0, 0xD8, 0x9D]"
proof -
  have "length (sha1_padded ''abc'') = 64" by (simp add: sha1_padded_abc)
  then have "sha1_blocks (sha1_padded ''abc'') 0 sha1_start =
      (0xA9993E36, 0x4706816A, 0xBA3E2571, 0x7850C26C, 0x9CD0D89D)"
    by (simp add: sha1_blocks.simps sha1_block_abc)
  moreover have "code (to_char w) = unat w" for w
    using unat_uint8 [of "to_char w"] by simp
  ultimately show ?thesis
    by (simp add: sha1_def word_bytes_def upt_rec)
qed

end
