(* ===== verification/Web_Socket.thy ===== *)
theory Web_Socket
  imports Http_Body Web_Digest
begin

text \<open>
  Web sockets (\<^verbatim>\<open>external/httplib.h\<close>): the frames that \<^verbatim>\<open>write_websocket_frame\<close> writes and
  \<^verbatim>\<open>read_websocket_frame\<close> reads, the messages that \<^verbatim>\<open>WebSocket::read\<close> puts together from them, and
  the two sides of the handshake. The thread that pings every 30 seconds is not modelled.
\<close>

section \<open>Frames\<close>

type_synonym opcode = "8 word"

definition Op_Continuation :: opcode where "Op_Continuation = 0x0"
definition Op_Text :: opcode where "Op_Text = 0x1"
definition Op_Binary :: opcode where "Op_Binary = 0x2"
definition Op_Close :: opcode where "Op_Close = 0x8"
definition Op_Ping :: opcode where "Op_Ping = 0x9"
definition Op_Pong :: opcode where "Op_Pong = 0xA"

lemmas opcode_defs =
  Op_Continuation_def Op_Text_def Op_Binary_def Op_Close_def Op_Ping_def Op_Pong_def

definition is_control :: "opcode \<Rightarrow> bool" where
  "is_control op \<longleftrightarrow> op AND 0x08 \<noteq> 0"

text \<open>The bytes of a length, most significant first; a \<^verbatim>\<open>size_t\<close> has 64 bits.\<close>

definition length_bytes :: "nat list \<Rightarrow> nat \<Rightarrow> string" where
  "length_bytes shifts len =
     map (\<lambda>i. to_char (ucast (drop_bit i (of_nat len :: 64 word) AND 0xFF))) shifts"

definition frame_header :: "opcode \<Rightarrow> nat \<Rightarrow> bool \<Rightarrow> bool \<Rightarrow> string" where
  "frame_header op len fin masking =
     (let m = (if masking then 0x80 else 0)
      in to_char ((if fin then 0x80 else 0x00) OR (op AND 0x0F)) #
         (if len < 126 then [to_char (of_nat len OR m)]
          else if len \<le> 0xFFFF then to_char (126 OR m) # length_bytes [8, 0] len
          else to_char (127 OR m) # length_bytes [56, 48, 40, 32, 24, 16, 8, 0] len))"

text \<open>A byte at its place in the payload, under a key of four bytes.\<close>

definition mask_at :: "8 word list \<Rightarrow> string \<Rightarrow> nat \<Rightarrow> char" where
  "mask_at key data i = to_char (uint8 (data ! i) XOR key ! (i mod 4))"

function masked_chunks :: "8 word list \<Rightarrow> string \<Rightarrow> nat \<Rightarrow> string list" where
  "masked_chunks key data offset =
     (if offset < length data
      then (let n = min 4096 (length data - offset)
            in map (\<lambda>i. mask_at key data (offset + i)) [0..<n] # masked_chunks key data (offset + 4096))
      else [])"
  by pat_completeness auto
termination
  by (relation "measure (\<lambda>(_, data, offset). length data - offset)") auto

declare masked_chunks.simps [simp del]

text \<open>\<open>masking\<close> is the random key, if the frame is to be masked. Writing succeeds.\<close>

definition websocket_frame :: "opcode \<Rightarrow> string \<Rightarrow> bool \<Rightarrow> 8 word list option \<Rightarrow> string" where
  "websocket_frame op data fin masking =
     frame_header op (length data) fin (masking \<noteq> None) @
     (case masking of
        Some key \<Rightarrow> map to_char key @ concat (masked_chunks key data 0)
      | None \<Rightarrow> data)"

definition write_websocket_frame ::
  "opcode \<Rightarrow> string \<Rightarrow> bool \<Rightarrow> 8 word list option \<Rightarrow> stream \<Rightarrow> stream" where
  "write_websocket_frame op data fin masking strm = write_stream (websocket_frame op data fin masking) strm"

text \<open>
  Reading is written for any way \<open>rd\<close> of reading at most so many bytes: \<^const>\<open>stream_read\<close>, or
  \<^const>\<open>socket_read\<close>, which may give fewer than there will be. \<^term>\<open>None\<close>: the frame is refused.
\<close>

type_synonym 's reader = "nat \<Rightarrow> 's \<Rightarrow> int \<times> string \<times> 's"

record ws_frame =
  wf_opcode :: opcode
  wf_payload :: string
  wf_fin :: bool

definition extended_length :: "'s reader \<Rightarrow> 64 word \<Rightarrow> 's \<Rightarrow> 64 word option \<times> 's" where
  "extended_length rd len s =
     (if len = 126
      then (case rd 2 s of (n, ext, s) \<Rightarrow>
              if n \<noteq> 2 then (None, s)
              else (Some (push_bit 8 (ucast (uint8 (ext ! 0))) OR ucast (uint8 (ext ! 1))), s))
      else if len = 127
      then (case rd 8 s of (n, ext, s) \<Rightarrow>
              if n \<noteq> 8 then (None, s)
              else if uint8 (ext ! 0) AND 0x80 \<noteq> 0 then (None, s)
              else (Some (foldl (\<lambda>l b. push_bit 8 l OR ucast (uint8 b)) 0 ext), s))
      else (Some len, s))"

function payload_loop :: "'s reader \<Rightarrow> nat \<Rightarrow> 's \<Rightarrow> string option \<times> 's" where
  "payload_loop rd remaining s =
     (if remaining = 0 then (Some [], s)
      else (case rd remaining s of (n, d, s) \<Rightarrow>
              if n \<le> 0 then (None, s)
              else (case payload_loop rd (remaining - nat n) s of
                      (None, s) \<Rightarrow> (None, s)
                    | (Some p, s) \<Rightarrow> (Some (d @ p), s))))"
  by pat_completeness auto
termination
  by (relation "measure (\<lambda>(_, remaining, _). remaining)") auto

declare payload_loop.simps [simp del]

definition read_mask_key :: "'s reader \<Rightarrow> bool \<Rightarrow> 's \<Rightarrow> 8 word list option \<times> 's" where
  "read_mask_key rd masked s =
     (if masked
      then (case rd 4 s of (n, key, s) \<Rightarrow> if n \<noteq> 4 then (None, s) else (Some (map uint8 key), s))
      else (Some [0, 0, 0, 0], s))"

definition unmask :: "8 word list \<Rightarrow> string \<Rightarrow> string" where
  "unmask key payload = map (mask_at key payload) [0..<length payload]"

definition read_frame_body ::
  "'s reader \<Rightarrow> opcode \<Rightarrow> bool \<Rightarrow> bool \<Rightarrow> 64 word \<Rightarrow> 's \<Rightarrow> ws_frame option \<times> 's" where
  "read_frame_body rd op fin masked len s =
     (case read_mask_key rd masked s of
        (None, s) \<Rightarrow> (None, s)
      | (Some key, s) \<Rightarrow>
          (case payload_loop rd (unat len) s of
             (None, s) \<Rightarrow> (None, s)
           | (Some p, s) \<Rightarrow>
               (Some \<lparr>wf_opcode = op, wf_payload = (if masked then unmask key p else p), wf_fin = fin\<rparr>, s)))"

definition read_websocket_frame ::
  "'s reader \<Rightarrow> 's \<Rightarrow> bool \<Rightarrow> nat \<Rightarrow> ws_frame option \<times> 's" where
  "read_websocket_frame rd s expect_masked max_len =
     (case rd 2 s of (n, header, s) \<Rightarrow>
        if n \<noteq> 2 then (None, s)
        else let h0 = uint8 (header ! 0); h1 = uint8 (header ! 1);
                 fin = (h0 AND 0x80 \<noteq> 0);
                 op = h0 AND 0x0F;
                 masked = (h1 AND 0x80 \<noteq> 0);
                 len = ucast (h1 AND 0x7F)
             in if h0 AND 0x70 \<noteq> 0 then (None, s)
                else if is_control op \<and> (\<not> fin \<or> len > 125) then (None, s)
                else if masked \<noteq> expect_masked then (None, s)
                else (case extended_length rd len s of
                        (None, s) \<Rightarrow> (None, s)
                      | (Some len, s) \<Rightarrow>
                          if unat len > max_len then (None, s)
                          else read_frame_body rd op fin masked len s))"

section \<open>A frame is read as it was written\<close>

lemma concat_masked_chunks:
  "concat (masked_chunks key data offset) = map (mask_at key data) [offset..<length data]"
proof (induction key data offset rule: masked_chunks.induct)
  case (1 key data offset)
  show ?case
  proof (cases "offset < length data")
    case True
    define n where "n = min 4096 (length data - offset)"
    have "map (\<lambda>i. mask_at key data (offset + i)) [0..<n] = map (mask_at key data) [offset..<offset + n]"
      by (rule nth_equalityI) simp_all
    moreover have "[offset..<offset + n] @ [offset + 4096..<length data] = [offset..<length data]"
    proof (cases "offset + 4096 \<le> length data")
      case False
      then have "offset + n = length data" "[offset + 4096..<length data] = []"
        using True by (auto simp: n_def)
      then show ?thesis by simp
    next
      case True
      then have n: "offset + n = offset + 4096" by (simp add: n_def)
      show ?thesis
        unfolding n using upt_add_eq_append [of offset "offset + 4096" "length data - (offset + 4096)"] True
        by (simp only: le_add1 le_add_diff_inverse)
    qed
    ultimately show ?thesis
      using 1 [OF True n_def] True
      by (subst masked_chunks.simps) (simp add: Let_def n_def flip: map_append)
  qed (simp add: masked_chunks.simps)
qed

lemma unmask_masked:
  "unmask key (map (mask_at key data) [0..<length data]) = data"
  by (rule nth_equalityI) (simp_all add: unmask_def mask_at_def xor.assoc)

text \<open>The three forms of a length.\<close>

lemma byte_of_size: "ucast (ucast (w AND 0xFF) :: 8 word) = take_bit 8 (w :: 64 word)"
proof -
  have "w AND 0xFF = take_bit 8 w"
    using take_bit_eq_mask [of 8 w] by (simp add: mask_numeral)
  moreover have "ucast (ucast (take_bit 8 w) :: 8 word) = take_bit 8 w"
    by (rule bit_word_eqI) (auto simp: bit_simps)
  ultimately show ?thesis by simp
qed

text \<open>Each step of the loop puts the next byte behind those before.\<close>

lemma push_byte: "push_bit 8 (drop_bit (i + 8) w) OR take_bit 8 (drop_bit i w) = drop_bit i (w :: 64 word)"
  by (rule bit_word_eqI) (auto simp: bit_simps not_le)

lemma push_byte16:
  "drop_bit 16 w = 0 \<Longrightarrow> push_bit 8 (take_bit 8 (drop_bit 8 w)) OR take_bit 8 w = (w :: 64 word)"
  using push_byte [of 8 w] push_byte [of 0 w] by simp

lemma push_bytes64:
  fixes w :: "64 word"
  defines "byte \<equiv> \<lambda>i. take_bit 8 (drop_bit i w)"
  shows "foldl (\<lambda>l b. push_bit 8 l OR b) 0 (map byte [56, 48, 40, 32, 24, 16, 8, 0]) = w"
proof -
  have "drop_bit 64 w = 0" by (rule bit_word_eqI) (simp add: bit_simps)
  then have "push_bit 8 0 OR byte 56 = drop_bit 56 w"
    using push_byte [of 56 w] by (simp add: byte_def)
  then show ?thesis
    using push_byte [of 48 w] push_byte [of 40 w] push_byte [of 32 w] push_byte [of 24 w] push_byte [of 16 w]
      push_byte [of 8 w] push_byte [of 0 w]
    by (simp add: byte_def)
qed

lemma read_length_bytes:
  "foldl (\<lambda>l b. push_bit 8 l OR ucast (uint8 b)) 0 (length_bytes shifts len)
     = foldl (\<lambda>l b. push_bit 8 l OR b) 0 (map (\<lambda>i. take_bit 8 (drop_bit i (of_nat len :: 64 word))) shifts)"
proof -
  have "foldl (\<lambda>l b. push_bit 8 l OR ucast (uint8 b)) v (length_bytes shifts len)
     = foldl (\<lambda>l b. push_bit 8 l OR b) v (map (\<lambda>i. take_bit 8 (drop_bit i (of_nat len :: 64 word))) shifts)" for v
    by (induction shifts arbitrary: v) (simp_all add: length_bytes_def byte_of_size)
  then show ?thesis .
qed

text \<open>The two bytes at the head of a frame.\<close>

lemma header_byte0:
  fixes op :: opcode and fin :: bool
  defines "h \<equiv> (if fin then 0x80 else 0x00) OR (op AND 0x0F)"
  shows "h AND 0x70 = 0" and "h AND 0x0F = op AND 0x0F" and "h AND 0x80 \<noteq> 0 \<longleftrightarrow> fin"
  by (simp_all add: h_def bit.conj_disj_distrib2 and.assoc)

lemma header_byte1:
  fixes masking :: bool and len :: nat
  assumes "len < 128"
  defines "h \<equiv> (of_nat len :: 8 word) OR (if masking then 0x80 else 0)"
  shows "h AND 0x80 \<noteq> 0 \<longleftrightarrow> masking" and "ucast (h AND 0x7F) = (of_nat len :: 64 word)"
proof -
  define l :: "8 word" where "l = of_nat len"
  have "take_bit 7 l = l"
    using assms(1) by (simp add: l_def take_bit_of_nat take_bit_nat_eq_self)
  then have l: "l AND 0x7F = l"
    using take_bit_eq_mask [of 7 l] by (simp add: mask_numeral)
  then have "l AND 0x80 = (l AND 0x7F) AND 0x80" by simp
  also have "\<dots> = 0" unfolding and.assoc by simp
  finally have "l AND 0x80 = 0" .
  with l show "h AND 0x80 \<noteq> 0 \<longleftrightarrow> masking"
    by (simp add: h_def bit.conj_disj_distrib2 flip: l_def)
  from l have "h AND 0x7F = l"
    by (simp add: h_def bit.conj_disj_distrib2 flip: l_def)
  moreover have "ucast l = (of_nat len :: 64 word)"
    using assms(1) by (simp add: l_def unsigned_of_nat take_bit_nat_eq_self)
  ultimately show "ucast (h AND 0x7F) = (of_nat len :: 64 word)" by simp
qed

text \<open>Reads from a stream that has the bytes.\<close>

lemma stream_read_exact:
  "st_in strm = d @ rest \<Longrightarrow> length d = n \<Longrightarrow> 0 < n \<Longrightarrow>
     stream_read n strm = (int n, d, strm\<lparr>st_in := rest\<rparr>)"
  by (auto simp: stream_read_def Let_def)

lemma stream_read_pair:
  "st_in strm = [a, b] @ rest \<Longrightarrow> stream_read 2 strm = (2, [a, b], strm\<lparr>st_in := rest\<rparr>)"
  by (simp add: stream_read_def numeral_2_eq_2)

lemma payload_loop_exact:
  assumes "st_in strm = d @ rest"
  shows "payload_loop stream_read (length d) strm = (Some d, strm\<lparr>st_in := rest\<rparr>)"
proof (cases "d = []")
  case True
  with assms show ?thesis by (simp add: payload_loop.simps)
next
  case False
  with stream_read_exact [OF assms refl] show ?thesis
    by (subst payload_loop.simps) (simp add: payload_loop.simps)
qed

text \<open>The head of a frame has the length itself or, in \<open>length_code\<close>, the form in which it follows.\<close>

definition length_code :: "nat \<Rightarrow> nat" where
  "length_code len = (if len < 126 then len else if len \<le> 0xFFFF then 126 else 127)"

definition length_extension :: "nat \<Rightarrow> string" where
  "length_extension len =
     (if len < 126 then [] else if len \<le> 0xFFFF then length_bytes [8, 0] len
      else length_bytes [56, 48, 40, 32, 24, 16, 8, 0] len)"

lemma frame_header_parts:
  "frame_header op len fin m =
     [to_char ((if fin then 0x80 else 0x00) OR (op AND 0x0F)),
      to_char (of_nat (length_code len) OR (if m then 0x80 else 0))] @ length_extension len"
  by (simp add: frame_header_def Let_def length_code_def length_extension_def)

lemma size64: "len < 2 ^ 64 \<Longrightarrow> unat (of_nat len :: 64 word) = len"
  by (simp add: unat_of_nat)

lemma unat_shifted: "len < 2 ^ 64 \<Longrightarrow> unat (drop_bit n (of_nat len :: 64 word)) = len div 2 ^ n"
  by (subst unat_drop_bit_eq) (simp only: size64 drop_bit_eq_div)

lemma top_bit_clear:
  assumes "len < 2 ^ 63"
  shows "ucast (drop_bit 56 (of_nat len :: 64 word) AND 0xFF) AND 0x80 = (0 :: 8 word)"
proof -
  define k where "k = len div 2 ^ 56"
  have k: "k < 128" using assms by (simp add: k_def less_mult_imp_div_less)
  have "unat (drop_bit 56 (of_nat len :: 64 word)) = k"
    unfolding k_def using assms by (intro unat_shifted) simp
  then have "of_nat (unat (drop_bit 56 (of_nat len :: 64 word))) = (of_nat k :: 64 word)" by (rule arg_cong)
  then have "drop_bit 56 (of_nat len :: 64 word) = of_nat k" by (simp only: of_nat_unat ucast_id)
  moreover have "ucast (v AND 0xFF) = (ucast v :: 8 word)" for v :: "64 word"
  proof -
    have "v AND 0xFF = take_bit 8 v" using take_bit_eq_mask [of 8 v] by (simp add: mask_numeral)
    moreover have "ucast (take_bit 8 v) = (ucast v :: 8 word)" by (rule bit_word_eqI) (auto simp: bit_simps)
    ultimately show ?thesis by simp
  qed
  moreover have "ucast (of_nat k :: 64 word) = (of_nat k :: 8 word)"
    using k by (simp add: unsigned_of_nat take_bit_nat_eq_self)
  ultimately show ?thesis using header_byte1(1) [OF k, of False] by simp
qed

lemma extended_length_read:
  assumes "len < 2 ^ 63" and inp: "st_in strm = length_extension len @ rest"
  shows "extended_length stream_read (of_nat (length_code len)) strm
     = (Some (of_nat len), strm\<lparr>st_in := rest\<rparr>)"
proof -
  let ?w = "of_nat len :: 64 word"
  consider "len < 126" | "126 \<le> len" "len \<le> 0xFFFF" | "0xFFFF < len" by linarith
  then show ?thesis
  proof cases
    case 1
    then have "(of_nat len :: 64 word) \<noteq> 126" "(of_nat len :: 64 word) \<noteq> 127"
      using size64 [of len] by auto
    with 1 inp show ?thesis
      by (simp add: extended_length_def length_code_def length_extension_def)
  next
    case 2
    have "drop_bit 16 ?w = 0"
      unfolding unat_0_iff [symmetric] using 2 by (subst unat_shifted) simp_all
    then have "push_bit 8 (take_bit 8 (drop_bit 8 ?w)) OR take_bit 8 ?w = ?w" by (rule push_byte16)
    moreover have "stream_read 2 strm = (2, length_bytes [8, 0] len, strm\<lparr>st_in := rest\<rparr>)"
      using inp 2 by (simp add: length_extension_def length_bytes_def stream_read_pair)
    ultimately show ?thesis
      using 2 by (simp add: extended_length_def length_code_def length_bytes_def byte_of_size)
  next
    case 3
    let ?sh = "[56, 48, 40, 32, 24, 16, 8, 0 :: nat]"
    have "stream_read 8 strm = (8, length_bytes ?sh len, strm\<lparr>st_in := rest\<rparr>)"
      using stream_read_exact [of strm "length_bytes ?sh len" rest 8] inp 3
      by (simp add: length_extension_def) (simp add: length_bytes_def)
    moreover have "uint8 (length_bytes ?sh len ! 0) AND 0x80 = 0"
      using top_bit_clear [OF assms(1)] by (simp add: length_bytes_def)
    moreover have "foldl (\<lambda>l b. push_bit 8 l OR ucast (uint8 b)) 0 (length_bytes ?sh len) = ?w"
      unfolding read_length_bytes by (rule push_bytes64)
    ultimately show ?thesis
      using 3 by (simp add: extended_length_def length_code_def)
  qed
qed

text \<open>What can be sent in one frame, and its way through.\<close>

definition frame_ok :: "opcode \<Rightarrow> string \<Rightarrow> bool \<Rightarrow> 8 word list option \<Rightarrow> bool" where
  "frame_ok op data fin masking \<longleftrightarrow>
     op AND 0x0F = op \<and> length data < 2 ^ 63 \<and> (is_control op \<longrightarrow> fin \<and> length data \<le> 125)
     \<and> (case masking of None \<Rightarrow> True | Some key \<Rightarrow> length key = 4)"

lemma read_frame_body_written:
  assumes "length data < 2 ^ 63" "case masking of None \<Rightarrow> True | Some key \<Rightarrow> length key = 4"
    and "st_in strm = (case masking of
        Some key \<Rightarrow> map to_char key @ concat (masked_chunks key data 0) | None \<Rightarrow> data) @ rest"
  shows "read_frame_body stream_read op fin (masking \<noteq> None) (of_nat (length data)) strm
     = (Some \<lparr>wf_opcode = op, wf_payload = data, wf_fin = fin\<rparr>, strm\<lparr>st_in := rest\<rparr>)"
proof (cases masking)
  case None
  then show ?thesis
    using assms payload_loop_exact [of strm data rest] size64 [of "length data"]
    by (simp add: read_frame_body_def read_mask_key_def)
next
  case (Some key)
  let ?p = "map (mask_at key data) [0..<length data]"
  have inp: "st_in strm = map to_char key @ ?p @ rest"
    using assms(3) Some by (simp add: concat_masked_chunks)
  have "length key = 4" "key \<noteq> []" using assms(2) Some by auto
  with stream_read_exact [OF inp, of 4]
  have key: "stream_read 4 strm = (4, map to_char key, strm\<lparr>st_in := ?p @ rest\<rparr>)" by simp
  have "payload_loop stream_read (length data) (strm\<lparr>st_in := ?p @ rest\<rparr>) = (Some ?p, strm\<lparr>st_in := rest\<rparr>)"
    using payload_loop_exact [of "strm\<lparr>st_in := ?p @ rest\<rparr>" ?p rest] by simp
  moreover have "map uint8 (map to_char key) = key" by (simp add: comp_def)
  ultimately show ?thesis
    using Some assms(1) key size64 [of "length data"]
    by (simp add: read_frame_body_def read_mask_key_def unmask_masked)
qed

lemma read_frame_accepts:
  assumes "rd 2 s = (2, [to_char b0, to_char b1], s1)" "b0 AND 0x70 = 0"
    and "\<not> (is_control (b0 AND 0x0F) \<and> (b0 AND 0x80 = 0 \<or> ucast (b1 AND 0x7F) > (125 :: 64 word)))"
    and "(b1 AND 0x80 \<noteq> 0) = m" "extended_length rd (ucast (b1 AND 0x7F)) s1 = (Some len, s2)"
    and "unat len \<le> max_len"
  shows "read_websocket_frame rd s m max_len
     = read_frame_body rd (b0 AND 0x0F) (b0 AND 0x80 \<noteq> 0) m len s2"
  using assms by (auto simp: read_websocket_frame_def Let_def)

lemma frame_read:
  assumes "frame_ok op data fin masking" "length data \<le> max_len"
    and "st_in strm = websocket_frame op data fin masking @ rest"
  shows "read_websocket_frame stream_read strm (masking \<noteq> None) max_len
     = (Some \<lparr>wf_opcode = op, wf_payload = data, wf_fin = fin\<rparr>, strm\<lparr>st_in := rest\<rparr>)"
proof -
  let ?len = "length data" and ?m = "masking \<noteq> None"
  define b0 b1 :: "8 word" where "b0 = (if fin then 0x80 else 0x00) OR (op AND 0x0F)"
    and "b1 = of_nat (length_code ?len) OR (if ?m then 0x80 else 0)"
  let ?body = "(case masking of
      Some key \<Rightarrow> map to_char key @ concat (masked_chunks key data 0) | None \<Rightarrow> data) @ rest"
  note ok = assms(1) [unfolded frame_ok_def]
  have inp: "st_in strm = [to_char b0, to_char b1] @ length_extension ?len @ ?body"
    using assms(3) by (simp add: websocket_frame_def frame_header_parts b0_def b1_def)
  have head: "stream_read 2 strm = (2, [to_char b0, to_char b1], strm\<lparr>st_in := length_extension ?len @ ?body\<rparr>)"
    by (rule stream_read_pair [OF inp])
  have c: "length_code ?len < 128" by (simp add: length_code_def)
  have bytes: "b0 AND 0x70 = 0" "b0 AND 0x0F = op" "b0 AND 0x80 \<noteq> 0 \<longleftrightarrow> fin" "b1 AND 0x80 \<noteq> 0 \<longleftrightarrow> ?m"
      "ucast (b1 AND 0x7F) = (of_nat (length_code ?len) :: 64 word)"
    using header_byte0 [of fin op] header_byte1 [OF c, of ?m] ok unfolding b0_def b1_def by metis+
  have ext: "extended_length stream_read (of_nat (length_code ?len)) (strm\<lparr>st_in := length_extension ?len @ ?body\<rparr>)
      = (Some (of_nat ?len), strm\<lparr>st_in := ?body\<rparr>)"
    using extended_length_read [of ?len "strm\<lparr>st_in := length_extension ?len @ ?body\<rparr>" ?body] ok by simp
  have body: "read_frame_body stream_read op fin ?m (of_nat ?len) (strm\<lparr>st_in := ?body\<rparr>)
      = (Some \<lparr>wf_opcode = op, wf_payload = data, wf_fin = fin\<rparr>, strm\<lparr>st_in := rest\<rparr>)"
    using read_frame_body_written [of data masking "strm\<lparr>st_in := ?body\<rparr>" rest op fin] ok by simp
  have control: "\<not> (is_control op \<and> (\<not> fin \<or> (of_nat (length_code ?len) :: 64 word) > 125))"
    using ok size64 [of "length_code ?len"] c
    by (auto simp: word_less_nat_alt length_code_def)
  have "unat (of_nat ?len :: 64 word) \<le> max_len"
    using ok assms(2) size64 [of ?len] by simp
  moreover have "\<not> (is_control (b0 AND 0x0F) \<and> (b0 AND 0x80 = 0 \<or> ucast (b1 AND 0x7F) > (125 :: 64 word)))"
    using control bytes(3) unfolding bytes(2,5) by blast
  moreover note ext [folded bytes(5)]
  ultimately have "read_websocket_frame stream_read strm ?m max_len
      = read_frame_body stream_read (b0 AND 0x0F) (b0 AND 0x80 \<noteq> 0) ?m (of_nat ?len) (strm\<lparr>st_in := ?body\<rparr>)"
    by (intro read_frame_accepts [where rd = stream_read, OF head bytes(1) _ bytes(4)])
  then show ?thesis unfolding bytes body .
qed

section \<open>Messages\<close>

text \<open>
  A web socket over a stream; \<open>ws_draws\<close> counts the keys taken from the generator. The keys are a
  parameter \<open>rng\<close>. A server does not mask its frames and expects those of its peer to be masked.
\<close>

record web_socket =
  ws_strm :: stream
  ws_is_server :: bool
  ws_closed :: bool
  ws_draws :: nat

definition CPPHTTPLIB_WEBSOCKET_MAX_PAYLOAD_LENGTH :: nat where
  "CPPHTTPLIB_WEBSOCKET_MAX_PAYLOAD_LENGTH = 16777216"

type_synonym rng = "nat \<Rightarrow> 8 word list"

definition ws_write :: "rng \<Rightarrow> opcode \<Rightarrow> string \<Rightarrow> bool \<Rightarrow> web_socket \<Rightarrow> web_socket" where
  "ws_write rng op data fin w =
     (if ws_is_server w
      then w\<lparr>ws_strm := write_websocket_frame op data fin None (ws_strm w)\<rparr>
      else w\<lparr>ws_strm := write_websocket_frame op data fin (Some (rng (ws_draws w))) (ws_strm w),
             ws_draws := ws_draws w + 1\<rparr>)"

definition ws_read_frame :: "nat \<Rightarrow> web_socket \<Rightarrow> ws_frame option \<times> web_socket" where
  "ws_read_frame max_len w =
     (case read_websocket_frame stream_read (ws_strm w) (ws_is_server w) max_len of
        (f, strm) \<Rightarrow> (f, w\<lparr>ws_strm := strm\<rparr>))"

definition send_frame :: "rng \<Rightarrow> opcode \<Rightarrow> string \<Rightarrow> bool \<Rightarrow> web_socket \<Rightarrow> bool \<times> web_socket" where
  "send_frame rng op data fin w =
     (if ws_closed w then (False, w) else (True, ws_write rng op data fin w))"

definition send_text :: "rng \<Rightarrow> string \<Rightarrow> web_socket \<Rightarrow> bool \<times> web_socket" where
  "send_text rng data w = send_frame rng Op_Text data True w"

definition send_binary :: "rng \<Rightarrow> string \<Rightarrow> web_socket \<Rightarrow> bool \<times> web_socket" where
  "send_binary rng data w = send_frame rng Op_Binary data True w"

text \<open>The answer to the peer's close frame.\<close>

definition echo_close :: "rng \<Rightarrow> string \<Rightarrow> web_socket \<Rightarrow> web_socket" where
  "echo_close rng payload w =
     (if ws_closed w then w else ws_write rng Op_Close payload True (w\<lparr>ws_closed := True\<rparr>))"

lemma stream_read_shrinks:
  "stream_read n strm = (k, d, strm') \<Longrightarrow> length (st_in strm') \<le> length (st_in strm)
     \<and> (0 < k \<longrightarrow> length (st_in strm') < length (st_in strm))"
  by (auto simp: stream_read_def end_code_def Let_def split: if_splits stream_end.splits)

lemma payload_loop_shrinks:
  "payload_loop stream_read n strm = (p, strm') \<Longrightarrow> length (st_in strm') \<le> length (st_in strm)"
proof (induction n arbitrary: strm p strm' rule: less_induct)
  case (less n)
  show ?case
  proof (cases "n = 0")
    case True
    with less.prems show ?thesis by (simp add: payload_loop.simps)
  next
    case False
    obtain k d s where r: "stream_read n strm = (k, d, s)" by (cases "stream_read n strm") auto
    obtain p2 s2 where p: "payload_loop stream_read (n - nat k) s = (p2, s2)" by (cases "payload_loop stream_read (n - nat k) s") auto
    have "length (st_in s) \<le> length (st_in strm)" using stream_read_shrinks [OF r] by simp
    moreover have "length (st_in s2) \<le> length (st_in s)" if "0 < k"
      using less.IH [OF _ p] that False by simp
    moreover have "strm' = s \<or> (0 < k \<and> strm' = s2)"
      using less.prems False r p by (subst (asm) payload_loop.simps) (auto split: if_splits option.splits)
    ultimately show ?thesis by auto
  qed
qed

lemma read_frame_shrinks:
  assumes "read_websocket_frame stream_read strm m max_len = (Some f, strm')"
  shows "length (st_in strm') < length (st_in strm)"
proof -
  obtain k h s1 where r: "stream_read 2 strm = (k, h, s1)" by (cases "stream_read 2 strm") auto
  have "k = 2" using assms r by (auto simp: read_websocket_frame_def split: if_splits)
  then have less: "length (st_in s1) < length (st_in strm)" using stream_read_shrinks [OF r] by simp
  have ext: "length (st_in s) \<le> length (st_in s1)"
    if "extended_length stream_read len s1 = (l, s)" for len l s
    using that by (auto simp: extended_length_def split: if_splits prod.splits dest!: stream_read_shrinks)
  have body: "length (st_in s') \<le> length (st_in s)"
    if "read_frame_body stream_read op fin masked len s = (g, s')" for op fin masked len s g s'
    using that by (auto simp: read_frame_body_def read_mask_key_def split: if_splits prod.splits option.splits
        dest!: stream_read_shrinks payload_loop_shrinks)
  from assms r \<open>k = 2\<close> obtain op fin masked len l s where
      "extended_length stream_read len s1 = (Some l, s)" "read_frame_body stream_read op fin masked l s = (Some f, strm')"
    by (auto simp: read_websocket_frame_def Let_def split: if_splits prod.splits option.splits)
  from ext [OF this(1)] body [OF this(2)] less show ?thesis by simp
qed

text \<open>What is still to be read; writing does not change it, reading a frame makes it shorter.\<close>

definition ws_left :: "web_socket \<Rightarrow> nat" where
  "ws_left w = length (st_in (ws_strm w))"

lemma ws_left_write [simp]: "ws_left (ws_write rng op data fin w) = ws_left w"
  by (simp add: ws_left_def ws_write_def write_websocket_frame_def write_stream_def)

lemma ws_left_read: "ws_read_frame n w = (Some f, w') \<Longrightarrow> ws_left w' < ws_left w"
  by (auto simp: ws_read_frame_def ws_left_def split: prod.splits dest!: read_frame_shrinks)

text \<open>The inner loop: the fragments behind the first one, up to the last.\<close>

function read_fragments :: "rng \<Rightarrow> string \<Rightarrow> web_socket \<Rightarrow> string option \<times> web_socket" where
  "read_fragments rng msg w =
     (case ws_read_frame CPPHTTPLIB_WEBSOCKET_MAX_PAYLOAD_LENGTH w of
        (None, w) \<Rightarrow> (None, w\<lparr>ws_closed := True\<rparr>)
      | (Some f, w) \<Rightarrow>
          if wf_opcode f = Op_Ping
          then read_fragments rng msg (ws_write rng Op_Pong (wf_payload f) True w)
          else if wf_opcode f = Op_Pong then read_fragments rng msg w
          else if wf_opcode f = Op_Close then (None, echo_close rng (wf_payload f) w)
          else if wf_opcode f \<noteq> Op_Continuation then (None, w\<lparr>ws_closed := True\<rparr>)
          else let msg = msg @ wf_payload f
               in if length msg > CPPHTTPLIB_WEBSOCKET_MAX_PAYLOAD_LENGTH
                  then (None, w\<lparr>ws_closed := True\<rparr>)
                  else if wf_fin f then (Some msg, w) else read_fragments rng msg w)"
  by pat_completeness auto
termination
  by (relation "measure (\<lambda>(_, _, w). ws_left w)") (auto dest: ws_left_read [OF sym])

declare read_fragments.simps [simp del]

text \<open>
  \<^verbatim>\<open>close\<close>: the close frame, then whatever the peer sends up to its own one. The status is the
  number of a \<^verbatim>\<open>CloseStatus\<close>.
\<close>

function drain_frames :: "web_socket \<Rightarrow> web_socket" where
  "drain_frames w =
     (case ws_read_frame 125 w of
        (None, w) \<Rightarrow> w
      | (Some f, w) \<Rightarrow> if wf_opcode f = Op_Close then w else drain_frames w)"
  by pat_completeness auto
termination
  by (relation "measure ws_left") (auto dest: ws_left_read [OF sym])

declare drain_frames.simps [simp del]

definition ws_close :: "rng \<Rightarrow> 16 word \<Rightarrow> string \<Rightarrow> web_socket \<Rightarrow> web_socket" where
  "ws_close rng status reason w =
     (if ws_closed w then w
      else let w = w\<lparr>ws_closed := True\<rparr>;
               payload = to_char (ucast (drop_bit 8 status AND 0xFF)) # to_char (ucast (status AND 0xFF))
                 # take 123 reason
           in drain_frames (ws_write rng Op_Close payload True w))"

datatype read_result = Ws_Fail | Ws_Text | Ws_Binary

text \<open>The result with the message; \<open>finish_message\<close> is what follows the last fragment.\<close>

definition finish_message :: "rng \<Rightarrow> read_result \<Rightarrow> string \<Rightarrow> web_socket \<Rightarrow> read_result \<times> string \<times> web_socket" where
  "finish_message rng result msg w =
     (if result = Ws_Text \<and> \<not> is_valid_utf8 msg
      then (Ws_Fail, msg, ws_close rng 1007 ''invalid UTF-8'' w) else (result, msg, w))"

function ws_read :: "rng \<Rightarrow> web_socket \<Rightarrow> read_result \<times> string \<times> web_socket" where
  "ws_read rng w =
     (if ws_closed w then (Ws_Fail, [], w)
      else case ws_read_frame CPPHTTPLIB_WEBSOCKET_MAX_PAYLOAD_LENGTH w of
             (None, w) \<Rightarrow> (Ws_Fail, [], w\<lparr>ws_closed := True\<rparr>)
           | (Some f, w) \<Rightarrow>
               if wf_opcode f = Op_Ping then ws_read rng (ws_write rng Op_Pong (wf_payload f) True w)
               else if wf_opcode f = Op_Pong then ws_read rng w
               else if wf_opcode f = Op_Close then (Ws_Fail, [], echo_close rng (wf_payload f) w)
               else if wf_opcode f = Op_Text \<or> wf_opcode f = Op_Binary
               then (let result = (if wf_opcode f = Op_Text then Ws_Text else Ws_Binary)
                     in if wf_fin f then finish_message rng result (wf_payload f) w
                        else case read_fragments rng (wf_payload f) w of
                               (None, w) \<Rightarrow> (Ws_Fail, [], w)
                             | (Some msg, w) \<Rightarrow> finish_message rng result msg w)
               else (Ws_Fail, [], w\<lparr>ws_closed := True\<rparr>))"
  by pat_completeness auto
termination
  by (relation "measure (\<lambda>(_, w). ws_left w)") (auto dest: ws_left_read [OF sym])

declare ws_read.simps [simp del]

section \<open>A message is read as it was sent\<close>

text \<open>
  What a peer sends for a message: its fragments, the last one with the final bit, and before each
  of them any number of pings and pongs. Every frame comes with its key, if it has one.
\<close>

type_synonym control = "bool \<times> string \<times> 8 word list option"
type_synonym fragment = "control list \<times> string \<times> 8 word list option"

definition control_bytes :: "control \<Rightarrow> string" where
  "control_bytes c = (case c of (ping, d, m) \<Rightarrow> websocket_frame (if ping then Op_Ping else Op_Pong) d True m)"

fun fragment_bytes :: "opcode \<Rightarrow> fragment list \<Rightarrow> string" where
  "fragment_bytes op [] = []"
| "fragment_bytes op ((cs, d, m) # frs) =
     concat (map control_bytes cs) @ websocket_frame op d (frs = []) m @ fragment_bytes Op_Continuation frs"

definition fragments_text :: "fragment list \<Rightarrow> string" where
  "fragments_text frs = concat (map (\<lambda>(_, d, _). d) frs)"

definition fragments_controls :: "fragment list \<Rightarrow> control list" where
  "fragments_controls frs = concat (map fst frs)"

text \<open>The keys have four bytes, and frames are masked exactly if the reader is a server.\<close>

definition key_ok :: "bool \<Rightarrow> 8 word list option \<Rightarrow> bool" where
  "key_ok server m \<longleftrightarrow> (case m of None \<Rightarrow> \<not> server | Some key \<Rightarrow> server \<and> length key = 4)"

definition control_ok :: "bool \<Rightarrow> control \<Rightarrow> bool" where
  "control_ok server c \<longleftrightarrow> (case c of (ping, d, m) \<Rightarrow> length d \<le> 125 \<and> key_ok server m)"

definition fragment_ok :: "bool \<Rightarrow> fragment \<Rightarrow> bool" where
  "fragment_ok server fr \<longleftrightarrow> (case fr of (cs, d, m) \<Rightarrow> list_all (control_ok server) cs \<and> key_ok server m)"

text \<open>The pongs with which the reader answers the pings.\<close>

definition answer_pings :: "rng \<Rightarrow> control list \<Rightarrow> web_socket \<Rightarrow> web_socket" where
  "answer_pings rng cs w = fold (\<lambda>(ping, d, m) w. if ping then ws_write rng Op_Pong d True w else w) cs w"

definition with_input :: "string \<Rightarrow> web_socket \<Rightarrow> web_socket" where
  "with_input d w = w\<lparr>ws_strm := (ws_strm w)\<lparr>st_in := d\<rparr>\<rparr>"

lemma with_input_simps [simp]:
  "st_in (ws_strm (with_input d w)) = d" "with_input d (with_input d' w) = with_input d w"
  "ws_is_server (with_input d w) = ws_is_server w" "ws_closed (with_input d w) = ws_closed w"
  "ws_write rng op p fin (with_input d w) = with_input d (ws_write rng op p fin w)"
  "ws_is_server (ws_write rng op p fin w) = ws_is_server w" "ws_closed (ws_write rng op p fin w) = ws_closed w"
  by (simp_all add: with_input_def ws_write_def write_websocket_frame_def write_stream_def)

lemma with_input_self: "st_in (ws_strm w) = d \<Longrightarrow> with_input d w = w"
  by (simp add: with_input_def)

lemma answer_pings_simps [simp]:
  "answer_pings rng [] w = w"
  "answer_pings rng ((ping, d, m) # cs) w =
     answer_pings rng cs (if ping then ws_write rng Op_Pong d True w else w)"
  "answer_pings rng (cs @ cs') w = answer_pings rng cs' (answer_pings rng cs w)"
  by (simp_all add: answer_pings_def)

lemma answer_pings_keeps [simp]:
  "ws_is_server (answer_pings rng cs w) = ws_is_server w" "ws_closed (answer_pings rng cs w) = ws_closed w"
  "answer_pings rng cs (with_input d w) = with_input d (answer_pings rng cs w)"
  by (induction cs arbitrary: w) (auto split: if_splits)

lemma ws_read_frame_written:
  assumes "frame_ok op d fin m" "key_ok (ws_is_server w) m" "length d \<le> n"
  shows "ws_read_frame n (with_input (websocket_frame op d fin m @ rest) w)
     = (Some \<lparr>wf_opcode = op, wf_payload = d, wf_fin = fin\<rparr>, with_input rest w)"
proof -
  have "ws_is_server w = (m \<noteq> None)" using assms(2) by (simp add: key_ok_def split: option.splits)
  then show ?thesis
    using frame_read [OF assms(1,3), of "ws_strm (with_input (websocket_frame op d fin m @ rest) w)" rest]
    by (simp add: ws_read_frame_def) (simp add: with_input_def)
qed

lemma opcodes_distinct [simp]:
  "Op_Ping \<noteq> Op_Pong" "Op_Pong \<noteq> Op_Ping" "Op_Continuation \<noteq> Op_Ping" "Op_Continuation \<noteq> Op_Pong"
  "Op_Continuation \<noteq> Op_Close" "Op_Text \<noteq> Op_Ping" "Op_Text \<noteq> Op_Pong" "Op_Text \<noteq> Op_Close"
  "Op_Binary \<noteq> Op_Ping" "Op_Binary \<noteq> Op_Pong" "Op_Binary \<noteq> Op_Close" "Op_Binary \<noteq> Op_Text"
  by (simp_all add: opcode_defs)

lemma frame_ok_control: "control_ok server (ping, d, m) \<Longrightarrow> frame_ok (if ping then Op_Ping else Op_Pong) d True m"
  by (auto simp: frame_ok_def control_ok_def key_ok_def opcode_defs split: option.splits)

lemma frame_ok_data:
  "key_ok server m \<Longrightarrow> length d \<le> CPPHTTPLIB_WEBSOCKET_MAX_PAYLOAD_LENGTH \<Longrightarrow>
     op \<in> {Op_Text, Op_Binary, Op_Continuation} \<Longrightarrow> frame_ok op d fin m"
  by (auto simp: frame_ok_def key_ok_def is_control_def opcode_defs CPPHTTPLIB_WEBSOCKET_MAX_PAYLOAD_LENGTH_def
      split: option.splits)

text \<open>Pings and pongs leave the state of both loops as it was, apart from the answers.\<close>

lemma ws_read_frame_control:
  assumes "control_ok (ws_is_server w) (ping, d, m)"
  shows "ws_read_frame CPPHTTPLIB_WEBSOCKET_MAX_PAYLOAD_LENGTH (with_input (control_bytes (ping, d, m) @ rest) w)
     = (Some \<lparr>wf_opcode = (if ping then Op_Ping else Op_Pong), wf_payload = d, wf_fin = True\<rparr>, with_input rest w)"
  unfolding control_bytes_def prod.case
  by (rule ws_read_frame_written [OF frame_ok_control [OF assms]])
    (use assms in \<open>simp_all add: control_ok_def CPPHTTPLIB_WEBSOCKET_MAX_PAYLOAD_LENGTH_def\<close>)

lemma read_fragments_controls:
  "list_all (control_ok (ws_is_server w)) cs \<Longrightarrow>
     read_fragments rng msg (with_input (concat (map control_bytes cs) @ rest) w)
     = read_fragments rng msg (with_input rest (answer_pings rng cs w))"
proof (induction cs arbitrary: w)
  case (Cons c cs)
  obtain ping d m where c: "c = (ping, d, m)" by (cases c)
  with Cons show ?case
    by (subst read_fragments.simps) (simp add: ws_read_frame_control)
qed simp

lemma ws_read_controls:
  "list_all (control_ok (ws_is_server w)) cs \<Longrightarrow> \<not> ws_closed w \<Longrightarrow>
     ws_read rng (with_input (concat (map control_bytes cs) @ rest) w)
     = ws_read rng (with_input rest (answer_pings rng cs w))"
proof (induction cs arbitrary: w)
  case (Cons c cs)
  obtain ping d m where c: "c = (ping, d, m)" by (cases c)
  with Cons show ?case
    by (subst ws_read.simps) (simp add: ws_read_frame_control)
qed simp

lemma fragments_text_Cons: "fragments_text ((cs, d, m) # frs) = d @ fragments_text frs"
  by (simp add: fragments_text_def)

lemma read_fragments_message:
  assumes "list_all (fragment_ok (ws_is_server w)) frs" "frs \<noteq> []"
    and "length (msg @ fragments_text frs) \<le> CPPHTTPLIB_WEBSOCKET_MAX_PAYLOAD_LENGTH"
  shows "read_fragments rng msg (with_input (fragment_bytes Op_Continuation frs @ rest) w)
     = (Some (msg @ fragments_text frs), with_input rest (answer_pings rng (fragments_controls frs) w))"
  using assms
proof (induction frs arbitrary: msg w)
  case (Cons fr frs)
  obtain cs d m where fr: "fr = (cs, d, m)" by (cases fr)
  let ?w = "answer_pings rng cs w"
  have ok: "list_all (control_ok (ws_is_server w)) cs" "key_ok (ws_is_server w) m"
    using Cons.prems(1) by (auto simp: fr fragment_ok_def)
  have len: "length msg + length d + length (fragments_text frs) \<le> CPPHTTPLIB_WEBSOCKET_MAX_PAYLOAD_LENGTH"
    using Cons.prems(3) by (simp add: fr fragments_text_Cons)
  have "frame_ok Op_Continuation d (frs = []) m"
    by (rule frame_ok_data [OF ok(2)]) (use len in auto)
  then have f: "ws_read_frame CPPHTTPLIB_WEBSOCKET_MAX_PAYLOAD_LENGTH
      (with_input (websocket_frame Op_Continuation d (frs = []) m @ fragment_bytes Op_Continuation frs @ rest) ?w)
      = (Some \<lparr>wf_opcode = Op_Continuation, wf_payload = d, wf_fin = (frs = [])\<rparr>,
         with_input (fragment_bytes Op_Continuation frs @ rest) ?w)"
    by (rule ws_read_frame_written) (use ok len in auto)
  have "read_fragments rng msg (with_input (fragment_bytes Op_Continuation (fr # frs) @ rest) w)
      = read_fragments rng msg (with_input (websocket_frame Op_Continuation d (frs = []) m
          @ fragment_bytes Op_Continuation frs @ rest) ?w)"
    using read_fragments_controls [OF ok(1)] by (simp add: fr)
  also have "\<dots> = (Some (msg @ fragments_text (fr # frs)),
      with_input rest (answer_pings rng (fragments_controls (fr # frs)) w))"
  proof (cases "frs = []")
    case True
    then show ?thesis
      using len f by (subst read_fragments.simps) (simp add: fr fragments_text_def fragments_controls_def)
  next
    case False
    with f Cons.IH [of ?w "msg @ d"] Cons.prems(1) len show ?thesis
      by (subst read_fragments.simps) (simp add: fr fragments_text_Cons fragments_controls_def)
  qed
  finally show ?case .
qed simp

lemma message_read:
  assumes "list_all (fragment_ok (ws_is_server w)) frs" "frs \<noteq> []" "\<not> ws_closed w"
    and "op = (if r = Ws_Text then Op_Text else Op_Binary)" "r \<noteq> Ws_Fail"
    and "length (fragments_text frs) \<le> CPPHTTPLIB_WEBSOCKET_MAX_PAYLOAD_LENGTH"
    and "r = Ws_Text \<longrightarrow> is_valid_utf8 (fragments_text frs)"
  shows "ws_read rng (with_input (fragment_bytes op frs @ rest) w)
     = (r, fragments_text frs, with_input rest (answer_pings rng (fragments_controls frs) w))"
proof -
  obtain cs d m frs' where frs: "frs = (cs, d, m) # frs'" using assms(2) by (cases frs) auto
  let ?w = "answer_pings rng cs w"
  have ok: "list_all (control_ok (ws_is_server w)) cs" "key_ok (ws_is_server w) m"
    using assms(1) by (auto simp: frs fragment_ok_def)
  have len: "length d + length (fragments_text frs') \<le> CPPHTTPLIB_WEBSOCKET_MAX_PAYLOAD_LENGTH"
    using assms(6) by (simp add: frs fragments_text_Cons)
  have "frame_ok op d (frs' = []) m"
    by (rule frame_ok_data [OF ok(2)]) (use len assms(4) in auto)
  then have f: "ws_read_frame CPPHTTPLIB_WEBSOCKET_MAX_PAYLOAD_LENGTH
      (with_input (websocket_frame op d (frs' = []) m @ fragment_bytes Op_Continuation frs' @ rest) ?w)
      = (Some \<lparr>wf_opcode = op, wf_payload = d, wf_fin = (frs' = [])\<rparr>,
         with_input (fragment_bytes Op_Continuation frs' @ rest) ?w)"
    by (rule ws_read_frame_written) (use ok len in auto)
  have op: "op \<noteq> Op_Ping" "op \<noteq> Op_Pong" "op \<noteq> Op_Close" "op = Op_Text \<or> op = Op_Binary"
      "(if op = Op_Text then Ws_Text else Ws_Binary) = r"
    using assms(4,5) by (cases r; simp)+
  have "ws_read rng (with_input (fragment_bytes op frs @ rest) w)
      = ws_read rng (with_input (websocket_frame op d (frs' = []) m
          @ fragment_bytes Op_Continuation frs' @ rest) ?w)"
    using ws_read_controls [OF ok(1) assms(3)] by (simp add: frs)
  also have "\<dots> = (r, fragments_text frs, with_input rest (answer_pings rng (fragments_controls frs) w))"
  proof (cases "frs' = []")
    case True
    then show ?thesis
      using f assms(3,7) op
      by (subst ws_read.simps) (simp add: frs finish_message_def fragments_text_def fragments_controls_def)
  next
    case False
    have "read_fragments rng d (with_input (fragment_bytes Op_Continuation frs' @ rest) ?w)
        = (Some (fragments_text frs), with_input rest (answer_pings rng (fragments_controls frs) w))"
      using read_fragments_message [of ?w frs' d rng rest] assms(1) len False
      by (simp add: frs fragments_text_Cons) (simp add: fragments_controls_def)
    with False show ?thesis
      using f assms(3,7) op by (subst ws_read.simps) (simp add: finish_message_def)
  qed
  finally show ?thesis .
qed

section \<open>Whatever the peer sends\<close>

text \<open>No frame is longer than the limit it was read with.\<close>

lemma payload_loop_length: "payload_loop stream_read n strm = (Some p, strm') \<Longrightarrow> length p = n"
proof (induction n arbitrary: strm p strm' rule: less_induct)
  case (less n)
  show ?case
  proof (cases "n = 0")
    case True
    with less.prems show ?thesis by (simp add: payload_loop.simps)
  next
    case False
    obtain k d s where r: "stream_read n strm = (k, d, s)" by (cases "stream_read n strm") auto
    then obtain p2 where p: "0 < k" "payload_loop stream_read (n - nat k) s = (Some p2, strm')" "p = d @ p2"
      using less.prems False by (subst (asm) payload_loop.simps) (auto split: if_splits option.splits prod.splits)
    then have "length p2 = n - nat k" using less.IH [OF _ p(2)] False by simp
    moreover have "k = int (length d)" "length d \<le> n"
      using r p(1) by (auto simp: stream_read_def Let_def end_code_def split: if_splits stream_end.splits)
    ultimately show ?thesis using p(3) by simp
  qed
qed

lemma read_frame_length:
  assumes "read_websocket_frame stream_read strm m max_len = (Some f, strm')"
  shows "length (wf_payload f) \<le> max_len"
proof -
  from assms obtain op fin masked l s where
      "read_frame_body stream_read op fin masked l s = (Some f, strm')" "unat l \<le> max_len"
    by (auto simp: read_websocket_frame_def Let_def split: if_splits prod.splits option.splits)
  then show ?thesis
    by (auto simp: read_frame_body_def unmask_def split: prod.splits option.splits if_splits
        dest!: payload_loop_length)
qed

lemma ws_read_frame_result:
  assumes "ws_read_frame n w = (r, w')"
  shows "ws_closed w' = ws_closed w" and "r = Some f \<Longrightarrow> length (wf_payload f) \<le> n"
  using assms by (auto simp: ws_read_frame_def split: prod.splits dest: read_frame_length)

lemma drain_frames_closed: "ws_closed (drain_frames w) = ws_closed w"
proof (induction w rule: drain_frames.induct)
  case (1 w)
  then show ?case
    by (subst drain_frames.simps)
      (auto split: prod.split option.split dest: ws_read_frame_result(1))
qed

lemma echo_close_closed [simp]: "ws_closed (echo_close rng p w)"
  by (simp add: echo_close_def)

lemma ws_close_closed [simp]: "ws_closed (ws_close rng st reason w)"
  by (simp add: ws_close_def Let_def drain_frames_closed)

text \<open>
  The result of the inner loop, and then of \<^verbatim>\<open>read\<close>: a message within the limit on an open socket,
  or a failure on a closed one.
\<close>

lemma read_fragments_result:
  assumes "read_fragments rng msg w = (r, w')" "\<not> ws_closed w"
  shows "case r of None \<Rightarrow> ws_closed w'
       | Some msg' \<Rightarrow> \<not> ws_closed w' \<and> length msg' \<le> CPPHTTPLIB_WEBSOCKET_MAX_PAYLOAD_LENGTH"
  using assms
proof (induction rng msg w arbitrary: r w' rule: read_fragments.induct)
  case (1 rng msg w)
  obtain fo w1 where f: "ws_read_frame CPPHTTPLIB_WEBSOCKET_MAX_PAYLOAD_LENGTH w = (fo, w1)"
    by (cases "ws_read_frame CPPHTTPLIB_WEBSOCKET_MAX_PAYLOAD_LENGTH w")
  then have open1: "\<not> ws_closed w1" using 1(5) ws_read_frame_result(1) [OF f] by simp
  show ?case
  proof (cases fo)
    case None
    with 1(4) f show ?thesis by (subst (asm) read_fragments.simps) auto
  next
    case (Some fr)
    note IH = 1(1-3) [OF f [symmetric] Some]
    show ?thesis
      using 1(4) open1 IH(1) [of r w'] IH(2) [of r w'] IH(3) [OF _ _ _ _ refl, of r w']
      by (subst (asm) read_fragments.simps)
        (auto simp: f Some Let_def split: if_splits)
  qed
qed

lemma ws_read_result:
  assumes "ws_read rng w = (r, msg, w')"
  shows "if r = Ws_Fail then ws_closed w'
       else \<not> ws_closed w' \<and> length msg \<le> CPPHTTPLIB_WEBSOCKET_MAX_PAYLOAD_LENGTH
         \<and> (r = Ws_Text \<longrightarrow> is_valid_utf8 msg)"
  using assms
proof (induction rng w arbitrary: r msg w' rule: ws_read.induct)
  case (1 rng w)
  show ?case
  proof (cases "ws_closed w")
    case True
    with 1(3) show ?thesis by (subst (asm) ws_read.simps) auto
  next
    case False
    obtain fo w1 where f: "ws_read_frame CPPHTTPLIB_WEBSOCKET_MAX_PAYLOAD_LENGTH w = (fo, w1)"
      by (cases "ws_read_frame CPPHTTPLIB_WEBSOCKET_MAX_PAYLOAD_LENGTH w")
    then have open1: "\<not> ws_closed w1" using False ws_read_frame_result(1) [OF f] by simp
    show ?thesis
    proof (cases fo)
      case None
      with 1(3) f False show ?thesis by (subst (asm) ws_read.simps) auto
    next
      case (Some fr)
      have len: "length (wf_payload fr) \<le> CPPHTTPLIB_WEBSOCKET_MAX_PAYLOAD_LENGTH"
        by (rule ws_read_frame_result(2) [OF f Some])
      have done_ok: ?thesis
        if "finish_message rng res m w2 = (r, msg, w')" "\<not> ws_closed w2" "res \<noteq> Ws_Fail"
          "length m \<le> CPPHTTPLIB_WEBSOCKET_MAX_PAYLOAD_LENGTH" for res m w2
        using that by (auto simp: finish_message_def split: if_splits)
      have frag: ?thesis
        if "(case read_fragments rng (wf_payload fr) w1 of (None, w) \<Rightarrow> (Ws_Fail, [], w)
           | (Some m, w) \<Rightarrow> finish_message rng res m w) = (r, msg, w')" "res \<noteq> Ws_Fail" for res
      proof -
        obtain mo w2 where rf: "read_fragments rng (wf_payload fr) w1 = (mo, w2)"
          by (cases "read_fragments rng (wf_payload fr) w1")
        from read_fragments_result [OF this open1] rf that done_ok [of res] show ?thesis
          by (cases mo) auto
      qed
      note IH = 1(1-2) [OF False f [symmetric] Some]
      show ?thesis
        using 1(3) open1 False IH(1) [of r msg w'] IH(2) [of r msg w'] done_ok [of _ "wf_payload fr" w1] len frag
        by (subst (asm) ws_read.simps)
          (auto simp: f Some Let_def split: if_splits)
    qed
  qed
qed

section \<open>Theorems\<close>


definition demo_fragments :: "fragment list" where
  "demo_fragments =
     [([(True, ''?'', Some [1, 2, 3, 4])], ''he'', Some [5, 6, 7, 8]), ([], ''llo'', Some [0, 255, 0, 255])]"

definition demo_socket :: "string \<Rightarrow> bool \<Rightarrow> web_socket" where
  "demo_socket d server =
     \<lparr>ws_strm = \<lparr>st_in = d, st_end = Peer_Closed, st_out = [], st_pending = False\<rparr>,
      ws_is_server = server, ws_closed = False, ws_draws = 0\<rparr>"


text \<open>What one side sends by \<^verbatim>\<open>send\<close>, the other one reads.\<close>

lemma sent_text_is_read:
  assumes "\<not> ws_closed p" "\<not> ws_closed w" "ws_is_server w \<longleftrightarrow> \<not> ws_is_server p"
    and "\<And>n. length (rng' n) = 4" "st_out (ws_strm p) = []"
    and "st_in (ws_strm w) = st_out (ws_strm (snd (send_text rng' d p)))"
    and "length d \<le> CPPHTTPLIB_WEBSOCKET_MAX_PAYLOAD_LENGTH" "is_valid_utf8 d"
  shows "ws_read rng w = (Ws_Text, d, with_input [] w)"
proof -
  define m where "m = (if ws_is_server p then None else Some (rng' (ws_draws p)))"
  have "st_in (ws_strm w) = fragment_bytes Op_Text [([], d, m)] @ []"
    using assms(1,5,6)
    by (simp add: send_text_def send_frame_def ws_write_def write_websocket_frame_def write_stream_def m_def)
  moreover have "fragment_ok (ws_is_server w) ([], d, m)"
    using assms(3,4) by (simp add: fragment_ok_def key_ok_def m_def)
  ultimately show ?thesis
    using message_read [of w "[([], d, m)]" Op_Text Ws_Text rng "[]"] with_input_self [of w] assms(2,7,8)
    by (simp add: fragments_text_def fragments_controls_def)
qed

text \<open>
  C37: no bytes of the peer bring \<^verbatim>\<open>read\<close> to anything else than a message or a failure: a message has
  at most 16 MB, is UTF-8 if it is a text, and leaves the socket open; after a failure the socket
  is closed, further reads fail at once and nothing more is sent.
\<close>

theorem read_gives_message_or_closes:
  assumes "ws_read rng w = (r, msg, w')"
  shows "(r = Ws_Fail \<and> ws_closed w' \<and> ws_read rng w' = (Ws_Fail, [], w')
          \<and> send_text rng d w' = (False, w') \<and> send_binary rng d w' = (False, w')
          \<and> ws_close rng status reason w' = w')
    \<or> (r \<noteq> Ws_Fail \<and> \<not> ws_closed w' \<and> length msg \<le> CPPHTTPLIB_WEBSOCKET_MAX_PAYLOAD_LENGTH
          \<and> (r = Ws_Binary \<or> is_valid_utf8 msg))"
  using ws_read_result [OF assms]
  by (cases r) (auto simp: ws_read.simps [of rng w'] send_text_def send_binary_def send_frame_def ws_close_def)

lemma read_gives_message_or_closes_witness:
  "ws_read (\<lambda>_. []) (demo_socket [] False) = (Ws_Fail, [], (demo_socket [] False)\<lparr>ws_closed := True\<rparr>)
    \<and> send_text (\<lambda>_. []) ''x'' ((demo_socket [] False)\<lparr>ws_closed := True\<rparr>)
        = (False, (demo_socket [] False)\<lparr>ws_closed := True\<rparr>)"
proof -
  have r: "ws_read (\<lambda>_. []) (demo_socket [] False) = (Ws_Fail, [], (demo_socket [] False)\<lparr>ws_closed := True\<rparr>)"
    by (simp add: ws_read.simps ws_read_frame_def read_websocket_frame_def stream_read_def demo_socket_def
        end_code_def)
  with read_gives_message_or_closes [OF r, of "''x''"] show ?thesis by simp
qed

text \<open>
  A frame whose first two bytes arrive in different segments is refused, although the same
  bytes in one piece are a frame: \<^verbatim>\<open>read_websocket_frame\<close> takes a read that gives fewer bytes than it
  asked for as an error, where the reads of the payload go on.
\<close>

theorem split_header_is_refused:
  assumes "frame_ok op data fin m" "length data \<le> max_len"
    and "websocket_frame op data fin m = b # bs"
  shows "fst (read_websocket_frame stream_read
            \<lparr>st_in = b # bs, st_end = e, st_out = [], st_pending = False\<rparr> (m \<noteq> None) max_len)
          = Some \<lparr>wf_opcode = op, wf_payload = data, wf_fin = fin\<rparr>
    \<and> fst (read_websocket_frame socket_read
            \<lparr>ss_buff = [], ss_pieces = [[b], bs], ss_end = e\<rparr> (m \<noteq> None) max_len) = None"
proof
  let ?s = "\<lparr>st_in = b # bs, st_end = e, st_out = [], st_pending = False\<rparr>"
  show "fst (read_websocket_frame stream_read ?s (m \<noteq> None) max_len)
      = Some \<lparr>wf_opcode = op, wf_payload = data, wf_fin = fin\<rparr>"
    using frame_read [OF assms(1,2), of ?s "[]"] assms(3) by simp
  show "fst (read_websocket_frame socket_read
      \<lparr>ss_buff = [], ss_pieces = [[b], bs], ss_end = e\<rparr> (m \<noteq> None) max_len) = None"
    by (simp add: read_websocket_frame_def socket_read_def read_socket_def read_buff_size_def)
qed

lemma split_header_is_refused_witness:
  "fst (read_websocket_frame socket_read
      \<lparr>ss_buff = [], ss_pieces = [[CHR 0x81], [CHR 0x01, CHR ''a'']], ss_end = Peer_Closed\<rparr> False 125) = None"
proof -
  have "websocket_frame Op_Text ''a'' True None = [CHR 0x81, CHR 0x01, CHR ''a'']" by code_simp
  moreover have "frame_ok Op_Text ''a'' True None"
    by (simp add: frame_ok_def is_control_def opcode_defs)
  ultimately show ?thesis
    using split_header_is_refused [of Op_Text "''a''" True None 125] by simp
qed

end
