(* ===== verification/Web_Handshake.thy ===== *)
theory Web_Handshake
  imports Http_Server Web_Socket
begin

text \<open>
  The handshake that turns a connection into a web socket (\<^verbatim>\<open>external/httplib.h\<close>): the request of
  \<^verbatim>\<open>perform_websocket_handshake\<close>, the server's test and answer, and the client's check of it.
\<close>

section \<open>The server's side\<close>

text \<open>\<^verbatim>\<open>headers.find(key)\<close>, without the precautions of \<^const>\<open>get_header_value\<close>.\<close>

definition header_find :: "headers \<Rightarrow> string \<Rightarrow> string option" where
  "header_find hs key = (case equal_range hs key of [] \<Rightarrow> None | (k, v) # _ \<Rightarrow> Some v)"

text \<open>The two fields that both sides test, in any case of letters.\<close>

definition upgrade_fields_ok :: "headers \<Rightarrow> bool" where
  "upgrade_fields_ok hs \<longleftrightarrow>
     (case header_find hs ''Upgrade'' of
        None \<Rightarrow> False
      | Some v \<Rightarrow>
          ci_lower_string v = ''websocket'' \<and>
          (case header_find hs ''Connection'' of
             None \<Rightarrow> False
           | Some v \<Rightarrow> find_string ''upgrade'' 0 (ci_lower_string v) \<noteq> None))"

definition is_websocket_upgrade :: "http_request \<Rightarrow> bool" where
  "is_websocket_upgrade req \<longleftrightarrow>
     hr_method req = ''GET'' \<and> upgrade_fields_ok (hr_headers req) \<and>
     (let ws_key = header_value (hr_headers req) ''Sec-WebSocket-Key''
      in length ws_key = 24 \<and> ws_key ! 22 = CHR ''='' \<and> ws_key ! 23 = CHR ''='' \<and>
         list_all (\<lambda>c. c \<in> set b64chars) (take 22 ws_key)) \<and>
     header_value (hr_headers req) ''Sec-WebSocket-Version'' = ''13''"

text \<open>\<^verbatim>\<open>std::getline\<close> with a comma, until it finds nothing more, and the spaces around each token.\<close>

function comma_tokens :: "string \<Rightarrow> string list" where
  "comma_tokens s =
     (if s = [] then []
      else takeWhile (\<lambda>c. c \<noteq> CHR '','') s # comma_tokens (drop 1 (dropWhile (\<lambda>c. c \<noteq> CHR '','') s)))"
  by pat_completeness auto
termination
proof (relation "measure length", goal_cases)
  case (2 s)
  then have "length (dropWhile (\<lambda>c. c \<noteq> CHR '','') s) \<le> length s" "s \<noteq> []"
    by (simp_all add: length_dropWhile_le)
  then show ?case by (cases s) auto
qed simp

declare comma_tokens.simps [simp del]

definition offered_protocols :: "string \<Rightarrow> string list" where
  "offered_protocols header =
     filter (\<lambda>t. t \<noteq> [])
       (map (\<lambda>t. rev (dropWhile (\<lambda>c. c = CHR '' '') (rev (dropWhile (\<lambda>c. c = CHR '' '') t))))
         (comma_tokens header))"

type_synonym sub_protocol_selector = "string list \<Rightarrow> string"

definition select_subprotocol :: "sub_protocol_selector option \<Rightarrow> http_request \<Rightarrow> string" where
  "select_subprotocol selector req =
     (case selector of
        None \<Rightarrow> []
      | Some f \<Rightarrow>
          (let header = header_value (hr_headers req) ''Sec-WebSocket-Protocol''
           in if header = [] then [] else f (offered_protocols header)))"

definition handshake_answer :: "string \<Rightarrow> string \<Rightarrow> string" where
  "handshake_answer accept_key subprotocol =
     ''HTTP/1.1 101 Switching Protocols'' @ crlf @ ''Upgrade: websocket'' @ crlf @ ''Connection: Upgrade'' @ crlf
     @ ''Sec-WebSocket-Accept: '' @ accept_key @ crlf
     @ (if subprotocol = [] then [] else ''Sec-WebSocket-Protocol: '' @ subprotocol @ crlf) @ crlf"

text \<open>
  The upgrade in \<^verbatim>\<open>process_request\<close>: entries are the matcher and the selector of a registered
  handler. \<^term>\<open>None\<close>: no entry matches and the request is routed as any other. Otherwise the result
  and, where the handler is called, its socket. (No pre-routing handler is installed.)
\<close>

fun websocket_upgrade ::
  "((http_request \<Rightarrow> bool) \<times> sub_protocol_selector option) list \<Rightarrow> http_request \<Rightarrow> stream \<Rightarrow>
   (bool \<times> stream \<times> web_socket option) option" where
  "websocket_upgrade [] req strm = None"
| "websocket_upgrade ((matches, selector) # es) req strm =
     (if matches req
      then (let accept_key = websocket_accept_key (header_value (hr_headers req) ''Sec-WebSocket-Key'');
                subprotocol = select_subprotocol selector req
            in if subprotocol \<noteq> [] \<and> \<not> is_field_value subprotocol then Some (False, strm, None)
               else let strm = write_stream (handshake_answer accept_key subprotocol) strm
                    in Some (True, strm,
                             Some \<lparr>ws_strm = strm, ws_is_server = True, ws_closed = False, ws_draws = 0\<rparr>))
      else websocket_upgrade es req strm)"

section \<open>The client's side\<close>

text \<open>
  The request; \<^term>\<open>None\<close> where it is refused before anything is sent. The list is the order in which
  the table of header fields is walked through, \<open>key_bytes\<close> are 16 random bytes.
\<close>

definition handshake_request ::
  "string \<Rightarrow> int \<Rightarrow> string \<Rightarrow> string \<Rightarrow> headers \<Rightarrow> string option" where
  "handshake_request host port path key_bytes headers =
     (if \<not> is_field_value path \<or> \<not> is_field_value host then None
      else if \<not> list_all (\<lambda>h. is_field_name (fst h) \<and> is_field_value (snd h)) headers then None
      else Some (''GET '' @ path @ '' HTTP/1.1'' @ crlf
         @ ''Host: '' @ host @ '':'' @ to_string port @ crlf
         @ ''Upgrade: websocket'' @ crlf @ ''Connection: Upgrade'' @ crlf
         @ ''Sec-WebSocket-Key: '' @ base64_encode key_bytes @ crlf
         @ ''Sec-WebSocket-Version: 13'' @ crlf
         @ concat (map (\<lambda>h. fst h @ '': '' @ snd h @ crlf) headers) @ crlf))"

definition read_websocket_upgrade_response :: "stream \<Rightarrow> string \<Rightarrow> (string \<times> stream) option" where
  "read_websocket_upgrade_response strm expected_accept =
     (case getline strm (stream_line_reader 2048) of
        (ok, strm, lr) \<Rightarrow>
          if \<not> ok \<or> find_string ''HTTP/1.1 101'' 0 (line_text lr) = None then None
          else (case read_headers strm [] of
                  (ok, strm, hs) \<Rightarrow>
                    if \<not> ok \<or> \<not> upgrade_fields_ok hs
                       \<or> header_find hs ''Sec-WebSocket-Accept'' \<noteq> Some expected_accept then None
                    else Some (case header_find hs ''Sec-WebSocket-Protocol'' of None \<Rightarrow> [] | Some v \<Rightarrow> v, strm)))"

section \<open>Both sides agree\<close>

text \<open>The fields of the two messages.\<close>

definition request_fields :: "string \<Rightarrow> int \<Rightarrow> string \<Rightarrow> headers \<Rightarrow> headers" where
  "request_fields host port key headers =
     [(''Host'', host @ '':'' @ to_string port), (''Upgrade'', ''websocket''), (''Connection'', ''Upgrade''),
      (''Sec-WebSocket-Key'', key), (''Sec-WebSocket-Version'', ''13'')] @ headers"

definition answer_fields :: "string \<Rightarrow> string \<Rightarrow> headers" where
  "answer_fields accept_key subprotocol =
     [(''Upgrade'', ''websocket''), (''Connection'', ''Upgrade''), (''Sec-WebSocket-Accept'', accept_key)]
     @ (if subprotocol = [] then [] else [(''Sec-WebSocket-Protocol'', subprotocol)])"

lemma write_headers_concat:
  "write_headers hs = concat (map (\<lambda>h. fst h @ '': '' @ snd h @ crlf) hs) @ crlf"
  by (induction hs) simp_all

lemma handshake_request_fields:
  "handshake_request host port path key_bytes headers = Some d \<Longrightarrow>
     d = (''GET '' @ path @ '' HTTP/1.1'') @ crlf
       @ write_headers (request_fields host port (base64_encode key_bytes) headers)"
  by (auto simp: handshake_request_def request_fields_def write_headers_concat split: if_splits)

lemma handshake_answer_fields:
  "handshake_answer accept_key subprotocol =
     ''HTTP/1.1 101 Switching Protocols'' @ crlf @ write_headers (answer_fields accept_key subprotocol)"
  by (simp add: handshake_answer_def answer_fields_def)

text \<open>A message head, up to the blank line.\<close>

lemma head_read:
  assumes "\<forall>c \<in> set l. code c \<noteq> 10" "length l + 1 < CPPHTTPLIB_MAX_LINE_LENGTH" "fields_sendable hs"
    and "st_in strm = l @ crlf @ write_headers hs @ rest"
  obtains lr where "getline strm (stream_line_reader 2048) = (True, strm\<lparr>st_in := write_headers hs @ rest\<rparr>, lr)"
    "line_text lr = l @ crlf" "read_headers (strm\<lparr>st_in := write_headers hs @ rest\<rparr>) [] = (True, strm\<lparr>st_in := rest\<rparr>, rev hs)"
  using getline_line [OF assms(1,2,4), of "stream_line_reader 2048"] headers_read_back [OF assms(3), of "strm\<lparr>st_in := write_headers hs @ rest\<rparr>" rest]
  by auto

text \<open>Looking a name up behind fields that have other names.\<close>

lemma equal_range_rev_append:
  assumes "\<forall>h \<in> set extra. \<not> ci_equal (fst h) k"
  shows "equal_range (rev (base @ extra)) k = equal_range (rev base) k"
proof -
  have "filter (\<lambda>h. ci_equal (fst h) k) (rev extra) = []"
    using assms by (simp add: filter_empty_conv)
  then show ?thesis by (simp add: equal_range_def)
qed

text \<open>The names that the server looks up; the caller's own fields must have others.\<close>

definition upgrade_names :: "string list" where
  "upgrade_names = [''Upgrade'', ''Connection'', ''Sec-WebSocket-Key'', ''Sec-WebSocket-Version'']"

lemma upgrade_names_differ:
  "\<not> ci_equal ''Host'' ''Upgrade''" "\<not> ci_equal ''Host'' ''Connection''" "\<not> ci_equal ''Host'' ''Sec-WebSocket-Key''"
  "\<not> ci_equal ''Host'' ''Sec-WebSocket-Version''" "\<not> ci_equal ''Upgrade'' ''Connection''"
  "\<not> ci_equal ''Upgrade'' ''Sec-WebSocket-Key''" "\<not> ci_equal ''Upgrade'' ''Sec-WebSocket-Version''"
  "\<not> ci_equal ''Connection'' ''Upgrade''" "\<not> ci_equal ''Connection'' ''Sec-WebSocket-Key''"
  "\<not> ci_equal ''Connection'' ''Sec-WebSocket-Version''" "\<not> ci_equal ''Sec-WebSocket-Key'' ''Upgrade''"
  "\<not> ci_equal ''Sec-WebSocket-Key'' ''Connection''" "\<not> ci_equal ''Sec-WebSocket-Key'' ''Sec-WebSocket-Version''"
  "\<not> ci_equal ''Sec-WebSocket-Version'' ''Upgrade''" "\<not> ci_equal ''Sec-WebSocket-Version'' ''Connection''"
  "\<not> ci_equal ''Sec-WebSocket-Version'' ''Sec-WebSocket-Key''"
  "\<not> ci_equal ''Upgrade'' ''Sec-WebSocket-Accept''" "\<not> ci_equal ''Connection'' ''Sec-WebSocket-Accept''"
  "\<not> ci_equal ''Sec-WebSocket-Accept'' ''Upgrade''" "\<not> ci_equal ''Sec-WebSocket-Accept'' ''Connection''"
  "\<not> ci_equal ''Upgrade'' ''Sec-WebSocket-Protocol''" "\<not> ci_equal ''Connection'' ''Sec-WebSocket-Protocol''"
  "\<not> ci_equal ''Sec-WebSocket-Accept'' ''Sec-WebSocket-Protocol''" "\<not> ci_equal ''Sec-WebSocket-Protocol'' ''Upgrade''"
  "\<not> ci_equal ''Sec-WebSocket-Protocol'' ''Connection''" "\<not> ci_equal ''Sec-WebSocket-Protocol'' ''Sec-WebSocket-Accept''"
  by code_simp+

lemma upgrade_names_allowed:
  "\<not> is_prohibited_header_name ''Sec-WebSocket-Key''" "\<not> is_prohibited_header_name ''Sec-WebSocket-Version''"
  by code_simp+

lemma upgrade_values:
  "ci_lower_string ''websocket'' = ''websocket''" "find_string ''upgrade'' 0 (ci_lower_string ''Upgrade'') = Some 0"
  "c_str ''13'' = ''13''"
  by code_simp+

text \<open>What base 64 writes can stand in a field.\<close>

lemma rfc4648_chars: "list_all (\<lambda>b. b < 256) bs \<Longrightarrow> set (rfc4648 bs) \<subseteq> insert (CHR ''='') (set b64chars)"
proof (induction bs rule: rfc4648.induct)
  case (2 a)
  then have "a div 4 < 64" "a mod 4 * 16 < 64" by auto
  then show ?case by (simp add: b64chars_nth)
next
  case (3 a b)
  then have "a div 4 < 64" "b div 16 < 16" "a mod 4 < 4" "b mod 16 < 16" by auto
  then have "a div 4 < 64" "a mod 4 * 16 + b div 16 < 64" "b mod 16 * 4 < 64" by linarith+
  then show ?case by (simp add: b64chars_nth)
next
  case (4 a b c s)
  then have "a div 4 < 64" "b div 16 < 16" "c div 64 < 4" "a mod 4 < 4" "b mod 16 < 16" "c mod 64 < 64" by auto
  then have "a div 4 < 64" "a mod 4 * 16 + b div 16 < 64" "b mod 16 * 4 + c div 64 < 64" "c mod 64 < 64"
    by linarith+
  with 4 show ?case by (simp add: b64chars_nth)
qed simp

lemma rfc4648_length: "length (rfc4648 bs) = 4 * ((length bs + 2) div 3)"
proof (induction bs rule: rfc4648.induct)
  case (4 a b c s)
  have "(length (a # b # c # s) + 2) div 3 = Suc ((length s + 2) div 3)"
    using div_add_self2 [of 3 "length s + 2"] by simp
  with 4 show ?case by simp
qed simp_all

lemma visible_field_value:
  assumes "list_all is_vchar s"
  shows "is_field_value s"
proof -
  have v: "list_all is_field_vchar s" using assms by (simp add: list_all_iff is_field_vchar_def)
  consider "length s \<le> 2" | a m z where "s = a # m @ [z]" "m \<noteq> []"
  proof (cases "length s \<le> 2")
    case False
    then obtain a t where t: "s = a # t" "length t \<ge> 2" by (cases s) auto
    then obtain m z where "t = m @ [z]" by (cases t rule: rev_cases) auto
    with t show ?thesis using that(2) [of a m z] by (cases m) auto
  qed (use that in blast)
  then show ?thesis
  proof cases
    case 1
    with v show ?thesis
      by (cases s; cases "tl s"; cases "tl (tl s)") (auto simp: is_field_value_def is_field_content_def)
  next
    case 2
    with v show ?thesis by (auto simp: is_field_value_def field_content_long [OF 2(2)] list_all_iff)
  qed
qed

lemma b64chars_visible: "list_all (\<lambda>c. is_vchar c \<and> c \<noteq> CHR ''%'' \<and> code c \<noteq> 0) (CHR ''='' # b64chars)"
  by code_simp

lemma base64_value:
  "list_all is_vchar (base64_encode s)" "CHR ''%'' \<notin> set (base64_encode s)" "c_str (base64_encode s) = base64_encode s"
proof -
  have "set (base64_encode s) \<subseteq> set (CHR ''='' # b64chars)"
    using rfc4648_chars [of "map code s"] by (simp add: base64_is_rfc4648_eq list_all_iff)
  then have "list_all (\<lambda>c. is_vchar c \<and> c \<noteq> CHR ''%'' \<and> code c \<noteq> 0) (base64_encode s)"
    using b64chars_visible unfolding list_all_iff by blast
  then show "list_all is_vchar (base64_encode s)" "CHR ''%'' \<notin> set (base64_encode s)"
      "c_str (base64_encode s) = base64_encode s"
    by (auto simp: list_all_iff c_str_def takeWhile_eq_all_conv)
qed

lemma accept_key_value:
  "is_field_value (websocket_accept_key k)" "CHR ''%'' \<notin> set (websocket_accept_key k)"
  "length (websocket_accept_key k) = 28"
  using base64_value [of "sha1 (k @ ''258EAFA5-E914-47DA-95CA-C5AB0DC85B11'')"]
  by (simp_all add: websocket_accept_key_def visible_field_value base64_is_rfc4648_eq rfc4648_length)

text \<open>The server takes the client's request for an upgrade, and the client its answer.\<close>

lemma request_is_upgrade:
  assumes "length key_bytes = 16" "\<forall>h \<in> set headers. \<forall>k \<in> set upgrade_names. \<not> ci_equal (fst h) k"
    and "hr_method req = ''GET''"
    and "hr_headers req = rev (request_fields host port (base64_encode key_bytes) headers)"
  shows "is_websocket_upgrade req" and "header_value (hr_headers req) ''Sec-WebSocket-Key'' = base64_encode key_bytes"
proof -
  let ?base = "[(''Host'', host @ '':'' @ to_string port), (''Upgrade'', ''websocket''), (''Connection'', ''Upgrade''),
      (''Sec-WebSocket-Key'', base64_encode key_bytes), (''Sec-WebSocket-Version'', ''13'')]"
  have range: "equal_range (hr_headers req) k = equal_range (rev ?base) k" if "k \<in> set upgrade_names" for k
    unfolding assms(4) request_fields_def by (rule equal_range_rev_append) (use assms(2) that in blast)
  have fields: "equal_range (hr_headers req) ''Upgrade'' = [(''Upgrade'', ''websocket'')]"
      "equal_range (hr_headers req) ''Connection'' = [(''Connection'', ''Upgrade'')]"
      "equal_range (hr_headers req) ''Sec-WebSocket-Key'' = [(''Sec-WebSocket-Key'', base64_encode key_bytes)]"
      "equal_range (hr_headers req) ''Sec-WebSocket-Version'' = [(''Sec-WebSocket-Version'', ''13'')]"
    by (simp_all add: range upgrade_names_def) (simp_all add: equal_range_def upgrade_names_differ)
  then show key: "header_value (hr_headers req) ''Sec-WebSocket-Key'' = base64_encode key_bytes"
    by (simp add: header_value_def get_header_value_def upgrade_names_allowed base64_value)
  note b = base64_key [OF assms(1)]
  have "base64_encode key_bytes ! 22 = CHR ''=''" "base64_encode key_bytes ! 23 = CHR ''=''"
    using b(1,2) nth_drop [of 22 "base64_encode key_bytes" 0] nth_drop [of 22 "base64_encode key_bytes" 1] by simp_all
  then show "is_websocket_upgrade req"
    using fields b(1,3) assms(3)
    by (auto simp: is_websocket_upgrade_def upgrade_fields_ok_def header_find_def key upgrade_values list_all_iff)
      (simp add: header_value_def get_header_value_def upgrade_names_allowed upgrade_values)
qed

lemma answer_is_accepted:
  assumes "CHR ''%'' \<notin> set subprotocol" "is_field_value subprotocol" "length subprotocol \<le> 8000"
    and "st_in strm = handshake_answer (websocket_accept_key k) subprotocol @ rest"
  shows "read_websocket_upgrade_response strm (websocket_accept_key k) = Some (subprotocol, strm\<lparr>st_in := rest\<rparr>)"
proof -
  let ?l = "''HTTP/1.1 101 Switching Protocols''"
  let ?hs = "answer_fields (websocket_accept_key k) subprotocol"
  have names: "is_field_name ''Upgrade''" "is_field_name ''Connection''" "is_field_name ''Sec-WebSocket-Accept''"
      "is_field_name ''Sec-WebSocket-Protocol''" "is_field_value ''websocket''" "is_field_value ''Upgrade''"
    by code_simp+
  have send: "fields_sendable ?hs"
    using assms(1-3) by (simp add: fields_sendable_def answer_fields_def field_ok_def names accept_key_value
        CPPHTTPLIB_HEADER_MAX_COUNT_def CPPHTTPLIB_HEADER_MAX_LENGTH_def)
  have line: "list_all (\<lambda>c. code c \<noteq> 10) ?l" "find_string ''HTTP/1.1 101'' 0 (?l @ crlf) = Some 0"
    by code_simp+
  obtain lr where lr: "getline strm (stream_line_reader 2048) = (True, strm\<lparr>st_in := write_headers ?hs @ rest\<rparr>, lr)"
      "line_text lr = ?l @ crlf" "read_headers (strm\<lparr>st_in := write_headers ?hs @ rest\<rparr>) [] = (True, strm\<lparr>st_in := rest\<rparr>, rev ?hs)"
    by (rule head_read [of ?l ?hs strm rest])
      (use line(1) send assms(4) in \<open>simp_all add: handshake_answer_fields list_all_iff CPPHTTPLIB_MAX_LINE_LENGTH_def\<close>)
  have "header_find (rev ?hs) ''Upgrade'' = Some ''websocket''" "header_find (rev ?hs) ''Connection'' = Some ''Upgrade''"
      "header_find (rev ?hs) ''Sec-WebSocket-Accept'' = Some (websocket_accept_key k)"
      "header_find (rev ?hs) ''Sec-WebSocket-Protocol'' = (if subprotocol = [] then None else Some subprotocol)"
    by (simp_all add: header_find_def equal_range_def answer_fields_def upgrade_names_differ)
  then show ?thesis
    using line(2) [folded lr(2)]
    by (simp add: read_websocket_upgrade_response_def lr(1,3) upgrade_fields_ok_def upgrade_values)
qed

section \<open>Theorem\<close>

text \<open>
  C38: the two halves of the library open a web socket with each other: the request that the client
  writes reaches the server's upgrade test and passes it, with the target as it was given; the
  server's answer passes the client's check, digest included; the client gets the subprotocol that
  the server chose, both streams stand behind the handshake, and the server's socket is open.
\<close>

theorem websocket_handshake:
  assumes "handshake_request host port path key_bytes headers = Some d" "length key_bytes = 16"
    and "target_ok path" "length path \<le> CPPHTTPLIB_REQUEST_URI_MAX_LENGTH"
    and "fields_sendable (request_fields host port (base64_encode key_bytes) headers)"
    and "\<forall>h \<in> set headers. \<forall>k \<in> set upgrade_names. \<not> ci_equal (fst h) k"
    and "\<forall>f ps. selector = Some f \<longrightarrow> is_field_value (f ps) \<and> CHR ''%'' \<notin> set (f ps) \<and> length (f ps) \<le> 8000"
    and "st_in strm = d @ rest"
  shows "\<exists>lr strm1 req hs strm2 answer.
    getline strm (stream_line_reader 2048) = (True, strm1, lr)
    \<and> parse_request_line (line_text lr) Http_Request = (True, req)
    \<and> read_headers strm1 (hr_headers req) = (True, strm\<lparr>st_in := rest\<rparr>, hs)
    \<and> hr_target req = path \<and> is_websocket_upgrade (req\<lparr>hr_headers := hs\<rparr>)
    \<and> websocket_upgrade [(\<lambda>_. True, selector)] (req\<lparr>hr_headers := hs\<rparr>) (strm\<lparr>st_in := rest\<rparr>)
       = Some (True, strm2, Some \<lparr>ws_strm = strm2, ws_is_server = True, ws_closed = False, ws_draws = 0\<rparr>)
    \<and> st_in strm2 = rest \<and> st_out strm2 = st_out strm @ answer
    \<and> (\<forall>client more. st_in client = answer @ more \<longrightarrow>
         read_websocket_upgrade_response client (websocket_accept_key (base64_encode key_bytes))
           = Some (select_subprotocol selector (req\<lparr>hr_headers := hs\<rparr>), client\<lparr>st_in := more\<rparr>))"
proof -
  let ?hs = "request_fields host port (base64_encode key_bytes) headers"
  let ?l = "''GET '' @ path @ '' HTTP/1.1''"
  have vis: "code c \<noteq> 10" if "is_vchar c" for c using that by (auto simp: is_vchar_def)
  have p: "list_all is_vchar path" using assms(3) by (auto simp: target_ok_def list_all_iff)
  have fixed: "list_all (\<lambda>c. code c \<noteq> 10) (''GET '' @ '' HTTP/1.1'')" by code_simp
  have nl: "\<forall>c \<in> set ?l. code c \<noteq> 10"
    using p vis fixed unfolding list_all_iff set_append by blast
  have inp: "st_in strm = ?l @ crlf @ write_headers ?hs @ rest"
    using assms(8) handshake_request_fields [OF assms(1)] by simp
  obtain lr where lr: "getline strm (stream_line_reader 2048) = (True, strm\<lparr>st_in := write_headers ?hs @ rest\<rparr>, lr)"
      "line_text lr = ?l @ crlf" "read_headers (strm\<lparr>st_in := write_headers ?hs @ rest\<rparr>) [] = (True, strm\<lparr>st_in := rest\<rparr>, rev ?hs)"
    by (rule head_read [OF nl _ assms(5) inp])
      (use assms(4) in \<open>simp add: CPPHTTPLIB_MAX_LINE_LENGTH_def CPPHTTPLIB_REQUEST_URI_MAX_LENGTH_def\<close>)
  define req where "req = Http_Request\<lparr>hr_method := ''GET'', hr_target := path, hr_version := ''HTTP/1.1'',
      hr_path := decode_path_component (fst (divide path (CHR ''?''))),
      hr_params := parse_query_text (snd (divide path (CHR ''?''))) (hr_params Http_Request)\<rparr>"
  have "parse_request_line (''GET'' @ '' '' @ path @ '' HTTP/1.1'' @ crlf) Http_Request = (True, req)"
    unfolding req_def by (rule parse_request_line_written [OF _ assms(3)]) (simp add: http_methods_def)
  then have parsed: "parse_request_line (line_text lr) Http_Request = (True, req)" by (simp add: lr(2))
  define r where "r = req\<lparr>hr_headers := rev ?hs\<rparr>"
  have r: "is_websocket_upgrade r" "header_value (hr_headers r) ''Sec-WebSocket-Key'' = base64_encode key_bytes"
    using request_is_upgrade [OF assms(2,6), of r host port] by (simp_all add: r_def req_def)
  define sub where "sub = select_subprotocol selector r"
  have "is_field_value []" by (simp add: is_field_value_def is_field_content_def)
  then have sub: "is_field_value sub" "CHR ''%'' \<notin> set sub" "length sub \<le> 8000"
    using assms(7) by (auto simp: sub_def select_subprotocol_def Let_def split: option.split)
  define answer where "answer = handshake_answer (websocket_accept_key (base64_encode key_bytes)) sub"
  define strm2 where "strm2 = write_stream answer (strm\<lparr>st_in := rest\<rparr>)"
  have up: "websocket_upgrade [(\<lambda>_. True, selector)] r (strm\<lparr>st_in := rest\<rparr>)
      = Some (True, strm2, Some \<lparr>ws_strm = strm2, ws_is_server = True, ws_closed = False, ws_draws = 0\<rparr>)"
    using sub(1) by (simp add: r(2) strm2_def answer_def Let_def flip: sub_def)
  have accepted: "read_websocket_upgrade_response client (websocket_accept_key (base64_encode key_bytes))
      = Some (sub, client\<lparr>st_in := more\<rparr>)" if "st_in client = answer @ more" for client more
    using answer_is_accepted [OF sub(2,1,3)] that unfolding answer_def by blast
  have req: "hr_headers req = []" "hr_target req = path" by (simp_all add: req_def Http_Request_def)
  have out: "st_in strm2 = rest" "st_out strm2 = st_out strm @ answer"
    by (simp_all add: strm2_def write_stream_def)
  show ?thesis
    by (rule exI [of _ lr], rule exI [of _ "strm\<lparr>st_in := write_headers ?hs @ rest\<rparr>"], rule exI [of _ req],
        rule exI [of _ "rev ?hs"], rule exI [of _ strm2], rule exI [of _ answer], fold r_def sub_def)
      (use lr(1,3) parsed req r(1) up out accepted in \<open>simp only: simp_thms, blast\<close>)
qed

definition demo_key :: string where
  "demo_key = replicate 16 (CHR ''k'')"

definition demo_request :: string where
  "demo_request = the (handshake_request ''door'' 80 ''/ws'' demo_key [(''X-Door'', ''1'')])"

lemma demo_request_sendable:
  "handshake_request ''door'' 80 ''/ws'' demo_key [(''X-Door'', ''1'')] = Some demo_request"
  "fields_sendable (request_fields ''door'' 80 (base64_encode demo_key) [(''X-Door'', ''1'')])"
proof -
  have "is_field_value ''/ws''" "is_field_value ''door''" "is_field_name ''X-Door''" "is_field_value ''1''"
    by code_simp+
  then show "handshake_request ''door'' 80 ''/ws'' demo_key [(''X-Door'', ''1'')] = Some demo_request"
    by (simp add: demo_request_def handshake_request_def)
  have "field_ok (''Host'', ''door:80'')" "field_ok (''Upgrade'', ''websocket'')" "field_ok (''Connection'', ''Upgrade'')"
      "is_field_name ''Sec-WebSocket-Key''" "field_ok (''Sec-WebSocket-Version'', ''13'')" "field_ok (''X-Door'', ''1'')"
      "to_string 80 = ''80''"
    by code_simp+
  moreover have "length (base64_encode demo_key) = 24" by (rule base64_key) (simp add: demo_key_def)
  ultimately show "fields_sendable (request_fields ''door'' 80 (base64_encode demo_key) [(''X-Door'', ''1'')])"
    using base64_value [of demo_key]
    by (simp add: fields_sendable_def request_fields_def field_ok_def visible_field_value
        CPPHTTPLIB_HEADER_MAX_COUNT_def CPPHTTPLIB_HEADER_MAX_LENGTH_def)
qed

lemma websocket_handshake_witness:
  "\<exists>req strm2 w. is_websocket_upgrade req \<and> hr_target req = ''/ws'' \<and>
     websocket_upgrade [(\<lambda>_. True, None)] req
       \<lparr>st_in = ''frames'', st_end = Peer_Closed, st_out = [], st_pending = False\<rparr> = Some (True, strm2, Some w) \<and>
     read_websocket_upgrade_response \<lparr>st_in = st_out strm2, st_end = Peer_Closed, st_out = [], st_pending = False\<rparr>
       (websocket_accept_key (base64_encode demo_key))
     = Some ([], \<lparr>st_in = [], st_end = Peer_Closed, st_out = [], st_pending = False\<rparr>)"
proof -
  let ?s = "\<lparr>st_in = demo_request @ ''frames'', st_end = Peer_Closed, st_out = [], st_pending = False\<rparr>"
  have t: "target_ok ''/ws''" by code_simp
  have names: "\<forall>h \<in> set [(''X-Door'', ''1'')]. \<forall>k \<in> set upgrade_names. \<not> ci_equal (fst h) k"
    by code_simp
  have k: "length demo_key = 16" by (simp add: demo_key_def)
  obtain req hs strm2 answer where h: "hr_target req = ''/ws''" "is_websocket_upgrade (req\<lparr>hr_headers := hs\<rparr>)"
      "websocket_upgrade [(\<lambda>_. True, None)] (req\<lparr>hr_headers := hs\<rparr>) (?s\<lparr>st_in := ''frames''\<rparr>)
         = Some (True, strm2, Some \<lparr>ws_strm = strm2, ws_is_server = True, ws_closed = False, ws_draws = 0\<rparr>)"
      "st_out strm2 = st_out ?s @ answer"
      "\<forall>client more. st_in client = answer @ more \<longrightarrow>
         read_websocket_upgrade_response client (websocket_accept_key (base64_encode demo_key))
           = Some (select_subprotocol None (req\<lparr>hr_headers := hs\<rparr>), client\<lparr>st_in := more\<rparr>)"
    using websocket_handshake [OF demo_request_sendable(1) k t _ demo_request_sendable(2) names, of None ?s "''frames''"]
    by (simp add: CPPHTTPLIB_REQUEST_URI_MAX_LENGTH_def) blast
  then show ?thesis
    by (intro exI [of _ "req\<lparr>hr_headers := hs\<rparr>"] exI [of _ strm2]
        exI [of _ "\<lparr>ws_strm = strm2, ws_is_server = True, ws_closed = False, ws_draws = 0\<rparr>"])
      (simp add: select_subprotocol_def)
qed

end
