(* ===== verification/Http_Files.thy ===== *)
theory Http_Files
  imports Http_Body "HOL-Library.Sublist"
begin

text \<open>
  File serving (\<^verbatim>\<open>external/httplib.h\<close>): the mount points of a server, the content types, entity
  tags and conditional requests, and \<^verbatim>\<open>handle_file_request\<close>. The file system and the text of HTTP
  dates (\<^verbatim>\<open>strftime\<close>, \<^verbatim>\<open>std::get_time\<close>) are parameters.
\<close>

section \<open>Mount points\<close>

record mount_point =
  mp_mount_point :: string
  mp_base_dir :: string
  mp_headers :: headers

text \<open>What \<^verbatim>\<open>stat\<close> says of a path: whether it succeeded, the kind, the time in seconds, the size.\<close>

record file_stat =
  fi_found :: bool
  fi_regular :: bool
  fi_directory :: bool
  fi_mtime :: int
  fi_size :: nat

definition is_file :: "file_stat \<Rightarrow> bool" where
  "is_file st \<longleftrightarrow> fi_found st \<and> fi_regular st"

definition is_dir :: "file_stat \<Rightarrow> bool" where
  "is_dir st \<longleftrightarrow> fi_found st \<and> fi_directory st"

definition stat_mtime :: "file_stat \<Rightarrow> int" where
  "stat_mtime st = (if fi_found st then fi_mtime st else -1)"

definition stat_size :: "file_stat \<Rightarrow> nat" where
  "stat_size st = (if fi_found st then fi_size st else 0)"

text \<open>\<open>fe_open\<close>: the size of the mapping, if the file can be opened and mapped.\<close>

record file_env =
  fe_stat :: "string \<Rightarrow> file_stat"
  fe_open :: "string \<Rightarrow> nat option"
  fe_http_date :: "int \<Rightarrow> string"
  fe_parse_date :: "string \<Rightarrow> int"
  fe_types :: "string \<rightharpoonup> string"
  fe_default_type :: string

definition set_mount_point ::
  "file_env \<Rightarrow> string \<Rightarrow> string \<Rightarrow> headers \<Rightarrow> mount_point list \<Rightarrow> bool \<times> mount_point list" where
  "set_mount_point env mount_point dir hs base_dirs =
     (if is_dir (fe_stat env dir)
      then let mnt = (if mount_point \<noteq> [] then mount_point else [slash])
           in if mnt \<noteq> [] \<and> mnt ! 0 = slash
              then (True, base_dirs @ [\<lparr>mp_mount_point = mnt, mp_base_dir = dir, mp_headers = hs\<rparr>])
              else (False, base_dirs)
      else (False, base_dirs))"

fun remove_mount_point :: "string \<Rightarrow> mount_point list \<Rightarrow> bool \<times> mount_point list" where
  "remove_mount_point mount_point [] = (False, [])"
| "remove_mount_point mount_point (e # es) =
     (if mp_mount_point e = mount_point then (True, es)
      else case remove_mount_point mount_point es of (r, es) \<Rightarrow> (r, e # es))"

section \<open>Content types\<close>

text \<open>The expression \<^verbatim>\<open>\.([a-zA-Z0-9]+)$\<close>: the letters and digits behind the last dot.\<close>

definition file_extension :: "string \<Rightarrow> string" where
  "file_extension path =
     (let ext = rev (takeWhile (\<lambda>c. c \<noteq> CHR ''.'') (rev path))
      in if CHR ''.'' \<in> set path \<and> ext \<noteq> [] \<and> list_all is_alnum ext then ext else [])"

text \<open>The cases of the \<^verbatim>\<open>switch\<close>, which compares hash values.\<close>

definition content_types :: "(string \<times> string) list" where
  "content_types =
     [(''css'', ''text/css''), (''csv'', ''text/csv''), (''htm'', ''text/html''), (''html'', ''text/html''),
      (''js'', ''text/javascript''), (''mjs'', ''text/javascript''), (''txt'', ''text/plain''), (''vtt'', ''text/vtt''),
      (''apng'', ''image/apng''), (''avif'', ''image/avif''), (''bmp'', ''image/bmp''), (''gif'', ''image/gif''),
      (''png'', ''image/png''), (''svg'', ''image/svg+xml''), (''webp'', ''image/webp''), (''ico'', ''image/x-icon''),
      (''tif'', ''image/tiff''), (''tiff'', ''image/tiff''), (''jpg'', ''image/jpeg''), (''jpeg'', ''image/jpeg''),
      (''mp4'', ''video/mp4''), (''mpeg'', ''video/mpeg''), (''webm'', ''video/webm''),
      (''mp3'', ''audio/mp3''), (''mpga'', ''audio/mpeg''), (''weba'', ''audio/webm''), (''wav'', ''audio/wave''),
      (''otf'', ''font/otf''), (''ttf'', ''font/ttf''), (''woff'', ''font/woff''), (''woff2'', ''font/woff2''),
      (''7z'', ''application/x-7z-compressed''), (''atom'', ''application/atom+xml''), (''pdf'', ''application/pdf''),
      (''json'', ''application/json''), (''rss'', ''application/rss+xml''), (''tar'', ''application/x-tar''),
      (''xht'', ''application/xhtml+xml''), (''xhtml'', ''application/xhtml+xml''), (''xslt'', ''application/xslt+xml''),
      (''xml'', ''application/xml''), (''gz'', ''application/gzip''), (''zip'', ''application/zip''),
      (''wasm'', ''application/wasm'')]"

definition find_content_type :: "string \<Rightarrow> (string \<rightharpoonup> string) \<Rightarrow> string \<Rightarrow> string" where
  "find_content_type path user_data default_content_type =
     (let ext = file_extension path
      in case user_data ext of
           Some t \<Rightarrow> t
         | None \<Rightarrow>
             (case filter (\<lambda>et. str2tag (fst et) = str2tag ext) content_types of
                [] \<Rightarrow> default_content_type
              | (_, t) # _ \<Rightarrow> t))"

section \<open>Entity tags and conditions\<close>

definition compute_etag :: "file_stat \<Rightarrow> string" where
  "compute_etag st =
     (if \<not> is_file st then []
      else if stat_mtime st < 0 then []
      else ''W/'' @ [CHR 0x22] @ from_i_to_hex (nat (stat_mtime st)) @ ''-'' @ from_i_to_hex (stat_size st) @ [CHR 0x22])"

definition is_weak_etag :: "string \<Rightarrow> bool" where
  "is_weak_etag s \<longleftrightarrow> length s > 3 \<and> s ! 0 = CHR ''W'' \<and> s ! 1 = slash \<and> s ! 2 = CHR 0x22"

definition is_strong_etag :: "string \<Rightarrow> bool" where
  "is_strong_etag s \<longleftrightarrow> length s \<ge> 2 \<and> s ! 0 = CHR 0x22 \<and> last s = CHR 0x22"

text \<open>\<^term>\<open>Some\<close>: the response gets the status 304 and the request is answered.\<close>

definition check_if_not_modified ::
  "file_env \<Rightarrow> http_request \<Rightarrow> http_response \<Rightarrow> string \<Rightarrow> int \<Rightarrow> http_response option" where
  "check_if_not_modified env req res etag mtime =
     (if has_header (hr_headers req) ''If-None-Match''
      then (if etag \<noteq> [] \<and>
               split_find (header_value (hr_headers req) ''If-None-Match'') (CHR '','')
                 (\<lambda>seg. seg = ''*'' \<or> seg = etag)
            then Some (res\<lparr>hs_status := 304\<rparr>) else None)
      else if has_header (hr_headers req) ''If-Modified-Since''
      then (let t = fe_parse_date env (header_value (hr_headers req) ''If-Modified-Since'')
            in if t \<noteq> -1 \<and> mtime \<le> t then Some (res\<lparr>hs_status := 304\<rparr>) else None)
      else None)"

definition check_if_range :: "file_env \<Rightarrow> http_request \<Rightarrow> string \<Rightarrow> int \<Rightarrow> bool \<times> http_request" where
  "check_if_range env req etag mtime =
     (if hr_ranges req \<noteq> [] \<and> has_header (hr_headers req) ''If-Range''
      then (let val = header_value (hr_headers req) ''If-Range'';
                valid = (if is_strong_etag val then etag \<noteq> [] \<and> val = etag
                         else if is_weak_etag val then False
                         else let t = fe_parse_date env val in t \<noteq> -1 \<and> mtime \<le> t)
            in if valid then (True, req) else (False, req\<lparr>hr_ranges := []\<rparr>))
      else (True, req))"

section \<open>A request for a file\<close>

definition set_redirect :: "string \<Rightarrow> int \<Rightarrow> http_response \<Rightarrow> http_response" where
  "set_redirect url st res =
     (if is_field_value url
      then (set_header ''Location'' url res)\<lparr>hs_status := (if 300 \<le> st \<and> st < 400 then st else 302)\<rparr>
      else res)"

definition set_headers :: "headers \<Rightarrow> http_response \<Rightarrow> http_response" where
  "set_headers hs res = fold (\<lambda>(k, v) res. set_header k v res) hs res"

text \<open>
  A file that is found. The result is the answer of \<^verbatim>\<open>handle_file_request\<close>, the request and the
  response, and the file that the content provider is going to send, with its size.
\<close>

type_synonym file_answer = "bool \<times> http_request \<times> http_response \<times> (string \<times> nat) option"

definition serve_file ::
  "file_env \<Rightarrow> mount_point \<Rightarrow> string \<Rightarrow> http_request \<Rightarrow> http_response \<Rightarrow> file_answer" where
  "serve_file env entry path req res =
     (let st = fe_stat env path;
          res = set_headers (mp_headers entry) res;
          etag = compute_etag st;
          res = (if etag \<noteq> [] then set_header ''ETag'' etag res else res);
          mtime = stat_mtime st;
          last_modified = (if mtime < 0 then [] else fe_http_date env mtime);
          res = (if last_modified \<noteq> [] then set_header ''Last-Modified'' last_modified res else res)
      in case check_if_not_modified env req res etag mtime of
           Some res \<Rightarrow> (True, req, res, None)
         | None \<Rightarrow>
             (let req = snd (check_if_range env req etag mtime)
              in case fe_open env path of
                   None \<Rightarrow> (False, req, res, None)
                 | Some sz \<Rightarrow>
                     (True, req,
                      set_header ''Content-Type'' (find_content_type path (fe_types env) (fe_default_type env)) res,
                      Some (path, sz))))"

fun handle_file_request ::
  "file_env \<Rightarrow> mount_point list \<Rightarrow> http_request \<Rightarrow> http_response \<Rightarrow> file_answer" where
  "handle_file_request env [] req res = (False, req, res, None)"
| "handle_file_request env (entry # es) req res =
     (if compare_eq 0 (length (mp_mount_point entry)) (mp_mount_point entry) (hr_path req)
      then (let sub_path = [slash] @ drop (length (mp_mount_point entry)) (hr_path req)
            in if is_valid_path sub_path
               then (let path = mp_base_dir entry @ sub_path;
                         path = (if last path = slash then path @ ''index.html'' else path)
                     in if is_dir (fe_stat env path)
                        then (True, req, set_redirect (sub_path @ [slash]) 301 res, None)
                        else if is_file (fe_stat env path) then serve_file env entry path req res
                        else handle_file_request env es req res)
               else handle_file_request env es req res)
      else handle_file_request env es req res)"

section \<open>Paths that stay below a directory\<close>

text \<open>
  The components of a path, and how the operating system walks along them from a directory given
  by its names from the root: a dot stays, two dots leave, and at the root they stay.
\<close>

function path_components :: "string \<Rightarrow> string list" where
  "path_components s =
     (if s = [] then []
      else takeWhile (\<lambda>c. c \<noteq> slash) s #
           path_components (dropWhile (\<lambda>c. c = slash) (dropWhile (\<lambda>c. c \<noteq> slash) s)))"
  by pat_completeness auto
termination
  by (relation "measure length") (simp_all add: next_component)

declare path_components.simps [simp del]

definition components :: "string \<Rightarrow> string list" where
  "components p = path_components (dropWhile (\<lambda>c. c = slash) p)"

fun walk :: "string list \<Rightarrow> string list \<Rightarrow> string list" where
  "walk dir [] = dir"
| "walk dir (c # cs) = walk (if c = ''.'' then dir else if c = ''..'' then butlast dir else dir @ [c]) cs"

text \<open>At no point of the walk a directory outside the one it started from.\<close>

definition stays_below :: "string list \<Rightarrow> string list \<Rightarrow> bool" where
  "stays_below base cs \<longleftrightarrow> (\<forall>k. prefix base (walk base (take k cs)))"

fun level_ok :: "nat \<Rightarrow> string list \<Rightarrow> bool" where
  "level_ok n [] = True"
| "level_ok n (c # cs) =
     (if c = ''.'' then level_ok n cs
      else if c = ''..'' then 0 < n \<and> level_ok (n - 1) cs else level_ok (Suc n) cs)"

lemma level_ok_walk:
  assumes "base \<noteq> []"
  shows "level_ok (length u) cs \<longleftrightarrow> (\<forall>k. prefix base (walk (base @ u) (take k cs)))"
proof (induction cs arbitrary: u)
  case (Cons c cs)
  have all: "(\<forall>k. P k) \<longleftrightarrow> P 0 \<and> (\<forall>k. P (Suc k))" for P :: "nat \<Rightarrow> bool"
    by (metis not0_implies_Suc)
  consider "c = ''.''" | "c = ''..''" "u = []" | x v where "c = ''..''" "u = v @ [x]" | "c \<noteq> ''.''" "c \<noteq> ''..''"
    by (cases u rule: rev_cases) auto
  then show ?case
  proof cases
    case 1
    then show ?thesis by (subst all) (simp add: Cons.IH)
  next
    case 2
    have "\<not> prefix base (walk (butlast base) (take 0 cs))"
      using assms by (metis length_butlast diff_less length_greater_0_conv not_less prefix_length_le take0 walk.simps(1) zero_less_one)
    then have "\<not> (\<forall>k. prefix base (walk (butlast base) (take k cs)))" by blast
    with 2 show ?thesis by (subst all) simp
  next
    case 3
    then show ?thesis using Cons.IH [of v] by (subst all) (simp add: butlast_append)
  next
    case 4
    then show ?thesis using Cons.IH [of "u @ [c]"] by (subst all) simp
  qed
qed simp

definition plain_chars :: "string \<Rightarrow> bool" where
  "plain_chars s \<longleftrightarrow> (\<forall>c \<in> set s. code c \<noteq> 0 \<and> code c \<noteq> 92)"

lemma plain_chars_parts:
  "plain_chars s \<longleftrightarrow> plain_chars (takeWhile (\<lambda>c. c \<noteq> slash) s) \<and>
     plain_chars (dropWhile (\<lambda>c. c = slash) (dropWhile (\<lambda>c. c \<noteq> slash) s))"
proof -
  have slash: "plain_chars (dropWhile (\<lambda>c. c = slash) t) \<longleftrightarrow> plain_chars t" for t
  proof -
    have "plain_chars (takeWhile (\<lambda>c. c = slash) t)"
      by (auto simp: plain_chars_def code_def dest: set_takeWhileD)
    then show ?thesis
      using takeWhile_dropWhile_id [of "\<lambda>c. c = slash" t]
      by (metis (no_types, lifting) Un_iff plain_chars_def set_append)
  qed
  show ?thesis
    unfolding slash using takeWhile_dropWhile_id [of "\<lambda>c. c \<noteq> slash" s]
    by (metis (no_types, lifting) Un_iff plain_chars_def set_append)
qed

lemma valid_path_loop_iff:
  "valid_path_loop level s \<longleftrightarrow> plain_chars s \<and> level_ok level (path_components s)"
proof (induction level s rule: valid_path_loop.induct)
  case (1 level s)
  show ?case
  proof (cases "s = []")
    case True
    then show ?thesis by (simp add: valid_path_loop.simps path_components.simps plain_chars_def)
  next
    case False
    define comp where "comp = takeWhile (\<lambda>c. c \<noteq> slash) s"
    define rest where "rest = dropWhile (\<lambda>c. c = slash) (dropWhile (\<lambda>c. c \<noteq> slash) s)"
    have dot: "code (CHR ''.'') = 46" by (simp add: code_def)
    have bad: "list_ex (\<lambda>c. code c = 0 \<or> code c = 92) comp \<longleftrightarrow> \<not> plain_chars comp"
      by (auto simp: list_ex_iff plain_chars_def)
    show ?thesis
      using 1 [OF False comp_def rest_def] False plain_chars_parts [of s]
      by (subst valid_path_loop.simps, subst path_components.simps)
        (auto simp: Let_def bad dot plain_chars_def simp flip: comp_def rest_def)
  qed
qed

lemma valid_path_iff:
  assumes "base \<noteq> []"
  shows "is_valid_path p \<longleftrightarrow> plain_chars p \<and> stays_below base (components p)"
proof -
  have "plain_chars (dropWhile (\<lambda>c. c = slash) p) \<longleftrightarrow> plain_chars p"
    using plain_chars_parts [of "slash # p"] by (simp add: plain_chars_def) (auto simp: code_def)
  then show ?thesis
    using level_ok_walk [OF assms, of "[]"]
    by (simp add: is_valid_path_def valid_path_loop_iff components_def stays_below_def)
qed

section \<open>What the mounts serve\<close>

lemma rest_append:
  assumes "slash \<in> set s" "last s = slash" "x \<noteq> []" "x ! 0 \<noteq> slash"
  shows "dropWhile (\<lambda>c. c = slash) (dropWhile (\<lambda>c. c \<noteq> slash) (s @ x)) =
         dropWhile (\<lambda>c. c = slash) (dropWhile (\<lambda>c. c \<noteq> slash) s) @ x"
    and "dropWhile (\<lambda>c. c = slash) (dropWhile (\<lambda>c. c \<noteq> slash) s) = [] \<or>
         (let r = dropWhile (\<lambda>c. c = slash) (dropWhile (\<lambda>c. c \<noteq> slash) s) in slash \<in> set r \<and> last r = slash)"
proof -
  define t where "t = dropWhile (\<lambda>c. c \<noteq> slash) s"
  have "dropWhile (\<lambda>c. c \<noteq> slash) (s @ x) = t @ x"
    unfolding t_def using assms(1) by (intro dropWhile_append1 [where x = slash]) auto
  moreover have "dropWhile (\<lambda>c. c = slash) (t @ x) = dropWhile (\<lambda>c. c = slash) t @ x"
  proof (cases "\<forall>c \<in> set t. c = slash")
    case True
    then have "dropWhile (\<lambda>c. c = slash) (t @ x) = dropWhile (\<lambda>c. c = slash) x" "dropWhile (\<lambda>c. c = slash) t = []"
      by (simp_all add: dropWhile_append2)
    with assms(3,4) show ?thesis by (cases x) auto
  next
    case False
    then show ?thesis by (metis (mono_tags, lifting) dropWhile_append1)
  qed
  ultimately show "dropWhile (\<lambda>c. c = slash) (dropWhile (\<lambda>c. c \<noteq> slash) (s @ x)) =
         dropWhile (\<lambda>c. c = slash) (dropWhile (\<lambda>c. c \<noteq> slash) s) @ x"
    by (simp add: t_def)
  have "last (dropWhile P u) = last u" if "dropWhile P u \<noteq> []" for P and u :: string
    using that by (metis last_appendR takeWhile_dropWhile_id)
  with assms(2) show "dropWhile (\<lambda>c. c = slash) (dropWhile (\<lambda>c. c \<noteq> slash) s) = [] \<or>
         (let r = dropWhile (\<lambda>c. c = slash) (dropWhile (\<lambda>c. c \<noteq> slash) s) in slash \<in> set r \<and> last r = slash)"
    by (smt (verit) dropWhile.simps(1) last_in_set)
qed

lemma valid_path_loop_index:
  assumes "valid_path_loop level s" "s = [] \<or> slash \<in> set s \<and> last s = slash"
  shows "valid_path_loop level (s @ ''index.html'')"
  using assms
proof (induction level s rule: valid_path_loop.induct)
  case (1 level s)
  have base: "valid_path_loop n ''index.html''" for n by (simp add: valid_path_loop_iff plain_chars_def code_def path_components.simps)
  show ?case
  proof (cases "s = []")
    case True
    with base show ?thesis by simp
  next
    case False
    with 1 have s: "slash \<in> set s" "last s = slash" by simp_all
    define comp where "comp = takeWhile (\<lambda>c. c \<noteq> slash) s"
    define rest where "rest = dropWhile (\<lambda>c. c = slash) (dropWhile (\<lambda>c. c \<noteq> slash) s)"
    have c: "takeWhile (\<lambda>c. c \<noteq> slash) (s @ ''index.html'') = comp"
      using s(1) by (simp add: comp_def)
    have r: "dropWhile (\<lambda>c. c = slash) (dropWhile (\<lambda>c. c \<noteq> slash) (s @ ''index.html'')) = rest @ ''index.html''"
      "rest = [] \<or> slash \<in> set rest \<and> last rest = slash"
      using rest_append [OF s, of "''index.html''"] unfolding rest_def Let_def by simp_all
    note IH = 1(1-3) [OF False comp_def rest_def]
    have v: "valid_path_loop level s \<longleftrightarrow> (if list_ex (\<lambda>c. code c = 0 \<or> code c = 92) comp then False
              else if comp = ''.'' then valid_path_loop level rest
              else if comp = ''..'' then (if level = 0 then False else valid_path_loop (level - 1) rest)
              else valid_path_loop (level + 1) rest)"
      by (subst valid_path_loop.simps) (simp only: False if_False Let_def comp_def rest_def)
    have w: "valid_path_loop level (s @ ''index.html'') \<longleftrightarrow> (if list_ex (\<lambda>c. code c = 0 \<or> code c = 92) comp then False
              else if comp = ''.'' then valid_path_loop level (rest @ ''index.html'')
              else if comp = ''..'' then (if level = 0 then False else valid_path_loop (level - 1) (rest @ ''index.html''))
              else valid_path_loop (level + 1) (rest @ ''index.html''))"
      by (subst valid_path_loop.simps) (simp only: False append_is_Nil_conv if_False Let_def c r(1) simp_thms)
    show ?thesis
      using 1(4) IH r(2) unfolding v w by (auto split: if_splits)
  qed
qed

lemma valid_path_index:
  assumes "is_valid_path s" "last s = slash" "slash \<in> set s"
  shows "is_valid_path (s @ ''index.html'')"
proof -
  define t where "t = dropWhile (\<lambda>c. c = slash) s"
  have "t = [] \<or> slash \<in> set t \<and> last t = slash"
    using assms(2) takeWhile_dropWhile_id [of "\<lambda>c. c = slash" s] last_in_set
    by (metis last_appendR t_def)
  moreover have "dropWhile (\<lambda>c. c = slash) (s @ ''index.html'') = t @ ''index.html''"
    unfolding t_def by (cases "\<forall>c \<in> set s. c = slash") (auto simp: dropWhile_append2 intro!: dropWhile_append1)
  ultimately show ?thesis
    using assms(1) valid_path_loop_index [of 0 t] by (simp add: is_valid_path_def t_def)
qed

lemma serve_file_provides:
  "serve_file env e path req res = (ok, req', res', Some (f, sz)) \<Longrightarrow> f = path \<and> fe_open env path = Some sz \<and> ok"
  unfolding serve_file_def Let_def by (auto split: option.splits)

text \<open>Where the path of a provided file comes from: the mount that matched, and a valid rest.\<close>

definition mounted_path :: "mount_point \<Rightarrow> string \<Rightarrow> string" where
  "mounted_path e p =
     (let path = mp_base_dir e @ slash # drop (length (mp_mount_point e)) p
      in if last path = slash then path @ ''index.html'' else path)"

lemma handle_file_request_step:
  "handle_file_request env (e # es) req res =
     (if compare_eq 0 (length (mp_mount_point e)) (mp_mount_point e) (hr_path req) \<and>
         is_valid_path (slash # drop (length (mp_mount_point e)) (hr_path req))
      then if is_dir (fe_stat env (mounted_path e (hr_path req)))
           then (True, req, set_redirect (slash # drop (length (mp_mount_point e)) (hr_path req) @ [slash]) 301 res, None)
           else if is_file (fe_stat env (mounted_path e (hr_path req)))
                then serve_file env e (mounted_path e (hr_path req)) req res
                else handle_file_request env es req res
      else handle_file_request env es req res)"
  by (simp add: mounted_path_def Let_def del: last.simps last_append last_appendR)

lemma mounted_path_valid:
  assumes "is_valid_path (slash # drop (length (mp_mount_point e)) p)"
  obtains sub where "mounted_path e p = mp_base_dir e @ slash # sub" "is_valid_path (slash # sub)"
proof -
  let ?sub = "slash # drop (length (mp_mount_point e)) p"
  show thesis
  proof (cases "last (mp_base_dir e @ ?sub) = slash")
    case True
    then have "is_valid_path (?sub @ ''index.html'')"
      using assms valid_path_index [of ?sub] by simp
    with True that [of "drop (length (mp_mount_point e)) p @ ''index.html''"] show thesis
      by (simp add: mounted_path_def Let_def)
  next
    case False
    with assms that [of "drop (length (mp_mount_point e)) p"] show thesis
      by (simp add: mounted_path_def Let_def)
  qed
qed

lemma provided_file:
  assumes "handle_file_request env es req res = (ok, req', res', Some (f, sz))"
  obtains e where "e \<in> set es" "f = mounted_path e (hr_path req)"
    "is_valid_path (slash # drop (length (mp_mount_point e)) (hr_path req))"
    "is_file (fe_stat env f)" "\<not> is_dir (fe_stat env f)" "fe_open env f = Some sz" "ok"
  using assms
proof (induction es)
  case (Cons e es)
  then show ?case
    unfolding handle_file_request_step
    by (auto split: if_splits dest!: serve_file_provides)
qed simp

text \<open>
  C40: whatever the path of a request is, the file that is provided is the directory of a registered
  mount followed by a path with no zero byte and no backslash, and the walk along it never leaves
  the directory it starts from, at no intermediate point either.
\<close>

theorem served_files_stay_inside:
  assumes "handle_file_request env mounts req res = (ok, req', res', Some (f, sz))"
    and "base \<noteq> []"
  shows "\<exists>e \<in> set mounts. \<exists>sub. f = mp_base_dir e @ slash # sub \<and> plain_chars sub \<and>
           stays_below base (components (slash # sub)) \<and> is_file (fe_stat env f) \<and> fe_open env f = Some sz"
proof -
  obtain e where e: "e \<in> set mounts" "f = mounted_path e (hr_path req)"
    "is_valid_path (slash # drop (length (mp_mount_point e)) (hr_path req))"
    "is_file (fe_stat env f)" "fe_open env f = Some sz" using provided_file [OF assms(1)] by metis
  then obtain sub where sub: "f = mp_base_dir e @ slash # sub" "is_valid_path (slash # sub)"
    using mounted_path_valid by metis
  then have "plain_chars sub" "stays_below base (components (slash # sub))"
    using valid_path_iff [OF assms(2), of "slash # sub"] by (simp_all add: plain_chars_def)
  with e sub(1) show ?thesis by blast
qed

definition example_env :: file_env where
  "example_env =
     \<lparr>fe_stat = (\<lambda>p. if p = ''/srv//index.html'' \<or> p = ''/srv//a.css'' then \<lparr>fi_found = True, fi_regular = True, fi_directory = False, fi_mtime = 10, fi_size = 3\<rparr>
                else if p \<in> {''/srv'', ''/srv//img''} then \<lparr>fi_found = True, fi_regular = False, fi_directory = True, fi_mtime = 10, fi_size = 0\<rparr>
                else \<lparr>fi_found = False, fi_regular = False, fi_directory = False, fi_mtime = 0, fi_size = 0\<rparr>),
      fe_open = (\<lambda>p. if p = ''/srv//index.html'' \<or> p = ''/srv//a.css'' then Some 3 else None),
      fe_http_date = (\<lambda>_. ''Thu, 01 Jan 1970 00:00:10 GMT''), fe_parse_date = (\<lambda>_. -1),
      fe_types = (\<lambda>_. None), fe_default_type = ''application/octet-stream''\<rparr>"

definition example_mount :: mount_point where
  "example_mount = \<lparr>mp_mount_point = ''/static'', mp_base_dir = ''/srv'', mp_headers = []\<rparr>"

lemma example_serves:
  "\<exists>req' res'. handle_file_request example_env [example_mount] (Http_Request\<lparr>hr_path := ''/static/''\<rparr>) Http_Response =
     (True, req', res', Some (''/srv//index.html'', 3))"
proof -
  have "case handle_file_request example_env [example_mount] (Http_Request\<lparr>hr_path := ''/static/''\<rparr>) Http_Response of
     (ok, req', res', p) \<Rightarrow> ok \<and> p = Some (''/srv//index.html'', 3)" by code_simp
  then show ?thesis by (simp only: split_beta prod_eq_iff fst_conv snd_conv) blast
qed

theorem served_files_stay_inside_witness:
  "\<exists>sub. ''/srv//index.html'' = ''/srv'' @ slash # sub \<and> plain_chars sub \<and>
     stays_below [''srv''] (components (slash # sub))"
proof -
  obtain req' res' where "handle_file_request example_env [example_mount] (Http_Request\<lparr>hr_path := ''/static/''\<rparr>) Http_Response =
     (True, req', res', Some (''/srv//index.html'', 3))" using example_serves by blast
  from served_files_stay_inside [OF this, of "[''srv'']"] show ?thesis by (auto simp: example_mount_def)
qed

text \<open>
  A directory below a mount: the redirection names the path behind the mount point with two slashes
  before it, and so leads to the host of that name.
\<close>

theorem directory_redirect_loses_mount_point:
  assumes "hr_path req = mp_mount_point e @ slash # d" "is_valid_path (slash # slash # d)" "d \<noteq> []" "last d \<noteq> slash"
    and "is_dir (fe_stat env (mp_base_dir e @ slash # slash # d))"
  shows "handle_file_request env (e # es) req res = (True, req, set_redirect (slash # slash # d @ [slash]) 301 res, None)"
proof -
  have "compare_eq 0 (length (mp_mount_point e)) (mp_mount_point e) (hr_path req)"
    using assms(1) by (simp add: compare_eq_def substr_def)
  moreover have "mounted_path e (hr_path req) = mp_base_dir e @ slash # slash # d"
    using assms by (simp add: mounted_path_def Let_def)
  ultimately show ?thesis unfolding handle_file_request_step using assms by simp
qed

text \<open>The prefix that matches does not have to end where a component of the path ends.\<close>

lemma mount_serves_longer_names:
  "\<exists>req' res'. handle_file_request example_env [example_mount] (Http_Request\<lparr>hr_path := ''/static/a.css''\<rparr>) Http_Response =
     (True, req', res', Some (''/srv//a.css'', 3)) \<and> hs_status res' = -1"
  and "compare_eq 0 (length ''/static'') ''/static'' ''/statics.css''"
proof -
  have "case handle_file_request example_env [example_mount] (Http_Request\<lparr>hr_path := ''/static/a.css''\<rparr>) Http_Response of
     (ok, req', res', p) \<Rightarrow> ok \<and> p = Some (''/srv//a.css'', 3) \<and> hs_status res' = -1" by code_simp
  then show "\<exists>req' res'. handle_file_request example_env [example_mount] (Http_Request\<lparr>hr_path := ''/static/a.css''\<rparr>) Http_Response =
     (True, req', res', Some (''/srv//a.css'', 3)) \<and> hs_status res' = -1"
    by (simp only: split_beta prod_eq_iff fst_conv snd_conv) blast
qed (simp add: compare_eq_def substr_def)

section \<open>Revalidation\<close>

lemma hex_text_inject [simp]: "from_i_to_hex m = from_i_to_hex n \<longleftrightarrow> m = n"
  using hex_text by metis

lemma hex_text_no_dash: "CHR ''-'' \<notin> set (from_i_to_hex n)" "CHR '','' \<notin> set (from_i_to_hex n)"
  using hex_text [of n] by (auto simp: is_hex_def is_digit_def code_def)

lemma etag_chars: "c \<in> set (compute_etag st) \<Longrightarrow> c \<noteq> CHR '','' \<and> \<not> is_space_or_tab c"
proof -
  have "c \<noteq> CHR '','' \<and> \<not> is_space_or_tab c" if "is_hex c \<noteq> None" for c
    using that by (auto simp: is_hex_def is_digit_def code_def is_space_or_tab_def)
  then have "c \<noteq> CHR '','' \<and> \<not> is_space_or_tab c" if "c \<in> set (from_i_to_hex n)" for c n
    using that hex_text [of n] by blast
  then show "c \<in> set (compute_etag st) \<Longrightarrow> c \<noteq> CHR '','' \<and> \<not> is_space_or_tab c"
    by (auto simp: compute_etag_def is_space_or_tab_def code_def split: if_splits)
qed

lemma cut_at_unique: "x \<notin> set a \<Longrightarrow> x \<notin> set b \<Longrightarrow> a @ x # s = b @ x # t \<longleftrightarrow> a = b \<and> s = t"
  by (auto simp: append_eq_append_conv2 append_eq_Cons_conv Cons_eq_append_conv)

text \<open>
  The entity tag of a file says exactly when it was modified and how long it is: two files have
  the same tag if and only if both agree.
\<close>

theorem etag_identifies:
  assumes "is_file a" "is_file b" "0 \<le> fi_mtime a" "0 \<le> fi_mtime b"
  shows "compute_etag a = compute_etag b \<longleftrightarrow> fi_mtime a = fi_mtime b \<and> fi_size a = fi_size b"
  using assms hex_text_no_dash
  by (simp add: compute_etag_def is_file_def stat_mtime_def stat_size_def cut_at_unique nat_eq_iff)

text \<open>
  A client that sends back the tag it was given, alone, is told that its copy is current: the
  file is not opened and no content is provided, whatever the modification date says.
\<close>

theorem revalidation_is_not_modified:
  assumes "is_file (fe_stat env path)" "0 \<le> fi_mtime (fe_stat env path)"
    and "has_header (hr_headers req) ''If-None-Match''"
    and "header_value (hr_headers req) ''If-None-Match'' = compute_etag (fe_stat env path)"
  shows "\<exists>res'. serve_file env e path req res = (True, req, res', None) \<and> hs_status res' = 304"
proof -
  let ?t = "compute_etag (fe_stat env path)"
  have t: "?t \<noteq> []" "CHR '','' \<notin> set ?t" "split_part ?t = [?t]"
    using assms(1,2) etag_chars [of _ "fe_stat env path"]
    by (simp_all add: split_part_dense compute_etag_def stat_mtime_def is_file_def, blast)
  then have "split_find ?t (CHR '','') (\<lambda>seg. seg = ''*'' \<or> seg = ?t)"
    by (simp add: split_find_def split_single)
  with assms(3,4) t(1) show ?thesis
    by (simp add: serve_file_def Let_def check_if_not_modified_def)
qed

end
