(* ===== verification/Http_Client.thy ===== *)
theory Http_Client
  imports Http_Body Web_Digest
begin

text \<open>
  The HTTP client (\<^verbatim>\<open>ClientImpl\<close> in \<^verbatim>\<open>external/httplib.h\<close>), without TLS and without content providers,
  receivers, progress callbacks and loggers: the header fields it adds, the request as it is
  written, the answer as it is read, redirections, and the life of its socket. What a peer sends is
  chosen in advance for each connection; the table order of header fields, whether an open socket
  is still alive, whether an answer comes within the second of \<^verbatim>\<open>Expect\<close>, and the memory for a body
  are parameters. Writing succeeds.
\<close>

section \<open>The client\<close>

datatype client_error =
    Err_Success | Err_Unknown | Err_Connection | Err_BindIPAddress | Err_Read | Err_Write
    | Err_ExceedRedirectCount | Err_Canceled | Err_SSLConnection | Err_SSLLoadingCerts
    | Err_SSLServerVerification | Err_SSLServerHostnameVerification
    | Err_UnsupportedMultipartBoundaryChars | Err_Compression | Err_ConnectionTimeout
    | Err_ProxyConnection | Err_ConnectionClosed | Err_Timeout | Err_ResourceExhaustion
    | Err_TooManyFormDataFiles | Err_ExceedMaxPayloadSize | Err_ExceedUriMaxLength
    | Err_ExceedMaxSocketDescriptorCount | Err_InvalidRequestLine | Err_InvalidHTTPMethod
    | Err_InvalidHTTPVersion | Err_InvalidHeaders | Err_MultipartParsing | Err_OpenFile | Err_Listen
    | Err_GetSockName | Err_UnsupportedAddressFamily | Err_HTTPParsing | Err_InvalidRangeHeader
    | Err_SSLPeerCouldBeClosed

record http_client =
  ci_host :: string
  ci_port :: int
  ci_socket :: "stream option"
  ci_default_headers :: headers
  ci_basic_auth_username :: string
  ci_basic_auth_password :: string
  ci_bearer_token_auth_token :: string
  ci_keep_alive :: bool
  ci_follow_location :: bool
  ci_path_encode :: bool
  ci_unix_socket :: bool
  ci_payload_max_length :: nat
  ci_proxy_host :: string
  ci_proxy_port :: int
  ci_proxy_basic_auth_username :: string
  ci_proxy_basic_auth_password :: string
  ci_proxy_bearer_token_auth_token :: string

definition escape_abstract_namespace_unix_domain :: "string \<Rightarrow> string" where
  "escape_abstract_namespace_unix_domain s =
     (if length s > 1 \<and> code (s ! 0) = 0 then CHR ''@'' # tl s else s)"

definition ClientImpl :: "string \<Rightarrow> int \<Rightarrow> http_client" where
  "ClientImpl host port =
     \<lparr>ci_host = escape_abstract_namespace_unix_domain host, ci_port = port, ci_socket = None, ci_default_headers = [],
      ci_basic_auth_username = [], ci_basic_auth_password = [], ci_bearer_token_auth_token = [],
      ci_keep_alive = False, ci_follow_location = False, ci_path_encode = True, ci_unix_socket = False,
      ci_payload_max_length = CPPHTTPLIB_PAYLOAD_MAX_LENGTH, ci_proxy_host = [], ci_proxy_port = -1,
      ci_proxy_basic_auth_username = [], ci_proxy_basic_auth_password = [], ci_proxy_bearer_token_auth_token = []\<rparr>"

definition set_basic_auth :: "string \<Rightarrow> string \<Rightarrow> http_client \<Rightarrow> http_client" where
  "set_basic_auth user password c = c\<lparr>ci_basic_auth_username := user, ci_basic_auth_password := password\<rparr>"

definition set_bearer_token_auth :: "string \<Rightarrow> http_client \<Rightarrow> http_client" where
  "set_bearer_token_auth token c = c\<lparr>ci_bearer_token_auth_token := token\<rparr>"

definition set_keep_alive :: "bool \<Rightarrow> http_client \<Rightarrow> http_client" where
  "set_keep_alive on c = c\<lparr>ci_keep_alive := on\<rparr>"

definition set_follow_location :: "bool \<Rightarrow> http_client \<Rightarrow> http_client" where
  "set_follow_location on c = c\<lparr>ci_follow_location := on\<rparr>"

definition set_path_encode :: "bool \<Rightarrow> http_client \<Rightarrow> http_client" where
  "set_path_encode on c = c\<lparr>ci_path_encode := on\<rparr>"

definition set_default_headers :: "headers \<Rightarrow> http_client \<Rightarrow> http_client" where
  "set_default_headers hs c = c\<lparr>ci_default_headers := hs\<rparr>"

definition set_payload_max_length :: "nat \<Rightarrow> http_client \<Rightarrow> http_client" where
  "set_payload_max_length n c = c\<lparr>ci_payload_max_length := n\<rparr>"

definition set_proxy :: "string \<Rightarrow> int \<Rightarrow> http_client \<Rightarrow> http_client" where
  "set_proxy host port c = c\<lparr>ci_proxy_host := host, ci_proxy_port := port\<rparr>"

definition set_proxy_basic_auth :: "string \<Rightarrow> string \<Rightarrow> http_client \<Rightarrow> http_client" where
  "set_proxy_basic_auth user password c =
     c\<lparr>ci_proxy_basic_auth_username := user, ci_proxy_basic_auth_password := password\<rparr>"

definition set_proxy_bearer_token_auth :: "string \<Rightarrow> http_client \<Rightarrow> http_client" where
  "set_proxy_bearer_token_auth token c = c\<lparr>ci_proxy_bearer_token_auth_token := token\<rparr>"

definition has_proxy :: "http_client \<Rightarrow> bool" where
  "has_proxy c \<longleftrightarrow> ci_proxy_host c \<noteq> [] \<and> ci_proxy_port c \<noteq> -1"

text \<open>
  The surroundings. \<open>ce_connect\<close> is asked with the number of redirections that are left, the host
  and the port.
\<close>

record client_env =
  ce_connect :: "nat \<Rightarrow> string \<Rightarrow> int \<Rightarrow> client_error + stream"
  ce_alive :: "nat \<Rightarrow> bool"
  ce_ready :: "nat \<Rightarrow> bool"
  ce_arrange :: "headers \<Rightarrow> headers"
  ce_memory :: "nat \<Rightarrow> bool"

section \<open>Header fields that the client adds\<close>

definition set_request_header :: "string \<Rightarrow> string \<Rightarrow> http_request \<Rightarrow> http_request" where
  "set_request_header key val req =
     (if is_field_name key \<and> is_field_value val
      then req\<lparr>hr_headers := header_emplace key val (hr_headers req)\<rparr> else req)"

definition emplace_missing :: "string \<times> string \<Rightarrow> http_request \<Rightarrow> http_request" where
  "emplace_missing h req =
     (if has_header (hr_headers req) (fst h) then req
      else req\<lparr>hr_headers := header_emplace (fst h) (snd h) (hr_headers req)\<rparr>)"

definition prepare_host_string :: "string \<Rightarrow> string" where
  "prepare_host_string host =
     (if CHR '':'' \<notin> set host \<or> (host \<noteq> [] \<and> host ! 0 = CHR ''['') then host else ''['' @ host @ '']'')"

definition make_host_and_port_string :: "string \<Rightarrow> int \<Rightarrow> bool \<Rightarrow> string" where
  "make_host_and_port_string host port is_ssl =
     prepare_host_string host
     @ (if (\<not> is_ssl \<and> port = 80) \<or> (is_ssl \<and> port = 443) then [] else '':'' @ to_string port)"

definition make_basic_authentication_header :: "string \<Rightarrow> string \<Rightarrow> bool \<Rightarrow> string \<times> string" where
  "make_basic_authentication_header username password is_proxy =
     (if is_proxy then ''Proxy-Authorization'' else ''Authorization'',
      ''Basic '' @ base64_encode (username @ '':'' @ password))"

definition make_bearer_token_authentication_header :: "string \<Rightarrow> bool \<Rightarrow> string \<times> string" where
  "make_bearer_token_authentication_header token is_proxy =
     (if is_proxy then ''Proxy-Authorization'' else ''Authorization'', ''Bearer '' @ token)"

definition prepare_default_headers :: "client_env \<Rightarrow> http_client \<Rightarrow> string \<Rightarrow> http_request \<Rightarrow> http_request" where
  "prepare_default_headers env c ct req =
     (let req = fold emplace_missing (ce_arrange env (ci_default_headers c)) req;
          req = emplace_missing
            (''Host'', if ci_unix_socket c then ''localhost'' else make_host_and_port_string (ci_host c) (ci_port c) False) req;
          req = emplace_missing (''Accept'', ''*/*'') req;
          req = (if has_header (hr_headers req) ''Accept-Encoding'' then req else set_request_header ''Accept-Encoding'' [] req);
          req = (if has_header (hr_headers req) ''User-Agent'' then req
                 else set_request_header ''User-Agent'' ''cpp-httplib/0.37.0'' req)
      in if hr_body req = [] then req
         else let req = (if ct = [] then req else emplace_missing (''Content-Type'', ct) req)
              in emplace_missing (''Content-Length'', show_nat (length (hr_body req))) req)"

definition add_authorization :: "http_client \<Rightarrow> http_request \<Rightarrow> http_request" where
  "add_authorization c req =
     (let req = (if ci_basic_auth_password c \<noteq> [] \<or> ci_basic_auth_username c \<noteq> []
                 then emplace_missing
                   (make_basic_authentication_header (ci_basic_auth_username c) (ci_basic_auth_password c) False) req
                 else req);
          req = (if ci_proxy_basic_auth_username c \<noteq> [] \<and> ci_proxy_basic_auth_password c \<noteq> []
                 then emplace_missing
                   (make_basic_authentication_header (ci_proxy_basic_auth_username c) (ci_proxy_basic_auth_password c) True) req
                 else req);
          req = (if ci_bearer_token_auth_token c \<noteq> []
                 then emplace_missing (make_bearer_token_authentication_header (ci_bearer_token_auth_token c) False) req
                 else req)
      in if ci_proxy_bearer_token_auth_token c \<noteq> []
         then emplace_missing (make_bearer_token_authentication_header (ci_proxy_bearer_token_auth_token c) True) req
         else req)"

section \<open>Writing a request\<close>

text \<open>The expression \<^verbatim>\<open>[^?]+\?.*\<close>, whose dot is no end of a line.\<close>

definition has_query :: "string \<Rightarrow> bool" where
  "has_query path \<longleftrightarrow>
     (let before = takeWhile (\<lambda>c. c \<noteq> CHR ''?'') path; after = drop (length before) path
      in before \<noteq> [] \<and> after \<noteq> [] \<and> list_all (\<lambda>c. code c \<noteq> 10 \<and> code c \<noteq> 13) after)"

definition append_query_params :: "string \<Rightarrow> params \<Rightarrow> string" where
  "append_query_params path ps = path @ [if has_query path then CHR ''&'' else CHR ''?''] @ params_to_query_str ps"

text \<open>The target that is written, and the parameters of the request afterwards.\<close>

definition request_target :: "http_client \<Rightarrow> http_request \<Rightarrow> string \<times> params" where
  "request_target c req =
     (let path_part = takeWhile (\<lambda>ch. ch \<noteq> CHR ''?'') (hr_path req);
          query_part = drop (length path_part + 1) (hr_path req);
          path_with_query = (if ci_path_encode c then encode_path path_part else path_part);
          ps = parse_query_text query_part (hr_params req)
      in if query_part \<noteq> []
         then let normalized = normalize_query_string query_part
              in (if normalized \<noteq> [] then path_with_query @ ''?'' @ normalized else path_with_query, ps)
         else (if ps \<noteq> [] then append_query_params path_with_query ps else path_with_query, ps))"

text \<open>Without a content provider, a body that is empty is written as nothing.\<close>

definition write_request_body :: "stream \<Rightarrow> http_request \<Rightarrow> client_error \<Rightarrow> stream \<times> client_error" where
  "write_request_body strm req err =
     (if hr_body req = [] then (strm, Err_Success) else (write_stream (hr_body req) strm, err))"

text \<open>The fields a request has when it is written.\<close>

definition complete_headers :: "client_env \<Rightarrow> http_client \<Rightarrow> bool \<Rightarrow> http_request \<Rightarrow> http_request" where
  "complete_headers env c close_connection req =
     (let req = (if close_connection \<and> \<not> has_header (hr_headers req) ''Connection''
                 then set_request_header ''Connection'' ''close'' req else req);
          ct = (if \<not> has_header (hr_headers req) ''Content-Type'' \<and> hr_body req \<noteq> [] then ''text/plain'' else []);
          req = prepare_default_headers env c ct req;
          req = (if hr_body req = [] \<and> hr_method req \<in> {''POST'', ''PUT'', ''PATCH''}
                 then set_request_header ''Content-Length'' ''0'' req else req)
      in add_authorization c req)"

definition write_request ::
  "client_env \<Rightarrow> http_client \<Rightarrow> stream \<Rightarrow> http_request \<Rightarrow> bool \<Rightarrow> client_error \<Rightarrow> bool
     \<Rightarrow> bool \<times> stream \<times> http_request \<times> client_error" where
  "write_request env c strm req close_connection err skip_body =
     (let req = complete_headers env c close_connection req;
          (target, ps) = request_target c req;
          req = req\<lparr>hr_params := ps\<rparr>
      in if \<not> list_all (\<lambda>h. is_field_name (fst h) \<and> is_field_value (snd h)) (hr_headers req)
         then (False, strm, req, Err_InvalidHeaders)
         else let strm = write_request_line (hr_method req) target strm;
                  strm = write_stream (write_headers (ce_arrange env (hr_headers req))) strm
              in if skip_body then (True, strm, req, err)
                 else case write_request_body strm req err of (strm, err) \<Rightarrow> (True, strm, req, err))"

section \<open>Reading a response\<close>

record client_response =
  cs_version :: string
  cs_status :: int
  cs_reason :: string
  cs_headers :: headers
  cs_trailers :: headers
  cs_body :: string
  cs_location :: string

definition Client_Response :: client_response where
  "Client_Response = \<lparr>cs_version = [], cs_status = -1, cs_reason = [], cs_headers = [], cs_trailers = [],
                      cs_body = [], cs_location = []\<rparr>"

text \<open>The expression \<^verbatim>\<open>(HTTP/1\.[01]) (\d{3})(?: (.*?))?\r\n\<close> on a C string.\<close>

definition match_status_line :: "string \<Rightarrow> (string \<times> int \<times> string) option" where
  "match_status_line s =
     (let version = take 8 s; status = substr 9 3 s; rest = drop 12 s;
          reason = substr 1 (length rest - 3) rest
      in if version \<notin> {''HTTP/1.0'', ''HTTP/1.1''} \<or> substr 8 1 s \<noteq> '' '' \<or> length status \<noteq> 3 \<or> \<not> list_all is_digit status
         then None
         else if rest = crlf then Some (version, int (digits_value status), [])
         else if rest = '' '' @ reason @ crlf \<and> list_all (\<lambda>c. code c \<noteq> 10 \<and> code c \<noteq> 13) reason
              then Some (version, int (digits_value status), reason)
              else None)"

definition set_status_line :: "string \<times> int \<times> string \<Rightarrow> client_response \<Rightarrow> client_response" where
  "set_status_line m res = (case m of (v, st, r) \<Rightarrow> res\<lparr>cs_version := v, cs_status := st, cs_reason := r\<rparr>)"

text \<open>Passing over \<^verbatim>\<open>100 Continue\<close>: an empty line and the next status line.\<close>

function skip_continue :: "line_reader \<Rightarrow> stream \<Rightarrow> client_response \<Rightarrow> bool \<times> stream \<times> client_response" where
  "skip_continue lr strm res =
     (if cs_status res = 100
      then case getline strm lr of
             (ok, strm1, lr1) \<Rightarrow>
               if \<not> ok then (False, strm1, res)
               else (case getline strm1 lr1 of
                       (ok, strm2, lr2) \<Rightarrow>
                         if \<not> ok then (False, strm2, res)
                         else (case match_status_line (c_str (line_text lr2)) of
                                 None \<Rightarrow> (False, strm2, res)
                               | Some m \<Rightarrow> skip_continue lr2 strm2 (set_status_line m res)))
      else (True, strm, res))"
  by pat_completeness auto
termination
proof (relation "measure (\<lambda>(_, strm, _). length (st_in strm))", goal_cases)
  case (2 lr strm res x y xa ya xb yb xc yc x2)
  then have "length (st_in xc) < length (st_in xa)" "length (st_in xa) < length (st_in strm)"
    using getline_consumes [of xa ya xc yc] getline_consumes [of strm lr xa ya] by auto
  then show ?case by simp
qed simp

declare skip_continue.simps [simp del]

definition read_response_line ::
  "stream \<Rightarrow> string \<Rightarrow> client_response \<Rightarrow> bool \<Rightarrow> bool \<times> stream \<times> client_response" where
  "read_response_line strm meth res skip_100_continue =
     (case getline strm (stream_line_reader 2048) of
        (ok, strm, lr) \<Rightarrow>
          if \<not> ok then (False, strm, res)
          else (case match_status_line (c_str (line_text lr)) of
                  None \<Rightarrow> (meth = ''CONNECT'', strm, res)
                | Some m \<Rightarrow>
                    if skip_100_continue then skip_continue lr strm (set_status_line m res)
                    else (True, strm, set_status_line m res)))"

definition read_response_head ::
  "stream \<Rightarrow> string \<Rightarrow> client_response \<Rightarrow> bool \<Rightarrow> bool \<times> stream \<times> client_response" where
  "read_response_head strm meth res skip_100_continue =
     (case read_response_line strm meth res skip_100_continue of
        (ok, strm, res) \<Rightarrow>
          if \<not> ok then (False, strm, res)
          else (case read_headers strm (cs_headers res) of
                  (ok, strm, hs) \<Rightarrow> (ok, strm, res\<lparr>cs_headers := hs\<rparr>)))"

text \<open>What a request ends with: it raises an exception, or it returns a flag.\<close>

datatype client_exception = Stoi_Out_Of_Range | Bad_Alloc

datatype outcome = Raises client_exception | Returns bool

definition client_receiver :: "nat \<Rightarrow> string receiver" where
  "client_receiver payload_max d body =
     (if payload_max > 0 \<and> (length body \<ge> payload_max \<or> length d > payload_max - length body)
      then (False, body) else (True, body @ d))"

text \<open>\<^verbatim>\<open>max_size\<close> of a string.\<close>

definition string_max_size :: nat where
  "string_max_size = 2 ^ 63 - 1"

definition read_response_body ::
  "client_env \<Rightarrow> http_client \<Rightarrow> stream \<Rightarrow> string \<Rightarrow> client_response \<Rightarrow> client_error
     \<Rightarrow> outcome \<times> stream \<times> client_response \<times> client_error" where
  "read_response_body env c strm meth res err =
     (if cs_status res = 204 \<or> meth = ''HEAD'' \<or> meth = ''CONNECT'' then (Returns True, strm, res, err)
      else let len = (if has_header (cs_headers res) ''Content-Length''
                      then fst (get_header_value_u64 (cs_headers res) ''Content-Length'' 0 0) else 0)
           in if len > string_max_size then (Returns False, strm, res, Err_Read)
              else if \<not> ce_memory env len then (Raises Bad_Alloc, strm, res, err)
              else if cs_status res = 304 then (Returns True, strm, res, err)
              else case detail_read_content strm
                          (Http_Request\<lparr>hr_headers := cs_headers res, hr_trailers := cs_trailers res\<rparr>)
                          (ci_payload_max_length c) 0 (client_receiver (ci_payload_max_length c)) (cs_body res) of
                     ((ok, _), x, strm, body) \<Rightarrow>
                       let res = res\<lparr>cs_trailers := hr_trailers x, cs_body := body\<rparr>
                       in if ok then (Returns True, strm, res, err) else (Returns False, strm, res, Err_Read))"

section \<open>A request and its answer\<close>

definition CPPHTTPLIB_EXPECT_100_THRESHOLD :: nat where
  "CPPHTTPLIB_EXPECT_100_THRESHOLD = 1024"

text \<open>From the first line of the answer on; \<open>expect\<close>: the body has not been written yet.\<close>

definition receive_response ::
  "client_env \<Rightarrow> http_client \<Rightarrow> stream \<Rightarrow> http_request \<Rightarrow> client_response \<Rightarrow> bool \<Rightarrow> bool \<Rightarrow> client_error
     \<Rightarrow> outcome \<times> stream \<times> client_response \<times> client_error" where
  "receive_response env c strm req res written expect err =
     (case read_response_head strm (hr_method req) res (\<not> expect) of
        (ok, strm, res) \<Rightarrow>
          if \<not> ok then (Returns False, strm, res, if written then Err_Read else err)
          else if \<not> written then (Returns False, strm, res, err)
          else if expect \<and> cs_status res = 100
          then (case write_request_body strm req err of
                  (strm, err) \<Rightarrow>
                    (case read_response_head strm (hr_method req) (res\<lparr>cs_headers := [], cs_body := []\<rparr>) True of
                       (ok, strm, res) \<Rightarrow>
                         if \<not> ok then (Returns False, strm, res, Err_Read)
                         else read_response_body env c strm (hr_method req) res err))
          else read_response_body env c strm (hr_method req) res err)"

definition client_process_request ::
  "client_env \<Rightarrow> http_client \<Rightarrow> bool \<Rightarrow> stream \<Rightarrow> http_request \<Rightarrow> client_response \<Rightarrow> bool \<Rightarrow> client_error
     \<Rightarrow> outcome \<times> stream \<times> http_request \<times> client_response \<times> client_error" where
  "client_process_request env c ready strm req res close_connection err =
     (let req = (if \<not> has_header (hr_headers req) ''Expect'' \<and> length (hr_body req) \<ge> CPPHTTPLIB_EXPECT_100_THRESHOLD
                 then set_request_header ''Expect'' ''100-continue'' req else req);
          expect = (header_value (hr_headers req) ''Expect'' = ''100-continue'')
      in case write_request env c strm req close_connection err expect of
           (written, strm, req, err) \<Rightarrow>
             let (strm, err) = (if expect \<and> \<not> ready then write_request_body strm req err else (strm, err));
                 expect = (expect \<and> ready)
             in case receive_response env c strm req res written expect err of
                  (r, strm, res, err) \<Rightarrow> (r, strm, req, res, err))"

section \<open>Redirections\<close>

text \<open>
  The expression that takes a location apart: scheme, host, port, path and query, each empty
  where it is missing. After the two slashes there is a host, in brackets or not, and after a
  colon there are digits; otherwise slashes and colon belong to what follows.
\<close>

record location_parts =
  lp_scheme :: string
  lp_host :: string
  lp_port :: string
  lp_path :: string
  lp_query :: string

definition take_scheme :: "string \<Rightarrow> string \<times> string" where
  "take_scheme s =
     (if take 5 s = ''http:'' then (''http'', drop 5 s)
      else if take 6 s = ''https:'' then (''https'', drop 6 s)
      else ([], s))"

definition bracketed_host :: "string \<Rightarrow> string option" where
  "bracketed_host s =
     (let h = takeWhile (\<lambda>c. is_hex c \<noteq> None \<or> c = CHR '':'') (drop 1 s)
      in if take 1 s = ''['' \<and> h \<noteq> [] \<and> substr (length h + 1) 1 s = '']'' then Some h else None)"

definition take_authority :: "string \<Rightarrow> string \<times> string \<times> string" where
  "take_authority s =
     (let t = drop 2 s;
          (host, rest) = (case bracketed_host t of
                            Some h \<Rightarrow> (h, drop (length h + 2) t)
                          | None \<Rightarrow> (let h = takeWhile (\<lambda>c. c \<notin> set '':/?#'') t in (h, drop (length h) t)));
          port = takeWhile is_digit (drop 1 rest)
      in if take 2 s \<noteq> ''//'' \<or> host = [] then ([], [], s)
         else if take 1 rest = '':'' \<and> port \<noteq> [] then (host, port, drop (length port + 1) rest)
         else (host, [], rest))"

definition parse_location :: "string \<Rightarrow> location_parts option" where
  "parse_location s =
     (let (scheme, s) = take_scheme s;
          (host, port, s) = take_authority s;
          path = takeWhile (\<lambda>c. c \<notin> set ''?#'') s;
          s = drop (length path) s;
          query = (if take 1 s = ''?'' then takeWhile (\<lambda>c. c \<noteq> CHR ''#'') s else []);
          fragment = drop (length query) s
      in if list_all (\<lambda>c. code c \<noteq> 10 \<and> code c \<noteq> 13) fragment
         then Some \<lparr>lp_scheme = scheme, lp_host = host, lp_port = port, lp_path = path, lp_query = query\<rparr>
         else None)"

text \<open>Where a redirection leads to.\<close>

record redirect_target =
  rt_scheme :: string
  rt_host :: string
  rt_port :: int
  rt_path :: string

definition redirect_target :: "http_client \<Rightarrow> location_parts \<Rightarrow> redirect_target option" where
  "redirect_target c m =
     (case (if lp_port m \<noteq> [] then (case stoi (lp_port m) of Inl _ \<Rightarrow> None | Inr p \<Rightarrow> Some p)
            else if lp_scheme m \<noteq> [] then Some (if lp_scheme m = ''https'' then 443 else 80)
            else Some (ci_port c)) of
        None \<Rightarrow> None
      | Some port \<Rightarrow> Some
          \<lparr>rt_scheme = (if lp_scheme m = [] then ''http'' else lp_scheme m),
           rt_host = (if lp_host m = [] then ci_host c else lp_host m), rt_port = port,
           rt_path = decode_query_component (if lp_path m = [] then ''/'' else lp_path m) True @ lp_query m\<rparr>)"

text \<open>The client for another host: settings and credentials are copied, default headers are not.\<close>

definition setup_redirect_client :: "http_client \<Rightarrow> http_client \<Rightarrow> http_client" where
  "setup_redirect_client this c =
     (let c = set_keep_alive (ci_keep_alive this) c;
          c = set_follow_location True c;
          c = set_path_encode (ci_path_encode this) c;
          c = (if ci_basic_auth_username this \<noteq> []
               then set_basic_auth (ci_basic_auth_username this) (ci_basic_auth_password this) c else c);
          c = (if ci_bearer_token_auth_token this \<noteq> []
               then set_bearer_token_auth (ci_bearer_token_auth_token this) c else c);
          c = (if has_proxy this
               then let c = set_proxy (ci_proxy_host this) (ci_proxy_port this) c;
                        c = (if ci_proxy_basic_auth_username this \<noteq> []
                             then set_proxy_basic_auth (ci_proxy_basic_auth_username this)
                                    (ci_proxy_basic_auth_password this) c else c)
                    in if ci_proxy_bearer_token_auth_token this \<noteq> []
                       then set_proxy_bearer_token_auth (ci_proxy_bearer_token_auth_token this) c else c
               else c)
      in c\<lparr>ci_unix_socket := ci_unix_socket this\<rparr>)"

definition erase_headers :: "string list \<Rightarrow> headers \<Rightarrow> headers" where
  "erase_headers names hs = filter (\<lambda>h. \<not> list_ex (ci_equal (fst h)) names) hs"

definition host_specific_headers :: "string list" where
  "host_specific_headers = [''Host'', ''Proxy-Authorization'', ''Authorization'']"

text \<open>The request that follows a redirection.\<close>

definition redirected_request :: "http_request \<Rightarrow> int \<Rightarrow> string \<Rightarrow> http_request" where
  "redirected_request req status path =
     (let new_req = req\<lparr>hr_path := path\<rparr>
      in if status = 303 \<and> hr_method req \<noteq> ''GET'' \<and> hr_method req \<noteq> ''HEAD''
         then new_req\<lparr>hr_method := ''GET'', hr_body := [], hr_headers := []\<rparr> else new_req)"

section \<open>Sending\<close>

text \<open>What was written, and to which peer, one entry for each exchange.\<close>

type_synonym sent_log = "(string \<times> int \<times> string) list"

record send_result =
  sr_outcome :: outcome
  sr_error :: client_error
  sr_client :: http_client
  sr_request :: http_request
  sr_response :: client_response
  sr_sent :: sent_log

type_synonym sender = "http_client \<Rightarrow> http_request \<Rightarrow> client_error \<Rightarrow> send_result"

text \<open>\<^verbatim>\<open>detail::redirect\<close>; \<open>keep\<close> says what becomes of this client.\<close>

definition detail_redirect ::
  "sender \<Rightarrow> http_client \<Rightarrow> (http_client \<Rightarrow> http_client) \<Rightarrow> http_request \<Rightarrow> client_response \<Rightarrow> string \<Rightarrow> string
     \<Rightarrow> client_error \<Rightarrow> send_result" where
  "detail_redirect send cli keep req res path location err =
     (let r = send cli (redirected_request req (cs_status res) path) err;
          r = r\<lparr>sr_client := keep (sr_client r)\<rparr>
      in if sr_outcome r = Returns True
         then (if cs_location (sr_response r) = []
               then r\<lparr>sr_response := (sr_response r)\<lparr>cs_location := location\<rparr>\<rparr> else r)
         else r\<lparr>sr_request := req, sr_response := res\<rparr>)"

definition create_redirect_client ::
  "sender \<Rightarrow> http_client \<Rightarrow> redirect_target \<Rightarrow> http_request \<Rightarrow> client_response \<Rightarrow> string \<Rightarrow> client_error \<Rightarrow> send_result" where
  "create_redirect_client send c t req res location err =
     (let req = req\<lparr>hr_headers := erase_headers host_specific_headers (hr_headers req)\<rparr>
      in if rt_scheme t = ''https''
         then \<lparr>sr_outcome = Returns False, sr_error = Err_SSLConnection, sr_client = c, sr_request = req,
               sr_response = res, sr_sent = []\<rparr>
         else detail_redirect send (setup_redirect_client c (ClientImpl (rt_host t) (rt_port t))) (\<lambda>_. c)
                req res (rt_path t) location err)"

text \<open>\<open>send\<close> is \<^term>\<open>None\<close> when no redirection is left.\<close>

definition client_redirect ::
  "sender option \<Rightarrow> http_client \<Rightarrow> http_request \<Rightarrow> client_response \<Rightarrow> client_error \<Rightarrow> send_result" where
  "client_redirect send c req res err =
     (let result = (\<lambda>out e. \<lparr>sr_outcome = out, sr_error = e, sr_client = c, sr_request = req, sr_response = res, sr_sent = []\<rparr>);
          location = header_value (cs_headers res) ''location''
      in case send of
           None \<Rightarrow> result (Returns False) Err_ExceedRedirectCount
         | Some send \<Rightarrow>
             if location = [] then result (Returns False) err
             else (case parse_location location of
                     None \<Rightarrow> result (Returns False) err
                   | Some m \<Rightarrow>
                       (case redirect_target c m of
                          None \<Rightarrow> result (Raises Stoi_Out_Of_Range) err
                        | Some t \<Rightarrow>
                            if rt_scheme t = ''http'' \<and> rt_host t = ci_host c \<and> rt_port t = ci_port c
                            then detail_redirect send c (\<lambda>c. c) req res (rt_path t) location err
                            else create_redirect_client send c t req res location err)))"

definition client_peer :: "http_client \<Rightarrow> string \<times> int" where
  "client_peer c = (if has_proxy c then (ci_proxy_host c, ci_proxy_port c) else (ci_host c, ci_port c))"

text \<open>The open socket if it is alive, or a new one.\<close>

definition client_connect :: "client_env \<Rightarrow> nat \<Rightarrow> http_client \<Rightarrow> client_error + stream" where
  "client_connect env n c =
     (case (if ce_alive env n then ci_socket c else None) of
        Some strm \<Rightarrow> Inr strm
      | None \<Rightarrow> ce_connect env n (fst (client_peer c)) (snd (client_peer c)))"

text \<open>The start of \<^verbatim>\<open>handle_request\<close>: the exchange itself, through a proxy with an absolute target.\<close>

definition client_exchange ::
  "client_env \<Rightarrow> http_client \<Rightarrow> bool \<Rightarrow> stream \<Rightarrow> http_request \<Rightarrow> bool \<Rightarrow> client_error
     \<Rightarrow> outcome \<times> stream \<times> http_request \<times> client_response \<times> client_error" where
  "client_exchange env c ready strm req close_connection err =
     (if has_proxy c
      then let req2 = req\<lparr>hr_path := ''http://'' @ make_host_and_port_string (ci_host c) (ci_port c) False @ hr_path req\<rparr>
           in case client_process_request env c ready strm req2 Client_Response close_connection err of
                (r, strm, req2, res, err) \<Rightarrow> (r, strm, req2\<lparr>hr_path := hr_path req\<rparr>, res, err)
      else client_process_request env c ready strm req Client_Response close_connection err)"

definition server_closes :: "client_response \<Rightarrow> bool" where
  "server_closes res \<longleftrightarrow>
     header_value (cs_headers res) ''Connection'' = ''close'' \<or>
     cs_version res = ''HTTP/1.0'' \<and> cs_reason res \<noteq> ''Connection established''"

definition handle_request_client ::
  "client_env \<Rightarrow> sender option \<Rightarrow> http_client \<Rightarrow> bool \<Rightarrow> stream \<Rightarrow> http_request \<Rightarrow> bool \<Rightarrow> client_error \<Rightarrow> send_result" where
  "handle_request_client env send c ready strm req close_connection err =
     (if hr_path req = []
      then \<lparr>sr_outcome = Returns False, sr_error = Err_Connection, sr_client = c\<lparr>ci_socket := Some strm\<rparr>,
            sr_request = req, sr_response = Client_Response, sr_sent = []\<rparr>
      else case client_exchange env c ready strm req close_connection err of
             (out, strm', req', res, err) \<Rightarrow>
               let sent = (fst (client_peer c), snd (client_peer c), drop (length (st_out strm)) (st_out strm'));
                   c = c\<lparr>ci_socket := (if out = Returns True \<and> server_closes res then None else Some strm')\<rparr>
               in if out = Returns True \<and> 300 < cs_status res \<and> cs_status res < 400 \<and> ci_follow_location c
                  then let r = client_redirect send c req res err in r\<lparr>sr_sent := sent # sr_sent r\<rparr>
                  else \<lparr>sr_outcome = out, sr_error = err, sr_client = c, sr_request = req', sr_response = res,
                        sr_sent = [sent]\<rparr>)"

text \<open>The default headers are added where the table of the request has no such entry.\<close>

definition insert_missing :: "string \<times> string \<Rightarrow> http_request \<Rightarrow> http_request" where
  "insert_missing h req =
     (if equal_range (hr_headers req) (fst h) \<noteq> [] then req
      else req\<lparr>hr_headers := header_emplace (fst h) (snd h) (hr_headers req)\<rparr>)"

text \<open>\<^verbatim>\<open>send_\<close>, with the closing of the socket when the scope is left.\<close>

definition send_step :: "client_env \<Rightarrow> nat \<Rightarrow> sender option \<Rightarrow> sender" where
  "send_step env n send c req err =
     (case client_connect env n c of
        Inl e \<Rightarrow> \<lparr>sr_outcome = Returns False, sr_error = e, sr_client = c\<lparr>ci_socket := None\<rparr>, sr_request = req,
                 sr_response = Client_Response, sr_sent = []\<rparr>
      | Inr strm \<Rightarrow>
          let req = fold insert_missing (ce_arrange env (ci_default_headers c)) req;
              close_connection = (\<not> ci_keep_alive c);
              r = handle_request_client env send c (ce_ready env n) strm req close_connection err;
              r = (if close_connection \<or> sr_outcome r \<noteq> Returns True
                   then r\<lparr>sr_client := (sr_client r)\<lparr>ci_socket := None\<rparr>\<rparr> else r)
          in if sr_outcome r = Returns False \<and> sr_error r = Err_Success then r\<lparr>sr_error := Err_Unknown\<rparr> else r)"

text \<open>The argument is \<^verbatim>\<open>redirect_count_\<close>.\<close>

primrec client_send :: "client_env \<Rightarrow> nat \<Rightarrow> sender" where
  "client_send env 0 = send_step env 0 None"
| "client_send env (Suc n) = send_step env (Suc n) (Some (client_send env n))"

definition CPPHTTPLIB_REDIRECT_MAX_COUNT :: nat where
  "CPPHTTPLIB_REDIRECT_MAX_COUNT = 20"

text \<open>What the caller gets: the response, if there is one, the error and the fields of the request.\<close>

type_synonym client_result = "client_exception + client_response option \<times> client_error \<times> headers"

definition client_call :: "client_env \<Rightarrow> http_request \<Rightarrow> http_client \<Rightarrow> client_result \<times> http_client \<times> sent_log" where
  "client_call env req c =
     (let r = client_send env CPPHTTPLIB_REDIRECT_MAX_COUNT c req Err_Success
      in (case sr_outcome r of
            Raises e \<Rightarrow> Inl e
          | Returns ok \<Rightarrow> Inr (if ok then Some (sr_response r) else None, sr_error r, hr_headers (sr_request r)),
          sr_client r, sr_sent r))"

section \<open>The calls of the interface\<close>

definition client_request :: "string \<Rightarrow> string \<Rightarrow> headers \<Rightarrow> http_request" where
  "client_request meth path hs = Http_Request\<lparr>hr_method := meth, hr_path := path, hr_headers := hs\<rparr>"

definition body_request :: "string \<Rightarrow> string \<Rightarrow> headers \<Rightarrow> string \<Rightarrow> string \<Rightarrow> http_request" where
  "body_request meth path hs body content_type =
     (let req = client_request meth path hs;
          req = (if content_type = [] then req else set_request_header ''Content-Type'' content_type req)
      in req\<lparr>hr_body := body\<rparr>)"

definition Get :: "client_env \<Rightarrow> string \<Rightarrow> headers \<Rightarrow> http_client \<Rightarrow> client_result \<times> http_client \<times> sent_log" where
  "Get env path hs = client_call env (client_request ''GET'' path hs)"

definition Get_params ::
  "client_env \<Rightarrow> string \<Rightarrow> params \<Rightarrow> headers \<Rightarrow> http_client \<Rightarrow> client_result \<times> http_client \<times> sent_log" where
  "Get_params env path ps hs =
     (if ps = [] then Get env path hs else Get env (append_query_params path ps) hs)"

definition Head :: "client_env \<Rightarrow> string \<Rightarrow> headers \<Rightarrow> http_client \<Rightarrow> client_result \<times> http_client \<times> sent_log" where
  "Head env path hs = client_call env (client_request ''HEAD'' path hs)"

definition Options :: "client_env \<Rightarrow> string \<Rightarrow> headers \<Rightarrow> http_client \<Rightarrow> client_result \<times> http_client \<times> sent_log" where
  "Options env path hs = client_call env (client_request ''OPTIONS'' path hs)"

definition Post ::
  "client_env \<Rightarrow> string \<Rightarrow> headers \<Rightarrow> string \<Rightarrow> string \<Rightarrow> http_client \<Rightarrow> client_result \<times> http_client \<times> sent_log" where
  "Post env path hs body content_type = client_call env (body_request ''POST'' path hs body content_type)"

definition Post_params ::
  "client_env \<Rightarrow> string \<Rightarrow> headers \<Rightarrow> params \<Rightarrow> http_client \<Rightarrow> client_result \<times> http_client \<times> sent_log" where
  "Post_params env path hs ps = Post env path hs (params_to_query_str ps) ''application/x-www-form-urlencoded''"

definition Put ::
  "client_env \<Rightarrow> string \<Rightarrow> headers \<Rightarrow> string \<Rightarrow> string \<Rightarrow> http_client \<Rightarrow> client_result \<times> http_client \<times> sent_log" where
  "Put env path hs body content_type = client_call env (body_request ''PUT'' path hs body content_type)"

definition Patch ::
  "client_env \<Rightarrow> string \<Rightarrow> headers \<Rightarrow> string \<Rightarrow> string \<Rightarrow> http_client \<Rightarrow> client_result \<times> http_client \<times> sent_log" where
  "Patch env path hs body content_type = client_call env (body_request ''PATCH'' path hs body content_type)"

definition Delete ::
  "client_env \<Rightarrow> string \<Rightarrow> headers \<Rightarrow> string \<Rightarrow> string \<Rightarrow> http_client \<Rightarrow> client_result \<times> http_client \<times> sent_log" where
  "Delete env path hs body content_type = client_call env (body_request ''DELETE'' path hs body content_type)"

end
