(* ===== verification/Http_Exchange.thy ===== *)
theory Http_Exchange
  imports Http_Client Http_Written "HOL-Library.Multiset"
begin

text \<open>
  The client of \<^verbatim>\<open>Http_Client\<close> and the server of \<^verbatim>\<open>Http_Server\<close> together: what the one writes the other
  reads. And what a client does whatever its peers answer.
\<close>

section \<open>Two receivers that do the same\<close>

lemma with_length_same:
  assumes "\<And>d st. out' d (f st) = (case out d st of (ok, st) \<Rightarrow> (ok, f st))"
  shows "with_length_loop out' len r br strm (f st) =
     (case with_length_loop out len r br strm st of (res, strm, st) \<Rightarrow> (res, strm, f st))"
  using assms
proof (induction out len r br strm st rule: with_length_loop.induct)
  case (1 out len r br strm st)
  show ?case
    by (subst with_length_loop.simps, subst (2) with_length_loop.simps)
      (auto simp: 1 split: prod.splits)
qed

lemma without_length_same:
  assumes "\<And>d st. out' d (f st) = (case out d st of (ok, st) \<Rightarrow> (ok, f st))"
  shows "without_length_loop out' m r strm (f st) =
     (case without_length_loop out m r strm st of (res, strm, st) \<Rightarrow> (res, strm, f st))"
  using assms
proof (induction out m r strm st rule: without_length_loop.induct)
  case (1 out m r strm st)
  show ?case
    by (subst without_length_loop.simps, subst (2) without_length_loop.simps)
      (auto simp: 1 split: prod.splits)
qed

lemma chunked_same:
  assumes "\<And>d st. out' d (f st) = (case out d st of (ok, st) \<Rightarrow> (ok, f st))"
  shows "chunked_loop out' m t cd tr hs strm (f st) =
     (case chunked_loop out m t cd tr hs strm st of (res, tr, strm, st) \<Rightarrow> (res, tr, strm, f st))"
  using assms
proof (induction out m t cd tr hs strm st rule: chunked_loop.induct)
  case (1 out m t cd tr hs strm st)
  show ?case
    by (subst chunked_loop.simps, subst (2) chunked_loop.simps)
      (auto simp: 1 split: prod.splits)
qed

text \<open>\<open>f\<close> takes the state of one receiver to that of another which decides in the same way.\<close>

locale receiver_map =
  fixes out :: "'s receiver" and out' :: "'t receiver" and f :: "'s \<Rightarrow> 't"
  assumes same: "out' d (f st) = (case out d st of (ok, st) \<Rightarrow> (ok, f st))"
begin

lemma detail_content:
  "detail_read_content strm req m status out' (f st) =
     (case detail_read_content strm req m status out st of (r, req, strm, st) \<Rightarrow> (r, req, strm, f st))"
  using with_length_same [of out' f out, OF same] without_length_same [of out' f out, OF same]
    chunked_same [of out' f out, OF same]
  by (simp add: detail_read_content_def Let_def read_content_with_length_def read_content_without_length_def
      read_content_chunked_def split: prod.split)

end

text \<open>The client keeps a body as the server does.\<close>

interpretation client_body: receiver_map "body_receiver m" "client_receiver m" bs_body for m
  by unfold_locales (simp add: body_receiver_def client_receiver_def)

section \<open>The client reads what the server writes\<close>

lemma show_nat_3:
  assumes "100 \<le> n" "n \<le> 999"
  shows "length (show_nat n) = 3"
proof -
  have "\<not> n < 10" "\<not> n div 10 < 10" "n div 10 div 10 < 10" using assms by auto
  then show ?thesis by (subst show_nat.simps, simp, subst show_nat.simps, simp, subst show_nat.simps, simp)
qed

lemma status_names_plain: "list_all (\<lambda>(_, m). list_all (\<lambda>c. code c \<noteq> 0 \<and> code c \<noteq> 10 \<and> code c \<noteq> 13) m \<and> length m \<le> 40) status_names"
  by code_simp

lemma status_message_plain:
  "list_all (\<lambda>c. code c \<noteq> 0 \<and> code c \<noteq> 10 \<and> code c \<noteq> 13) (status_message st)" "length (status_message st) \<le> 40"
proof -
  have d: "list_all (\<lambda>c. code c \<noteq> 0 \<and> code c \<noteq> 10 \<and> code c \<noteq> 13) ''Internal Server Error''" by code_simp
  show "list_all (\<lambda>c. code c \<noteq> 0 \<and> code c \<noteq> 10 \<and> code c \<noteq> 13) (status_message st)" "length (status_message st) \<le> 40"
    using status_names_plain d
    by (auto simp: status_message_def list_all_iff split: option.split dest!: map_of_SomeD)
qed

lemma match_written_status:
  assumes "100 \<le> st" "st \<le> 999"
  shows "match_status_line (write_response_line st) = Some (''HTTP/1.1'', st, status_message st)"
proof -
  let ?n = "show_nat (nat st)"
  have len: "length ?n = 3" using assms by (intro show_nat_3) auto
  then obtain a b c where abc: "?n = [a, b, c]" by (auto simp: length_Suc_conv numeral_3_eq_3)
  have t: "write_response_line st = ''HTTP/1.1'' @ '' '' @ [a, b, c] @ '' '' @ status_message st @ crlf"
    using assms by (simp add: write_response_line_def to_string_def abc)
  have v: "int (digits_value [a, b, c]) = st" using digits_value_show [of "nat st"] assms abc by simp
  have g: "list_all is_digit [a, b, c]" using show_nat_digits [of _ "nat st"] abc by (auto simp: list_all_iff)
  have n: "'' '' @ status_message st @ crlf \<noteq> crlf" by simp
  show ?thesis
    unfolding match_status_line_def t Let_def
    using v g status_message_plain(1) [of st]
    by (auto simp: substr_def list_all_iff)
qed

lemma written_status_line:
  assumes "100 \<le> st" "st \<le> 999" "st_in strm = write_response_line st @ rest"
  obtains lr' where "getline strm lr = (True, strm\<lparr>st_in := rest\<rparr>, lr')"
    "match_status_line (c_str (line_text lr')) = Some (''HTTP/1.1'', st, status_message st)"
proof -
  let ?t = "''HTTP/1.1 '' @ to_string st @ '' '' @ status_message st"
  have len: "length (show_nat (nat st)) = 3" using assms by (intro show_nat_3) auto
  have n: "\<forall>c \<in> set (to_string st). code c \<noteq> 0 \<and> code c \<noteq> 10"
    using assms(1) show_nat_digits [of _ "nat st"] by (fastforce simp: to_string_def is_digit_def)
  have h: "\<forall>c \<in> set ''HTTP/1.1 ''. code c \<noteq> 0 \<and> code c \<noteq> 10" "\<forall>c \<in> set '' ''. code c \<noteq> 0 \<and> code c \<noteq> 10"
    "\<forall>c \<in> set crlf. code c \<noteq> 0"
    by (simp_all add: code_def)
  have s: "\<forall>c \<in> set ?t. code c \<noteq> 0 \<and> code c \<noteq> 10"
    using n h status_message_plain(1) [of st] unfolding set_append list_all_iff by blast
  then have "\<forall>c \<in> set ?t. code c \<noteq> 10" by blast
  moreover have "length ?t + 1 < CPPHTTPLIB_MAX_LINE_LENGTH"
    using len assms(1) status_message_plain(2) [of st] by (simp add: CPPHTTPLIB_MAX_LINE_LENGTH_def to_string_def)
  moreover have "st_in strm = ?t @ crlf @ rest" using assms(3) by (simp add: write_response_line_def)
  ultimately obtain lr' where g: "getline strm lr = (True, strm\<lparr>st_in := rest\<rparr>, lr')" "line_text lr' = ?t @ crlf"
    by (rule getline_line)
  have "c_str (?t @ crlf) = ?t @ crlf"
    unfolding c_str_def using s h(3) by (intro takeWhile_eq_all_conv [THEN iffD2]) (simp only: set_append, blast)
  then have c: "c_str (line_text lr') = write_response_line st" by (simp add: g(2) write_response_line_def)
  show thesis by (rule that [OF g(1)]) (simp only: c match_written_status [OF assms(1,2)])
qed

text \<open>A table of fields under which a body of \<open>n\<close> bytes is read with its length.\<close>

definition length_table :: "headers \<Rightarrow> nat \<Rightarrow> bool" where
  "length_table hs n \<longleftrightarrow>
     header_value hs ''Transfer-Encoding'' = [] \<and> header_value hs ''Content-Encoding'' = [] \<and>
     has_header hs ''Content-Length'' \<and> (\<forall>d. get_header_value_u64 hs ''Content-Length'' d 0 = (n, False))"

lemma length_table_content:
  assumes "length_table (hr_headers req) (length body)" "length body \<le> m" "st_in strm = body @ rest"
  shows "detail_read_content strm req m status (client_receiver m) [] = ((True, status), req, strm\<lparr>st_in := rest\<rparr>, body)"
proof -
  have nc: "\<not> is_chunked_transfer_encoding (hr_headers req)" "\<not> unsupported_encoding (hr_headers req)"
    using assms(1) by (simp_all add: length_table_def is_chunked_transfer_encoding_def unsupported_encoding_def ci_equal_def)
  have "detail_read_content strm req m status (body_receiver m) no_body =
      ((True, status), req, strm\<lparr>st_in := rest\<rparr>, no_body\<lparr>bs_body := body\<rparr>)"
  proof (cases "body = []")
    case True
    with assms(3) have "strm\<lparr>st_in := rest\<rparr> = strm" by simp
    with True nc assms(1) show ?thesis
      by (simp add: detail_read_content_def Let_def length_table_def no_body_def)
  next
    case False
    then show ?thesis
      using with_length_reads_all [OF assms(3,2)] nc assms(1)
      by (simp add: detail_read_content_def Let_def content_status_def length_table_def)
  qed
  moreover have "bs_body no_body = []" by (simp add: no_body_def)
  ultimately show ?thesis using client_body.detail_content [of strm req m status m no_body] by simp
qed

lemma written_head:
  assumes "100 \<le> st" "st \<le> 999" "st \<noteq> 100" "fields_sendable hs"
    and "st_in strm = write_response_line st @ write_headers hs @ rest"
  shows "read_response_head strm meth Client_Response skip =
    (True, strm\<lparr>st_in := rest\<rparr>,
     Client_Response\<lparr>cs_version := ''HTTP/1.1'', cs_status := st, cs_reason := status_message st, cs_headers := rev hs\<rparr>)"
proof -
  obtain lr where g: "getline strm (stream_line_reader 2048) = (True, strm\<lparr>st_in := write_headers hs @ rest\<rparr>, lr)"
    "match_status_line (c_str (line_text lr)) = Some (''HTTP/1.1'', st, status_message st)"
    by (rule written_status_line [OF assms(1,2,5)])
  let ?r = "Client_Response\<lparr>cs_version := ''HTTP/1.1'', cs_status := st, cs_reason := status_message st\<rparr>"
  have "set_status_line (''HTTP/1.1'', st, status_message st) Client_Response = ?r"
    by (simp add: set_status_line_def)
  moreover have "skip_continue lr s ?r = (True, s, ?r)" for s
    using assms(3) by (subst skip_continue.simps) simp
  ultimately have "read_response_line strm meth Client_Response skip = (True, strm\<lparr>st_in := write_headers hs @ rest\<rparr>, ?r)"
    using g by (simp add: read_response_line_def)
  moreover have "read_headers (strm\<lparr>st_in := write_headers hs @ rest\<rparr>) [] = (True, strm\<lparr>st_in := rest\<rparr>, rev hs)"
    using headers_read_back [OF assms(4), of "strm\<lparr>st_in := write_headers hs @ rest\<rparr>" rest] by simp
  ultimately show ?thesis by (simp add: read_response_head_def Client_Response_def)
qed

lemma written_response:
  assumes "100 \<le> st" "st \<le> 999" "st \<noteq> 100" "fields_sendable hs" "length_table (rev hs) (length body)"
    and "st_in strm = write_response_line st @ write_headers hs @ body @ rest"
    and "length body \<le> ci_payload_max_length c" "length body \<le> string_max_size" "ce_memory env (length body)"
    and "st = 204 \<or> st = 304 \<or> hr_method req \<in> {''HEAD'', ''CONNECT''} \<longrightarrow> body = []"
  shows "receive_response env c strm req Client_Response True False err =
    (Returns True, strm\<lparr>st_in := rest\<rparr>,
     Client_Response\<lparr>cs_version := ''HTTP/1.1'', cs_status := st, cs_reason := status_message st,
                     cs_headers := rev hs, cs_body := body\<rparr>, err)"
proof -
  let ?r = "Client_Response\<lparr>cs_version := ''HTTP/1.1'', cs_status := st, cs_reason := status_message st, cs_headers := rev hs\<rparr>"
  have l: "fst (get_header_value_u64 (rev hs) ''Content-Length'' 0 0) = length body" "has_header (rev hs) ''Content-Length''"
    using assms(5) by (simp_all add: length_table_def)
  have d: "detail_read_content (strm\<lparr>st_in := body @ rest\<rparr>) (Http_Request\<lparr>hr_headers := rev hs, hr_trailers := []\<rparr>)
      (ci_payload_max_length c) 0 (client_receiver (ci_payload_max_length c)) [] =
      ((True, 0), Http_Request\<lparr>hr_headers := rev hs, hr_trailers := []\<rparr>, strm\<lparr>st_in := rest\<rparr>, body)"
    using length_table_content [of "Http_Request\<lparr>hr_headers := rev hs, hr_trailers := []\<rparr>" body
        "ci_payload_max_length c" "strm\<lparr>st_in := body @ rest\<rparr>" rest 0] assms(5,7) by simp
  have b: "read_response_body env c (strm\<lparr>st_in := body @ rest\<rparr>) (hr_method req) ?r err =
      (Returns True, strm\<lparr>st_in := rest\<rparr>, ?r\<lparr>cs_body := body\<rparr>, err)"
    using d l assms(8-10) by (auto simp: read_response_body_def Client_Response_def)
  show ?thesis
    using written_head [OF assms(1-4,6), of "hr_method req" True] b assms(3) by (simp add: receive_response_def)
qed

section \<open>A table in another order\<close>

lemma equal_range_perm:
  assumes "mset hs' = mset hs" "length (equal_range hs k) \<le> 1"
  shows "equal_range hs' k = equal_range hs k"
proof -
  have m: "mset (equal_range hs' k) = mset (equal_range hs k)"
    using assms(1) by (simp add: equal_range_def)
  show ?thesis
  proof (cases "equal_range hs k")
    case (Cons x xs)
    with assms(2) have "equal_range hs k = [x]" by simp
    with m show ?thesis by simp
  qed (use m in simp)
qed

lemma table_perm:
  assumes "equal_range hs' k = equal_range hs k"
  shows "header_value hs' k = header_value hs k" "has_header hs' k = has_header hs k"
    "get_header_value_u64 hs' k d 0 = get_header_value_u64 hs k d 0"
  using assms by (simp_all add: header_value_def get_header_value_def has_header_def get_header_value_u64_def)

section \<open>The fields of a client's request\<close>

definition known_names :: "string list" where
  "known_names =
     [''Content-Length'', ''User-Agent'', ''Accept-Encoding'', ''Accept'', ''Host'', ''Connection'', ''Content-Type'',
      ''Expect'', ''Range'', ''Transfer-Encoding'', ''Content-Encoding'', ''Authorization'', ''Proxy-Authorization'',
      ''Keep-Alive'', ''Access-Control-Allow-Methods'', ''Access-Control-Allow-Headers'', ''Access-Control-Allow-Origin'',
      ''Location'']"

lemma known_names_lower: "distinct (map ci_lower_string known_names)"
  by code_simp

lemma known_names_valid: "list_all (\<lambda>a. is_field_name a \<and> length a \<le> 30) known_names"
  by code_simp

lemma known_names_allowed: "list_all (\<lambda>a. \<not> is_prohibited_header_name a) known_names"
  by code_simp

lemma known_names_differ:
  "a \<in> set known_names \<Longrightarrow> b \<in> set known_names \<Longrightarrow> ci_equal a b \<longleftrightarrow> a = b"
  using known_names_lower by (metis ci_equal_iff distinct_map inj_onD)

lemma known_names_plain:
  "a \<in> set known_names \<Longrightarrow> is_field_name a \<and> \<not> is_prohibited_header_name a \<and> length a \<le> 30"
  using known_names_valid known_names_allowed by (auto simp: list_all_iff)

text \<open>For a table whose names are known ones, looking up compares names.\<close>

lemma known_equal_range:
  assumes "fst ` set hs \<subseteq> set known_names" "k \<in> set known_names"
  shows "equal_range hs k = filter (\<lambda>h. fst h = k) hs"
  unfolding equal_range_def using assms by (intro filter_cong) (auto simp: known_names_differ image_subset_iff)

lemma known_has_header:
  assumes "fst ` set hs \<subseteq> set known_names" "k \<in> set known_names"
  shows "has_header hs k \<longleftrightarrow> k \<in> fst ` set hs"
  using known_equal_range [OF assms] known_names_plain [OF assms(2)]
  by (auto simp: has_header_def filter_empty_conv)

definition client_table :: "bool \<Rightarrow> string \<Rightarrow> nat \<Rightarrow> headers" where
  "client_table keep host n =
     [(''Content-Length'', show_nat n), (''User-Agent'', ''cpp-httplib/0.37.0''), (''Accept-Encoding'', []),
      (''Accept'', ''*/*''), (''Host'', host)]
     @ (if keep then [] else [(''Connection'', ''close'')]) @ [(''Content-Type'', ''application/json'')]"

lemma client_table_names: "fst ` set (client_table keep host n) \<subseteq> set known_names"
  by (simp add: client_table_def known_names_def)

lemma client_table_values:
  "is_field_value ''cpp-httplib/0.37.0''" "is_field_value []" "is_field_value ''*/*''" "is_field_value ''close''"
  "is_field_value ''application/json''" "is_field_value ''0''"
  by code_simp+

lemma known_members [simp]:
  "''Content-Length'' \<in> set known_names" "''User-Agent'' \<in> set known_names" "''Accept-Encoding'' \<in> set known_names"
  "''Accept'' \<in> set known_names" "''Host'' \<in> set known_names" "''Connection'' \<in> set known_names"
  "''Content-Type'' \<in> set known_names" "''Expect'' \<in> set known_names" "''Range'' \<in> set known_names"
  "''Transfer-Encoding'' \<in> set known_names" "''Content-Encoding'' \<in> set known_names"
  "''Authorization'' \<in> set known_names" "''Proxy-Authorization'' \<in> set known_names"
  by (simp_all add: known_names_def)

lemma emplace_new:
  assumes "fst ` set (hr_headers req) \<subseteq> set known_names" "k \<in> set known_names" "k \<notin> fst ` set (hr_headers req)"
  shows "emplace_missing (k, v) req = req\<lparr>hr_headers := (k, v) # hr_headers req\<rparr>"
  using known_has_header [OF assms(1,2)] assms(3) by (simp add: emplace_missing_def header_emplace_def)

lemma set_request_known:
  "k \<in> set known_names \<Longrightarrow> is_field_value v \<Longrightarrow>
     set_request_header k v req = req\<lparr>hr_headers := (k, v) # hr_headers req\<rparr>"
  using known_names_plain by (simp add: set_request_header_def header_emplace_def)

lemma prepare_fresh:
  assumes "ce_arrange env [] = []" "ci_default_headers c = []" "\<not> ci_unix_socket c"
    and "fst ` set (hr_headers req) \<subseteq> {''Content-Type'', ''Connection''}"
  shows "prepare_default_headers env c [] req = req\<lparr>hr_headers :=
    (if hr_body req = [] then [] else [(''Content-Length'', show_nat (length (hr_body req)))])
    @ [(''User-Agent'', ''cpp-httplib/0.37.0''), (''Accept-Encoding'', []), (''Accept'', ''*/*''),
       (''Host'', make_host_and_port_string (ci_host c) (ci_port c) False)] @ hr_headers req\<rparr>"
proof -
  have k: "fst ` set (hr_headers req) \<subseteq> set known_names" using assms(4) by (auto dest!: subsetD)
  have n: "x \<notin> fst ` set (hr_headers req)" if "x \<notin> {''Content-Type'', ''Connection''}" for x
    using assms(4) that by blast
  let ?host = "make_host_and_port_string (ci_host c) (ci_port c) False"
  define r1 where "r1 = req\<lparr>hr_headers := (''Host'', ?host) # hr_headers req\<rparr>"
  have 1: "emplace_missing (''Host'', ?host) req = r1"
    unfolding r1_def by (rule emplace_new) (use k n in simp_all)
  define r2 where "r2 = req\<lparr>hr_headers := (''Accept'', ''*/*'') # (''Host'', ?host) # hr_headers req\<rparr>"
  have 2: "emplace_missing (''Accept'', ''*/*'') r1 = r2"
    by (subst emplace_new) (use k n in \<open>simp_all add: r1_def r2_def\<close>)
  define r3 where "r3 = req\<lparr>hr_headers := (''Accept-Encoding'', []) # (''Accept'', ''*/*'') # (''Host'', ?host) # hr_headers req\<rparr>"
  have 3: "\<not> has_header (hr_headers r2) ''Accept-Encoding''" "set_request_header ''Accept-Encoding'' [] r2 = r3"
    by (subst known_has_header) (use k n in \<open>simp_all add: r2_def r3_def set_request_known client_table_values\<close>)
  define r4 where "r4 = req\<lparr>hr_headers := (''User-Agent'', ''cpp-httplib/0.37.0'') # (''Accept-Encoding'', [])
      # (''Accept'', ''*/*'') # (''Host'', ?host) # hr_headers req\<rparr>"
  have 4: "\<not> has_header (hr_headers r3) ''User-Agent''" "set_request_header ''User-Agent'' ''cpp-httplib/0.37.0'' r3 = r4"
    by (subst known_has_header) (use k n in \<open>simp_all add: r3_def r4_def set_request_known client_table_values\<close>)
  have 5: "emplace_missing (''Content-Length'', v) r4 = r4\<lparr>hr_headers := (''Content-Length'', v) # hr_headers r4\<rparr>" for v
    by (rule emplace_new) (use k n in \<open>simp_all add: r4_def\<close>)
  have b: "hr_body r4 = hr_body req" by (simp add: r4_def)
  show ?thesis
    unfolding prepare_default_headers_def Let_def assms(1,2) fold.simps id_apply
    using assms(3) by (simp add: 1 2 3 4 5 b) (simp add: r4_def)
qed

definition fresh_client :: "bool \<Rightarrow> string \<Rightarrow> int \<Rightarrow> http_client" where
  "fresh_client keep host port = set_keep_alive keep (ClientImpl host port)"

lemma fresh_client_parts [simp]:
  "ci_default_headers (fresh_client keep host port) = []" "\<not> ci_unix_socket (fresh_client keep host port)"
  "ci_port (fresh_client keep host port) = port" "ci_path_encode (fresh_client keep host port)"
  "ci_host (fresh_client keep host port) = escape_abstract_namespace_unix_domain host"
  "ci_keep_alive (fresh_client keep host port) = keep" "\<not> has_proxy (fresh_client keep host port)"
  "\<not> ci_follow_location (fresh_client keep host port)" "ci_socket (fresh_client keep host port) = None"
  "ci_payload_max_length (fresh_client keep host port) = CPPHTTPLIB_PAYLOAD_MAX_LENGTH"
  "add_authorization (fresh_client keep host port) req = req"
  by (simp_all add: fresh_client_def set_keep_alive_def ClientImpl_def has_proxy_def add_authorization_def)

lemma client_completes:
  assumes "ce_arrange env [] = []" "hr_method req = ''POST''"
    and "hr_headers req = [(''Content-Type'', ''application/json'')]"
  shows "complete_headers env (fresh_client keep host port) (\<not> keep) req =
    req\<lparr>hr_headers := client_table keep
      (make_host_and_port_string (escape_abstract_namespace_unix_domain host) port False) (length (hr_body req))\<rparr>"
proof -
  have z: "show_nat 0 = ''0''" by (subst show_nat.simps) (simp add: digit_def)
  let ?c = "fresh_client keep host port"
  define r1 where "r1 = req\<lparr>hr_headers := (if keep then [] else [(''Connection'', ''close'')]) @ hr_headers req\<rparr>"
  have "\<not> has_header (hr_headers req) ''Connection''"
    by (subst known_has_header) (simp_all add: assms(3))
  then have 1: "(if \<not> keep \<and> \<not> has_header (hr_headers req) ''Connection''
      then set_request_header ''Connection'' ''close'' req else req) = r1"
    by (simp add: r1_def set_request_known client_table_values)
  have ct: "has_header (hr_headers r1) ''Content-Type''"
    by (subst known_has_header) (simp_all add: r1_def assms(3))
  have 2: "prepare_default_headers env ?c [] r1 = r1\<lparr>hr_headers :=
    (if hr_body r1 = [] then [] else [(''Content-Length'', show_nat (length (hr_body r1)))])
    @ [(''User-Agent'', ''cpp-httplib/0.37.0''), (''Accept-Encoding'', []), (''Accept'', ''*/*''),
       (''Host'', make_host_and_port_string (ci_host ?c) (ci_port ?c) False)] @ hr_headers r1\<rparr>"
    by (rule prepare_fresh) (use assms(1) in \<open>simp_all add: r1_def assms(3)\<close>)
  show ?thesis
    unfolding complete_headers_def 1 Let_def using ct
    by (simp add: 2 set_request_known client_table_values)
      (simp add: r1_def assms(2,3) client_table_def z)
qed

lemma client_table_range:
  assumes "mset hs = mset (client_table keep host n)"
  shows "equal_range hs ''Content-Type'' = [(''Content-Type'', ''application/json'')]"
    "equal_range hs ''Content-Length'' = [(''Content-Length'', show_nat n)]"
    "equal_range hs ''Accept'' = [(''Accept'', ''*/*'')]"
    "equal_range hs ''Connection'' = (if keep then [] else [(''Connection'', ''close'')])"
    "equal_range hs ''Range'' = []" "equal_range hs ''Expect'' = []" "equal_range hs ''Transfer-Encoding'' = []"
    "equal_range hs ''Content-Encoding'' = []"
proof -
  have k: "equal_range hs k = filter (\<lambda>h. fst h = k) (client_table keep host n)"
    if "k \<in> set known_names" "length (filter (\<lambda>h. fst h = k) (client_table keep host n)) \<le> 1" for k
    using equal_range_perm [OF assms, of k] known_equal_range [OF client_table_names that(1)] that(2) by simp
  show "equal_range hs ''Content-Type'' = [(''Content-Type'', ''application/json'')]"
    "equal_range hs ''Content-Length'' = [(''Content-Length'', show_nat n)]"
    "equal_range hs ''Accept'' = [(''Accept'', ''*/*'')]"
    "equal_range hs ''Connection'' = (if keep then [] else [(''Connection'', ''close'')])"
    "equal_range hs ''Range'' = []" "equal_range hs ''Expect'' = []" "equal_range hs ''Transfer-Encoding'' = []"
    "equal_range hs ''Content-Encoding'' = []"
    by (subst k; simp add: client_table_def)+
qed

lemma numeric_length: "n \<le> SIZE_MAX \<Longrightarrow> equal_range hs k = [(k, show_nat n)] \<Longrightarrow> get_header_value_u64 hs k d 0 = (n, False)"
  by (simp add: get_header_value_u64_def is_numeric_def list_all_iff show_nat_nonempty show_nat_digits digits_value_show)

lemma client_table_json:
  assumes "mset hs = mset (client_table keep host n)" "n \<le> SIZE_MAX"
  shows "json_table hs n" "header_value hs ''Connection'' = (if keep then [] else ''close'')"
    "has_header hs ''Accept'' \<and> header_value hs ''Accept'' = ''*/*''"
proof -
  note r = client_table_range [OF assms(1)]
  have c: "c_str ''application/json'' = ''application/json''" "c_str ''close'' = ''close''" "c_str ''*/*'' = ''*/*''"
    by code_simp+
  note np = known_names_plain [THEN conjunct2, THEN conjunct1]
  note v = header_value_def get_header_value_def has_header_def
  show "json_table hs n"
    using numeric_length [OF assms(2) r(2)] r np [of "''Content-Type''"] np [of "''Content-Length''"]
    by (simp add: json_table_def v c)
  show "header_value hs ''Connection'' = (if keep then [] else ''close'')"
    using r(4) np [of "''Connection''"] by (simp add: v c)
  show "has_header hs ''Accept'' \<and> header_value hs ''Accept'' = ''*/*''"
    using r(3) np [of "''Accept''"] by (simp add: v c)
qed

lemma accept_anything: "parse_accept_header q ''*/*''"
proof -
  have "split ''*/*'' (CHR '','') = [''*/*'']" "find_string '',,'' 0 ''*/*'' = None" "trim_copy ''*/*'' = ''*/*''"
    "find_string '';q='' 0 ''*/*'' = None" "find_string ''; q='' 0 ''*/*'' = None"
    "fst (extract_media_type ''*/*'') = ''*/*''"
    by code_simp+
  then show ?thesis by (simp add: parse_accept_header_def accept_entry_ok_def Let_def)
qed

lemma client_table_sendable:
  assumes "host_ok host" "n < 10 ^ 20" "mset hs = mset (client_table keep host n)"
  shows "fields_sendable hs"
proof -
  have d: "is_field_value (show_nat n) \<and> CHR ''%'' \<notin> set (show_nat n)"
    by (rule digits_field_value) (auto simp: show_nat_nonempty list_all_iff show_nat_digits)
  have l: "length (show_nat n) \<le> 20" using assms(2) by (intro show_nat_length) simp_all
  have "set hs = set (client_table keep host n)" "length hs = length (client_table keep host n)"
    using assms(3) by (metis set_mset_mset, metis size_mset)
  then show ?thesis
    using assms(1) d l client_table_values known_names_plain
    by (simp add: fields_sendable_def list_all_iff client_table_def field_ok_def host_ok_def
      CPPHTTPLIB_HEADER_MAX_COUNT_def CPPHTTPLIB_HEADER_MAX_LENGTH_def)
qed

section \<open>A POST from end to end\<close>

lemma fresh_target:
  assumes "path \<in> set post_handlers" "hr_path req = path" "hr_params req = []"
  shows "request_target (fresh_client keep host port) req = (path, [])"
proof -
  have "list_all (\<lambda>p. encode_path p = p) post_handlers" by code_simp
  with assms(1) have e: "encode_path path = path" by (simp add: list_all_iff)
  have q: "parse_query_text [] [] = []" by (simp add: parse_query_text_def split_def split_part_def trim_def)
  have w: "takeWhile (\<lambda>ch. ch \<noteq> CHR ''?'') path = path"
    using post_path_ok(3) [OF assms(1)] by (auto simp: takeWhile_eq_all_conv)
  show ?thesis
    unfolding request_target_def Let_def assms(2,3) w using e q by simp
qed

text \<open>What the client writes.\<close>

definition post_text :: "(headers \<Rightarrow> headers) \<Rightarrow> bool \<Rightarrow> string \<Rightarrow> int \<Rightarrow> string \<Rightarrow> string \<Rightarrow> string" where
  "post_text arrange keep host port path body =
     ''POST '' @ path @ '' HTTP/1.1'' @ crlf
     @ write_headers (arrange (client_table keep
         (make_host_and_port_string (escape_abstract_namespace_unix_domain host) port False) (length body)))
     @ body"

lemma client_writes:
  assumes "path \<in> set post_handlers" "ce_arrange env [] = []" "hr_params req = []" "hr_path req = path"
    and "hr_method req = ''POST''" "hr_headers req = [(''Content-Type'', ''application/json'')]"
    and "host_ok (make_host_and_port_string (escape_abstract_namespace_unix_domain host) port False)"
    and "length (hr_body req) < 10 ^ 20"
  shows "\<exists>req'. write_request env (fresh_client keep host port) strm req (\<not> keep) Err_Success False =
      (True, strm\<lparr>st_out := st_out strm @ post_text (ce_arrange env) keep host port path (hr_body req)\<rparr>, req', Err_Success)
    \<and> hr_method req' = ''POST''"
proof -
  let ?h = "make_host_and_port_string (escape_abstract_namespace_unix_domain host) port False"
  let ?r = "req\<lparr>hr_headers := client_table keep ?h (length (hr_body req))\<rparr>"
  have "fields_sendable (client_table keep ?h (length (hr_body req)))"
    by (rule client_table_sendable [OF assms(7,8) refl])
  then have v: "list_all (\<lambda>h. is_field_name (fst h) \<and> is_field_value (snd h)) (client_table keep ?h (length (hr_body req)))"
    by (auto simp: fields_sendable_def field_ok_def list_all_iff)
  have t: "request_target (fresh_client keep host port) ?r = (path, [])"
    by (rule fresh_target [OF assms(1)]) (simp_all add: assms)
  show ?thesis
    using v client_completes [OF assms(2,5,6), of keep host port]
    by (simp add: write_request_def Let_def t write_request_body_def write_request_line_def write_stream_def
        post_text_def assms(5))
qed

text \<open>The answer of a handler, as the client has it.\<close>

lemma json_answer_fields:
  assumes "mset hs = mset (hs_headers (json_answer close s b))" "length b \<le> SIZE_MAX" "length b < 10 ^ 20"
  shows "fields_sendable hs" "length_table (rev hs) (length b)"
proof -
  let ?t = "hs_headers (json_answer close s b)"
  have n: "fst ` set ?t \<subseteq> set known_names"
    by (simp add: json_answer_def connection_header_def json_headers_def known_names_def)
  have e: "equal_range (rev hs) k = filter (\<lambda>h. fst h = k) ?t"
    if "k \<in> set known_names" "length (filter (\<lambda>h. fst h = k) ?t) \<le> 1" for k
    using equal_range_perm [of "rev hs" ?t k] assms(1) known_equal_range [OF n that(1)] that(2) by simp
  have r: "equal_range (rev hs) ''Transfer-Encoding'' = []" "equal_range (rev hs) ''Content-Encoding'' = []"
    "equal_range (rev hs) ''Content-Length'' = [(''Content-Length'', show_nat (length b))]"
    by (subst e; simp add: json_answer_def connection_header_def json_headers_def)+
  then show "length_table (rev hs) (length b)"
    using numeric_length [OF assms(2) r(3)] known_names_plain [of "''Content-Length''"]
    by (simp add: length_table_def header_value_none has_header_def)
  have v: "is_field_value ''application/json''" "is_field_value ''GET, POST, OPTIONS''" "is_field_value ''Content-Type''"
    "is_field_value ''*''" by code_simp+
  have d: "is_field_value (show_nat (length b)) \<and> CHR ''%'' \<notin> set (show_nat (length b))"
    by (rule digits_field_value) (auto simp: show_nat_nonempty list_all_iff show_nat_digits)
  have l: "length (show_nat (length b)) \<le> 20" using assms(3) by (intro show_nat_length) simp_all
  have "set hs = set ?t" "length hs = length ?t"
    using assms(1) by (metis set_mset_mset, metis size_mset)
  then show "fields_sendable hs"
    using d l v answer_names known_names_plain
    by (auto simp: fields_sendable_def list_all_iff json_answer_def connection_header_def json_headers_def field_ok_def
      known_names_def CPPHTTPLIB_HEADER_MAX_COUNT_def CPPHTTPLIB_HEADER_MAX_LENGTH_def)
qed

lemma post_body_request:
  "body_request ''POST'' path [] body ''application/json'' =
     Http_Request\<lparr>hr_method := ''POST'', hr_path := path, hr_headers := [(''Content-Type'', ''application/json'')],
                    hr_body := body\<rparr>"
  by (simp add: body_request_def client_request_def Http_Request_def set_request_known client_table_values)

lemma fresh_peer [simp]:
  "client_peer (fresh_client keep host port) = (escape_abstract_namespace_unix_domain host, port)"
  by (simp add: client_peer_def)

lemma client_post_answered:
  assumes "path \<in> set post_handlers" "length body < CPPHTTPLIB_EXPECT_100_THRESHOLD"
    and "host_ok (make_host_and_port_string (escape_abstract_namespace_unix_domain host) port False)"
    and "ce_arrange env [] = []" "\<And>hs. mset (arrange hs) = mset hs"
    and "ce_connect env CPPHTTPLIB_REDIRECT_MAX_COUNT (escape_abstract_namespace_unix_domain host) port = Inr strm"
    and "st_in strm = response_text arrange ''POST'' (json_answer close s b) @ rest"
    and "b \<noteq> []" "s = 200 \<or> s = 400" "length b \<le> CPPHTTPLIB_PAYLOAD_MAX_LENGTH" "ce_memory env (length b)"
  shows "\<exists>res hs c. Post env path [] body ''application/json'' (fresh_client keep host port) =
      (Inr (Some res, Err_Success, hs), c,
       [(escape_abstract_namespace_unix_domain host, port, post_text (ce_arrange env) keep host port path body)])
    \<and> cs_status res = s \<and> cs_body res = b"
proof -
  let ?c = "fresh_client keep host port"
  let ?req = "body_request ''POST'' path [] body ''application/json''"
  let ?R = "json_answer close s b"
  let ?t = "post_text (ce_arrange env) keep host port path body"
  have rq: "hr_params ?req = []" "hr_path ?req = path" "hr_method ?req = ''POST''" "hr_body ?req = body"
    "hr_headers ?req = [(''Content-Type'', ''application/json'')]"
    by (simp_all add: post_body_request Http_Request_def)
  have bl: "length (hr_body ?req) < 10 ^ 20" using assms(2) by (simp add: rq CPPHTTPLIB_EXPECT_100_THRESHOLD_def)
  obtain req' where w: "write_request env ?c strm ?req (\<not> keep) Err_Success False =
      (True, strm\<lparr>st_out := st_out strm @ ?t\<rparr>, req', Err_Success)" "hr_method req' = ''POST''"
    using client_writes [OF assms(1,4) rq(1-3,5) assms(3) bl, where keep = keep and strm = strm] rq(4) by auto
  have ex: "\<not> has_header (hr_headers ?req) ''Expect''" "header_value (hr_headers ?req) ''Expect'' = []"
  proof -
    have "equal_range (hr_headers ?req) ''Expect'' = []"
      by (subst known_equal_range) (simp_all add: rq)
    then show "\<not> has_header (hr_headers ?req) ''Expect''" "header_value (hr_headers ?req) ''Expect'' = []"
      by (simp_all add: has_header_none header_value_none)
  qed
  have ln: "length b \<le> SIZE_MAX" "length b < 10 ^ 20" "length b \<le> string_max_size"
    using assms(10) by (simp_all add: CPPHTTPLIB_PAYLOAD_MAX_LENGTH_def SIZE_MAX_def string_max_size_def)
  note f = json_answer_fields [OF assms(5) ln(1,2), of close s]
  have rcv: "receive_response env ?c (strm\<lparr>st_out := st_out strm @ ?t\<rparr>) req' Client_Response True False Err_Success =
    (Returns True, strm\<lparr>st_out := st_out strm @ ?t, st_in := rest\<rparr>,
     Client_Response\<lparr>cs_version := ''HTTP/1.1'', cs_status := s, cs_reason := status_message s,
                     cs_headers := rev (arrange (hs_headers ?R)), cs_body := b\<rparr>, Err_Success)"
    using assms(7-11) ln(3)
    by (subst written_response [OF _ _ _ f, where rest = rest])
      (auto simp: response_text_def json_answer_def w(2))
  let ?res = "Client_Response\<lparr>cs_version := ''HTTP/1.1'', cs_status := s, cs_reason := status_message s,
                     cs_headers := rev (arrange (hs_headers ?R)), cs_body := b\<rparr>"
  have pr: "client_process_request env ?c ready strm ?req Client_Response (\<not> keep) Err_Success =
      (Returns True, strm\<lparr>st_out := st_out strm @ ?t, st_in := rest\<rparr>, req', ?res, Err_Success)" for ready
    using assms(2) ex by (simp add: client_process_request_def rq(4) w(1) rcv)
  have p: "path \<noteq> []" using post_path_ok(1) [OF assms(1)] by (simp add: target_ok_def)
  have cx: "client_exchange env ?c ready strm ?req (\<not> keep) Err_Success =
      (Returns True, strm\<lparr>st_out := st_out strm @ ?t, st_in := rest\<rparr>, req', ?res, Err_Success)" for ready
    by (simp add: client_exchange_def pr)
  have rs: "\<not> (300 < cs_status ?res \<and> cs_status ?res < 400)" using assms(9) by auto
  have dr: "drop (length (st_out strm)) (st_out (strm\<lparr>st_out := st_out strm @ ?t, st_in := rest\<rparr>)) = ?t" by simp
  obtain k where hq: "handle_request_client env send ?c ready strm ?req (\<not> keep) Err_Success =
      \<lparr>sr_outcome = Returns True, sr_error = Err_Success, sr_client = k, sr_request = req', sr_response = ?res,
       sr_sent = [(escape_abstract_namespace_unix_domain host, port, ?t)]\<rparr>" for send ready
    using p rs by (simp add: handle_request_client_def rq(2) cx Let_def dr)
  have cn: "client_connect env CPPHTTPLIB_REDIRECT_MAX_COUNT ?c = Inr strm"
    by (simp add: client_connect_def assms(6))
  have fo: "fold insert_missing (ce_arrange env (ci_default_headers ?c)) ?req = ?req" by (simp add: assms(4))
  have n: "client_send env CPPHTTPLIB_REDIRECT_MAX_COUNT =
      send_step env CPPHTTPLIB_REDIRECT_MAX_COUNT (Some (client_send env 19))"
    unfolding CPPHTTPLIB_REDIRECT_MAX_COUNT_def
    using client_send.simps(2) [of env 19] by simp
  have ka: "ci_keep_alive ?c = keep" by simp
  have "\<exists>k. client_send env CPPHTTPLIB_REDIRECT_MAX_COUNT ?c ?req Err_Success =
      \<lparr>sr_outcome = Returns True, sr_error = Err_Success, sr_client = k, sr_request = req', sr_response = ?res,
       sr_sent = [(escape_abstract_namespace_unix_domain host, port, ?t)]\<rparr>"
    unfolding n send_step_def cn sum.case Let_def fo ka hq by (cases keep) simp_all
  then show ?thesis
    unfolding Post_def client_call_def Let_def by (auto simp: Client_Response_def)
qed

end
