(* ===== verification/Http_Calls.thy ===== *)
theory Http_Calls
  imports Http_Exchange Http_Props Web_Handshake
begin

text \<open>
  What a call of the client does: from end to end with the server of the program, and with peers
  that answer whatever they like.
\<close>

section \<open>Client and server\<close>

text \<open>
  C29: a \<^verbatim>\<open>POST\<close> with a JSON body that the library's own client sends to a route of the REST server runs
  the handler of that route with exactly this body, once; and the answer that the server writes
  gives the caller the handler's status and text, whatever the order in which either side walks
  through its tables of header fields, on a connection that is kept or closed.
\<close>

theorem client_post_reaches_handler:
  assumes "path \<in> set post_handlers" "length body < CPPHTTPLIB_EXPECT_100_THRESHOLD"
    and "host_ok (make_host_and_port_string (escape_abstract_namespace_unix_domain host) port False)"
    and "\<And>hs. mset (arrange hs) = mset hs" "\<And>hs. mset (te_arrange tenv hs) = mset hs"
    and "st_in sstrm = post_text arrange keep host port path body @ rest"
  shows "\<exists>b s answer. let a1 = api_run (te_others tenv) a; rq = post_request path body in
    snd (handle_request (te_time tenv) rq a1) = Inr (setJsonResponse b s) \<and>
    process_request tenv close sstrm a =
      (True, \<not> keep, sstrm\<lparr>st_in := rest, st_pending := te_pending tenv, st_out := st_out sstrm @ answer\<rparr>,
       fst (handle_request (te_time tenv) rq a1)) \<and>
    (\<forall>cenv cstrm more. ce_arrange cenv = arrange \<and> ce_memory cenv (length b) \<and> length b \<le> CPPHTTPLIB_PAYLOAD_MAX_LENGTH \<and>
       ce_connect cenv CPPHTTPLIB_REDIRECT_MAX_COUNT (escape_abstract_namespace_unix_domain host) port = Inr cstrm \<and>
       st_in cstrm = answer @ more \<longrightarrow>
       (\<exists>res hs c. Post cenv path [] body ''application/json'' (fresh_client keep host port) =
          (Inr (Some res, Err_Success, hs), c,
           [(escape_abstract_namespace_unix_domain host, port, post_text arrange keep host port path body)])
        \<and> cs_status res = s \<and> cs_body res = b))"
proof -
  let ?h = "make_host_and_port_string (escape_abstract_namespace_unix_domain host) port False"
  let ?T = "client_table keep ?h (length body)"
  note p = post_path_ok [OF assms(1)]
  have bl: "length body < 10 ^ 20" "length body \<le> SIZE_MAX" "length body \<le> CPPHTTPLIB_PAYLOAD_MAX_LENGTH"
    using assms(2) by (simp_all add: CPPHTTPLIB_EXPECT_100_THRESHOLD_def SIZE_MAX_def CPPHTTPLIB_PAYLOAD_MAX_LENGTH_def)
  have m: "mset (rev (arrange ?T)) = mset ?T" by (simp add: assms(4))
  have s: "fields_sendable (arrange ?T)" by (rule client_table_sendable [OF assms(3) bl(1)]) (rule assms(4))
  have "''POST'' \<in> set http_methods" by (simp add: http_methods_def)
  moreover have "st_in sstrm = ''POST'' @ '' '' @ path @ '' HTTP/1.1'' @ crlf @ write_headers (arrange ?T) @ body @ rest"
    by (simp add: assms(6) post_text_def)
  ultimately obtain lr strm1 where g: "getline sstrm (stream_line_reader 2048) = (True, strm1, lr)"
    "parse_request_line (line_text lr) Http_Request =
       (True, Http_Request\<lparr>hr_method := ''POST'', hr_target := path, hr_version := ''HTTP/1.1'',
               hr_path := decode_path_component (fst (divide path (CHR ''?''))),
               hr_params := parse_query_text (snd (divide path (CHR ''?''))) []\<rparr>)"
    "read_headers strm1 [] = (True, sstrm\<lparr>st_in := body @ rest\<rparr>, rev (arrange ?T))"
    using written_request_head [OF _ p(1,2) s] by metis
  note t = client_table_json [OF m bl(2)]
  have ac: "\<not> has_header (rev (arrange ?T)) ''Accept'' \<or>
      parse_accept_header (te_quality_ok tenv) (header_value (rev (arrange ?T)) ''Accept'')"
    using t(3) accept_anything by simp
  have cl: "(\<not> keep) = (header_value (rev (arrange ?T)) ''Connection'' = ''close'')" by (simp add: t(2))
  obtain b st where sv: "b \<noteq> []" "st = 200 \<or> st = 400"
    "snd (handle_request (te_time tenv) (post_request path body) (api_run (te_others tenv) a)) = Inr (setJsonResponse b st)"
    "process_request tenv close sstrm a =
      (True, \<not> keep, sstrm\<lparr>st_in := rest, st_pending := te_pending tenv,
         st_out := st_out sstrm @ response_text (te_arrange tenv) ''POST'' (json_answer (close \<or> \<not> keep) st b)\<rparr>,
       fst (handle_request (te_time tenv) (post_request path body) (api_run (te_others tenv) a)))"
    using post_served_table [OF assms(1) bl(3) g t(1) ac cl, where a = a and close = close]
    by (auto simp: Let_def)
  have "mset (arrange []) = {#}" by (simp add: assms(4))
  then have ar: "arrange [] = []" by simp
  have "\<exists>res hs c. Post cenv path [] body ''application/json'' (fresh_client keep host port) =
          (Inr (Some res, Err_Success, hs), c,
           [(escape_abstract_namespace_unix_domain host, port, post_text arrange keep host port path body)])
        \<and> cs_status res = st \<and> cs_body res = b"
    if "ce_arrange cenv = arrange" "ce_memory cenv (length b)" "length b \<le> CPPHTTPLIB_PAYLOAD_MAX_LENGTH"
      "ce_connect cenv CPPHTTPLIB_REDIRECT_MAX_COUNT (escape_abstract_namespace_unix_domain host) port = Inr cstrm"
      "st_in cstrm = response_text (te_arrange tenv) ''POST'' (json_answer (close \<or> \<not> keep) st b) @ more" for cenv cstrm more
    using client_post_answered [OF assms(1-3) _ assms(5) that(4,5) sv(1,2) that(3,2)] that(1) ar by simp
  with sv(3,4) show ?thesis
    by (intro exI [of _ b] exI [of _ st]
        exI [of _ "response_text (te_arrange tenv) ''POST'' (json_answer (close \<or> \<not> keep) st b)"])
      (simp add: Let_def)
qed

lemma door_hosts:
  "escape_abstract_namespace_unix_domain ''door'' = ''door''" "make_host_and_port_string ''door'' 80 False = ''door''"
  by code_simp+

lemma client_post_reaches_handler_witness:
  "\<exists>cenv res hs c. Post cenv ''/api/email/test'' [] [] ''application/json'' (fresh_client False ''door'' 80) =
      (Inr (Some res, Err_Success, hs), c, [(''door'', 80, post_text (\<lambda>h. h) False ''door'' 80 ''/api/email/test'' [])])
    \<and> cs_status res = 200 \<and> cs_body res = ''{\"ok\":true,\"message\":\"Test email request sent\"}''"
proof -
  let ?s = "opened_stream (post_text (\<lambda>h. h) False ''door'' 80 ''/api/email/test'' [] @ [])"
  let ?a = "boot 0 0 False"
  have path: "''/api/email/test'' \<in> set post_handlers" by (simp add: post_handlers_def)
  have h: "host_ok (make_host_and_port_string (escape_abstract_namespace_unix_domain ''door'') 80 False)"
    by (simp add: door_hosts door_host)
  have l: "length ([] :: string) < CPPHTTPLIB_EXPECT_100_THRESHOLD" by (simp add: CPPHTTPLIB_EXPECT_100_THRESHOLD_def)
  have ar: "mset (te_arrange calm_env hs) = mset hs" for hs by (simp add: calm_env_def)
  have r: "snd (handle_request 7 (post_request ''/api/email/test'' []) a) =
      Inr (setJsonResponse ''{\"ok\":true,\"message\":\"Test email request sent\"}'' 200)" for a
    by (simp add: handle_request_def post_request_def handle_email_test_def)
  from client_post_reaches_handler [OF path l h, of "\<lambda>h. h" calm_env ?s False "[]" ?a False]
  obtain b st answer where
    b: "Inr (setJsonResponse ''{\"ok\":true,\"message\":\"Test email request sent\"}'' 200) = Inr (setJsonResponse b st)"
    and post: "\<And>cenv cstrm more. ce_arrange cenv = (\<lambda>h. h) \<and> ce_memory cenv (length b) \<and>
         length b \<le> CPPHTTPLIB_PAYLOAD_MAX_LENGTH \<and>
       ce_connect cenv CPPHTTPLIB_REDIRECT_MAX_COUNT ''door'' 80 = Inr cstrm \<and> st_in cstrm = answer @ more \<Longrightarrow>
       (\<exists>res hs c. Post cenv ''/api/email/test'' [] [] ''application/json'' (fresh_client False ''door'' 80) =
          (Inr (Some res, Err_Success, hs), c, [(''door'', 80, post_text (\<lambda>h. h) False ''door'' 80 ''/api/email/test'' [])])
        \<and> cs_status res = st \<and> cs_body res = b)"
    using ar by (simp only: Let_def r calm_env_simps door_hosts st_in_opened) blast
  have bs: "b = ''{\"ok\":true,\"message\":\"Test email request sent\"}''" "st = 200"
    using b by (simp_all add: setJsonResponse_def)
  let ?e = "\<lparr>ce_connect = (\<lambda>_ _ _. Inr (opened_stream answer)), ce_alive = (\<lambda>_. True), ce_ready = (\<lambda>_. False),
     ce_arrange = (\<lambda>h. h), ce_memory = (\<lambda>_. True)\<rparr>"
  have "length b \<le> CPPHTTPLIB_PAYLOAD_MAX_LENGTH" by (simp add: bs CPPHTTPLIB_PAYLOAD_MAX_LENGTH_def)
  then show ?thesis
    using post [of ?e "opened_stream answer" "[]"] bs by (intro exI [of _ ?e]) simp
qed

section \<open>Any peers\<close>

lemma redirect_sent:
  assumes "\<And>c req err. length (sr_sent (send c req err)) \<le> k"
  shows "length (sr_sent (client_redirect (Some send) c req res err)) \<le> k"
  using assms
  by (simp add: client_redirect_def create_redirect_client_def detail_redirect_def Let_def split: option.split)

lemma step_sent:
  assumes "\<And>send c req err. sender = Some send \<Longrightarrow> length (sr_sent (send c req err)) \<le> k"
  shows "length (sr_sent (send_step env n sender c req err)) \<le> Suc k"
proof -
  have r: "length (sr_sent (client_redirect sender c req res err)) \<le> k" for c req res err
  proof (cases sender)
    case None
    then show ?thesis by (simp add: client_redirect_def Let_def)
  next
    case (Some send)
    with assms redirect_sent show ?thesis by blast
  qed
  have "length (sr_sent (handle_request_client env sender c ready strm req cl err)) \<le> Suc k" for c ready strm req cl err
    using r by (simp add: handle_request_client_def Let_def split: prod.split)
  then show ?thesis by (simp add: send_step_def Let_def split: sum.split)
qed

lemma send_sent: "length (sr_sent (client_send env n c req err)) \<le> Suc n"
proof (induction n arbitrary: c req err)
  case 0
  show ?case using step_sent [of None 0 env 0 c req err] by simp
next
  case (Suc n)
  show ?case unfolding client_send.simps by (rule step_sent) (use Suc in auto)
qed

lemma no_redirect_sent:
  assumes "\<not> ci_follow_location c" "e \<in> set (sr_sent (client_send env n c req err))"
  shows "length (sr_sent (client_send env n c req err)) = 1 \<and> (fst e, fst (snd e)) = client_peer c"
proof -
  obtain send where s: "client_send env n = send_step env n send" by (cases n) auto
  show ?thesis
    using assms unfolding s
    by (auto simp: send_step_def handle_request_client_def Let_def split: sum.splits prod.splits if_splits)
qed

text \<open>
  C30: a call of the client ends, with any peers: it writes at most 21 requests, and if it is not
  told to follow redirections at most one, to its own peer.
\<close>

theorem calls_are_bounded:
  "length (snd (snd (client_call env req c))) \<le> 21 \<and>
   (ci_follow_location c \<or>
      (\<exists>t. snd (snd (client_call env req c)) \<in> {[], [(fst (client_peer c), snd (client_peer c), t)]}))"
proof
  let ?l = "snd (snd (client_call env req c))"
  have l: "?l = sr_sent (client_send env CPPHTTPLIB_REDIRECT_MAX_COUNT c req Err_Success)"
    by (simp add: client_call_def Let_def)
  show "length ?l \<le> 21"
    using send_sent [of env 20 c req Err_Success] by (simp add: l CPPHTTPLIB_REDIRECT_MAX_COUNT_def)
  show "ci_follow_location c \<or> (\<exists>t. ?l \<in> {[], [(fst (client_peer c), snd (client_peer c), t)]})"
  proof (cases "ci_follow_location c \<or> ?l = []")
    case False
    then obtain e es where e: "?l = e # es" by (cases ?l) auto
    then have "e \<in> set (sr_sent (client_send env CPPHTTPLIB_REDIRECT_MAX_COUNT c req Err_Success))" by (simp add: l)
    from no_redirect_sent [OF _ this] False e have "es = []" "(fst e, fst (snd e)) = client_peer c" by (auto simp: l)
    with e show ?thesis by (cases e) (auto simp: prod_eq_iff intro!: exI)
  qed auto
qed

section \<open>What a request carries\<close>

lemma skip_continue_out: "skip_continue lr strm res = (ok, strm', res') \<Longrightarrow> st_out strm' = st_out strm"
proof (induction lr strm res rule: skip_continue.induct)
  case (1 lr strm res)
  obtain ok1 s1 l1 where g1: "getline strm lr = (ok1, s1, l1)" by (cases "getline strm lr") auto
  obtain ok2 s2 l2 where g2: "getline s1 l1 = (ok2, s2, l2)" by (cases "getline s1 l1") auto
  have out: "st_out s1 = st_out strm" "st_out s2 = st_out strm" using getline_out [OF g1] getline_out [OF g2] by simp_all
  note go = 1(1) [OF _ g1 [symmetric] refl _ g2 [symmetric] refl, simplified]
  from 1(2) out show ?case
    by (subst (asm) skip_continue.simps) (auto simp: g1 g2 split: if_splits option.splits dest: go)
qed

lemma read_head_out: "read_response_head strm meth res skip = (ok, strm', res') \<Longrightarrow> st_out strm' = st_out strm"
  by (auto simp: read_response_head_def read_response_line_def split: prod.splits if_splits option.splits
      dest!: getline_out skip_continue_out read_headers_out)

lemma read_body_out: "read_response_body env c strm meth res err = (r, strm', res', err') \<Longrightarrow> st_out strm' = st_out strm"
  by (auto simp: read_response_body_def Let_def split: prod.splits if_splits dest: detail_out)

lemma write_body_out: "\<exists>t. st_out (fst (write_request_body strm req err)) = st_out strm @ t"
  by (simp add: write_request_body_def write_stream_def)

lemma receive_out:
  "receive_response env c strm req res written expect err = (r, strm', res', err') \<Longrightarrow> \<exists>t. st_out strm' = st_out strm @ t"
  unfolding receive_response_def
  using write_body_out
  by (auto split: prod.splits if_splits dest!: read_head_out read_body_out) (metis fst_conv)+

lemma emplace_keeps: "h \<in> set (hr_headers req) \<Longrightarrow> h \<in> set (hr_headers (emplace_missing x req))"
  by (simp add: emplace_missing_def header_emplace_def)

text \<open>The whole table is written, line by line.\<close>

lemma write_headers_member:
  "h \<in> set hs \<Longrightarrow> \<exists>before after. write_headers hs = before @ fst h @ '': '' @ snd h @ crlf @ after"
proof (induction hs)
  case (Cons a hs)
  then consider "h = a" | "h \<in> set hs" by auto
  then show ?case
  proof cases
    case 1
    then show ?thesis by (cases a) (force intro: exI [of _ "[]"])
  next
    case 2
    then obtain b c where "write_headers hs = b @ fst h @ '': '' @ snd h @ crlf @ c" using Cons.IH by blast
    then show ?thesis by (cases a) (intro exI [of _ "fst a @ '': '' @ snd a @ crlf @ b"] exI [of _ c], simp)
  qed
qed simp

lemma write_carries:
  assumes "list_all field_ok (hr_headers (complete_headers env c cl req))"
    and "h \<in> set (hr_headers (complete_headers env c cl req))" "\<And>hs. set (ce_arrange env hs) = set hs"
    and "write_request env c strm req cl err skip = (w, s, r, e)"
  shows "\<exists>before after. st_out s = st_out strm @ before @ fst h @ '': '' @ snd h @ crlf @ after"
proof -
  let ?R = "complete_headers env c cl req"
  obtain target ps where t: "request_target c ?R = (target, ps)" by (cases "request_target c ?R") auto
  have v: "list_all (\<lambda>h. is_field_name (fst h) \<and> is_field_value (snd h)) (hr_headers ?R)"
    using assms(1) by (simp add: list_all_iff field_ok_def)
  obtain b a where ba: "write_headers (ce_arrange env (hr_headers ?R)) = b @ fst h @ '': '' @ snd h @ crlf @ a"
    using write_headers_member [of h "ce_arrange env (hr_headers ?R)"] assms(2,3) by blast
  let ?l = "hr_method ?R @ '' '' @ target @ '' HTTP/1.1'' @ crlf"
  have "\<exists>t. st_out s = st_out strm @ ?l @ (b @ fst h @ '': '' @ snd h @ crlf @ a) @ t"
    using assms(4) v
    by (auto simp: write_request_def Let_def t ba write_request_line_def write_stream_def write_request_body_def
      split: if_splits)
  then show ?thesis by (metis append.assoc)
qed

lemma process_writes:
  assumes "client_process_request env c ready strm req res0 cl err = (out, strm', req', res, err')"
  obtains req1 expect w s r e t where
    "req1 = req \<or> req1 = set_request_header ''Expect'' ''100-continue'' req"
    "write_request env c strm req1 cl err expect = (w, s, r, e)" "st_out strm' = st_out s @ t"
proof -
  define req1 where "req1 = (if \<not> has_header (hr_headers req) ''Expect'' \<and> length (hr_body req) \<ge> CPPHTTPLIB_EXPECT_100_THRESHOLD
                 then set_request_header ''Expect'' ''100-continue'' req else req)"
  define expect where "expect = (header_value (hr_headers req1) ''Expect'' = ''100-continue'')"
  obtain w s r e where w: "write_request env c strm req1 cl err expect = (w, s, r, e)"
    by (cases "write_request env c strm req1 cl err expect") auto
  obtain s1 e1 where b: "(if expect \<and> \<not> ready then write_request_body s r e else (s, e)) = (s1, e1)"
    by (cases "if expect \<and> \<not> ready then write_request_body s r e else (s, e)") auto
  have s1: "\<exists>t. st_out s1 = st_out s @ t"
    using b write_body_out [of s r e] by (auto split: if_splits)
  obtain rr rs re where "receive_response env c s1 r res0 w (expect \<and> ready) e1 = (rr, strm', rs, re)"
    using assms b w
    by (simp add: client_process_request_def req1_def [symmetric] expect_def [symmetric] Let_def split: prod.splits)
  from receive_out [OF this] obtain t where "st_out strm' = st_out s1 @ t" by blast
  with s1 obtain t' where "st_out strm' = st_out s @ t'" by auto
  moreover have "req1 = req \<or> req1 = set_request_header ''Expect'' ''100-continue'' req" by (simp add: req1_def)
  ultimately show thesis using that w by blast
qed

section \<open>A redirection to another host\<close>

lemma setup_parts:
  assumes "\<not> has_proxy c" "ci_basic_auth_username c \<noteq> []"
  shows "ci_default_headers (setup_redirect_client c (ClientImpl host port)) = []"
    "ci_basic_auth_username (setup_redirect_client c (ClientImpl host port)) = ci_basic_auth_username c"
    "ci_basic_auth_password (setup_redirect_client c (ClientImpl host port)) = ci_basic_auth_password c"
    "ci_host (setup_redirect_client c (ClientImpl host port)) = escape_abstract_namespace_unix_domain host"
    "ci_port (setup_redirect_client c (ClientImpl host port)) = port"
    "ci_socket (setup_redirect_client c (ClientImpl host port)) = None"
    "\<not> has_proxy (setup_redirect_client c (ClientImpl host port))"
    "ci_bearer_token_auth_token (setup_redirect_client c (ClientImpl host port)) = ci_bearer_token_auth_token c"
    "ci_proxy_basic_auth_username (setup_redirect_client c (ClientImpl host port)) = []"
    "ci_proxy_bearer_token_auth_token (setup_redirect_client c (ClientImpl host port)) = []"
    "ci_unix_socket (setup_redirect_client c (ClientImpl host port)) = ci_unix_socket c"
proof -
  have "setup_redirect_client c (ClientImpl host port) = (ClientImpl host port)
      \<lparr>ci_keep_alive := ci_keep_alive c, ci_follow_location := True, ci_path_encode := ci_path_encode c,
       ci_basic_auth_username := ci_basic_auth_username c, ci_basic_auth_password := ci_basic_auth_password c,
       ci_bearer_token_auth_token := ci_bearer_token_auth_token c, ci_unix_socket := ci_unix_socket c\<rparr>"
    using assms
    by (cases "ci_bearer_token_auth_token c = []")
      (simp_all add: setup_redirect_client_def Let_def set_keep_alive_def set_follow_location_def set_path_encode_def
        set_basic_auth_def set_bearer_token_auth_def ClientImpl_def)
  then show "ci_default_headers (setup_redirect_client c (ClientImpl host port)) = []"
    "ci_basic_auth_username (setup_redirect_client c (ClientImpl host port)) = ci_basic_auth_username c"
    "ci_basic_auth_password (setup_redirect_client c (ClientImpl host port)) = ci_basic_auth_password c"
    "ci_host (setup_redirect_client c (ClientImpl host port)) = escape_abstract_namespace_unix_domain host"
    "ci_port (setup_redirect_client c (ClientImpl host port)) = port"
    "ci_socket (setup_redirect_client c (ClientImpl host port)) = None"
    "\<not> has_proxy (setup_redirect_client c (ClientImpl host port))"
    "ci_bearer_token_auth_token (setup_redirect_client c (ClientImpl host port)) = ci_bearer_token_auth_token c"
    "ci_proxy_basic_auth_username (setup_redirect_client c (ClientImpl host port)) = []"
    "ci_proxy_bearer_token_auth_token (setup_redirect_client c (ClientImpl host port)) = []"
    "ci_unix_socket (setup_redirect_client c (ClientImpl host port)) = ci_unix_socket c"
    by (simp_all add: ClientImpl_def has_proxy_def)
qed

text \<open>The limit that was set for the length of a body does not go over to the client for another host.\<close>

lemma redirect_forgets_limit:
  "ci_payload_max_length (setup_redirect_client c (ClientImpl host port)) = CPPHTTPLIB_PAYLOAD_MAX_LENGTH"
  by (simp add: setup_redirect_client_def Let_def set_keep_alive_def set_follow_location_def set_path_encode_def
      set_basic_auth_def set_bearer_token_auth_def set_proxy_def set_proxy_basic_auth_def
      set_proxy_bearer_token_auth_def ClientImpl_def)

definition no_authorization :: "http_request \<Rightarrow> bool" where
  "no_authorization req \<longleftrightarrow> \<not> has_header (hr_headers req) ''Authorization''"

lemma no_authorization_cons:
  assumes "k \<in> set known_names" "k \<noteq> ''Authorization''" "no_authorization req"
  shows "no_authorization (emplace_missing (k, v) req)" "no_authorization (set_request_header k v req)"
  using assms known_names_differ [OF assms(1), of "''Authorization''"] known_names_plain [of "''Authorization''"]
  by (auto simp: no_authorization_def emplace_missing_def set_request_header_def header_emplace_def has_header_def
      equal_range_def)

text \<open>The fields that are added, in their order, as one list.\<close>

definition default_fields :: "client_env \<Rightarrow> http_client \<Rightarrow> string \<Rightarrow> string \<Rightarrow> headers" where
  "default_fields env c ct body =
     ce_arrange env (ci_default_headers c)
     @ [(''Host'', if ci_unix_socket c then ''localhost'' else make_host_and_port_string (ci_host c) (ci_port c) False),
        (''Accept'', ''*/*''), (''Accept-Encoding'', []), (''User-Agent'', ''cpp-httplib/0.37.0'')]
     @ (if body = [] then [] else (if ct = [] then [] else [(''Content-Type'', ct)]) @ [(''Content-Length'', show_nat (length body))])"

definition authorization_fields :: "http_client \<Rightarrow> headers" where
  "authorization_fields c =
     (if ci_basic_auth_password c \<noteq> [] \<or> ci_basic_auth_username c \<noteq> []
      then [make_basic_authentication_header (ci_basic_auth_username c) (ci_basic_auth_password c) False] else [])
     @ (if ci_proxy_basic_auth_username c \<noteq> [] \<and> ci_proxy_basic_auth_password c \<noteq> []
        then [make_basic_authentication_header (ci_proxy_basic_auth_username c) (ci_proxy_basic_auth_password c) True] else [])
     @ (if ci_bearer_token_auth_token c \<noteq> []
        then [make_bearer_token_authentication_header (ci_bearer_token_auth_token c) False] else [])
     @ (if ci_proxy_bearer_token_auth_token c \<noteq> []
        then [make_bearer_token_authentication_header (ci_proxy_bearer_token_auth_token c) True] else [])"

lemma emplace_body [simp]: "hr_body (emplace_missing h req) = hr_body req" "hr_method (emplace_missing h req) = hr_method req"
  by (simp_all add: emplace_missing_def)

lemma fold_emplace_body [simp]: "hr_body (fold emplace_missing l req) = hr_body req"
  by (induction l arbitrary: req) simp_all

lemma emplace_checked:
  "k \<in> set known_names \<Longrightarrow> is_field_value v \<Longrightarrow>
     (if has_header (hr_headers req) k then req else set_request_header k v req) = emplace_missing (k, v) req"
  by (simp add: emplace_missing_def header_emplace_def set_request_known)

lemma prepare_fold:
  "prepare_default_headers env c ct req = fold emplace_missing (default_fields env c ct (hr_body req)) req"
proof -
  have k: "''Accept-Encoding'' \<in> set known_names" "''User-Agent'' \<in> set known_names" by simp_all
  show ?thesis
    unfolding prepare_default_headers_def default_fields_def emplace_checked [OF k(1) client_table_values(2)]
      emplace_checked [OF k(2) client_table_values(1)]
    unfolding Let_def by simp
qed

lemma complete_headers_steps:
  obtains r1 ct r2 where "r1 = req \<or> r1 = set_request_header ''Connection'' ''close'' req" "ct = [] \<or> ct = ''text/plain''"
    "r2 = prepare_default_headers env c ct r1 \<or>
     r2 = set_request_header ''Content-Length'' ''0'' (prepare_default_headers env c ct r1)"
    "complete_headers env c cl req = add_authorization c r2"
proof -
  define r1 where "r1 = (if cl \<and> \<not> has_header (hr_headers req) ''Connection''
                 then set_request_header ''Connection'' ''close'' req else req)"
  define ct where "ct = (if \<not> has_header (hr_headers r1) ''Content-Type'' \<and> hr_body r1 \<noteq> [] then ''text/plain'' else [])"
  define p where "p = prepare_default_headers env c ct r1"
  define r2 where "r2 = (if hr_body p = [] \<and> hr_method p \<in> {''POST'', ''PUT'', ''PATCH''}
                 then set_request_header ''Content-Length'' ''0'' p else p)"
  have "complete_headers env c cl req = add_authorization c r2"
    unfolding complete_headers_def Let_def r2_def p_def ct_def r1_def by (rule refl)
  moreover have "r1 = req \<or> r1 = set_request_header ''Connection'' ''close'' req" by (simp add: r1_def)
  moreover have "ct = [] \<or> ct = ''text/plain''" by (simp add: ct_def)
  moreover have "r2 = p \<or> r2 = set_request_header ''Content-Length'' ''0'' p" by (simp add: r2_def)
  ultimately show thesis using that unfolding p_def by blast
qed

lemma add_authorization_fold: "add_authorization c req = fold emplace_missing (authorization_fields c) req"
  unfolding add_authorization_def authorization_fields_def Let_def fold_append o_apply
  by (cases "ci_basic_auth_password c \<noteq> [] \<or> ci_basic_auth_username c \<noteq> []";
      cases "ci_proxy_basic_auth_username c \<noteq> [] \<and> ci_proxy_basic_auth_password c \<noteq> []";
      cases "ci_bearer_token_auth_token c \<noteq> []"; cases "ci_proxy_bearer_token_auth_token c \<noteq> []")
    (simp_all only: if_True if_False fold.simps o_apply id_apply simp_thms)

lemma fold_keeps: "h \<in> set (hr_headers req) \<Longrightarrow> h \<in> set (hr_headers (fold emplace_missing l req))"
  by (induction l arbitrary: req) (simp_all add: emplace_keeps)

lemma fold_no_authorization:
  "fst ` set l \<subseteq> set known_names - {''Authorization''} \<Longrightarrow> no_authorization req \<Longrightarrow>
     no_authorization (fold emplace_missing l req)"
  by (induction l arbitrary: req) (auto simp: no_authorization_cons)

lemma complete_authorization:
  assumes "ci_default_headers c = []" "ce_arrange env [] = []" "no_authorization req" "ci_basic_auth_username c \<noteq> []"
  shows "make_basic_authentication_header (ci_basic_auth_username c) (ci_basic_auth_password c) False
    \<in> set (hr_headers (complete_headers env c cl req))"
proof -
  let ?H = "make_basic_authentication_header (ci_basic_auth_username c) (ci_basic_auth_password c) False"
  note na = no_authorization_cons(2)
  have p: "no_authorization (prepare_default_headers env c ct r)" if "no_authorization r" for ct r
    unfolding prepare_fold by (rule fold_no_authorization [OF _ that]) (simp add: default_fields_def assms(1,2))
  have "?H \<in> set (hr_headers (emplace_missing ?H r))" if "no_authorization r" for r
    using that by (simp add: emplace_missing_def header_emplace_def no_authorization_def make_basic_authentication_header_def)
  then have "?H \<in> set (hr_headers (add_authorization c r))" if "no_authorization r" for r
    using that assms(4) by (simp add: add_authorization_fold authorization_fields_def fold_keeps)
  moreover obtain r1 ct r2 where "r1 = req \<or> r1 = set_request_header ''Connection'' ''close'' req"
    "r2 = prepare_default_headers env c ct r1 \<or>
     r2 = set_request_header ''Content-Length'' ''0'' (prepare_default_headers env c ct r1)"
    "complete_headers env c cl req = add_authorization c r2"
    by (rule complete_headers_steps)
  ultimately show ?thesis using assms(3) p na [of "''Connection''"] na [of "''Content-Length''"] by auto
qed

lemma basic_value:
  assumes "s \<noteq> []"
  shows "is_field_value (''Basic '' @ base64_encode s)"
proof -
  let ?v = "base64_encode s"
  have v: "list_all is_field_vchar ?v" using base64_value(1) by (auto simp: list_all_iff is_field_vchar_def)
  have "length ?v \<noteq> 0" using rfc4648_length [of "map code s"] assms by (cases s) (auto simp: base64_is_rfc4648_eq)
  then obtain w z where wz: "?v = w @ [z]" by (cases ?v rule: rev_cases) auto
  have e: "''Basic '' @ ?v = CHR ''B'' # (''asic '' @ w) @ [z]" by (simp add: wz)
  have b: "is_field_vchar (CHR ''B'')" "list_all (\<lambda>c. c = CHR '' '' \<or> code c = 9 \<or> is_field_vchar c) ''asic ''"
    by code_simp+
  have "is_field_content (''Basic '' @ ?v)"
    unfolding e using v b by (subst field_content_long) (auto simp: wz list_all_iff)
  then show ?thesis by (simp add: is_field_value_def)
qed

lemma fold_ok:
  "list_all field_ok l \<Longrightarrow> list_all field_ok (hr_headers req) \<Longrightarrow> list_all field_ok (hr_headers (fold emplace_missing l req))"
  by (induction l arbitrary: req) (simp_all add: emplace_missing_def header_emplace_def)

lemma set_request_ok: "list_all field_ok (hr_headers req) \<Longrightarrow> list_all field_ok (hr_headers (set_request_header k v req))"
  by (simp add: set_request_header_def header_emplace_def field_ok_def)

lemma complete_ok:
  assumes "ci_default_headers c = []" "ce_arrange env [] = []" "list_all field_ok (hr_headers req)"
    and "ci_bearer_token_auth_token c = []" "ci_proxy_basic_auth_username c = []" "ci_proxy_bearer_token_auth_token c = []"
    and "\<not> ci_unix_socket c" "is_field_value (make_host_and_port_string (ci_host c) (ci_port c) False)"
  shows "list_all field_ok (hr_headers (complete_headers env c cl req))"
proof -
  have t: "is_field_value ''text/plain''" by code_simp
  have p: "list_all field_ok (hr_headers (prepare_default_headers env c ct r))"
    if "list_all field_ok (hr_headers r)" "ct = [] \<or> ct = ''text/plain''" for ct r
    unfolding prepare_fold
    using that(2) assms(7,8) t client_table_values show_nat_field known_names_plain
    by (intro fold_ok [OF _ that(1)]) (auto simp: default_fields_def field_ok_def assms(1,2))
  have "list_all field_ok (authorization_fields c)"
    using basic_value known_names_plain [of "''Authorization''"]
    by (simp add: authorization_fields_def assms(4-6) field_ok_def make_basic_authentication_header_def)
  then have "list_all field_ok (hr_headers (add_authorization c r))" if "list_all field_ok (hr_headers r)" for r
    unfolding add_authorization_fold by (rule fold_ok [OF _ that])
  moreover obtain r1 ct r2 where "r1 = req \<or> r1 = set_request_header ''Connection'' ''close'' req"
    "ct = [] \<or> ct = ''text/plain''"
    "r2 = prepare_default_headers env c ct r1 \<or>
     r2 = set_request_header ''Content-Length'' ''0'' (prepare_default_headers env c ct r1)"
    "complete_headers env c cl req = add_authorization c r2"
    by (rule complete_headers_steps)
  ultimately show ?thesis using assms(3) p set_request_ok by metis
qed

lemma erased_headers:
  assumes "list_all field_ok (hr_headers req)"
  shows "no_authorization (redirected_request (req\<lparr>hr_headers := erase_headers host_specific_headers (hr_headers req)\<rparr>) st path)"
    and "list_all field_ok (hr_headers (redirected_request
           (req\<lparr>hr_headers := erase_headers host_specific_headers (hr_headers req)\<rparr>) st path))"
    and "hr_path (redirected_request (req\<lparr>hr_headers := erase_headers host_specific_headers (hr_headers req)\<rparr>) st path) = path"
proof -
  have e: "equal_range (erase_headers host_specific_headers hs) ''Authorization'' = []" for hs
    by (auto simp: equal_range_def erase_headers_def host_specific_headers_def filter_empty_conv)
  then show "no_authorization (redirected_request (req\<lparr>hr_headers := erase_headers host_specific_headers (hr_headers req)\<rparr>) st path)"
    by (simp add: no_authorization_def redirected_request_def has_header_def Let_def) (simp add: equal_range_def)
  show "list_all field_ok (hr_headers (redirected_request
           (req\<lparr>hr_headers := erase_headers host_specific_headers (hr_headers req)\<rparr>) st path))"
    using assms by (simp add: redirected_request_def erase_headers_def list_all_iff Let_def)
  show "hr_path (redirected_request (req\<lparr>hr_headers := erase_headers host_specific_headers (hr_headers req)\<rparr>) st path) = path"
    by (simp add: redirected_request_def Let_def)
qed

text \<open>What the first exchange of a call carries, whatever becomes of the call.\<close>

lemma send_carries:
  assumes "client_connect env n c = Inr strm" "\<not> has_proxy c" "ci_default_headers c = []" "hr_path req \<noteq> []"
    and "\<And>hs. set (ce_arrange env hs) = set hs" "list_all field_ok (hr_headers req)" "no_authorization req"
    and "ci_basic_auth_username c \<noteq> []" "ci_bearer_token_auth_token c = []" "ci_proxy_basic_auth_username c = []"
    and "ci_proxy_bearer_token_auth_token c = []"
    and "\<not> ci_unix_socket c" "is_field_value (make_host_and_port_string (ci_host c) (ci_port c) False)"
  shows "\<exists>before after more. sr_sent (client_send env n c req err) =
    (ci_host c, ci_port c, before @ ''Authorization: Basic ''
       @ base64_encode (ci_basic_auth_username c @ '':'' @ ci_basic_auth_password c) @ crlf @ after) # more"
proof -
  let ?H = "make_basic_authentication_header (ci_basic_auth_username c) (ci_basic_auth_password c) False"
  obtain send where s: "client_send env n = send_step env n send" by (cases n) auto
  have ar: "ce_arrange env [] = []" using assms(5) [of "[]"] by simp
  obtain out strm' req' res err' where x: "client_exchange env c (ce_ready env n) strm req (\<not> ci_keep_alive c) err = (out, strm', req', res, err')"
    by (cases "client_exchange env c (ce_ready env n) strm req (\<not> ci_keep_alive c) err") auto
  then have "client_process_request env c (ce_ready env n) strm req Client_Response (\<not> ci_keep_alive c) err = (out, strm', req', res, err')"
    using assms(2) by (simp add: client_exchange_def)
  then obtain req1 expect w s1 r e t where w:
    "req1 = req \<or> req1 = set_request_header ''Expect'' ''100-continue'' req"
    "write_request env c strm req1 (\<not> ci_keep_alive c) err expect = (w, s1, r, e)" "st_out strm' = st_out s1 @ t"
    by (rule process_writes)
  have "list_all field_ok (hr_headers req1)" "no_authorization req1"
    using w(1) assms(6,7) no_authorization_cons(2) [of "''Expect''"] set_request_ok by auto
  then have "list_all field_ok (hr_headers (complete_headers env c (\<not> ci_keep_alive c) req1))"
    "?H \<in> set (hr_headers (complete_headers env c (\<not> ci_keep_alive c) req1))"
    using complete_ok [OF assms(3) ar _ assms(9-13)] complete_authorization [OF assms(3) ar _ assms(8)] by blast+
  from write_carries [OF this assms(5) w(2)] obtain before after where
    "st_out s1 = st_out strm @ before @ fst ?H @ '': '' @ snd ?H @ crlf @ after" by blast
  then have "drop (length (st_out strm)) (st_out strm') = before @ ''Authorization: Basic ''
       @ base64_encode (ci_basic_auth_username c @ '':'' @ ci_basic_auth_password c) @ crlf @ after @ t"
    using w(3) by (simp add: make_basic_authentication_header_def)
  moreover have "client_peer c = (ci_host c, ci_port c)" using assms(2) by (simp add: client_peer_def)
  ultimately have "\<exists>more. sr_sent (handle_request_client env send c (ce_ready env n) strm req (\<not> ci_keep_alive c) err) =
    (ci_host c, ci_port c, before @ ''Authorization: Basic ''
       @ base64_encode (ci_basic_auth_username c @ '':'' @ ci_basic_auth_password c) @ crlf @ after @ t) # more"
    using assms(4) by (simp add: handle_request_client_def x Let_def)
  then show ?thesis
    unfolding s by (force simp: send_step_def assms(1,3) ar Let_def)
qed

text \<open>
  A redirection to another host: the fields \<^verbatim>\<open>Host\<close>, \<^verbatim>\<open>Authorization\<close> and \<^verbatim>\<open>Proxy-Authorization\<close> are erased
  from the request, but the client for the other host gets the user's name and password, and so the
  request that it writes to this host has them in its \<^verbatim>\<open>Authorization\<close> field.
\<close>

theorem redirect_hands_on_credentials:
  assumes "header_value (cs_headers res) ''location'' \<noteq> []"
    and "parse_location (header_value (cs_headers res) ''location'') = Some m" "redirect_target c m = Some t"
    and "rt_scheme t = ''http''" "rt_host t \<noteq> ci_host c" "rt_path t \<noteq> []"
    and "escape_abstract_namespace_unix_domain (rt_host t) = rt_host t"
    and "ci_basic_auth_username c \<noteq> []" "\<not> has_proxy c" "ci_bearer_token_auth_token c = []" "\<not> ci_unix_socket c"
    and "list_all field_ok (hr_headers req)" "is_field_value (make_host_and_port_string (rt_host t) (rt_port t) False)"
    and "\<And>hs. set (ce_arrange env hs) = set hs" "ce_connect env n (rt_host t) (rt_port t) = Inr strm"
  shows "\<exists>before after more. sr_sent (client_redirect (Some (client_send env n)) c req res err) =
    (rt_host t, rt_port t, before @ ''Authorization: Basic ''
       @ base64_encode (ci_basic_auth_username c @ '':'' @ ci_basic_auth_password c) @ crlf @ after) # more"
proof -
  let ?rc = "setup_redirect_client c (ClientImpl (rt_host t) (rt_port t))"
  let ?r = "redirected_request (req\<lparr>hr_headers := erase_headers host_specific_headers (hr_headers req)\<rparr>) (cs_status res) (rt_path t)"
  note sp = setup_parts [OF assms(9,8), of "rt_host t" "rt_port t"]
  note er = erased_headers [OF assms(12), of "cs_status res" "rt_path t"]
  have cn: "client_connect env n ?rc = Inr strm"
    using sp assms(7,15) by (simp add: client_connect_def client_peer_def)
  have "\<exists>before after more. sr_sent (client_send env n ?rc ?r err) =
    (rt_host t, rt_port t, before @ ''Authorization: Basic ''
       @ base64_encode (ci_basic_auth_username c @ '':'' @ ci_basic_auth_password c) @ crlf @ after) # more"
    using send_carries [OF cn sp(7,1) _ assms(14) er(2,1), of err] sp er(3) assms(6-8,10,11,13) by simp
  then show ?thesis
    using assms(1-5) by (simp add: client_redirect_def create_redirect_client_def detail_redirect_def Let_def)
qed

section \<open>Answers that end a call\<close>

lemma redirect_without_location:
  assumes "header_value (cs_headers res) ''location'' = []"
  shows "client_redirect (Some send) c req res err =
    \<lparr>sr_outcome = Returns False, sr_error = err, sr_client = c, sr_request = req, sr_response = res, sr_sent = []\<rparr>"
  by (simp add: client_redirect_def assms)

lemma redirect_fails_without_location:
  assumes "ci_follow_location c" "client_exchange env c ready strm req cl err = (Returns True, strm', req', res, err')"
    "cs_status res = 304" "hr_path req \<noteq> []" "header_value (cs_headers res) ''location'' = []"
  shows "handle_request_client env (Some send) c ready strm req cl err =
    \<lparr>sr_outcome = Returns False, sr_error = err', sr_client = c\<lparr>ci_socket := if server_closes res then None else Some strm'\<rparr>, sr_request = req, sr_response = res,
     sr_sent = [(fst (client_peer c), snd (client_peer c), drop (length (st_out strm)) (st_out strm'))]\<rparr>"
proof -
  have 1: "300 < cs_status res" "cs_status res < 400" using assms(3) by simp_all
  have f: "ci_follow_location (c\<lparr>ci_socket := s\<rparr>) = ci_follow_location c" for s by simp
  show ?thesis
    unfolding handle_request_client_def assms(2) prod.case Let_def redirect_without_location [OF assms(5)]
    by (simp only: assms(1,4) 1 f if_False if_True simp_thms send_result.select_convs send_result.update_convs)
qed

text \<open>
  With redirections switched on, an answer \<^verbatim>\<open>304 Not Modified\<close>, which has no location, ends a call
  with an error although it was read in full.
\<close>

theorem not_modified_is_an_error:
  assumes "client_connect env CPPHTTPLIB_REDIRECT_MAX_COUNT c = Inr strm" "hr_path req \<noteq> []" "ci_follow_location c"
    and "client_exchange env c (ce_ready env CPPHTTPLIB_REDIRECT_MAX_COUNT) strm
           (fold insert_missing (ce_arrange env (ci_default_headers c)) req) (\<not> ci_keep_alive c) Err_Success
         = (Returns True, strm', req', res, Err_Success)"
    and "cs_status res = 304" "header_value (cs_headers res) ''location'' = []"
  shows "\<exists>hs c' sent. client_call env req c = (Inr (None, Err_Unknown, hs), c', sent)"
proof -
  have n: "client_send env CPPHTTPLIB_REDIRECT_MAX_COUNT =
      send_step env CPPHTTPLIB_REDIRECT_MAX_COUNT (Some (client_send env 19))"
    unfolding CPPHTTPLIB_REDIRECT_MAX_COUNT_def using client_send.simps(2) [of env 19] by simp
  let ?req = "fold insert_missing (ce_arrange env (ci_default_headers c)) req"
  have "hr_path (fold insert_missing l r) = hr_path r" for l r
    by (induction l arbitrary: r) (simp_all add: insert_missing_def)
  then have p: "hr_path ?req \<noteq> []" using assms(2) by simp
  note h = redirect_fails_without_location [OF assms(3,4,5) p assms(6)]
  show ?thesis
    unfolding client_call_def n send_step_def assms(1) sum.case Let_def h by simp
qed

lemma stoi_too_large: "2 ^ 31 \<le> n \<Longrightarrow> stoi (show_nat n) = Inl Out_Of_Range"
  by (simp add: stoi_def scan_show digits_value_show show_nat_nonempty)

text \<open>A port in a location that does not fit into an \<^verbatim>\<open>int\<close> makes the call raise an exception.\<close>

theorem location_port_raises:
  assumes "header_value (cs_headers res) ''location'' = ''http://door:99999999999/''"
  shows "sr_outcome (client_redirect (Some send) c req res err) = Raises Stoi_Out_Of_Range"
proof -
  have p: "parse_location ''http://door:99999999999/'' =
      Some \<lparr>lp_scheme = ''http'', lp_host = ''door'', lp_port = ''99999999999'', lp_path = ''/'', lp_query = []\<rparr>"
    by code_simp
  have "show_nat 99999999999 = ''99999999999''" by (simp add: show_nat.simps digit_def)
  then have st: "stoi ''99999999999'' = Inl Out_Of_Range" using stoi_too_large [of 99999999999] by simp
  have t: "redirect_target c \<lparr>lp_scheme = ''http'', lp_host = ''door'', lp_port = ''99999999999'', lp_path = ''/'', lp_query = []\<rparr>
      = None"
    unfolding redirect_target_def location_parts.select_convs st by simp
  show ?thesis
    unfolding client_redirect_def assms Let_def option.case p t by simp
qed

text \<open>
  The path of a location is decoded as a query is: a plus sign becomes a space, and the request that
  follows asks for another path.
\<close>

theorem location_plus_is_space:
  "\<exists>m t. parse_location ''/a+b'' = Some m \<and> redirect_target c m = Some t \<and> rt_path t = ''/a b'' \<and>
     (ci_path_encode c \<longrightarrow>
        fst (request_target c (Http_Request\<lparr>hr_path := rt_path t\<rparr>)) = ''/a%20b'')"
proof -
  let ?m = "\<lparr>lp_scheme = [], lp_host = [], lp_port = [], lp_path = ''/a+b'', lp_query = []\<rparr>"
  have m: "parse_location ''/a+b'' = Some ?m" by code_simp
  have d: "decode_query_component ''/a+b'' True = ''/a b''" "encode_path ''/a b'' = ''/a%20b''" by code_simp+
  have q: "parse_query_text [] [] = []" by (simp add: parse_query_text_def split_def split_part_def trim_def)
  show ?thesis
    by (intro exI [of _ ?m] exI [of _ "\<lparr>rt_scheme = ''http'', rt_host = ci_host c, rt_port = ci_port c, rt_path = ''/a b''\<rparr>"])
      (simp add: m redirect_target_def d request_target_def Let_def Http_Request_def q del: encode_path.simps)
qed

text \<open>An interim answer that has header fields is not passed over: the client takes it for an error.\<close>

theorem interim_fields_are_refused:
  assumes "cs_status res = 100" "st_in strm = t @ crlf @ crlf @ rest"
    and "\<forall>c \<in> set t. code c \<noteq> 10" "length t + 1 < CPPHTTPLIB_MAX_LINE_LENGTH"
  shows "fst (skip_continue lr strm res) = False"
proof -
  define s1 where "s1 = strm\<lparr>st_in := crlf @ rest\<rparr>"
  have in1: "st_in s1 = [] @ crlf @ rest" by (simp add: s1_def)
  obtain l1 where g1: "getline strm lr = (True, s1, l1)"
    unfolding s1_def by (rule getline_line [OF assms(3,4,2)])
  obtain l2 where g2: "getline s1 l1 = (True, s1\<lparr>st_in := rest\<rparr>, l2)" "line_text l2 = [] @ crlf"
    by (rule getline_line [OF _ _ in1]) (auto simp: CPPHTTPLIB_MAX_LINE_LENGTH_def)
  have "match_status_line (c_str ([] @ crlf)) = None" by code_simp
  then show ?thesis
    using assms(1) by (subst skip_continue.simps) (simp only: g1 g2 if_True if_False prod.case option.case simp_thms fst_conv)
qed

end
