(* ===== verification/Spec2Isabelle.thy ===== *)
theory Spec2Isabelle
  imports Door_Scenarios Api_Windows Camera_Program Cam_Log Mailer Legacy_Api Main_Program
    Unit_Tests Gpio_Lines Edge_Thread Http_Props Preview Dataset Web_Handshake Http_Files Http_Calls
begin

text \<open>
  \<^bold>\<open>A model of the IoT multi-factor smart door system\<close>

  The repository holds several programs that share parts. The \<^emph>\<open>alarm system\<close>
  (\<^verbatim>\<open>src/DoorAlarmSystem.cpp\<close>, started by \<^verbatim>\<open>src/main.cpp\<close>) watches a door: GPIO callbacks and an
  NFC loop post events to a queue, a control thread feeds them to a state machine, a timer
  thread posts the timeouts, and alarm manager, output controller and logger carry out what the
  machine decides. The \<^emph>\<open>camera lock\<close> (\<^verbatim>\<open>main_cam.cpp\<close>) passes frames from a camera thread
  through a queue to a recognition thread, which publishes access events on a bus; the relay
  controller subscribes to the bus, and a small GUI server can switch an override mode. The
  \<^emph>\<open>REST server\<close> (\<^verbatim>\<open>src/main_api.cpp\<close>) keeps its own picture of the system and runs the
  five-second verification window by itself; its requests come through the HTTP library
  \<^verbatim>\<open>external/httplib.h\<close>. The programs share no memory with each other. \<^verbatim>\<open>src/main.cpp\<close> runs the
  alarm system, its HTTP server and the two camera threads side by side; two tools enrol the
  people that the recogniser knows.

  \<^bold>\<open>Theories and sources\<close> (paths are relative to the repository)

  \<^item> \<^verbatim>\<open>Prelude\<close>: time units, the result of a loop turn, collections of rewrite rules, and the
    locales \<^verbatim>\<open>safe_relation\<close> and \<^verbatim>\<open>safe_machine\<close> (invariants of step relations and of step
    functions), interpreted by every component with an invariant.
  \<^item> \<^verbatim>\<open>Queues\<close>: \<^verbatim>\<open>include/Event.h\<close>, \<^verbatim>\<open>include/EventQueue.h\<close>, \<^verbatim>\<open>include/ThreadSafeQueue.h\<close>; the
    locales \<^verbatim>\<open>fifo\<close> and \<^verbatim>\<open>bounded_fifo\<close> are the contracts of the two classes.
  \<^item> \<^verbatim>\<open>Wakeup\<close>: the protocol of \<^verbatim>\<open>condition_variable::wait\<close>, one step per lock, test, park and
    notification; the locale \<^verbatim>\<open>guarded_wait\<close> says when no wake-up is lost. Both queues, the
    worker of the logger, the timer of the lock and the wait in \<^verbatim>\<open>main\<close> are instances of the
    protocol; for the logger and the lock the locale covers only the updates that take the
    mutex, since their stop requests do not.
  \<^item> \<^verbatim>\<open>Door_FSM\<close>: \<^verbatim>\<open>src/DoorAlarmFSM.cpp\<close>. One definition per handler, dispatched by
    \<^verbatim>\<open>handleEvent\<close>; the manager and logger it calls are the record \<^verbatim>\<open>ports\<close> with the locale
    \<^verbatim>\<open>alarm_port\<close>, which \<^verbatim>\<open>Alarm\<close> (\<^verbatim>\<open>src/AlarmManager.cpp\<close>) interprets. \<^verbatim>\<open>spec_next\<close> is the
    transition table the handlers refine.
  \<^item> \<^verbatim>\<open>Outputs\<close> (\<^verbatim>\<open>src/OutputController.cpp\<close>), \<^verbatim>\<open>Async_Log\<close> (\<^verbatim>\<open>src/AsyncLogger.cpp\<close>), \<^verbatim>\<open>Access\<close>
    (\<^verbatim>\<open>src/NFCReader.cpp\<close>, \<^verbatim>\<open>src/AccessController.cpp\<close>, \<^verbatim>\<open>src/GPIOPin.cpp\<close>,
    \<^verbatim>\<open>src/main_nfc_access.cpp\<close>).
  \<^item> \<^verbatim>\<open>Door_System\<close>: \<^verbatim>\<open>src/DoorAlarmSystem.cpp\<close>, every callback and loop turn, and \<^verbatim>\<open>sys_step\<close>,
    which interleaves them. \<^verbatim>\<open>Door_Scenarios\<close>: the behaviour of the whole.
  \<^item> \<^verbatim>\<open>Cpp_Text\<close>: the string and number operations of the C++ library that are used. \<^verbatim>\<open>Json\<close>,
    \<^verbatim>\<open>Api_Server\<close>, \<^verbatim>\<open>Api_Props\<close>, \<^verbatim>\<open>Api_Windows\<close>: \<^verbatim>\<open>src/main_api.cpp\<close>, every helper, route and
    detached thread. \<^verbatim>\<open>Mailer\<close>: \<^verbatim>\<open>src/EmailAlert.cpp\<close>. \<^verbatim>\<open>Legacy_Api\<close>: \<^verbatim>\<open>src/system_state.cpp\<close>,
    \<^verbatim>\<open>src/api_server.cpp\<close>.
  \<^item> \<^verbatim>\<open>Door_Lock\<close>: \<^verbatim>\<open>include/AccessEvent.h\<close>, \<^verbatim>\<open>include/EventBus.h\<close>,
    \<^verbatim>\<open>include/OverrideManager.h\<close>, \<^verbatim>\<open>src/DoorLock.cpp\<close>. \<^verbatim>\<open>Face\<close>, \<^verbatim>\<open>Face_Database\<close>:
    \<^verbatim>\<open>src/FaceRecognizer.cpp\<close>. \<^verbatim>\<open>Gui\<close>: \<^verbatim>\<open>src/GUIServer.cpp\<close>. \<^verbatim>\<open>Cam_Log\<close>: \<^verbatim>\<open>src/LoggerCam.cpp\<close>.
    \<^verbatim>\<open>Camera_Program\<close>: \<^verbatim>\<open>main_cam.cpp\<close> with \<^verbatim>\<open>src/CameraThread.cpp\<close>,
    \<^verbatim>\<open>src/RecognitionThread.cpp\<close> and \<^verbatim>\<open>include/SignalHandler.h\<close>.
  \<^item> \<^verbatim>\<open>Main_Program\<close>: the wait of \<^verbatim>\<open>src/main.cpp\<close>. \<^verbatim>\<open>Integrated\<close>: \<^verbatim>\<open>src/main.cpp\<close> from its starts to
    the end of \<^verbatim>\<open>main\<close>, all its threads interleaved by \<open>int_step\<close>. \<^verbatim>\<open>Preview\<close>: \<^verbatim>\<open>drawOverlay\<close> of
    \<^verbatim>\<open>src/RecognitionThread.cpp\<close> and \<^verbatim>\<open>src/Camera.cpp\<close>. \<^verbatim>\<open>Dataset\<close>: \<^verbatim>\<open>tools/capture_dataset.cpp\<close>,
    \<^verbatim>\<open>tools/build_database.cpp\<close>. \<^verbatim>\<open>Unit_Tests\<close>: \<^verbatim>\<open>tests/tests.cpp\<close>.
    \<^verbatim>\<open>Gpio_Lines\<close>: \<^verbatim>\<open>include/GpioPin.h\<close>, \<^verbatim>\<open>src/OutputHandler.cpp\<close>. \<^verbatim>\<open>Edge_Thread\<close>:
    \<^verbatim>\<open>src/gpioevent.cpp\<close>.

  \<^item> \<^verbatim>\<open>external/httplib.h\<close>, the parts that serve a request: \<^verbatim>\<open>Http_Text\<close> (case folding, numbers,
    UTF-8, splitting, the syntax of fields and paths), \<^verbatim>\<open>Http_Uri\<close> (the codings of URIs, paths and
    queries), \<^verbatim>\<open>Http_Message\<close> (line reader, header fields, request lines), \<^verbatim>\<open>Http_Ranges\<close>,
    \<^verbatim>\<open>Http_Multipart\<close> (\<^verbatim>\<open>FormDataParser\<close> and the serializer), \<^verbatim>\<open>Http_Body\<close> (\<^verbatim>\<open>SocketStream\<close>, the ways
    to read a body, the chunked writer; the locale \<^verbatim>\<open>receiver_invariant\<close> says what every way of
    reading keeps), \<^verbatim>\<open>Http_Server\<close> (\<^verbatim>\<open>Server::process_request\<close> and the loop of a connection, with
    the routes of \<^verbatim>\<open>src/main_api.cpp\<close> and the handlers of \<^verbatim>\<open>Api_Server\<close>), \<^verbatim>\<open>Http_Serving\<close> (requests
    from their bytes to the bytes of the answer), \<^verbatim>\<open>Http_Written\<close> (what goes out), \<^verbatim>\<open>Http_Props\<close>
    (the properties), \<^verbatim>\<open>Thread_Pool\<close> (\<^verbatim>\<open>ThreadPool\<close>, its workers and its shutdown, interleaved by
    \<open>pool_step\<close>), \<^verbatim>\<open>Http_Listen\<close> (\<^verbatim>\<open>listen\<close>, the accept loop and \<^verbatim>\<open>stop\<close> on top of the pool).
  \<^item> The parts of \<^verbatim>\<open>external/httplib.h\<close> that no program of the repository switches on:
    \<^verbatim>\<open>Web_Digest\<close> (base 64, SHA-1, the accept key), \<^verbatim>\<open>Web_Socket\<close> (frames as they are written and
    read, messages, pings, closing), \<^verbatim>\<open>Web_Handshake\<close> (the upgrade, the client's half and the
    server's), \<^verbatim>\<open>Http_Files\<close> (mount points, entity tags, \<^verbatim>\<open>handle_file_request\<close>), \<^verbatim>\<open>Http_Client\<close>
    (\<^verbatim>\<open>ClientImpl\<close>: the request, the response, redirections and the life of the socket),
    \<^verbatim>\<open>Http_Exchange\<close> (what the client writes and the server reads, and back; the locale
    \<^verbatim>\<open>receiver_map\<close> relates two ways to take in a body), \<^verbatim>\<open>Http_Calls\<close> (whole calls, and calls with
    any peers).

  A class is a record of its members, a member function is a function on that record with the
  same name (a suffix or prefix where two classes use one name), a loop is the function of one
  turn and, where the number of turns matters, its iteration.

  \<^bold>\<open>What the lemmas show\<close>

  Refinement: the handlers implement the transition table, the control loop applies it to the
  queued events in order, the matching loop finds the first maximum. Safety: entries, unlocks
  and alarms have the causes they should have, over all interleavings. Liveness: an
  unauthorized opening leads to the alarm, in both the alarm system and the REST server; an
  open lock closes itself; the shutdown sequences end. Invariants of the orchestrator's, the
  server's, the lock's and the camera program's states. Round trips and formats of the JSON
  text. For the HTTP server: a connection refines a sequence of runs of the handlers, so that no
  bytes break the invariant of the API; what it writes is well-formed; a request that a client
  writes reaches its handler unchanged; query strings, request lines, header fields and chunked
  bodies are read back as they were written; ranges, forms and bodies stay within their bounds;
  the thread pool serves every connection it took in, in order, and ends when it is told to.
  For web sockets: a message is read as it was sent, however it is cut into frames; the two halves
  of the handshake accept each other; base 64 agrees with a definition from RFC 4648, and SHA-1
  with the test vector of its RFC. For the client: a \<^verbatim>\<open>POST\<close> that it writes runs the handler of
  the REST server with its body and brings the handler's answer back; a call writes at most 21
  requests, whatever the peers send. For files: what is served lies below the directory of a mount,
  checked against a walk along the path; a tag determines date and size of its file.
  For the composition in \<^verbatim>\<open>src/main.cpp\<close>: its runs are runs of the alarm system alone, as far as
  the door is concerned, and its teardown gets on to the end of \<^verbatim>\<open>main\<close>, by well-founded orders
  over all threads. For the tools: what is photographed is what the recogniser loads.
  A number of theorems state behaviour that the comments, the tests or the documentation
  do not suggest: the lost wake-ups of \<^verbatim>\<open>AsyncLogger::stop\<close> and of the lock's destructor, the
  alarm that falls silent, the two races of timeouts with a new opening, the automatic reset
  that forgets an open door, the override switch that unlocks when it is switched off, the GUI
  button that does not unlock, the Escape key that does not quit, the refused request whose
  connection goes on, the ranges that are checked after the handler has run, the stop of the
  server that comes too early, the second interrupt that hangs the teardown, the preview that
  says \<^verbatim>\<open>UNLOCKED\<close> where nothing unlocks, the pictures that a second session replaces, the
  web socket frame that is refused because it arrives in two segments, the redirection that
  loses its mount point, the credentials and the missing limit behind a redirection to another
  host, the client's errors on 304, on long ports and on an interim response with fields.

  \<^bold>\<open>Granularity, bounds and parameters\<close>

  One callback, one turn of a thread's loop, one REST handler or one action of a detached
  flashing thread is one step; the condition variables are modelled more finely in \<^verbatim>\<open>Wakeup\<close>.
  Where the code holds a mutex for the whole operation (queues, REST handlers, setters of the
  outputs, the alarm manager) this is exact. A turn of the control loop, of the recognition
  loop, a subscriber's reaction to an access event and the re-locking of the door are not
  atomic in the code, and interleavings inside them are left out. A turn of a thread may read
  the clock several times: the timer thread's readings are separate arguments, a REST handler
  and a turn of the recognition thread get one reading.

  Of the thread pool, a critical section of its mutex is one step, and so are a notification, a
  time-out and a spurious wake-up; serving a connection is one step, which takes the thread
  back, so handlers that never return are left out. The accept loop and \<^verbatim>\<open>src/main.cpp\<close> take a
  step per statement that another thread can see.

  Of an HTTP connection, one request is one step for the program's state: what other connections
  and the timers do meanwhile (\<open>te_others\<close>) happens before its handler. The other parameters of a
  request are the clock, the order in which a hash table of header fields is walked through, the
  random boundary of a multipart answer, whether \<^verbatim>\<open>strtod\<close> takes a quality of an \<^verbatim>\<open>Accept\<close> header,
  and the number of bytes that the stream of a request has read ahead and that are lost with it.
  Writing to a socket succeeds. For the client, what a peer sends is fixed for each connection
  before the call (\<open>ce_connect\<close>, or an error), and so are whether a kept socket is alive
  (\<open>ce_alive\<close>), whether an answer comes while it waits for \<^verbatim>\<open>100 Continue\<close> (\<open>ce_ready\<close>), and whether there is
  memory for a body (\<open>ce_memory\<close>); its redirections are counted down from the 20 of
  \<^verbatim>\<open>CPPHTTPLIB_REDIRECT_MAX_COUNT\<close>, as in the code, so that no fuel is added. Mask keys and the bytes of a handshake's key are parameters, and so
  are the file system and the text of HTTP dates; symbolic links are up to the file system. The limits of the library (line, header, target, payload and form
  sizes, 100 requests for a connection, 1024 ranges and form entries) are those of the source.

  Clocks, sensor values, bytes from devices, files and clients are arguments. libgpiod, OpenCV,
  libcurl, sockets, the arithmetic of \<^verbatim>\<open>float\<close> and the time zone are parameters:
  outcomes of calls, or functions. Times are integers of nanoseconds without overflow; the
  64-bit counters of \<^verbatim>\<open>std::chrono\<close> hold 292 years. Sizes and counters are unbounded, except
  for \<^verbatim>\<open>std::stoul\<close> and \<^verbatim>\<open>std::stoi\<close>, whose ranges and wrap-around are written out. Loops that
  wait are run for a given number of turns: the theorems on the control loop, the loggers and
  the upload say how many turns are needed, one more than there are entries, and that this many
  suffice. \<^verbatim>\<open>sys_step\<close> lets the part of \<^verbatim>\<open>stop()\<close> that follows the joins happen once the queue is
  shut down, even while a thread is still running, which only adds behaviour.

  \<^bold>\<open>Not modelled\<close>

  Of \<^verbatim>\<open>external/httplib.h\<close>: TLS, which leaves out the client's single
  retry; content providers and receivers, streams, progress callbacks, digest authentication, forms
  and \<^verbatim>\<open>stop()\<close> of the client; the connection set-up of \<^verbatim>\<open>WebSocketClient\<close>; server-sent events, the heartbeat thread of a web socket, content readers and providers of the
  server, trusted proxies, compression (none is compiled in), Windows branches. \<^verbatim>\<open>vendor/httplib.h\<close> is a later
  release of the same library (0.40.0, the model is of 0.37.0): of the functions modelled here it
  changes \<open>process_request\<close> and its checks (refusals then end the connection, and a request with
  both a length and a transfer coding is refused), \<open>parse_accept_header\<close>, and a line each in
  \<open>read_headers\<close>, \<open>decode_path_component\<close>, \<open>is_prohibited_header_name\<close> and \<open>read_content_core\<close>.
  Further: what OpenCV does (drawing, detecting, cropping, files of pictures), and its exceptions;
  terminal settings of the serial port; \<^verbatim>\<open>src/DoorController.cpp\<close>, whose header declares another
  class; \<^verbatim>\<open>src/Logger.cpp\<close>, a copy of \<^verbatim>\<open>src/LoggerCam.cpp\<close>. Functions that are
  declared and used but defined nowhere (\<^verbatim>\<open>EmailAlert::isConfigured\<close>, \<^verbatim>\<open>sendIntrusionAlert\<close>, the
  logger interface of the GUI server) are parameters of the definitions that call them.
\<close>

end
